(* ===== verification/Mono_Prelude.thy ===== *)
theory Mono_Prelude
  imports
    Main
    "HOL-Library.Word"
    "HOL-Library.Monad_Syntax"
    "HOL-Library.List_Lexorder"
    "HOL-Library.Sublist"
begin

text \<open>
  The prelude of the monocoque development: the types every component shares
  (bytes, byte strings, Unicode strings, \<open>io::ErrorKind\<close>), the two effects of Rust
  code that are not a return value (a panic and an early return with an error), the
  big-endian integer encodings of the wire format, and the generic lemmas on lists,
  words and invariants that the component theories use.

  Conventions used everywhere:
  \<^item> \<open>usize\<close> is modelled as \<open>nat\<close>; where the code can subtract below zero the
    checked subtraction \<open>usub\<close> makes the overflow panic of a debug build visible;
  \<^item> a function that can panic returns an \<open>option\<close>, and \<open>None\<close> is the panic;
  \<^item> a Rust \<open>Result<T, E>\<close> is the sum \<open>'e + 't\<close>, \<open>Inl\<close> being the error;
  \<^item> \<open>&mut self\<close> is state passing: the operation returns the new state.
\<close>

unbundle bit_operations_syntax

section \<open>Shared types\<close>

type_synonym byte = "8 word"
type_synonym bytes = "byte list"

text \<open>A Rust \<open>str\<close> is a list of Unicode scalar values; \<open>lit\<close> is an ASCII literal.\<close>

type_synonym str = "nat list"

definition lit :: "string \<Rightarrow> str" where
  "lit s = map of_char s"

text \<open>An ASCII byte-string literal \<open>b"..."\<close>.\<close>

definition blit :: "string \<Rightarrow> bytes" where
  "blit s = map of_char s"

lemma blit_Nil [simp]: "blit [] = []"
  by (simp add: blit_def)

lemma blit_Cons [simp]: "blit (c # s) = of_char c # blit s"
  by (simp add: blit_def)

lemma length_blit [simp]: "length (blit s) = length s"
  by (simp add: blit_def)

lemma lit_Nil [simp]: "lit [] = []"
  by (simp add: lit_def)

lemma lit_Cons [simp]: "lit (c # s) = of_char c # lit s"
  by (simp add: lit_def)

lemma length_lit [simp]: "length (lit s) = length s"
  by (simp add: lit_def)

text \<open>The kinds of \<open>std::io::Error\<close> the code constructs or inspects.\<close>

datatype io_error_kind =
    InvalidInput | InvalidData | NotConnected | WouldBlock | TimedOut | BrokenPipe
  | Unsupported | NotFound | AddrInUse | UnexpectedEof | ConnectionReset
  | ConnectionAborted | Interrupted | WriteZero | OtherError

section \<open>Panics: checked indexing, slicing and subtraction\<close>

definition idx :: "'a list \<Rightarrow> nat \<Rightarrow> 'a option" where
  "idx xs i = (if i < length xs then Some (xs ! i) else None)"

definition slice :: "'a list \<Rightarrow> nat \<Rightarrow> nat \<Rightarrow> 'a list option" where
  "slice xs a b = (if a \<le> b \<and> b \<le> length xs then Some (take (b - a) (drop a xs)) else None)"

definition usub :: "nat \<Rightarrow> nat \<Rightarrow> nat option" where
  "usub a b = (if b \<le> a then Some (a - b) else None)"

text \<open>The largest \<open>usize\<close> of the 64-bit targets the library supports.\<close>

definition usize_max :: nat where
  "usize_max = 2 ^ 64 - 1"

definition checked_add :: "nat \<Rightarrow> nat \<Rightarrow> nat option" where
  "checked_add a b = (if a + b \<le> usize_max then Some (a + b) else None)"

lemma idx_Some [simp]: "i < length xs \<Longrightarrow> idx xs i = Some (xs ! i)"
  by (simp add: idx_def)

lemma slice_Some [simp]:
  "a \<le> b \<Longrightarrow> b \<le> length xs \<Longrightarrow> slice xs a b = Some (take (b - a) (drop a xs))"
  by (simp add: slice_def)

lemma usub_Some [simp]: "b \<le> a \<Longrightarrow> usub a b = Some (a - b)"
  by (simp add: usub_def)

lemma usub_eq_Some_iff: "usub a b = Some c \<longleftrightarrow> b \<le> a \<and> c = a - b"
  by (auto simp: usub_def)

lemma checked_add_Some [simp]: "a + b \<le> usize_max \<Longrightarrow> checked_add a b = Some (a + b)"
  by (simp add: checked_add_def)

section \<open>Big-endian integers\<close>

text \<open>
  \<open>be_bytes n v\<close> is the \<open>n\<close>-byte big-endian encoding of \<open>v\<close>, truncated to \<open>n\<close> bytes
  as the \<open>as u8/u32/u64\<close> casts before \<open>to_be_bytes\<close> do; \<open>be_val\<close> reads it back.
\<close>

fun be_bytes :: "nat \<Rightarrow> nat \<Rightarrow> bytes" where
  "be_bytes 0 v = []"
| "be_bytes (Suc n) v = be_bytes n (v div 256) @ [word_of_nat v]"

definition be_val :: "bytes \<Rightarrow> nat" where
  "be_val bs = foldl (\<lambda>acc b. 256 * acc + unat b) 0 bs"

lemma length_be_bytes [simp]: "length (be_bytes n v) = n"
  by (induction n arbitrary: v) auto

lemma be_val_Nil [simp]: "be_val [] = 0"
  by (simp add: be_val_def)

lemma be_val_snoc [simp]: "be_val (bs @ [b]) = 256 * be_val bs + unat b"
  by (simp add: be_val_def)

lemma unat_word_of_nat_byte [simp]: "unat (word_of_nat v :: byte) = v mod 256"
  by (simp add: unat_of_nat)

lemma unat_byte_less [simp]: "unat (b :: byte) < 256"
  using unsigned_less [of b] by simp

lemma be_val_be_bytes [simp]: "be_val (be_bytes n v) = v mod 256 ^ n"
proof (induction n arbitrary: v)
  case 0
  then show ?case by simp
next
  case (Suc n)
  have "be_val (be_bytes (Suc n) v) = 256 * (v div 256 mod 256 ^ n) + v mod 256"
    using Suc.IH [of "v div 256"] by simp
  also have "\<dots> = v mod 256 ^ Suc n"
    using mod_mult2_eq [of v 256 "256 ^ n"] by simp
  finally show ?case .
qed

lemma be_val_less: "be_val bs < 256 ^ length bs"
proof (induction bs rule: rev_induct)
  case Nil
  then show ?case by simp
next
  case (snoc b bs)
  have "unat b < 256"
    by (rule unat_byte_less)
  with snoc.IH have "256 * be_val bs + unat b < 256 * 256 ^ length bs"
    by linarith
  then show ?case by simp
qed

lemma word_of_nat_unat_add: "word_of_nat (256 * m + unat b) = (b :: byte)"
proof -
  have z: "(256 :: byte) = 0" by simp
  have "word_of_nat (256 * m + unat b) = (256 :: byte) * word_of_nat m + b" by simp
  then show ?thesis by (simp only: z mult_zero_left add_0)
qed

lemma be_bytes_be_val: "be_bytes (length bs) (be_val bs) = bs"
proof (induction bs rule: rev_induct)
  case Nil
  then show ?case by simp
next
  case (snoc b bs)
  have "unat b < 256"
    by (rule unat_byte_less)
  then have "(256 * be_val bs + unat b) div 256 = be_val bs"
    by simp
  with snoc.IH show ?case
    by (simp add: word_of_nat_unat_add del: of_nat_add of_nat_mult)
qed

lemma be_bytes_inject:
  "v < 256 ^ n \<Longrightarrow> w < 256 ^ n \<Longrightarrow> be_bytes n v = be_bytes n w \<longleftrightarrow> v = w"
  by (metis be_val_be_bytes mod_less)

section \<open>Prefixes of byte strings\<close>

text \<open>\<open>starts_with\<close> is the slice method of that name.\<close>

definition starts_with :: "'a list \<Rightarrow> 'a list \<Rightarrow> bool" where
  "starts_with xs p \<longleftrightarrow> length p \<le> length xs \<and> take (length p) xs = p"

lemma starts_with_prefix: "starts_with xs p \<longleftrightarrow> prefix p xs"
  by (auto simp: starts_with_def prefix_def intro: append_take_drop_id [symmetric])
    (metis append_take_drop_id)

lemma prefix_imp_le: "prefix p (t :: bytes) \<Longrightarrow> p \<le> t"
proof (induction p arbitrary: t)
  case Nil
  then show ?case by simp
next
  case (Cons a p)
  then show ?case by (cases t) auto
qed

section \<open>Runs of a state machine\<close>

text \<open>
  The interface every handler-style component offers: a start state, a handler that
  consumes one event and may emit outputs, and an invariant the handler keeps. The
  client lemmas say that the invariant holds after every sequence of events and that
  runs compose.
\<close>

fun run_events :: "('s \<Rightarrow> 'e \<Rightarrow> 's \<times> 'o list) \<Rightarrow> 's \<Rightarrow> 'e list \<Rightarrow> 's \<times> 'o list" where
  "run_events h s [] = (s, [])"
| "run_events h s (e # es) =
     (let (s1, o1) = h s e; (s2, o2) = run_events h s1 es in (s2, o1 @ o2))"

lemma run_events_append:
  "run_events h s (xs @ ys) =
     (let (s1, o1) = run_events h s xs; (s2, o2) = run_events h s1 ys in (s2, o1 @ o2))"
  by (induction xs arbitrary: s) (auto simp: Let_def split: prod.splits)

locale handler_machine =
  fixes init :: "'s"
    and handle :: "'s \<Rightarrow> 'e \<Rightarrow> 's \<times> 'o list"
    and inv :: "'s \<Rightarrow> bool"
  assumes inv_init: "inv init"
    and inv_handle: "inv s \<Longrightarrow> inv (fst (handle s e))"
begin

lemma inv_run_from: "inv s \<Longrightarrow> inv (fst (run_events handle s es))"
proof (induction es arbitrary: s)
  case Nil
  then show ?case by simp
next
  case (Cons e es)
  from Cons.prems have "inv (fst (handle s e))" by (rule inv_handle)
  then have "inv (fst (run_events handle (fst (handle s e)) es))" by (rule Cons.IH)
  then show ?case by (auto simp: Let_def split: prod.splits)
qed

lemma inv_run: "inv (fst (run_events handle init es))"
  by (rule inv_run_from [OF inv_init])

end

text \<open>
  A machine that implements an abstract one: the abstraction of the state follows the abstract
  step, and what the handler emits is what the abstract state allows.
\<close>

locale refined_machine = handler_machine init handle inv
  for init :: "'s" and handle :: "'s \<Rightarrow> 'e \<Rightarrow> 's \<times> 'o list" and inv :: "'s \<Rightarrow> bool" +
  fixes abs :: "'s \<Rightarrow> 'a"
    and ainit :: 'a
    and step :: "'e \<Rightarrow> 'a \<Rightarrow> 'a"
    and allowed :: "'a \<Rightarrow> 'e \<Rightarrow> 'o list \<Rightarrow> bool"
  assumes abs_init: "abs init = ainit"
    and abs_handle: "inv s \<Longrightarrow> abs (fst (handle s e)) = step e (abs s)"
    and allowed_handle: "inv s \<Longrightarrow> allowed (abs s) e (snd (handle s e))"
begin

lemma abs_run_from: "inv s \<Longrightarrow> abs (fst (run_events handle s es)) = fold step es (abs s)"
proof (induction es arbitrary: s)
  case (Cons e es)
  from Cons.prems have "inv (fst (handle s e))" by (rule inv_handle)
  then have "abs (fst (run_events handle (fst (handle s e)) es)) = fold step es (abs (fst (handle s e)))"
    by (rule Cons.IH)
  with Cons.prems show ?case by (simp add: Let_def case_prod_beta abs_handle)
qed simp

lemma abs_run: "abs (fst (run_events handle init es)) = fold step es ainit"
  using abs_run_from [OF inv_init] by (simp add: abs_init)

lemma allowed_after: "allowed (fold step es ainit) e (snd (handle (fst (run_events handle init es)) e))"
  using allowed_handle [OF inv_run] by (simp add: abs_run)

end

end
