(* ===== verification/Segmented_Buffer.thy ===== *)
theory Segmented_Buffer
  imports Mono_Prelude
begin

text \<open>
  \<open>monocoque-core/src/buffer.rs\<close>: the receive buffer. A \<open>SegmentedBuffer\<close> is a queue
  of non-empty byte segments with a cached total length. The model keeps both fields and
  both code paths of every operation (the zero-copy one inside the front segment, the
  copying one across segments); panics are \<open>None\<close>. The abstraction is the plain byte
  string \<open>contents\<close>: every operation is shown to act on it as \<open>take\<close> and \<open>drop\<close>, whatever
  the segmentation, and the client-facing contract is the locale \<open>byte_queue\<close>.
\<close>

section \<open>Model\<close>

record segbuf =
  segs :: "bytes list"
  blen :: nat

definition seg_new :: segbuf where
  "seg_new = \<lparr>segs = [], blen = 0\<rparr>"

definition seg_len :: "segbuf \<Rightarrow> nat" where
  "seg_len b = blen b"

definition seg_is_empty :: "segbuf \<Rightarrow> bool" where
  "seg_is_empty b \<longleftrightarrow> blen b = 0"

definition front_chunk :: "segbuf \<Rightarrow> bytes" where
  "front_chunk b = (case segs b of [] \<Rightarrow> [] | s # _ \<Rightarrow> s)"

definition seg_push :: "segbuf \<Rightarrow> bytes \<Rightarrow> segbuf" where
  "seg_push b bs =
     (if bs = [] then b else \<lparr>segs = segs b @ [bs], blen = blen b + length bs\<rparr>)"

text \<open>\<open>dst[off..off + xs.len()].copy_from_slice(xs)\<close>.\<close>

definition write_at :: "bytes \<Rightarrow> nat \<Rightarrow> bytes \<Rightarrow> bytes option" where
  "write_at dst off xs =
     (if off + length xs \<le> length dst
      then Some (take off dst @ xs @ drop (off + length xs) dst) else None)"

fun copy_loop :: "bytes list \<Rightarrow> nat \<Rightarrow> nat \<Rightarrow> bytes \<Rightarrow> bytes option" where
  "copy_loop [] remaining out_off dst = Some dst"
| "copy_loop (seg # rest) remaining out_off dst =
     (if remaining = 0 then Some dst
      else let t = min remaining (length seg) in
        do { dst' \<leftarrow> write_at dst out_off (take t seg);
             copy_loop rest (remaining - t) (out_off + t) dst' })"

definition copy_prefix :: "segbuf \<Rightarrow> nat \<Rightarrow> bytes \<Rightarrow> (bool \<times> bytes) option" where
  "copy_prefix b n dst =
     (if blen b < n \<or> length dst < n then Some (False, dst)
      else do { dst' \<leftarrow> copy_loop (segs b) n 0 dst; Some (True, dst') })"

fun advance_loop :: "bytes list \<Rightarrow> nat \<Rightarrow> bytes list" where
  "advance_loop [] n = []"
| "advance_loop (front # rest) n =
     (if n = 0 then front # rest
      else if n < length front then drop n front # rest
      else advance_loop rest (n - length front))"

definition advance :: "segbuf \<Rightarrow> nat \<Rightarrow> segbuf option" where
  "advance b n =
     (if n \<le> blen b
      then Some \<lparr>segs = advance_loop (segs b) n, blen = blen b - n\<rparr> else None)"

function take_loop :: "nat \<Rightarrow> bytes list \<Rightarrow> bytes \<Rightarrow> nat \<Rightarrow> (bytes \<times> bytes list \<times> nat) option" where
  "take_loop remaining ss out len =
     (if remaining = 0 then Some (out, ss, len)
      else case ss of
        [] \<Rightarrow> None
      | seg # rest \<Rightarrow>
          (let t = min remaining (length seg) in
           case usub len t of
             None \<Rightarrow> None
           | Some len' \<Rightarrow>
               take_loop (remaining - t)
                 (if t < length seg then drop t seg # rest else rest)
                 (out @ take t seg) len'))"
  by pat_completeness auto
termination
  by (relation "measure (\<lambda>(remaining, ss, out, len). remaining + length ss)") auto

declare take_loop.simps [simp del]

definition take_bytes :: "segbuf \<Rightarrow> nat \<Rightarrow> (bytes option \<times> segbuf) option" where
  "take_bytes b n =
     (if n = 0 then Some (Some [], b)
      else if blen b < n then Some (None, b)
      else case segs b of
        [] \<Rightarrow> Some (None, b)
      | front # rest \<Rightarrow>
          (if n \<le> length front
           then do { l \<leftarrow> usub (blen b) n;
                     if length front = n then Some (Some front, \<lparr>segs = rest, blen = l\<rparr>)
                     else let front' = drop n front in
                       Some (Some (take n front),
                             \<lparr>segs = (if front' = [] then rest else front' # rest), blen = l\<rparr>) }
           else do { (out, ss, l) \<leftarrow> take_loop n (segs b) [] (blen b);
                     Some (Some out, \<lparr>segs = ss, blen = l\<rparr>) }))"

definition take_bytes_after_available :: "segbuf \<Rightarrow> nat \<Rightarrow> nat \<Rightarrow> (bytes \<times> segbuf) option" where
  "take_bytes_after_available b skip n =
     do { tot \<leftarrow> checked_add skip n;
          if blen b < tot then None
          else if n = 0 then do { b' \<leftarrow> advance b skip; Some ([], b') }
          else case segs b of
            [] \<Rightarrow> None
          | front # rest \<Rightarrow>
              (if tot \<le> length front
               then do { l \<leftarrow> usub (blen b) tot;
                         let front1 = drop skip front; front2 = drop n front1 in
                         Some (take n front1,
                               \<lparr>segs = (if front2 = [] then rest else front2 # rest), blen = l\<rparr>) }
               else do { b1 \<leftarrow> advance b skip;
                         (r, b2) \<leftarrow> take_bytes b1 n;
                         case r of None \<Rightarrow> None | Some out \<Rightarrow> Some (out, b2) }) }"

definition take_bytes_after :: "segbuf \<Rightarrow> nat \<Rightarrow> nat \<Rightarrow> (bytes option \<times> segbuf) option" where
  "take_bytes_after b skip n =
     (case checked_add skip n of
        None \<Rightarrow> Some (None, b)
      | Some tot \<Rightarrow>
          (if blen b < tot then Some (None, b)
           else do { (out, b') \<leftarrow> take_bytes_after_available b skip n; Some (Some out, b') }))"

section \<open>Invariant and abstraction\<close>

definition contents :: "segbuf \<Rightarrow> bytes" where
  "contents b = concat (segs b)"

definition seg_inv :: "segbuf \<Rightarrow> bool" where
  "seg_inv b \<longleftrightarrow> blen b = length (contents b) \<and> [] \<notin> set (segs b)"

lemma seg_inv_blen: "seg_inv b \<Longrightarrow> blen b = length (contents b)"
  by (simp add: seg_inv_def)

lemma seg_inv_new [simp]: "seg_inv seg_new" and contents_new [simp]: "contents seg_new = []"
  by (simp_all add: seg_new_def seg_inv_def contents_def)

lemma seg_push_spec:
  "seg_inv b \<Longrightarrow> seg_inv (seg_push b bs) \<and> contents (seg_push b bs) = contents b @ bs"
  by (auto simp: seg_push_def seg_inv_def contents_def)

lemma blen_push [simp]: "blen (seg_push b bs) = blen b + length bs"
  by (simp add: seg_push_def)

lemma front_chunk_prefix: "prefix (front_chunk b) (contents b)"
  by (auto simp: front_chunk_def contents_def split: list.split)

subsection \<open>advance\<close>

lemma concat_advance_loop: "concat (advance_loop ss n) = drop n (concat ss)"
  by (induction ss n rule: advance_loop.induct) auto

lemma advance_loop_nonempty: "[] \<notin> set ss \<Longrightarrow> [] \<notin> set (advance_loop ss n)"
  by (induction ss n rule: advance_loop.induct) auto

lemma advance_spec:
  assumes "seg_inv b" and "n \<le> length (contents b)"
  obtains b' where "advance b n = Some b'" "seg_inv b'" "contents b' = drop n (contents b)"
proof
  let ?b = "\<lparr>segs = advance_loop (segs b) n, blen = blen b - n\<rparr>"
  show "advance b n = Some ?b"
    using assms by (simp add: advance_def seg_inv_def)
  show "contents ?b = drop n (contents b)"
    by (simp add: contents_def concat_advance_loop)
  with assms show "seg_inv ?b"
    by (simp add: seg_inv_def advance_loop_nonempty)
qed

lemma advance_blen: "advance b n = Some b' \<Longrightarrow> blen b' = blen b - n \<and> n \<le> blen b"
  by (auto simp: advance_def split: if_splits)

subsection \<open>take_bytes\<close>

lemma take_loop_spec:
  "n \<le> length (concat ss) \<Longrightarrow> l = length (concat ss) \<Longrightarrow> [] \<notin> set ss \<Longrightarrow>
   \<exists>ss'. take_loop n ss out l = Some (out @ take n (concat ss), ss', l - n) \<and>
         concat ss' = drop n (concat ss) \<and> [] \<notin> set ss'"
proof (induction n ss out l rule: take_loop.induct)
  case (1 n ss out l)
  show ?case
  proof (cases "n = 0")
    case True
    with 1 show ?thesis by (simp add: take_loop.simps)
  next
    case False
    with "1.prems" obtain s rest where ss: "ss = s # rest" by (cases ss) auto
    let ?t = "min n (length s)"
    let ?ss = "if ?t < length s then drop ?t s # rest else rest"
    have u: "usub l ?t = Some (l - ?t)" using "1.prems" ss by simp
    have cat: "concat ?ss = drop ?t (concat ss)"
      using ss by auto
    have step: "take_loop n ss out l = take_loop (n - ?t) ?ss (out @ take ?t s) (l - ?t)"
      using False ss u by (subst take_loop.simps) (simp add: Let_def)
    have ih: "\<exists>ss'. take_loop (n - ?t) ?ss (out @ take ?t s) (l - ?t) =
         Some ((out @ take ?t s) @ take (n - ?t) (concat ?ss), ss', l - ?t - (n - ?t)) \<and>
         concat ss' = drop (n - ?t) (concat ?ss) \<and> [] \<notin> set ss'"
    proof (rule "1.IH" [OF False ss refl u])
      show "n - ?t \<le> length (concat ?ss)" using "1.prems"(1) cat by simp
      show "l - ?t = length (concat ?ss)" using "1.prems"(2) cat by simp
      show "[] \<notin> set ?ss" using "1.prems"(3) ss by auto
    qed
    have t1: "take ?t s @ take (n - ?t) (concat ?ss) = take n (concat ss)"
      using ss by (auto simp: min_def)
    have t2: "drop (n - ?t) (concat ?ss) = drop n (concat ss)"
      unfolding cat by simp
    from ih show ?thesis unfolding step t2 append_assoc t1 by simp
  qed
qed

lemma take_bytes_spec:
  assumes "seg_inv b" and "n \<le> length (contents b)"
  obtains b' where "take_bytes b n = Some (Some (take n (contents b)), b')"
    "seg_inv b'" "contents b' = drop n (contents b)"
proof -
  consider (zero) "n = 0"
    | (front) s rest where "n \<noteq> 0" "segs b = s # rest" "n \<le> length s"
    | (span) s rest where "n \<noteq> 0" "segs b = s # rest" "length s < n"
    using assms
    by (cases "n = 0"; cases "segs b"; cases "n \<le> length (hd (segs b))")
      (auto simp: contents_def not_le)
  then have "\<exists>b'. take_bytes b n = Some (Some (take n (contents b)), b') \<and>
      seg_inv b' \<and> contents b' = drop n (contents b)"
  proof cases
    case zero
    with assms show ?thesis by (simp add: take_bytes_def)
  next
    case front
    with assms show ?thesis
      by (auto simp: take_bytes_def seg_inv_def contents_def Let_def)
  next
    case span
    from take_loop_spec [of n "segs b" "blen b" "[]"] assms obtain ss' where
      "take_loop n (segs b) [] (blen b) = Some (take n (contents b), ss', blen b - n)"
      "concat ss' = drop n (contents b)" "[] \<notin> set ss'"
      by (auto simp: seg_inv_def contents_def)
    with span assms show ?thesis
      by (auto simp: take_bytes_def seg_inv_def contents_def)
  qed
  with that show ?thesis by blast
qed

lemma take_bytes_short:
  "seg_inv b \<Longrightarrow> length (contents b) < n \<Longrightarrow> take_bytes b n = Some (None, b)"
  by (auto simp: take_bytes_def seg_inv_def)

lemma take_loop_len:
  "take_loop n ss out l = Some (out', ss', l') \<Longrightarrow> l' = l - n \<and> n \<le> l"
proof (induction n ss out l rule: take_loop.induct)
  case (1 n ss out l)
  show ?case
  proof (cases "n = 0")
    case True
    with "1.prems" show ?thesis by (simp add: take_loop.simps)
  next
    case False
    with "1.prems" obtain s rest where ss: "ss = s # rest"
      by (cases ss) (auto simp: take_loop.simps)
    let ?t = "min n (length s)"
    from "1.prems" False ss have u: "usub l ?t = Some (l - ?t)" "?t \<le> l"
      by (auto simp: take_loop.simps [of n] usub_def Let_def split: if_splits)
    with "1.prems" False ss have "take_loop (n - ?t)
        (if ?t < length s then drop ?t s # rest else rest) (out @ take ?t s) (l - ?t) =
        Some (out', ss', l')"
      by (simp add: take_loop.simps [of n] Let_def)
    from "1.IH" [OF False ss refl u(1) this] u(2) show ?thesis by auto
  qed
qed

lemma take_bytes_blen:
  "take_bytes b n = Some (Some out, b') \<Longrightarrow> blen b' = blen b - n \<and> n \<le> blen b"
  by (auto simp: take_bytes_def usub_def Let_def dest!: take_loop_len
      split: if_splits list.splits Option.bind_splits)

lemma take_bytes_None: "take_bytes b n = Some (None, b') \<Longrightarrow> b' = b"
  by (auto simp: take_bytes_def usub_def Let_def
      split: if_splits list.splits Option.bind_splits)

subsection \<open>Skip and take\<close>

lemma take_bytes_after_available_spec:
  assumes inv: "seg_inv b" and len: "skip + n \<le> length (contents b)"
    and max: "skip + n \<le> usize_max"
  obtains b' where
    "take_bytes_after_available b skip n = Some (take n (drop skip (contents b)), b')"
    "seg_inv b'" "contents b' = drop (skip + n) (contents b)"
proof -
  obtain b1 where b1: "advance b skip = Some b1" "seg_inv b1" "contents b1 = drop skip (contents b)"
    using advance_spec [OF inv, of skip] len by auto
  obtain b2 where b2: "take_bytes b1 n = Some (Some (take n (contents b1)), b2)"
      "seg_inv b2" "contents b2 = drop n (contents b1)"
  proof -
    from len b1(3) have "n \<le> length (contents b1)" by simp
    from take_bytes_spec [OF b1(2) this] that show ?thesis by blast
  qed
  have ok: "checked_add skip n = Some (skip + n)" "\<not> blen b < skip + n"
    using len max inv by (auto simp: seg_inv_def)
  consider (zero) "n = 0"
    | (front) s rest where "n \<noteq> 0" "segs b = s # rest" "skip + n \<le> length s"
    | (span) s rest where "n \<noteq> 0" "segs b = s # rest" "length s < skip + n"
    using len by (cases "n = 0"; cases "segs b"; cases "skip + n \<le> length (hd (segs b))")
      (auto simp: contents_def not_le)
  then have "\<exists>b'. take_bytes_after_available b skip n =
        Some (take n (drop skip (contents b)), b') \<and>
      seg_inv b' \<and> contents b' = drop (skip + n) (contents b)"
  proof cases
    case zero
    with ok b1 show ?thesis by (simp add: take_bytes_after_available_def)
  next
    case front
    with ok inv show ?thesis
      by (auto simp: take_bytes_after_available_def seg_inv_def contents_def Let_def add.commute)
  next
    case span
    with ok b1 b2 show ?thesis
      by (simp add: take_bytes_after_available_def add.commute)
  qed
  with that show ?thesis by blast
qed

lemma take_bytes_after_available_blen:
  "take_bytes_after_available b skip n = Some (out, b') \<Longrightarrow>
   blen b' = blen b - (skip + n) \<and> skip + n \<le> blen b"
  by (auto simp: take_bytes_after_available_def usub_def Let_def checked_add_def
      dest!: advance_blen take_bytes_blen
      split: if_splits list.splits Option.bind_splits option.splits)

subsection \<open>copy_prefix\<close>

lemma copy_loop_spec:
  "n \<le> length (concat ss) \<Longrightarrow> off + n \<le> length dst \<Longrightarrow>
   copy_loop ss n off dst = Some (take off dst @ take n (concat ss) @ drop (off + n) dst)"
proof (induction ss n off dst rule: copy_loop.induct)
  case (1 n off dst)
  then show ?case by simp
next
  case (2 seg rest n off dst)
  show ?case
  proof (cases "n = 0")
    case True
    then show ?thesis by simp
  next
    case False
    let ?t = "min n (length seg)"
    let ?dst = "take off dst @ take ?t seg @ drop (off + ?t) dst"
    have w: "write_at dst off (take ?t seg) = Some ?dst"
      unfolding write_at_def using "2.prems" by auto
    have "copy_loop rest (n - ?t) (off + ?t) ?dst =
        Some (take (off + ?t) ?dst @ take (n - ?t) (concat rest) @ drop (off + ?t + (n - ?t)) ?dst)"
      by (rule "2.IH" [OF False refl w]) (use "2.prems" in auto)
    with w False "2.prems" show ?thesis
      by (auto simp: Let_def min_def add.commute)
  qed
qed

lemma copy_prefix_spec:
  assumes "seg_inv b" and "n \<le> length (contents b)" and "n \<le> length dst"
  shows "copy_prefix b n dst = Some (True, take n (contents b) @ drop n dst)"
  using assms by (simp add: copy_prefix_def seg_inv_def copy_loop_spec contents_def)

section \<open>The contract of the buffer\<close>

text \<open>
  What the decoder and the session rely on: a byte queue with an abstract content, a
  length, \<open>push\<close> at the end and \<open>take\<close> of a number of bytes from the front. The client
  lemma \<open>gather\<close> is the idiom \<open>take_bytes(needed.min(src.len()))\<close> of the reassembly
  path, the fragmentation path and the greeting phase.
\<close>

locale byte_queue =
  fixes q_inv :: "'q \<Rightarrow> bool"
    and q_abs :: "'q \<Rightarrow> bytes"
    and q_len :: "'q \<Rightarrow> nat"
    and q_push :: "'q \<Rightarrow> bytes \<Rightarrow> 'q"
    and q_take :: "'q \<Rightarrow> nat \<Rightarrow> (bytes option \<times> 'q) option"
  assumes q_len: "q_inv q \<Longrightarrow> q_len q = length (q_abs q)"
    and q_push: "q_inv q \<Longrightarrow> q_inv (q_push q bs) \<and> q_abs (q_push q bs) = q_abs q @ bs"
    and q_take: "q_inv q \<Longrightarrow> n \<le> length (q_abs q) \<Longrightarrow>
      \<exists>q'. q_take q n = Some (Some (take n (q_abs q)), q') \<and> q_inv q' \<and>
           q_abs q' = drop n (q_abs q)"
begin

lemma gather:
  assumes "q_inv q"
  obtains q' where "q_take q (min n (q_len q)) = Some (Some (take n (q_abs q)), q')"
    "q_inv q'" "q_abs q' = drop n (q_abs q)"
proof -
  let ?m = "min n (length (q_abs q))"
  from q_take [OF assms, of ?m] obtain q' where
    "q_take q ?m = Some (Some (take ?m (q_abs q)), q')" "q_inv q'" "q_abs q' = drop ?m (q_abs q)"
    by auto
  moreover have "take ?m (q_abs q) = take n (q_abs q)" "drop ?m (q_abs q) = drop n (q_abs q)"
    by (auto simp: min_def)
  ultimately show ?thesis using that assms by (simp add: q_len)
qed

lemma push_all:
  "q_inv q \<Longrightarrow> q_inv (foldl q_push q bss) \<and> q_abs (foldl q_push q bss) = q_abs q @ concat bss"
  by (induction bss arbitrary: q) (auto simp: q_push)

end

interpretation segbuf: byte_queue seg_inv contents seg_len seg_push take_bytes
proof unfold_locales
  fix b :: segbuf and n :: nat and bs :: bytes
  show "seg_inv b \<Longrightarrow> seg_len b = length (contents b)"
    by (simp add: seg_len_def seg_inv_def)
  show "seg_inv b \<Longrightarrow> seg_inv (seg_push b bs) \<and> contents (seg_push b bs) = contents b @ bs"
    by (rule seg_push_spec)
  show "seg_inv b \<Longrightarrow> n \<le> length (contents b) \<Longrightarrow>
      \<exists>q'. take_bytes b n = Some (Some (take n (contents b)), q') \<and> seg_inv q' \<and>
           contents q' = drop n (contents b)"
    using take_bytes_spec by metis
qed

end
