(* ===== verification/Zmtp_Codec.thy ===== *)
theory Zmtp_Codec
  imports Segmented_Buffer
begin

text \<open>
  \<open>monocoque-zmtp/src/codec.rs\<close> and the other frame encoders of the crate
  (\<open>utils.rs: encode_frame\<close>, \<open>base.rs: append_zmtp_cmd_frame\<close>): ZMTP frames, the
  stateful streaming decoder and the encoders.

  The reference is \<open>parse_frame\<close>, a one-shot parser of a byte string. The decoder, which
  keeps a half-received frame in a staging buffer, is shown to refine it: it computes on
  the virtual byte stream \<open>vstream\<close> (the header of the pending frame, the staged body
  bytes and the unread buffer), independently of how the stream was cut into segments and
  reads. All encoders produce the same canonical wire form \<open>wire\<close>, which the locale
  \<open>frame_encoder\<close> states once and relates to the decoder.
\<close>

section \<open>Model\<close>

datatype zmtp_error = Incomplete | ReservedBits | SizeTooLarge | Protocol | AuthenticationFailed

record zmtp_frame =
  flags :: byte
  payload :: bytes

definition frame_more :: "zmtp_frame \<Rightarrow> bool" where
  "frame_more f \<longleftrightarrow> flags f AND 0x01 \<noteq> 0"

definition frame_is_command :: "zmtp_frame \<Rightarrow> bool" where
  "frame_is_command f \<longleftrightarrow> flags f AND 0x04 \<noteq> 0"

record zmtp_decoder =
  pending_flags :: "byte option"
  expected_body_len :: nat
  staging :: bytes
  max_frame_size :: nat

definition decoder_new :: zmtp_decoder where
  "decoder_new = \<lparr>pending_flags = None, expected_body_len = 0, staging = [],
                  max_frame_size = 64 * 1024 * 1024\<rparr>"

definition decoder_with_max_frame_size :: "nat \<Rightarrow> zmtp_decoder" where
  "decoder_with_max_frame_size m =
     \<lparr>pending_flags = None, expected_body_len = 0, staging = [], max_frame_size = m\<rparr>"

definition set_max_body_len :: "zmtp_decoder \<Rightarrow> nat option \<Rightarrow> zmtp_decoder" where
  "set_max_body_len d m =
     d\<lparr>max_frame_size := (case m of None \<Rightarrow> 64 * 1024 * 1024 | Some v \<Rightarrow> v)\<rparr>"

definition decoder_has_more :: "zmtp_decoder \<Rightarrow> bool" where
  "decoder_has_more d \<longleftrightarrow> pending_flags d \<noteq> None"

subsection \<open>ZmtpDecoder::decode\<close>

type_synonym decode_result = "(zmtp_error + zmtp_frame option) \<times> zmtp_decoder \<times> segbuf"

text \<open>
  \<open>if let Some(bytes) = src.take_bytes(take) { self.staging.extend_from_slice(&bytes); }\<close>
\<close>

definition stage_bytes :: "zmtp_decoder \<Rightarrow> segbuf \<Rightarrow> nat \<Rightarrow> (zmtp_decoder \<times> segbuf) option" where
  "stage_bytes d src n =
     do { (r, src') \<leftarrow> take_bytes src n;
          Some (case r of None \<Rightarrow> d | Some bs \<Rightarrow> d\<lparr>staging := staging d @ bs\<rparr>, src') }"

text \<open>Reassembly mode: a frame header has been consumed and body bytes are staged.\<close>

definition decode_reassembly :: "zmtp_decoder \<Rightarrow> segbuf \<Rightarrow> byte \<Rightarrow> decode_result option" where
  "decode_reassembly d src fl =
     do { needed \<leftarrow> usub (expected_body_len d) (length (staging d));
          (d1, src1) \<leftarrow> stage_bytes d src (min needed (seg_len src));
          if length (staging d1) < expected_body_len d1 then Some (Inr None, d1, src1)
          else Some (Inr (Some \<lparr>flags = fl, payload = staging d1\<rparr>),
                     d1\<lparr>staging := [], pending_flags := None, expected_body_len := 0\<rparr>, src1) }"

text \<open>The first \<open>n\<close> header bytes: from the front chunk if it is long enough, else copied.\<close>

definition read_header :: "segbuf \<Rightarrow> nat \<Rightarrow> bytes \<Rightarrow> (bool \<times> bytes) option" where
  "read_header src n hdr =
     (if n \<le> length (front_chunk src)
      then Some (True, take n (front_chunk src) @ drop n hdr)
      else copy_prefix src n hdr)"

text \<open>The fast path (whole frame present) and the slow path (start of a fragmented frame).\<close>

definition decode_body :: "zmtp_decoder \<Rightarrow> segbuf \<Rightarrow> byte \<Rightarrow> nat \<Rightarrow> nat \<Rightarrow> decode_result option" where
  "decode_body d src fl header_len body_len =
     (if header_len + body_len \<le> seg_len src
      then do { (p, src') \<leftarrow> take_bytes_after_available src header_len body_len;
                Some (Inr (Some \<lparr>flags = fl, payload = p\<rparr>), d, src') }
      else do { src1 \<leftarrow> advance src header_len;
                let d1 = d\<lparr>pending_flags := Some fl, expected_body_len := body_len, staging := []\<rparr> in
                do { (d2, src2) \<leftarrow> stage_bytes d1 src1 (min (seg_len src1) body_len);
                     Some (Inr None, d2, src2) } })"

definition decode :: "zmtp_decoder \<Rightarrow> segbuf \<Rightarrow> decode_result option" where
  "decode d src =
     (case pending_flags d of
        Some fl \<Rightarrow> decode_reassembly d src fl
      | None \<Rightarrow>
          (if seg_len src < 2 then Some (Inr None, d, src)
           else do {
             (ok, hdr) \<leftarrow> read_header src 2 (replicate 9 0);
             if \<not> ok then Some (Inr None, d, src)
             else let fl = hdr ! 0 in
               if fl AND 0x05 = 0x05 then Some (Inl Protocol, d, src)
               else if fl AND 0xF8 \<noteq> 0 then Some (Inl ReservedBits, d, src)
               else let is_long = (fl AND 0x02 \<noteq> 0); header_len = (if is_long then 9 else 2) in
                 if seg_len src < header_len then Some (Inr None, d, src)
                 else if is_long then do {
                   (ok9, hdr9) \<leftarrow> read_header src 9 hdr;
                   if \<not> ok9 then Some (Inr None, d, src)
                   else let size = be_val (take 8 (drop 1 hdr9)) in
                     if 0x7FFFFFFFFFFFFFFF < size then Some (Inl SizeTooLarge, d, src)
                     else if max_frame_size d < size then Some (Inl SizeTooLarge, d, src)
                     else decode_body d src fl header_len size }
                 else let size = unat (hdr ! 1) in
                   if max_frame_size d < size then Some (Inl SizeTooLarge, d, src)
                   else decode_body d src fl header_len size }))"

subsection \<open>Frame constructors and encoders\<close>

definition frame_data :: "bytes \<Rightarrow> bool \<Rightarrow> zmtp_frame" where
  "frame_data p mo =
     (let f0 = (0 :: byte);
          f1 = (if mo then f0 OR 0x01 else f0);
          f2 = (if 255 < length p then f1 OR 0x02 else f1)
      in \<lparr>flags = f2, payload = p\<rparr>)"

definition frame_command :: "bytes \<Rightarrow> zmtp_frame" where
  "frame_command p =
     (let f0 = (0x04 :: byte); f1 = (if 255 < length p then f0 OR 0x02 else f0)
      in \<lparr>flags = f1, payload = p\<rparr>)"

definition frame_encode :: "zmtp_frame \<Rightarrow> bytes" where
  "frame_encode f =
     (let body_len = length (payload f); is_long = (256 \<le> body_len);
          fl = (if is_long then flags f OR 0x02 else flags f AND NOT 0x02)
      in [fl] @ (if is_long then be_bytes 8 body_len else [word_of_nat body_len]) @ payload f)"

definition write_frame_header :: "bytes \<Rightarrow> nat \<Rightarrow> bool \<Rightarrow> bytes \<times> nat" where
  "write_frame_header buf body_len mo =
     (let is_long = (256 \<le> body_len);
          f1 = (if mo then 0 OR 0x01 else 0 :: byte);
          f2 = (if is_long then f1 OR 0x02 else f1)
      in if is_long then (buf @ [f2] @ be_bytes 8 body_len, 9)
         else (buf @ [f2] @ [word_of_nat body_len], 2))"

definition encode_single :: "bytes \<Rightarrow> bytes \<Rightarrow> bytes" where
  "encode_single part buf =
     (if 256 \<le> length part then buf @ [0x02] @ be_bytes 8 (length part) @ part
      else buf @ [0x00, word_of_nat (length part)] @ part)"

text \<open>The \<open>for (i, part) in msg.iter().enumerate()\<close> loop; \<open>n\<close> is \<open>msg.len()\<close>.\<close>

fun encode_parts :: "nat \<Rightarrow> nat \<Rightarrow> bytes list \<Rightarrow> bytes \<Rightarrow> bytes" where
  "encode_parts n i [] buf = buf"
| "encode_parts n i (part # rest) buf =
     (let mo = (i < n - 1); is_long = (256 \<le> length part);
          f1 = (if mo then 0 OR 0x01 else 0 :: byte);
          f2 = (if is_long then f1 OR 0x02 else f1)
      in encode_parts n (Suc i) rest
           (buf @ [f2] @ (if is_long then be_bytes 8 (length part) else [word_of_nat (length part)])
            @ part))"

definition encode_multipart :: "bytes list \<Rightarrow> bytes \<Rightarrow> bytes" where
  "encode_multipart msg buf =
     (case msg of
        [] \<Rightarrow> buf
      | [part] \<Rightarrow> encode_single part buf
      | _ \<Rightarrow> encode_parts (length msg) 0 msg buf)"

text \<open>\<open>utils.rs: encode_frame\<close>, used for protocol commands.\<close>

definition FLAG_LONG :: byte where
  "FLAG_LONG = 0x02"

definition FLAG_COMMAND :: byte where
  "FLAG_COMMAND = 0x04"

definition encode_frame :: "byte \<Rightarrow> bytes \<Rightarrow> bytes" where
  "encode_frame fl body =
     (let len = length body in
      (if len \<le> 255 then [fl AND NOT FLAG_LONG, word_of_nat len]
       else [fl OR FLAG_LONG] @ be_bytes 8 len) @ body)"

text \<open>\<open>base.rs: append_zmtp_cmd_frame\<close>, used for CURVE messages.\<close>

definition append_zmtp_cmd_frame :: "bytes \<Rightarrow> bytes \<Rightarrow> bytes" where
  "append_zmtp_cmd_frame buf body =
     (let len = length body in
      buf @ (if len \<le> 255 then [0x04, word_of_nat len] else [0x06] @ be_bytes 8 len) @ body)"

section \<open>Reference parser\<close>

datatype frame_parse = NeedMore | Bad zmtp_error | Parsed zmtp_frame bytes

definition header_size :: "byte \<Rightarrow> nat" where
  "header_size fl = (if fl AND 0x02 \<noteq> 0 then 9 else 2)"

definition parse_frame :: "nat \<Rightarrow> bytes \<Rightarrow> frame_parse" where
  "parse_frame m bs =
     (if length bs < 2 then NeedMore
      else let fl = bs ! 0; h = header_size fl in
        if fl AND 0x05 = 0x05 then Bad Protocol
        else if fl AND 0xF8 \<noteq> 0 then Bad ReservedBits
        else if length bs < h then NeedMore
        else let size = be_val (take (h - 1) (drop 1 bs)) in
          if 2 ^ 63 \<le> size \<or> m < size then Bad SizeTooLarge
          else if length bs < h + size then NeedMore
          else Parsed \<lparr>flags = fl, payload = take size (drop h bs)\<rparr> (drop (h + size) bs))"

definition valid_flags :: "byte \<Rightarrow> bool" where
  "valid_flags fl \<longleftrightarrow> fl AND 0x05 \<noteq> 0x05 \<and> fl AND 0xF8 = 0"

definition frame_header :: "byte \<Rightarrow> nat \<Rightarrow> bytes" where
  "frame_header fl n = fl # be_bytes (header_size fl - 1) n"

text \<open>The bytes the decoder has still to account for, as one stream.\<close>

definition vstream :: "zmtp_decoder \<Rightarrow> segbuf \<Rightarrow> bytes" where
  "vstream d src =
     (case pending_flags d of
        None \<Rightarrow> contents src
      | Some fl \<Rightarrow> frame_header fl (expected_body_len d) @ staging d @ contents src)"

definition dec_inv :: "zmtp_decoder \<Rightarrow> bool" where
  "dec_inv d \<longleftrightarrow>
     (case pending_flags d of
        None \<Rightarrow> True
      | Some fl \<Rightarrow> valid_flags fl \<and> length (staging d) < expected_body_len d \<and>
          expected_body_len d \<le> max_frame_size d \<and> expected_body_len d < 2 ^ 63 \<and>
          expected_body_len d < 256 ^ (header_size fl - 1))"

lemma dec_inv_new [simp]: "dec_inv decoder_new"
  by (simp add: dec_inv_def decoder_new_def)

lemma dec_inv_with_max [simp]: "dec_inv (decoder_with_max_frame_size m)"
  by (simp add: dec_inv_def decoder_with_max_frame_size_def)

lemma header_size_cases: "header_size fl = 2 \<or> header_size fl = 9"
  by (simp add: header_size_def)

lemma header_size_ge: "2 \<le> header_size fl"
  using header_size_cases [of fl] by auto

lemma length_frame_header [simp]: "length (frame_header fl n) = header_size fl"
  using header_size_ge [of fl] by (simp add: frame_header_def)

lemma frame_header_0 [simp]: "frame_header fl n ! 0 = fl"
  by (simp add: frame_header_def)

text \<open>What the parser does on a well-formed header.\<close>

lemma parse_frame_header:
  assumes "valid_flags fl" and "n < 256 ^ (header_size fl - 1)"
  shows "parse_frame m (frame_header fl n @ bs) =
    (if 2 ^ 63 \<le> n \<or> m < n then Bad SizeTooLarge
     else if length bs < n then NeedMore
     else Parsed \<lparr>flags = fl, payload = take n bs\<rparr> (drop n bs))"
proof -
  let ?bs = "frame_header fl n @ bs"
  have a: "?bs ! 0 = fl"
    by (simp add: frame_header_def)
  have b: "be_val (take (header_size fl - 1) (drop 1 ?bs)) = n"
    using assms(2) header_size_ge [of fl] by (simp add: frame_header_def)
  have c: "\<not> length ?bs < 2" "\<not> length ?bs < header_size fl"
    using header_size_ge [of fl] unfolding length_append length_frame_header by linarith+
  have d: "drop (header_size fl) ?bs = bs" "drop (header_size fl + n) ?bs = drop n bs"
    by simp_all
  have e: "length ?bs < header_size fl + n \<longleftrightarrow> length bs < n"
    by simp
  from assms(1) show ?thesis
    unfolding parse_frame_def Let_def a b d e valid_flags_def using c by simp
qed

lemma header_of_stream:
  assumes "header_size (bs ! 0) \<le> length bs"
  shows "bs = frame_header (bs ! 0) (be_val (take (header_size (bs ! 0) - 1) (drop 1 bs)))
                @ drop (header_size (bs ! 0)) bs" (is "bs = ?h @ _")
    and "be_val (take (header_size (bs ! 0) - 1) (drop 1 bs)) < 256 ^ (header_size (bs ! 0) - 1)"
proof -
  obtain k where k: "header_size (bs ! 0) = Suc k"
    using header_size_cases [of "bs ! 0"] by auto
  obtain b bs' where bs: "bs = b # bs'"
    using assms k by (cases bs) auto
  with assms k have l: "k \<le> length bs'" by simp
  have "be_bytes k (be_val (take k bs')) = take k bs'"
    using be_bytes_be_val [of "take k bs'"] l by (simp add: min.absorb2)
  then show "bs = ?h @ drop (header_size (bs ! 0)) bs"
    using bs k by (simp add: frame_header_def)
  show "be_val (take (header_size (bs ! 0) - 1) (drop 1 bs)) < 256 ^ (header_size (bs ! 0) - 1)"
    using be_val_less [of "take k bs'"] bs k l by (simp add: min.absorb2)
qed

section \<open>The decoder refines the parser\<close>

lemma read_header_spec:
  assumes "seg_inv src" and "n \<le> length (contents src)" and "n \<le> length hdr"
  shows "read_header src n hdr = Some (True, take n (contents src) @ drop n hdr)"
proof (cases "n \<le> length (front_chunk src)")
  case True
  with front_chunk_prefix [of src] have "take n (front_chunk src) = take n (contents src)"
    by (auto simp: prefix_def)
  with True show ?thesis by (simp add: read_header_def)
next
  case False
  with assms show ?thesis by (simp add: read_header_def copy_prefix_spec)
qed

lemma stage_bytes_spec:
  assumes "seg_inv src"
  obtains src' where
    "stage_bytes d src (min n (seg_len src)) =
       Some (d\<lparr>staging := staging d @ take n (contents src)\<rparr>, src')"
    "seg_inv src'" "contents src' = drop n (contents src)"
proof -
  obtain src' where
    "take_bytes src (min n (seg_len src)) = Some (Some (take n (contents src)), src')"
    "seg_inv src'" "contents src' = drop n (contents src)"
    using segbuf.gather [OF assms] .
  then show ?thesis by (intro that [of src']) (simp_all add: stage_bytes_def)
qed

text \<open>One call of \<open>decode\<close>, stated against the reference parser.\<close>

definition decode_refines :: "zmtp_decoder \<Rightarrow> segbuf \<Rightarrow> frame_parse \<Rightarrow> decode_result option \<Rightarrow> bool" where
  "decode_refines d src p res \<longleftrightarrow>
     (\<exists>r d' src'. res = Some (r, d', src') \<and> dec_inv d' \<and> seg_inv src' \<and>
        max_frame_size d' = max_frame_size d \<and>
        (case p of
           NeedMore \<Rightarrow> r = Inr None \<and> vstream d' src' = vstream d src
         | Bad e \<Rightarrow> r = Inl e \<and> d' = d \<and> src' = src
         | Parsed f rest \<Rightarrow>
             r = Inr (Some f) \<and> vstream d' src' = rest \<and> pending_flags d' = None))"

lemma decode_reassembly_refines:
  assumes inv: "dec_inv d" "seg_inv src" and pend: "pending_flags d = Some fl"
  shows "decode_refines d src (parse_frame (max_frame_size d) (vstream d src))
           (decode_reassembly d src fl)"
proof -
  let ?e = "expected_body_len d" and ?s = "staging d"
  let ?n = "?e - length ?s"
  from inv(1) pend have w: "valid_flags fl" "length ?s < ?e" "?e \<le> max_frame_size d"
      "?e < 2 ^ 63" "?e < 256 ^ (header_size fl - 1)"
    by (simp_all add: dec_inv_def)
  obtain src' where st: "stage_bytes d src (min ?n (seg_len src)) =
       Some (d\<lparr>staging := ?s @ take ?n (contents src)\<rparr>, src')"
      "seg_inv src'" "contents src' = drop ?n (contents src)"
    using stage_bytes_spec [OF inv(2)] .
  have p: "parse_frame (max_frame_size d) (vstream d src) =
      (if length (?s @ contents src) < ?e then NeedMore
       else Parsed \<lparr>flags = fl, payload = take ?e (?s @ contents src)\<rparr>
              (drop ?e (?s @ contents src)))"
    using w pend by (simp add: vstream_def parse_frame_header)
  show ?thesis
  proof (cases "length (?s @ contents src) < ?e")
    case True
    with st w pend inv p show ?thesis
      by (auto simp: decode_refines_def decode_reassembly_def vstream_def dec_inv_def)
  next
    case False
    with st w pend inv p show ?thesis
      by (auto simp: decode_refines_def decode_reassembly_def vstream_def dec_inv_def)
  qed
qed

lemma decode_body_refines:
  assumes inv: "dec_inv d" "seg_inv src" and pend: "pending_flags d = None"
    and fl: "valid_flags fl" and n: "n < 2 ^ 63" "n \<le> max_frame_size d"
      "n < 256 ^ (header_size fl - 1)"
    and c: "contents src = frame_header fl n @ bs"
  shows "decode_refines d src (parse_frame (max_frame_size d) (vstream d src))
           (decode_body d src fl (header_size fl) n)"
proof -
  let ?h = "header_size fl"
  have p: "parse_frame (max_frame_size d) (vstream d src) =
      (if length bs < n then NeedMore
       else Parsed \<lparr>flags = fl, payload = take n bs\<rparr> (drop n bs))"
    using fl n pend c by (simp add: vstream_def parse_frame_header)
  have len: "seg_len src = ?h + length bs"
    using c inv(2) by (simp add: seg_len_def seg_inv_def)
  show ?thesis
  proof (cases "length bs < n")
    case False
    have "?h + n \<le> usize_max"
      using n(1) header_size_cases [of fl] by (auto simp: usize_max_def)
    moreover have "?h + n \<le> length (contents src)"
      using False c by simp
    ultimately obtain src' where "take_bytes_after_available src ?h n =
        Some (take n (drop ?h (contents src)), src')" "seg_inv src'"
        "contents src' = drop (?h + n) (contents src)"
      using take_bytes_after_available_spec [OF inv(2)] by blast
    with False p len c pend inv show ?thesis
      by (auto simp: decode_refines_def decode_body_def vstream_def)
  next
    case True
    obtain src1 where s1: "advance src ?h = Some src1" "seg_inv src1"
        "contents src1 = drop ?h (contents src)"
      using advance_spec [OF inv(2), of ?h] c by auto
    let ?d1 = "d\<lparr>pending_flags := Some fl, expected_body_len := n, staging := []\<rparr>"
    obtain src2 where "stage_bytes ?d1 src1 (min n (seg_len src1)) =
        Some (?d1\<lparr>staging := staging ?d1 @ take n (contents src1)\<rparr>, src2)"
        "seg_inv src2" "contents src2 = drop n (contents src1)"
      using stage_bytes_spec [OF s1(2)] .
    with True p len c pend inv s1 fl n show ?thesis
      by (auto simp: decode_refines_def decode_body_def vstream_def dec_inv_def Let_def
          min.commute)
  qed
qed

lemma nth_prefix_0: "n \<le> length bs \<Longrightarrow> 0 < n \<Longrightarrow> (take n bs @ ys) ! 0 = bs ! 0"
  by (simp add: nth_append)

lemma be_val_second_byte: "2 \<le> length bs \<Longrightarrow> be_val (take 1 (drop 1 bs)) = unat (bs ! 1)"
  by (cases bs; cases "tl bs") (auto simp: be_val_def)

lemma decode_header_unfold:
  assumes inv: "seg_inv src" and pend: "pending_flags d = None"
    and len: "2 \<le> length (contents src)"
  defines "bs \<equiv> contents src"
  defines "fl \<equiv> bs ! 0"
  defines "h \<equiv> header_size fl"
  defines "sz \<equiv> be_val (take (h - 1) (drop 1 bs))"
  shows "decode d src =
    (if fl AND 0x05 = 0x05 then Some (Inl Protocol, d, src)
     else if fl AND 0xF8 \<noteq> 0 then Some (Inl ReservedBits, d, src)
     else if length bs < h then Some (Inr None, d, src)
     else if 2 ^ 63 \<le> sz \<or> max_frame_size d < sz then Some (Inl SizeTooLarge, d, src)
     else decode_body d src fl h sz)"
proof -
  let ?hdr = "take 2 bs @ replicate 7 (0 :: byte)"
  have sl: "seg_len src = length bs"
    using inv by (simp add: bs_def seg_len_def seg_inv_def)
  have r2: "read_header src 2 (replicate 9 0) = Some (True, ?hdr)"
    using read_header_spec [OF inv len, of "replicate 9 0"] by (simp add: bs_def)
  have r9: "read_header src 9 ?hdr = Some (True, take 9 bs)" if "9 \<le> length bs"
    using read_header_spec [OF inv, of 9 ?hdr] that len by (simp add: bs_def)
  have b0: "?hdr ! 0 = fl" and b1: "?hdr ! 1 = bs ! 1"
    using len by (simp_all add: fl_def bs_def nth_append)
  have s1: "unat (bs ! 1) = be_val (take 1 (drop 1 bs))"
    using be_val_second_byte len by (simp add: bs_def)
  have small: "unat (bs ! 1) < 2 ^ 63"
    by (rule order_less_trans [OF unat_byte_less]) simp
  have t9: "take 8 (drop 1 (take 9 bs)) = take 8 (drop 1 bs)"
    by (simp add: drop_take)
  show ?thesis
  proof (cases "fl AND 0x02 = 0")
    case True
    then have h: "h = 2" by (simp add: h_def header_size_def)
    have sz: "unat (?hdr ! Suc 0) = sz" "\<not> 2 ^ 63 \<le> sz"
      using b1 small by (simp_all add: sz_def h s1 [unfolded One_nat_def, symmetric])
    show ?thesis
      unfolding decode_def pend option.case sl r2
      using len True sz(2) by (simp add: Let_def b0 sz(1) h bs_def [symmetric] not_less)
  next
    case False
    then have h: "h = 9" by (simp add: h_def header_size_def)
    show ?thesis
      unfolding decode_def pend option.case sl r2
      using len False r9 t9 by (auto simp: Let_def b0 h sz_def bs_def [symmetric] not_less)
  qed
qed

theorem decode_refines_parse:
  assumes inv: "dec_inv d" "seg_inv src"
  shows "decode_refines d src (parse_frame (max_frame_size d) (vstream d src)) (decode d src)"
proof (cases "pending_flags d")
  case (Some fl)
  with decode_reassembly_refines [OF inv Some] show ?thesis
    by (simp add: decode_def)
next
  case None
  let ?bs = "contents src"
  let ?fl = "?bs ! 0"
  let ?h = "header_size ?fl"
  let ?n = "be_val (take (?h - 1) (drop 1 ?bs))"
  have vs: "vstream d src = ?bs" by (simp add: vstream_def None)
  show ?thesis
  proof (cases "length ?bs < 2 \<or> ?fl AND 0x05 = 0x05 \<or> ?fl AND 0xF8 \<noteq> 0 \<or> length ?bs < ?h \<or>
      2 ^ 63 \<le> ?n \<or> max_frame_size d < ?n")
    case True
    show ?thesis
    proof (cases "length ?bs < 2")
      case True
      with inv None show ?thesis
        by (simp add: decode_refines_def decode_def parse_frame_def vs seg_len_def seg_inv_def)
    next
      case False
      then have len: "2 \<le> length ?bs" by simp
      show ?thesis
        unfolding decode_header_unfold [OF inv(2) None len] parse_frame_def vs Let_def
        using True False inv by (auto simp: decode_refines_def)
    qed
  next
    case False
    then have len: "2 \<le> length ?bs" and h: "?h \<le> length ?bs" and v: "valid_flags ?fl"
      and n: "?n < 2 ^ 63" "?n \<le> max_frame_size d"
      by (auto simp: valid_flags_def)
    have "decode d src = decode_body d src ?fl ?h ?n"
      unfolding decode_header_unfold [OF inv(2) None len] using False by simp
    with decode_body_refines [OF inv None v n header_of_stream(2) [OF h]
        header_of_stream(1) [OF h]]
    show ?thesis by simp
  qed
qed

subsection \<open>Progress of the decoder\<close>

text \<open>Every decoded frame shrinks this measure, with no assumption on the state.\<close>

definition decode_measure :: "zmtp_decoder \<Rightarrow> segbuf \<Rightarrow> nat" where
  "decode_measure d src = 2 * blen src + (if pending_flags d = None then 0 else 1)"

lemma stage_bytes_blen: "stage_bytes d src n = Some (d', src') \<Longrightarrow> blen src' \<le> blen src"
  by (auto simp: stage_bytes_def split: Option.bind_splits option.splits
      dest!: take_bytes_blen take_bytes_None)

lemma decode_body_Some:
  "decode_body d src fl h n = Some (Inr (Some f), d', src') \<Longrightarrow>
   d' = d \<and> blen src' = blen src - (h + n) \<and> h + n \<le> blen src"
  by (auto simp: decode_body_def Let_def dest: take_bytes_after_available_blen
      split: if_splits Option.bind_splits)

lemma decode_progress:
  assumes "decode d src = Some (Inr (Some f), d', src')"
  shows "decode_measure d' src' < decode_measure d src"
proof (cases "pending_flags d")
  case (Some fl)
  with assms show ?thesis
    by (auto simp: decode_def decode_reassembly_def decode_measure_def dest!: stage_bytes_blen
        split: if_splits Option.bind_splits)
next
  case None
  from assms None obtain fl h n where
    "decode_body d src fl h n = Some (Inr (Some f), d', src')" "2 \<le> h"
    by (auto simp: decode_def Let_def split: if_splits Option.bind_splits)
  with decode_body_Some [OF this(1)] None show ?thesis
    by (auto simp: decode_measure_def)
qed

section \<open>Streams of frames\<close>

lemma parse_frame_rest:
  assumes "parse_frame m bs = Parsed f rest"
  shows "length rest < length bs"
proof -
  have "0 < header_size (bs ! 0)" using header_size_ge [of "bs ! 0"] by linarith
  with assms show ?thesis
    by (auto simp: parse_frame_def Let_def split: if_splits)
qed

function parse_frames :: "nat \<Rightarrow> bytes \<Rightarrow> zmtp_frame list \<times> (zmtp_error + bytes)" where
  "parse_frames m bs =
     (case parse_frame m bs of
        NeedMore \<Rightarrow> ([], Inr bs)
      | Bad e \<Rightarrow> ([], Inl e)
      | Parsed f rest \<Rightarrow> (let (fs, r) = parse_frames m rest in (f # fs, r)))"
  by pat_completeness auto
termination
  by (relation "measure (\<lambda>(m, bs). length bs)") (auto dest: parse_frame_rest)

declare parse_frames.simps [simp del]

lemma parse_frame_ParsedD:
  assumes "parse_frame m bs = Parsed f rest"
  shows "2 \<le> length bs" and "valid_flags (bs ! 0)"
    and "header_size (bs ! 0) + length (payload f) \<le> length bs"
    and "be_val (take (header_size (bs ! 0) - 1) (drop 1 bs)) = length (payload f)"
    and "length (payload f) < 2 ^ 63" and "length (payload f) \<le> m"
    and "f = \<lparr>flags = bs ! 0, payload = take (length (payload f)) (drop (header_size (bs ! 0)) bs)\<rparr>"
    and "rest = drop (header_size (bs ! 0) + length (payload f)) bs"
  using assms by (auto simp: parse_frame_def valid_flags_def Let_def split: if_splits)

lemma parse_frame_append:
  assumes "parse_frame m bs = Parsed f rest"
  shows "parse_frame m (bs @ cs) = Parsed f (rest @ cs)"
proof -
  note d = parse_frame_ParsedD [OF assms]
  let ?h = "header_size (bs ! 0)" and ?n = "length (payload f)"
  have h: "?h \<le> length bs" using d(3) by simp
  have c: "bs @ cs = frame_header (bs ! 0) ?n @ (drop ?h bs @ cs)"
    using header_of_stream(1) [OF h] d(4) by (metis append_assoc)
  have "parse_frame m (bs @ cs) = Parsed \<lparr>flags = bs ! 0, payload = take ?n (drop ?h bs @ cs)\<rparr>
      (drop ?n (drop ?h bs @ cs))"
    unfolding c using d header_of_stream(2) [OF h] by (simp add: parse_frame_header)
  moreover have "take ?n (drop ?h bs @ cs) = take ?n (drop ?h bs)"
    "drop ?n (drop ?h bs @ cs) = drop (?h + ?n) bs @ cs"
    using d(3) by (simp_all add: add.commute)
  ultimately show ?thesis using d(7,8) by metis
qed

lemma parse_frame_append_Bad:
  assumes "parse_frame m bs = Bad e"
  shows "parse_frame m (bs @ cs) = Bad e"
proof -
  let ?h = "header_size (bs ! 0)"
  from assms have l: "2 \<le> length bs" by (auto simp: parse_frame_def split: if_splits)
  then have z: "(bs @ cs) ! 0 = bs ! 0" by (auto simp: nth_append)
  show ?thesis
  proof (cases "?h \<le> length bs")
    case True
    then have "take (?h - 1) (drop 1 (bs @ cs)) = take (?h - 1) (drop 1 bs)"
      using l by simp
    with assms l z True show ?thesis
      by (simp add: parse_frame_def Let_def split: if_split_asm)
  next
    case False
    with assms l z show ?thesis
      by (simp add: parse_frame_def Let_def split: if_split_asm)
  qed
qed

text \<open>Parsing what has arrived and then the rest is parsing everything at once.\<close>

lemma parse_frames_append:
  "parse_frames m (bs @ cs) =
     (case parse_frames m bs of
        (fs, Inl e) \<Rightarrow> (fs, Inl e)
      | (fs, Inr rest) \<Rightarrow> (let (gs, r) = parse_frames m (rest @ cs) in (fs @ gs, r)))"
proof (induction m bs rule: parse_frames.induct)
  case (1 m bs)
  show ?case
  proof (cases "parse_frame m bs")
    case NeedMore
    then show ?thesis by (simp add: parse_frames.simps [of m bs] split: prod.split)
  next
    case (Bad e)
    then show ?thesis
      by (simp add: parse_frames.simps [of m bs] parse_frames.simps [of m "bs @ cs"]
          parse_frame_append_Bad)
  next
    case (Parsed f rest)
    then show ?thesis
      using "1.IH" [OF Parsed]
      by (auto simp: parse_frames.simps [of m bs] parse_frames.simps [of m "bs @ cs"]
          parse_frame_append Let_def split: prod.splits sum.splits)
  qed
qed

lemma parse_frames_rest: "parse_frames m bs = (fs, Inr rest) \<Longrightarrow> parse_frames m rest = ([], Inr rest)"
proof (induction m bs arbitrary: fs rule: parse_frames.induct)
  case (1 m bs)
  then show ?case
    by (cases "parse_frame m bs")
      (auto simp: parse_frames.simps [of m bs] parse_frames.simps [of m rest] Let_def
        split: prod.splits)
qed

section \<open>Encoders\<close>

definition canon_flags :: "byte \<Rightarrow> nat \<Rightarrow> byte" where
  "canon_flags fl n = (if 256 \<le> n then fl OR 0x02 else fl AND NOT 0x02)"

definition wire :: "byte \<Rightarrow> bytes \<Rightarrow> bytes" where
  "wire fl p = frame_header (canon_flags fl (length p)) (length p) @ p"

lemma canon_flags_long: "header_size (canon_flags fl n) = (if 256 \<le> n then 9 else 2)"
proof -
  have "(fl OR 2) AND 2 \<noteq> 0"
    by (simp add: word_ao_dist or_eq_0_iff)
  moreover have "(fl AND NOT 2) AND 2 = 0"
    by (simp add: and.assoc)
  ultimately show ?thesis
    by (simp add: header_size_def canon_flags_def)
qed

lemma canon_flags_and:
  "canon_flags fl n AND 0x05 = fl AND 0x05" "canon_flags fl n AND 0xF8 = fl AND 0xF8"
  "canon_flags fl n AND 0x01 = fl AND 0x01" "canon_flags fl n AND 0x04 = fl AND 0x04"
  by (simp_all add: canon_flags_def word_ao_dist and.assoc)

lemma valid_canon_flags [simp]: "valid_flags (canon_flags fl n) = valid_flags fl"
  by (simp add: valid_flags_def canon_flags_and)

lemma wire_eq:
  "wire fl p = canon_flags fl (length p) #
     (if 256 \<le> length p then be_bytes 8 (length p) else [word_of_nat (length p)]) @ p"
  by (simp add: wire_def frame_header_def canon_flags_long)

text \<open>
  The contract all frame encoders of the crate share: the output is the canonical wire
  form of a flag byte and a body. Whatever satisfies it round-trips through the decoder.
\<close>

locale frame_encoder =
  fixes enc :: "'x \<Rightarrow> bytes" and fl_of :: "'x \<Rightarrow> byte" and body_of :: "'x \<Rightarrow> bytes"
  assumes enc_wire: "enc x = wire (fl_of x) (body_of x)"
begin

lemma length_fits: "length (body_of x) < 2 ^ 63 \<Longrightarrow>
    length (body_of x) < 256 ^ (header_size (canon_flags (fl_of x) (length (body_of x))) - 1)"
  by (auto simp: canon_flags_long not_le)

lemma parse_enc:
  assumes "valid_flags (fl_of x)" and "length (body_of x) < 2 ^ 63"
  shows "parse_frame m (enc x @ rest) =
    (if m < length (body_of x) then Bad SizeTooLarge
     else Parsed \<lparr>flags = canon_flags (fl_of x) (length (body_of x)), payload = body_of x\<rparr> rest)"
  using assms length_fits [OF assms(2)]
  by (simp add: enc_wire wire_def parse_frame_header)

lemma parse_frames_enc:
  assumes "valid_flags (fl_of x)" and "length (body_of x) < 2 ^ 63" and "length (body_of x) \<le> m"
  shows "parse_frames m (enc x @ rest) =
    (let (fs, r) = parse_frames m rest in
     (\<lparr>flags = canon_flags (fl_of x) (length (body_of x)), payload = body_of x\<rparr> # fs, r))"
  using assms by (simp add: parse_frames.simps [of m "enc x @ rest"] parse_enc)

lemma decode_enc:
  assumes "valid_flags (fl_of x)" and "length (body_of x) < 2 ^ 63"
    and "length (body_of x) \<le> max_frame_size d"
    and "dec_inv d" and "seg_inv src" and "vstream d src = enc x @ rest"
  shows "\<exists>d' src'. decode d src = Some (Inr (Some
      \<lparr>flags = canon_flags (fl_of x) (length (body_of x)), payload = body_of x\<rparr>), d', src') \<and>
    dec_inv d' \<and> seg_inv src' \<and> vstream d' src' = rest \<and> max_frame_size d' = max_frame_size d"
  using decode_refines_parse [OF assms(4,5)] assms
  by (auto simp: decode_refines_def parse_enc)

end

interpretation fr_encode: frame_encoder frame_encode flags payload
  by unfold_locales (simp add: frame_encode_def wire_eq canon_flags_def Let_def)

interpretation cmd_encode: frame_encoder "\<lambda>(fl, body). encode_frame fl body" fst snd
  by unfold_locales
    (auto simp: encode_frame_def wire_eq canon_flags_def FLAG_LONG_def Let_def not_le)

interpretation single_encode: frame_encoder "\<lambda>part. encode_single part []" "\<lambda>_. 0" "\<lambda>part. part"
  by unfold_locales (simp add: encode_single_def wire_eq canon_flags_def)

interpretation curve_encode: frame_encoder "append_zmtp_cmd_frame []" "\<lambda>_. 0x04" "\<lambda>body. body"
  by unfold_locales
    (auto simp: append_zmtp_cmd_frame_def wire_eq canon_flags_def Let_def not_le)

interpretation header_encode: frame_encoder
  "\<lambda>(part, mo). fst (write_frame_header [] (length part) mo) @ part"
  "\<lambda>(part, mo). if mo then 0x01 else 0" fst
  by unfold_locales (auto simp: write_frame_header_def wire_eq canon_flags_def Let_def)

section \<open>Multipart messages\<close>

fun wire_message :: "bytes list \<Rightarrow> bytes" where
  "wire_message [] = []"
| "wire_message [p] = wire 0 p"
| "wire_message (p # q # ps) = wire 0x01 p @ wire_message (q # ps)"

fun message_frames :: "bytes list \<Rightarrow> zmtp_frame list" where
  "message_frames [] = []"
| "message_frames [p] = [\<lparr>flags = canon_flags 0 (length p), payload = p\<rparr>]"
| "message_frames (p # q # ps) =
     \<lparr>flags = canon_flags 0x01 (length p), payload = p\<rparr> # message_frames (q # ps)"

lemma wire_message_Cons:
  "wire_message (p # ps) = wire (if ps = [] then 0 else 0x01) p @ wire_message ps"
  by (cases ps) auto

lemma message_frames_Cons:
  "message_frames (p # ps) =
     \<lparr>flags = canon_flags (if ps = [] then 0 else 0x01) (length p), payload = p\<rparr>
       # message_frames ps"
  by (cases ps) auto

lemma encode_parts_wire:
  "i + length ps = n \<Longrightarrow> encode_parts n i ps buf = buf @ wire_message ps"
proof (induction ps arbitrary: i buf)
  case Nil
  then show ?case by simp
next
  case (Cons part rest)
  have more: "i < n - 1 \<longleftrightarrow> rest \<noteq> []"
    using Cons.prems by auto
  from Cons.prems have "Suc i + length rest = n" by simp
  from Cons.IH [OF this] more show ?case
    by (simp add: wire_message_Cons wire_eq canon_flags_def Let_def)
qed

lemma encode_multipart_wire: "encode_multipart msg buf = buf @ wire_message msg"
proof -
  have "encode_single p buf = buf @ wire 0 p" for p
    using single_encode.enc_wire [of p] by (simp add: encode_single_def split: if_splits)
  then show ?thesis
    by (auto simp: encode_multipart_def encode_parts_wire simp del: encode_parts.simps
        split: list.split)
qed

interpretation wire_encode: frame_encoder "\<lambda>(fl, p). wire fl p" fst snd
  by unfold_locales auto

lemma valid_flags_data: "valid_flags (if b then 0 else 0x01)"
  by (simp add: valid_flags_def)

lemma parse_frames_message:
  assumes "\<forall>p \<in> set msg. length p \<le> m \<and> length p < 2 ^ 63"
  shows "parse_frames m (wire_message msg @ rest) =
    (let (fs, r) = parse_frames m rest in (message_frames msg @ fs, r))"
  using assms
proof (induction msg)
  case Nil
  then show ?case by (simp split: prod.split)
next
  case (Cons p ps)
  let ?fl = "if ps = [] then 0 else 0x01 :: byte"
  have "parse_frames m (wire ?fl p @ (wire_message ps @ rest)) =
     (let (fs, r) = parse_frames m (wire_message ps @ rest) in
      (\<lparr>flags = canon_flags ?fl (length p), payload = p\<rparr> # fs, r))"
    using wire_encode.parse_frames_enc [of "(?fl, p)" m "wire_message ps @ rest"] Cons.prems
      valid_flags_data [of "ps = []"] by simp
  with Cons show ?case
    by (simp add: wire_message_Cons message_frames_Cons split: prod.split)
qed

lemma frame_more_canon:
  "frame_more \<lparr>flags = canon_flags fl n, payload = p\<rparr> \<longleftrightarrow> fl AND 0x01 \<noteq> 0"
  "frame_is_command \<lparr>flags = canon_flags fl n, payload = p\<rparr> \<longleftrightarrow> fl AND 0x04 \<noteq> 0"
  by (simp_all add: frame_more_def frame_is_command_def canon_flags_and)

section \<open>Properties of the codec\<close>

text \<open>C6. On every input the streaming decoder never panics and agrees with the one-shot
  parser on the byte stream it represents (pending header, staged body, buffered
  segments): it returns a frame exactly when the stream starts with a complete frame and
  then leaves the rest of the stream, it asks for more exactly when the stream is a proper
  prefix of a frame and then loses no byte, and it reports the parser's protocol error
  otherwise without consuming anything.\<close>

theorem decode_correct:
  assumes "dec_inv d" and "seg_inv src"
  shows "\<exists>r d' src'. decode d src = Some (r, d', src') \<and> dec_inv d' \<and> seg_inv src' \<and>
    (case parse_frame (max_frame_size d) (vstream d src) of
       NeedMore \<Rightarrow> r = Inr None \<and> vstream d' src' = vstream d src
     | Bad e \<Rightarrow> r = Inl e \<and> d' = d \<and> src' = src
     | Parsed f rest \<Rightarrow> r = Inr (Some f) \<and> vstream d' src' = rest)"
proof -
  let ?p = "parse_frame (max_frame_size d) (vstream d src)"
  obtain r d' src' where *: "decode d src = Some (r, d', src')" "dec_inv d'" "seg_inv src'"
    "case ?p of NeedMore \<Rightarrow> r = Inr None \<and> vstream d' src' = vstream d src
      | Bad e \<Rightarrow> r = Inl e \<and> d' = d \<and> src' = src
      | Parsed f rest \<Rightarrow> r = Inr (Some f) \<and> vstream d' src' = rest \<and> pending_flags d' = None"
    using decode_refines_parse [OF assms] unfolding decode_refines_def by blast
  from *(4) have "case ?p of NeedMore \<Rightarrow> r = Inr None \<and> vstream d' src' = vstream d src
      | Bad e \<Rightarrow> r = Inl e \<and> d' = d \<and> src' = src
      | Parsed f rest \<Rightarrow> r = Inr (Some f) \<and> vstream d' src' = rest"
    by (simp split: frame_parse.splits)
  with *(1-3) show ?thesis by blast
qed

theorem decode_correct_witness:
  "\<exists>d' src'. decode decoder_new \<lparr>segs = [[0], [2, 104], [105]], blen = 4\<rparr> =
     Some (Inr (Some \<lparr>flags = 0, payload = [104, 105]\<rparr>), d', src') \<and> vstream d' src' = []"
  using decode_correct [of decoder_new "\<lparr>segs = [[0], [2, 104], [105]], blen = 4\<rparr>"]
  by (simp add: parse_frame_def header_size_def be_val_def contents_def vstream_def decoder_new_def
      seg_inv_def dec_inv_def) blast

text \<open>Round trip of \<open>ZmtpFrame::encode\<close>: decoding an encoded frame, however it is
  fragmented between the decoder's staging buffer and the segments of the receive buffer,
  gives the frame back (with the LONG bit normalised to the body length) and leaves exactly
  the bytes after it.\<close>

theorem frame_encode_decode:
  assumes "valid_flags (flags f)" and "length (payload f) < 2 ^ 63"
    and "length (payload f) \<le> max_frame_size d"
    and "dec_inv d" and "seg_inv src" and "vstream d src = frame_encode f @ rest"
  shows "\<exists>d' src'. decode d src = Some (Inr (Some
      (f\<lparr>flags := canon_flags (flags f) (length (payload f))\<rparr>)), d', src') \<and> vstream d' src' = rest"
  using fr_encode.decode_enc [OF assms] by auto

theorem frame_encode_decode_witness:
  "\<exists>d' src'. decode (decoder_new\<lparr>pending_flags := Some 1, expected_body_len := 3, staging := [7]\<rparr>)
       \<lparr>segs = [[8], [9, 0, 0]], blen = 4\<rparr> =
     Some (Inr (Some \<lparr>flags = 1, payload = [7, 8, 9]\<rparr>), d', src') \<and> vstream d' src' = [0, 0]"
  using frame_encode_decode [of "\<lparr>flags = 1, payload = [7, 8, 9]\<rparr>"
      "decoder_new\<lparr>pending_flags := Some 1, expected_body_len := 3, staging := [7]\<rparr>"
      "\<lparr>segs = [[8], [9, 0, 0]], blen = 4\<rparr>" "[0, 0]"]
  by (simp add: valid_flags_def decoder_new_def dec_inv_def header_size_def seg_inv_def
      contents_def vstream_def frame_header_def frame_encode_def canon_flags_def)

text \<open>\<open>encode_multipart\<close> appends to its buffer a byte stream that parses back to one
  data frame per message part, in order, with the MORE bit on every frame but the last.\<close>

theorem encode_multipart_roundtrip:
  assumes "\<forall>p \<in> set msg. length p \<le> m \<and> length p < 2 ^ 63"
  shows "\<exists>stream. encode_multipart msg buf = buf @ stream \<and>
    parse_frames m stream = (message_frames msg, Inr []) \<and>
    map payload (message_frames msg) = msg \<and>
    map frame_more (message_frames msg) = map (\<lambda>i. i < length msg - 1) [0..<length msg] \<and>
    list_all (\<lambda>f. \<not> frame_is_command f) (message_frames msg)"
proof (intro exI conjI)
  show "encode_multipart msg buf = buf @ wire_message msg"
    by (rule encode_multipart_wire)
  show "parse_frames m (wire_message msg) = (message_frames msg, Inr [])"
    using parse_frames_message [OF assms, of "[]"]
    by (simp add: parse_frames.simps [of m "[]"] parse_frame_def)
  show "map payload (message_frames msg) = msg"
    by (induction msg rule: message_frames.induct) auto
  show "map frame_more (message_frames msg) = map (\<lambda>i. i < length msg - 1) [0..<length msg]"
  proof (induction msg rule: message_frames.induct)
    case (3 p q ps)
    have "map (\<lambda>i. i < length (p # q # ps) - 1) [0..<length (p # q # ps)] =
        True # map (\<lambda>i. i < length (q # ps) - 1) [0..<length (q # ps)]"
      by (simp add: upt_conv_Cons map_Suc_upt [symmetric] del: upt_Suc)
    with 3 show ?case by (simp add: frame_more_canon)
  qed (simp_all add: frame_more_canon)
  show "list_all (\<lambda>f. \<not> frame_is_command f) (message_frames msg)"
    by (induction msg rule: message_frames.induct) (simp_all add: frame_more_canon)
qed

theorem encode_multipart_roundtrip_witness:
  "\<exists>stream. encode_multipart [[1, 2], [], [3]] [9] = [9] @ stream \<and>
     parse_frames 100 stream = (message_frames [[1, 2], [], [3]], Inr [])"
  using encode_multipart_roundtrip [of "[[1, 2], [], [3]]" 100 "[9]"] by auto

end
