(* ===== verification/Socket_Options.thy ===== *)
theory Socket_Options
  imports Mono_Prelude
begin

text \<open>
  \<open>monocoque-core/src/options.rs\<close>: the \<open>SocketOptions\<close> structure with all of its fields
  (the field \<open>f\<close> is \<open>opt_f\<close> here), its defaults and builder methods, the identity
  validators and the stateless reconnection interval. A \<open>Duration\<close> is a number of
  nanoseconds not above \<open>duration_max\<close>.
\<close>

section \<open>Durations\<close>

type_synonym duration = nat

definition SEC :: duration where
  "SEC = 1000000000"

definition MILLI :: duration where
  "MILLI = 1000000"

text \<open>\<open>Duration::MAX\<close>: \<open>u64::MAX\<close> seconds and 999999999 nanoseconds.\<close>

definition duration_max :: duration where
  "duration_max = (2 ^ 64 - 1) * SEC + 999999999"

definition saturating_mul :: "duration \<Rightarrow> nat \<Rightarrow> duration" where
  "saturating_mul d k = min (d * k) duration_max"

definition checked_mul :: "duration \<Rightarrow> nat \<Rightarrow> duration option" where
  "checked_mul d k = (if d * k \<le> duration_max then Some (d * k) else None)"

definition u32_max :: nat where
  "u32_max = 2 ^ 32 - 1"

section \<open>SocketOptions\<close>

text \<open>\<open>io.rs: READ_SLAB_SIZE\<close>.\<close>

definition READ_SLAB_SIZE :: nat where
  "READ_SLAB_SIZE = 64 * 1024"

record socket_options =
  opt_read_buffer_size :: nat
  opt_write_buffer_size :: nat
  opt_recv_timeout :: "duration option"
  opt_send_timeout :: "duration option"
  opt_handshake_timeout :: duration
  opt_linger :: "duration option"
  opt_reconnect_ivl :: duration
  opt_reconnect_ivl_max :: duration
  opt_connect_timeout :: duration
  opt_recv_hwm :: nat
  opt_send_hwm :: nat
  opt_immediate :: bool
  opt_max_msg_size :: "nat option"
  opt_routing_id :: "bytes option"
  opt_connect_routing_id :: "bytes option"
  opt_router_mandatory :: bool
  opt_router_handover :: bool
  opt_probe_router :: bool
  opt_xpub_verbose :: bool
  opt_xpub_manual :: bool
  opt_xpub_welcome_msg :: "bytes option"
  opt_xsub_verbose_unsubs :: bool
  opt_conflate :: bool
  opt_tcp_keepalive :: int
  opt_tcp_keepalive_cnt :: int
  opt_tcp_keepalive_idle :: int
  opt_tcp_keepalive_intvl :: int
  opt_req_correlate :: bool
  opt_req_relaxed :: bool
  opt_rate :: int
  opt_recovery_ivl :: duration
  opt_sndbuf :: int
  opt_rcvbuf :: int
  opt_reuse_port :: bool
  opt_multicast_hops :: int
  opt_tos :: int
  opt_multicast_maxtpdu :: int
  opt_ipv6 :: bool
  opt_bind_to_device :: "str option"
  opt_plain_server :: bool
  opt_plain_username :: "str option"
  opt_plain_password :: "str option"
  opt_curve_server :: bool
  opt_curve_publickey :: "bytes option"
  opt_curve_secretkey :: "bytes option"
  opt_curve_serverkey :: "bytes option"
  opt_zap_domain :: str
  opt_subscriptions :: "bytes list"
  opt_unsubscriptions :: "bytes list"
  opt_max_reconnect_attempts :: "nat option"
  opt_heartbeat_ivl :: "duration option"
  opt_heartbeat_ttl :: "duration option"
  opt_heartbeat_timeout :: "duration option"
  opt_router_raw :: bool
  opt_stream_notify :: bool
  opt_xpub_nodrop :: bool
  opt_invert_matching :: bool
  opt_write_coalescing :: bool
  opt_write_coalesce_threshold :: nat
  opt_vectored_write_threshold :: nat

definition socket_options_default :: socket_options where
  "socket_options_default = \<lparr>
     opt_read_buffer_size = 8192,
     opt_write_buffer_size = 8192,
     opt_recv_timeout = None,
     opt_send_timeout = None,
     opt_handshake_timeout = 30 * SEC,
     opt_linger = Some (30 * SEC),
     opt_reconnect_ivl = 100 * MILLI,
     opt_reconnect_ivl_max = 0,
     opt_connect_timeout = 0,
     opt_recv_hwm = 1000,
     opt_send_hwm = 1000,
     opt_immediate = False,
     opt_max_msg_size = None,
     opt_routing_id = None,
     opt_connect_routing_id = None,
     opt_router_mandatory = False,
     opt_router_handover = False,
     opt_probe_router = False,
     opt_xpub_verbose = False,
     opt_xpub_manual = False,
     opt_xpub_welcome_msg = None,
     opt_xsub_verbose_unsubs = False,
     opt_conflate = False,
     opt_tcp_keepalive = - 1,
     opt_tcp_keepalive_cnt = - 1,
     opt_tcp_keepalive_idle = - 1,
     opt_tcp_keepalive_intvl = - 1,
     opt_req_correlate = False,
     opt_req_relaxed = False,
     opt_rate = 100,
     opt_recovery_ivl = 10 * SEC,
     opt_sndbuf = 0,
     opt_rcvbuf = 0,
     opt_reuse_port = False,
     opt_multicast_hops = 1,
     opt_tos = 0,
     opt_multicast_maxtpdu = 1500,
     opt_ipv6 = False,
     opt_bind_to_device = None,
     opt_plain_server = False,
     opt_plain_username = None,
     opt_plain_password = None,
     opt_curve_server = False,
     opt_curve_publickey = None,
     opt_curve_secretkey = None,
     opt_curve_serverkey = None,
     opt_zap_domain = [],
     opt_subscriptions = [],
     opt_unsubscriptions = [],
     opt_max_reconnect_attempts = None,
     opt_heartbeat_ivl = None,
     opt_heartbeat_ttl = None,
     opt_heartbeat_timeout = None,
     opt_router_raw = False,
     opt_stream_notify = True,
     opt_xpub_nodrop = False,
     opt_invert_matching = False,
     opt_write_coalescing = False,
     opt_write_coalesce_threshold = 65536,
     opt_vectored_write_threshold = 32768\<rparr>"

definition socket_options_small :: socket_options where
  "socket_options_small =
     socket_options_default\<lparr>opt_read_buffer_size := 4096, opt_write_buffer_size := 4096\<rparr>"

definition socket_options_large :: socket_options where
  "socket_options_large =
     socket_options_default\<lparr>opt_read_buffer_size := 16384, opt_write_buffer_size := 16384\<rparr>"

subsection \<open>Builder methods\<close>

definition with_recv_timeout :: "socket_options \<Rightarrow> duration \<Rightarrow> socket_options" where
  "with_recv_timeout opts timeout = opts\<lparr>opt_recv_timeout := Some timeout\<rparr>"

definition with_send_timeout :: "socket_options \<Rightarrow> duration \<Rightarrow> socket_options" where
  "with_send_timeout opts timeout = opts\<lparr>opt_send_timeout := Some timeout\<rparr>"

definition with_handshake_timeout :: "socket_options \<Rightarrow> duration \<Rightarrow> socket_options" where
  "with_handshake_timeout opts timeout = opts\<lparr>opt_handshake_timeout := timeout\<rparr>"

definition with_linger :: "socket_options \<Rightarrow> duration option \<Rightarrow> socket_options" where
  "with_linger opts lng = opts\<lparr>opt_linger := lng\<rparr>"

definition with_reconnect_ivl :: "socket_options \<Rightarrow> duration \<Rightarrow> socket_options" where
  "with_reconnect_ivl opts ivl = opts\<lparr>opt_reconnect_ivl := ivl\<rparr>"

definition with_reconnect_ivl_max :: "socket_options \<Rightarrow> duration \<Rightarrow> socket_options" where
  "with_reconnect_ivl_max opts mx = opts\<lparr>opt_reconnect_ivl_max := mx\<rparr>"

definition with_max_reconnect_attempts :: "socket_options \<Rightarrow> nat option \<Rightarrow> socket_options" where
  "with_max_reconnect_attempts opts mx = opts\<lparr>opt_max_reconnect_attempts := mx\<rparr>"

definition with_connect_timeout :: "socket_options \<Rightarrow> duration \<Rightarrow> socket_options" where
  "with_connect_timeout opts timeout = opts\<lparr>opt_connect_timeout := timeout\<rparr>"

definition with_heartbeat_ivl :: "socket_options \<Rightarrow> duration \<Rightarrow> socket_options" where
  "with_heartbeat_ivl opts ivl = opts\<lparr>opt_heartbeat_ivl := Some ivl\<rparr>"

definition with_heartbeat_ttl :: "socket_options \<Rightarrow> duration \<Rightarrow> socket_options" where
  "with_heartbeat_ttl opts ttl = opts\<lparr>opt_heartbeat_ttl := Some ttl\<rparr>"

definition with_heartbeat_timeout :: "socket_options \<Rightarrow> duration \<Rightarrow> socket_options" where
  "with_heartbeat_timeout opts timeout = opts\<lparr>opt_heartbeat_timeout := Some timeout\<rparr>"

definition with_router_raw :: "socket_options \<Rightarrow> bool \<Rightarrow> socket_options" where
  "with_router_raw opts b = opts\<lparr>opt_router_raw := b\<rparr>"

definition with_stream_notify :: "socket_options \<Rightarrow> bool \<Rightarrow> socket_options" where
  "with_stream_notify opts notify = opts\<lparr>opt_stream_notify := notify\<rparr>"

definition with_xpub_nodrop :: "socket_options \<Rightarrow> bool \<Rightarrow> socket_options" where
  "with_xpub_nodrop opts nodrop = opts\<lparr>opt_xpub_nodrop := nodrop\<rparr>"

definition with_invert_matching :: "socket_options \<Rightarrow> bool \<Rightarrow> socket_options" where
  "with_invert_matching opts invert = opts\<lparr>opt_invert_matching := invert\<rparr>"

definition with_write_coalescing :: "socket_options \<Rightarrow> bool \<Rightarrow> socket_options" where
  "with_write_coalescing opts enabled = opts\<lparr>opt_write_coalescing := enabled\<rparr>"

definition with_write_coalesce_threshold :: "socket_options \<Rightarrow> nat \<Rightarrow> socket_options" where
  "with_write_coalesce_threshold opts threshold = opts\<lparr>opt_write_coalesce_threshold := threshold\<rparr>"

definition with_vectored_write_threshold :: "socket_options \<Rightarrow> nat \<Rightarrow> socket_options" where
  "with_vectored_write_threshold opts threshold = opts\<lparr>opt_vectored_write_threshold := threshold\<rparr>"

definition with_recv_hwm :: "socket_options \<Rightarrow> nat \<Rightarrow> socket_options" where
  "with_recv_hwm opts hwm = opts\<lparr>opt_recv_hwm := hwm\<rparr>"

definition with_send_hwm :: "socket_options \<Rightarrow> nat \<Rightarrow> socket_options" where
  "with_send_hwm opts hwm = opts\<lparr>opt_send_hwm := hwm\<rparr>"

definition with_immediate :: "socket_options \<Rightarrow> bool \<Rightarrow> socket_options" where
  "with_immediate opts b = opts\<lparr>opt_immediate := b\<rparr>"

definition with_max_msg_size :: "socket_options \<Rightarrow> nat option \<Rightarrow> socket_options" where
  "with_max_msg_size opts sz = opts\<lparr>opt_max_msg_size := sz\<rparr>"

definition with_write_buffer_size :: "socket_options \<Rightarrow> nat \<Rightarrow> socket_options" where
  "with_write_buffer_size opts sz = opts\<lparr>opt_write_buffer_size := sz\<rparr>"

definition with_routing_id :: "socket_options \<Rightarrow> bytes \<Rightarrow> socket_options" where
  "with_routing_id opts rid = opts\<lparr>opt_routing_id := Some rid\<rparr>"

definition with_connect_routing_id :: "socket_options \<Rightarrow> bytes \<Rightarrow> socket_options" where
  "with_connect_routing_id opts rid = opts\<lparr>opt_connect_routing_id := Some rid\<rparr>"

definition with_router_mandatory :: "socket_options \<Rightarrow> bool \<Rightarrow> socket_options" where
  "with_router_mandatory opts enabled = opts\<lparr>opt_router_mandatory := enabled\<rparr>"

definition with_router_handover :: "socket_options \<Rightarrow> bool \<Rightarrow> socket_options" where
  "with_router_handover opts enabled = opts\<lparr>opt_router_handover := enabled\<rparr>"

definition with_probe_router :: "socket_options \<Rightarrow> bool \<Rightarrow> socket_options" where
  "with_probe_router opts enabled = opts\<lparr>opt_probe_router := enabled\<rparr>"

definition with_xpub_verbose :: "socket_options \<Rightarrow> bool \<Rightarrow> socket_options" where
  "with_xpub_verbose opts enabled = opts\<lparr>opt_xpub_verbose := enabled\<rparr>"

definition with_xpub_manual :: "socket_options \<Rightarrow> bool \<Rightarrow> socket_options" where
  "with_xpub_manual opts enabled = opts\<lparr>opt_xpub_manual := enabled\<rparr>"

definition with_xpub_welcome_msg :: "socket_options \<Rightarrow> bytes \<Rightarrow> socket_options" where
  "with_xpub_welcome_msg opts msg = opts\<lparr>opt_xpub_welcome_msg := Some msg\<rparr>"

definition with_xsub_verbose_unsubs :: "socket_options \<Rightarrow> bool \<Rightarrow> socket_options" where
  "with_xsub_verbose_unsubs opts enabled = opts\<lparr>opt_xsub_verbose_unsubs := enabled\<rparr>"

definition with_conflate :: "socket_options \<Rightarrow> bool \<Rightarrow> socket_options" where
  "with_conflate opts enabled = opts\<lparr>opt_conflate := enabled\<rparr>"

definition with_tcp_keepalive :: "socket_options \<Rightarrow> int \<Rightarrow> socket_options" where
  "with_tcp_keepalive opts mode = opts\<lparr>opt_tcp_keepalive := mode\<rparr>"

definition with_tcp_keepalive_cnt :: "socket_options \<Rightarrow> int \<Rightarrow> socket_options" where
  "with_tcp_keepalive_cnt opts count = opts\<lparr>opt_tcp_keepalive_cnt := count\<rparr>"

definition with_tcp_keepalive_idle :: "socket_options \<Rightarrow> int \<Rightarrow> socket_options" where
  "with_tcp_keepalive_idle opts seconds = opts\<lparr>opt_tcp_keepalive_idle := seconds\<rparr>"

definition with_tcp_keepalive_intvl :: "socket_options \<Rightarrow> int \<Rightarrow> socket_options" where
  "with_tcp_keepalive_intvl opts seconds = opts\<lparr>opt_tcp_keepalive_intvl := seconds\<rparr>"

definition with_req_correlate :: "socket_options \<Rightarrow> bool \<Rightarrow> socket_options" where
  "with_req_correlate opts enabled = opts\<lparr>opt_req_correlate := enabled\<rparr>"

definition with_req_relaxed :: "socket_options \<Rightarrow> bool \<Rightarrow> socket_options" where
  "with_req_relaxed opts enabled = opts\<lparr>opt_req_relaxed := enabled\<rparr>"

definition with_rate :: "socket_options \<Rightarrow> int \<Rightarrow> socket_options" where
  "with_rate opts r = opts\<lparr>opt_rate := r\<rparr>"

definition with_recovery_ivl :: "socket_options \<Rightarrow> duration \<Rightarrow> socket_options" where
  "with_recovery_ivl opts interval = opts\<lparr>opt_recovery_ivl := interval\<rparr>"

definition with_sndbuf :: "socket_options \<Rightarrow> int \<Rightarrow> socket_options" where
  "with_sndbuf opts sz = opts\<lparr>opt_sndbuf := sz\<rparr>"

definition with_rcvbuf :: "socket_options \<Rightarrow> int \<Rightarrow> socket_options" where
  "with_rcvbuf opts sz = opts\<lparr>opt_rcvbuf := sz\<rparr>"

definition with_reuse_port :: "socket_options \<Rightarrow> bool \<Rightarrow> socket_options" where
  "with_reuse_port opts enabled = opts\<lparr>opt_reuse_port := enabled\<rparr>"

definition with_multicast_hops :: "socket_options \<Rightarrow> int \<Rightarrow> socket_options" where
  "with_multicast_hops opts hops = opts\<lparr>opt_multicast_hops := hops\<rparr>"

definition with_tos :: "socket_options \<Rightarrow> int \<Rightarrow> socket_options" where
  "with_tos opts t = opts\<lparr>opt_tos := t\<rparr>"

definition with_multicast_maxtpdu :: "socket_options \<Rightarrow> int \<Rightarrow> socket_options" where
  "with_multicast_maxtpdu opts mtu = opts\<lparr>opt_multicast_maxtpdu := mtu\<rparr>"

definition with_ipv6 :: "socket_options \<Rightarrow> bool \<Rightarrow> socket_options" where
  "with_ipv6 opts enabled = opts\<lparr>opt_ipv6 := enabled\<rparr>"

definition with_bind_to_device :: "socket_options \<Rightarrow> str \<Rightarrow> socket_options" where
  "with_bind_to_device opts device = opts\<lparr>opt_bind_to_device := Some device\<rparr>"

definition with_plain_server :: "socket_options \<Rightarrow> bool \<Rightarrow> socket_options" where
  "with_plain_server opts enabled = opts\<lparr>opt_plain_server := enabled\<rparr>"

definition with_plain_credentials :: "socket_options \<Rightarrow> str \<Rightarrow> str \<Rightarrow> socket_options" where
  "with_plain_credentials opts username password =
     opts\<lparr>opt_plain_username := Some username, opt_plain_password := Some password\<rparr>"

definition with_curve_server :: "socket_options \<Rightarrow> bool \<Rightarrow> socket_options" where
  "with_curve_server opts enabled = opts\<lparr>opt_curve_server := enabled\<rparr>"

definition with_curve_keypair :: "socket_options \<Rightarrow> bytes \<Rightarrow> bytes \<Rightarrow> socket_options" where
  "with_curve_keypair opts publickey secretkey =
     opts\<lparr>opt_curve_publickey := Some publickey, opt_curve_secretkey := Some secretkey\<rparr>"

definition with_curve_serverkey :: "socket_options \<Rightarrow> bytes \<Rightarrow> socket_options" where
  "with_curve_serverkey opts serverkey = opts\<lparr>opt_curve_serverkey := Some serverkey\<rparr>"

definition with_zap_domain :: "socket_options \<Rightarrow> str \<Rightarrow> socket_options" where
  "with_zap_domain opts domain = opts\<lparr>opt_zap_domain := domain\<rparr>"

definition with_subscribe :: "socket_options \<Rightarrow> bytes \<Rightarrow> socket_options" where
  "with_subscribe opts flt = opts\<lparr>opt_subscriptions := opt_subscriptions opts @ [flt]\<rparr>"

definition with_subscriptions :: "socket_options \<Rightarrow> bytes list \<Rightarrow> socket_options" where
  "with_subscriptions opts filters = opts\<lparr>opt_subscriptions := opt_subscriptions opts @ filters\<rparr>"

definition with_unsubscribe :: "socket_options \<Rightarrow> bytes \<Rightarrow> socket_options" where
  "with_unsubscribe opts flt = opts\<lparr>opt_unsubscriptions := opt_unsubscriptions opts @ [flt]\<rparr>"

definition with_read_buffer_size :: "socket_options \<Rightarrow> nat \<Rightarrow> socket_options" where
  "with_read_buffer_size opts sz =
     opts\<lparr>opt_read_buffer_size := (if READ_SLAB_SIZE < sz then READ_SLAB_SIZE else sz)\<rparr>"

definition with_buffer_sizes :: "socket_options \<Rightarrow> nat \<Rightarrow> nat \<Rightarrow> socket_options" where
  "with_buffer_sizes opts read_size write_size =
     opts\<lparr>opt_read_buffer_size := (if READ_SLAB_SIZE < read_size then READ_SLAB_SIZE else read_size),
          opt_write_buffer_size := write_size\<rparr>"

subsection \<open>Query methods and validators\<close>

definition read_buffer_size :: "socket_options \<Rightarrow> nat" where
  "read_buffer_size opts =
     (if READ_SLAB_SIZE < opt_read_buffer_size opts then READ_SLAB_SIZE
      else opt_read_buffer_size opts)"

definition is_recv_nonblocking :: "socket_options \<Rightarrow> bool" where
  "is_recv_nonblocking opts = (case opt_recv_timeout opts of Some d \<Rightarrow> d = 0 | None \<Rightarrow> False)"

definition is_send_nonblocking :: "socket_options \<Rightarrow> bool" where
  "is_send_nonblocking opts = (case opt_send_timeout opts of Some d \<Rightarrow> d = 0 | None \<Rightarrow> False)"

definition validate_router_identity :: "bytes \<Rightarrow> io_error_kind + unit" where
  "validate_router_identity i =
     (if i = [] then Inl InvalidInput
      else if 255 < length i then Inl InvalidInput
      else if i ! 0 = 0 then Inl InvalidInput
      else Inr ())"

definition validate_routing_id :: "bytes \<Rightarrow> io_error_kind + unit" where
  "validate_routing_id i = (if 255 < length i then Inl InvalidInput else Inr ())"

text \<open>\<open>2u32.saturating_pow(attempt)\<close> and the capped interval of attempt number \<open>attempt\<close>.\<close>

definition saturating_pow2 :: "nat \<Rightarrow> nat" where
  "saturating_pow2 k = min (2 ^ k) u32_max"

definition next_reconnect_ivl :: "socket_options \<Rightarrow> nat \<Rightarrow> duration" where
  "next_reconnect_ivl opts attempt =
     (if opt_reconnect_ivl_max opts = 0 then opt_reconnect_ivl opts
      else min (saturating_mul (opt_reconnect_ivl opts) (saturating_pow2 attempt))
               (opt_reconnect_ivl_max opts))"

section \<open>Facts\<close>

lemma read_buffer_size_le: "read_buffer_size opts \<le> READ_SLAB_SIZE"
  by (simp add: read_buffer_size_def)

lemma validate_router_identity_iff:
  "validate_router_identity i = Inr () \<longleftrightarrow> 0 < length i \<and> length i \<le> 255 \<and> hd i \<noteq> 0"
  by (cases i) (auto simp: validate_router_identity_def)

lemma validate_router_identity_routing_id:
  "validate_router_identity i = Inr () \<Longrightarrow> validate_routing_id i = Inr ()"
  by (simp add: validate_router_identity_iff validate_routing_id_def)

end
