(* ===== verification/Utf8_Strings.thy ===== *)
theory Utf8_Strings
  imports Mono_Prelude
begin

text \<open>
  The parts of Rust's string library the handshake code relies on: \<open>str::as_bytes\<close>
  (UTF-8 encoding), \<open>str::from_utf8\<close> (validation and decoding) and
  \<open>eq_ignore_ascii_case\<close>. Decoding an encoded string gives it back.
\<close>

section \<open>Model\<close>

definition scalar_value :: "nat \<Rightarrow> bool" where
  "scalar_value c \<longleftrightarrow> c < 0xD800 \<or> (0xDFFF < c \<and> c < 0x110000)"

definition utf8_char :: "nat \<Rightarrow> bytes" where
  "utf8_char c =
     (if c < 0x80 then [word_of_nat c]
      else if c < 0x800 then [word_of_nat (0xC0 + c div 64), word_of_nat (0x80 + c mod 64)]
      else if c < 0x10000 then
        [word_of_nat (0xE0 + c div 4096), word_of_nat (0x80 + c div 64 mod 64),
         word_of_nat (0x80 + c mod 64)]
      else
        [word_of_nat (0xF0 + c div 262144), word_of_nat (0x80 + c div 4096 mod 64),
         word_of_nat (0x80 + c div 64 mod 64), word_of_nat (0x80 + c mod 64)])"

definition utf8_encode :: "str \<Rightarrow> bytes" where
  "utf8_encode s = concat (map utf8_char s)"

definition continuation :: "byte \<Rightarrow> bool" where
  "continuation b \<longleftrightarrow> 0x80 \<le> unat b \<and> unat b < 0xC0"

text \<open>The scalar value at the head of a byte string and the number of bytes it takes.\<close>

definition utf8_head :: "bytes \<Rightarrow> (nat \<times> nat) option" where
  "utf8_head bs =
     (case bs of
        [] \<Rightarrow> None
      | b0 # r \<Rightarrow>
          let n = unat b0; c = (\<lambda>i. unat (r ! i) - 0x80);
              ok = (\<lambda>k. k \<le> length r \<and> list_all continuation (take k r)) in
          if n < 0x80 then Some (n, 1)
          else if 0xC2 \<le> n \<and> n < 0xE0 \<and> ok 1 then Some ((n - 0xC0) * 64 + c 0, 2)
          else if 0xE0 \<le> n \<and> n < 0xF0 \<and> ok 2 then
            (let v = (n - 0xE0) * 4096 + c 0 * 64 + c 1 in
             if 0x800 \<le> v \<and> scalar_value v then Some (v, 3) else None)
          else if 0xF0 \<le> n \<and> n < 0xF5 \<and> ok 3 then
            (let v = (n - 0xF0) * 262144 + c 0 * 4096 + c 1 * 64 + c 2 in
             if 0x10000 \<le> v \<and> scalar_value v then Some (v, 4) else None)
          else None)"

lemma utf8_head_pos: "utf8_head bs = Some (c, k) \<Longrightarrow> bs \<noteq> [] \<and> 0 < k"
  by (auto simp: utf8_head_def Let_def split: list.splits if_splits)

function utf8_decode :: "bytes \<Rightarrow> str option" where
  "utf8_decode bs =
     (if bs = [] then Some []
      else case utf8_head bs of
             None \<Rightarrow> None
           | Some (c, k) \<Rightarrow> map_option ((#) c) (utf8_decode (drop k bs)))"
  by pat_completeness auto
termination
  by (relation "measure length") (use utf8_head_pos in force)+

declare utf8_decode.simps [simp del]

definition ascii_lower :: "nat \<Rightarrow> nat" where
  "ascii_lower c = (if 65 \<le> c \<and> c \<le> 90 then c + 32 else c)"

definition eq_ignore_ascii_case :: "str \<Rightarrow> str \<Rightarrow> bool" where
  "eq_ignore_ascii_case s t \<longleftrightarrow> map ascii_lower s = map ascii_lower t"

section \<open>Round trip\<close>

lemma utf8_decode_Nil [simp]: "utf8_decode [] = Some []"
  by (simp add: utf8_decode.simps)

lemma utf8_decode_head:
  "utf8_head bs = Some (c, k) \<Longrightarrow> utf8_decode bs = map_option ((#) c) (utf8_decode (drop k bs))"
  using utf8_head_pos [of bs c k] utf8_decode.simps [of bs] by simp

lemma utf8_head_1:
  "c < 0x80 \<Longrightarrow> utf8_head (word_of_nat c # bs) = Some (c, 1)"
  by (simp add: utf8_head_def)

lemma base64_digits_3: "c div 4096 * 4096 + c div 64 mod 64 * 64 + c mod 64 = (c :: nat)"
proof -
  have "c div 4096 = c div 64 div 64" using div_mult2_eq [of c 64 64] by simp
  with div_mult_mod_eq [of c 64] div_mult_mod_eq [of "c div 64" 64] show ?thesis by linarith
qed

lemma base64_digits_4:
  "c div 262144 * 262144 + c div 4096 mod 64 * 4096 + c div 64 mod 64 * 64 + c mod 64 = (c :: nat)"
proof -
  have "c div 262144 = c div 4096 div 64" using div_mult2_eq [of c 4096 64] by simp
  with div_mult_mod_eq [of "c div 4096" 64] base64_digits_3 [of c] show ?thesis by linarith
qed

lemma continuation_digit: "(0x80 + k mod 64) mod 256 = 0x80 + k mod (64 :: nat)"
proof -
  have "k mod 64 < 64" by simp
  then show ?thesis by simp
qed

lemma unat_continuation: "unat (word_of_nat (0x80 + k mod 64) :: byte) = 0x80 + k mod 64"
  unfolding unat_word_of_nat_byte by (rule continuation_digit)

lemma utf8_head_2:
  assumes "0x80 \<le> c" "c < 0x800"
  shows "utf8_head (utf8_char c @ bs) = Some (c, 2)"
proof -
  have d: "c div 64 < 32" "2 \<le> c div 64" using assms by (auto simp: less_mult_imp_div_less)
  then have n: "unat (word_of_nat (0xC0 + c div 64) :: byte) = 0xC0 + c div 64"
    unfolding unat_word_of_nat_byte by simp
  have e: "utf8_char c = [word_of_nat (0xC0 + c div 64), word_of_nat (0x80 + c mod 64)]"
    using assms by (simp add: utf8_char_def)
  show ?thesis
    unfolding e using assms d div_mult_mod_eq [of c 64]
    by (simp add: utf8_head_def continuation_def Let_def n unat_continuation
        del: of_nat_add unat_word_of_nat_byte)
qed

lemma utf8_head_3:
  assumes "0x800 \<le> c" "c < 0x10000" "scalar_value c"
  shows "utf8_head (utf8_char c @ bs) = Some (c, 3)"
proof -
  have d: "c div 4096 < 16" using assms(2) by (simp add: less_mult_imp_div_less)
  then have n: "unat (word_of_nat (0xE0 + c div 4096) :: byte) = 0xE0 + c div 4096"
    unfolding unat_word_of_nat_byte by simp
  have e: "utf8_char c = [word_of_nat (0xE0 + c div 4096), word_of_nat (0x80 + c div 64 mod 64),
      word_of_nat (0x80 + c mod 64)]"
    using assms by (simp add: utf8_char_def)
  show ?thesis
    unfolding e using assms d base64_digits_3 [of c]
    by (simp add: utf8_head_def continuation_def Let_def n unat_continuation
        del: of_nat_add unat_word_of_nat_byte)
qed

lemma utf8_head_4:
  assumes "0x10000 \<le> c" "scalar_value c"
  shows "utf8_head (utf8_char c @ bs) = Some (c, 4)"
proof -
  have "c < 0x110000" using assms by (auto simp: scalar_value_def)
  then have d: "c div 262144 < 5" by (simp add: less_mult_imp_div_less)
  then have n: "unat (word_of_nat (0xF0 + c div 262144) :: byte) = 0xF0 + c div 262144"
    unfolding unat_word_of_nat_byte by simp
  have e: "utf8_char c = [word_of_nat (0xF0 + c div 262144), word_of_nat (0x80 + c div 4096 mod 64),
      word_of_nat (0x80 + c div 64 mod 64), word_of_nat (0x80 + c mod 64)]"
    using assms by (simp add: utf8_char_def)
  show ?thesis
    unfolding e using assms d base64_digits_4 [of c]
    by (simp add: utf8_head_def continuation_def Let_def n unat_continuation
        del: of_nat_add unat_word_of_nat_byte)
qed

lemma utf8_head_char:
  "scalar_value c \<Longrightarrow> utf8_head (utf8_char c @ bs) = Some (c, length (utf8_char c))"
  using utf8_head_1 [of c bs] utf8_head_2 [of c bs] utf8_head_3 [of c bs] utf8_head_4 [of c bs]
  by (auto simp: utf8_char_def not_less)

lemma utf8_decode_encode: "list_all scalar_value s \<Longrightarrow> utf8_decode (utf8_encode s) = Some s"
proof (induction s)
  case Nil
  then show ?case by (simp add: utf8_encode_def)
next
  case (Cons c s)
  then have "utf8_head (utf8_char c @ utf8_encode s) = Some (c, length (utf8_char c))"
    by (simp add: utf8_head_char)
  from utf8_decode_head [OF this] Cons show ?case by (simp add: utf8_encode_def)
qed

lemma utf8_decode_ascii: "\<forall>b \<in> set bs. unat b < 0x80 \<Longrightarrow> utf8_decode bs = Some (map unat bs)"
proof (induction bs)
  case (Cons b bs)
  then have "utf8_head (b # bs) = Some (unat b, 1)" by (simp add: utf8_head_def)
  from utf8_decode_head [OF this] Cons show ?case by simp
qed simp

lemma utf8_encode_ascii: "\<forall>c \<in> set s. c < 0x80 \<Longrightarrow> utf8_encode s = map word_of_nat s"
  by (induction s) (auto simp: utf8_encode_def utf8_char_def)

end
