(* ===== verification/Zmtp_Greeting.thy ===== *)
theory Zmtp_Greeting
  imports Zmtp_Codec Socket_Options Utf8_Strings
begin

text \<open>
  \<open>monocoque-zmtp/src/greeting.rs\<close>, the greeting half of \<open>handshake.rs\<close> and
  \<open>ZmtpSession::local_greeting\<close>: the fixed 64-byte ZMTP greeting, its validation, the
  security mechanism a socket advertises and the greeting it sends. Every greeting the
  library builds is accepted by its own parser with the mechanism and role it was built from.
\<close>

section \<open>Model\<close>

definition GREETING_SIZE :: nat where
  "GREETING_SIZE = 64"

definition SIGNATURE_HEAD :: byte where
  "SIGNATURE_HEAD = 0xFF"

definition SIGNATURE_TAIL :: byte where
  "SIGNATURE_TAIL = 0x7F"

record zmtp_greeting =
  mechanism :: bytes
  as_server :: bool

text \<open>\<open>iter().position(|&b| b == 0).unwrap_or(len)\<close>: the index of the first NUL.\<close>

definition nul_position :: "bytes \<Rightarrow> nat" where
  "nul_position bs = length (takeWhile (\<lambda>b. b \<noteq> 0) bs)"

definition is_ascii_uppercase :: "byte \<Rightarrow> bool" where
  "is_ascii_uppercase b \<longleftrightarrow> 65 \<le> b \<and> b \<le> 90"

definition is_ascii_digit :: "byte \<Rightarrow> bool" where
  "is_ascii_digit b \<longleftrightarrow> 48 \<le> b \<and> b \<le> 57"

definition greeting_parse :: "bytes \<Rightarrow> (zmtp_error + zmtp_greeting) option" where
  "greeting_parse src =
     (if length src < GREETING_SIZE then Some (Inl Incomplete)
      else if length src \<noteq> GREETING_SIZE then Some (Inl Protocol)
      else do {
        b0 \<leftarrow> idx src 0; b9 \<leftarrow> idx src 9;
        if b0 \<noteq> SIGNATURE_HEAD \<or> b9 \<noteq> SIGNATURE_TAIL then Some (Inl Protocol)
        else do {
          major \<leftarrow> idx src 10;
          if major < 3 then Some (Inl Protocol)
          else do {
            mech \<leftarrow> slice src 12 32;
            let mech_end = nul_position mech in
            if mech_end = 0
               \<or> \<not> list_all (\<lambda>b. is_ascii_uppercase b \<or> is_ascii_digit b) (take mech_end mech)
               \<or> list_ex (\<lambda>b. b \<noteq> 0) (drop mech_end mech)
            then Some (Inl Protocol)
            else do {
              b32 \<leftarrow> idx src 32;
              if 1 < b32 then Some (Inl Protocol)
              else Some (Inr \<lparr>mechanism = mech, as_server = (b32 \<noteq> 0)\<rparr>) }}}})"

definition mechanism_str :: "zmtp_greeting \<Rightarrow> str" where
  "mechanism_str g =
     (case utf8_decode (take (nul_position (mechanism g)) (mechanism g)) of
        Some s \<Rightarrow> s | None \<Rightarrow> lit ''UNKNOWN'')"

subsection \<open>Security mechanisms\<close>

datatype security_mechanism = NullMechanism | PlainMechanism | CurveMechanism

definition from_options :: "socket_options \<Rightarrow> security_mechanism" where
  "from_options opts =
     (if opt_curve_secretkey opts \<noteq> None \<or> opt_curve_server opts then CurveMechanism
      else if opt_plain_server opts \<or> opt_plain_username opts \<noteq> None then PlainMechanism
      else NullMechanism)"

definition as_greeting_bytes :: "security_mechanism \<Rightarrow> bytes" where
  "as_greeting_bytes m =
     (case m of NullMechanism \<Rightarrow> blit ''NULL'' | PlainMechanism \<Rightarrow> blit ''PLAIN''
              | CurveMechanism \<Rightarrow> blit ''CURVE'')"

definition greeting_as_server :: "security_mechanism \<Rightarrow> socket_options \<Rightarrow> bool" where
  "greeting_as_server m opts =
     (case m of CurveMechanism \<Rightarrow> opt_curve_server opts | PlainMechanism \<Rightarrow> opt_plain_server opts
              | NullMechanism \<Rightarrow> False)"

text \<open>\<open>20usize.saturating_sub(mech_name.len())\<close> is the truncating subtraction of \<open>nat\<close>.\<close>

definition build_greeting_with_mechanism :: "security_mechanism \<Rightarrow> socket_options \<Rightarrow> bytes" where
  "build_greeting_with_mechanism m opts =
     [0xFF] @ replicate 8 0 @ [0x7F] @ [0x03, 0x00]
     @ as_greeting_bytes m @ replicate (20 - length (as_greeting_bytes m)) 0
     @ [if greeting_as_server m opts then 1 else 0] @ replicate 31 0"

definition parse_greeting_mechanism :: "bytes \<Rightarrow> zmtp_error + security_mechanism" where
  "parse_greeting_mechanism field =
     (let name = take (nul_position field) field in
      if name = blit ''NULL'' then Inr NullMechanism
      else if name = blit ''PLAIN'' then Inr PlainMechanism
      else if name = blit ''CURVE'' then Inr CurveMechanism
      else Inl Protocol)"

text \<open>\<open>session.rs: ZmtpSession::local_greeting\<close>.\<close>

definition local_greeting :: bytes where
  "local_greeting =
     [0xFF] @ replicate 8 0 @ [0x7F] @ [0x03, 0x00] @ blit ''NULL'' @ replicate 16 0
     @ [0x00] @ replicate 31 0"

section \<open>What the parser accepts\<close>

text \<open>The layout of a valid greeting, as the table in the documentation of \<open>parse\<close>.\<close>

definition valid_greeting :: "bytes \<Rightarrow> bool" where
  "valid_greeting src \<longleftrightarrow>
     length src = 64 \<and> src ! 0 = 0xFF \<and> src ! 9 = 0x7F \<and> 3 \<le> src ! 10 \<and> src ! 32 \<le> 1 \<and>
     (\<exists>name k. take 20 (drop 12 src) = name @ replicate k 0 \<and> name \<noteq> [] \<and>
        (\<forall>b \<in> set name. is_ascii_uppercase b \<or> is_ascii_digit b))"

lemma mechanism_char_nonzero:
  "is_ascii_uppercase b \<or> is_ascii_digit b \<Longrightarrow> b \<noteq> 0 \<and> unat b < 0x80"
  by (auto simp: is_ascii_uppercase_def is_ascii_digit_def word_le_nat_alt)

lemma nul_position_padded:
  assumes "\<forall>b \<in> set name. b \<noteq> 0"
  shows "nul_position (name @ replicate k 0) = length name"
proof -
  have "takeWhile (\<lambda>b. b \<noteq> 0) (name @ replicate k 0) = name"
    using assms by (subst takeWhile_append2) (auto simp: takeWhile_eq_Nil_iff hd_replicate)
  then show ?thesis by (simp add: nul_position_def)
qed

lemma nul_padding:
  "\<not> list_ex (\<lambda>b. b \<noteq> 0) (drop n bs) \<Longrightarrow> drop n bs = replicate (length bs - n) (0 :: byte)"
  by (rule replicate_eqI) (auto simp: list_ex_iff)

lemma mechanism_field_iff:
  "(\<exists>name k. mech = name @ replicate k 0 \<and> name \<noteq> [] \<and>
      (\<forall>b \<in> set name. is_ascii_uppercase b \<or> is_ascii_digit b)) \<longleftrightarrow>
   nul_position mech \<noteq> 0 \<and>
   list_all (\<lambda>b. is_ascii_uppercase b \<or> is_ascii_digit b) (take (nul_position mech) mech) \<and>
   \<not> list_ex (\<lambda>b. b \<noteq> 0) (drop (nul_position mech) mech)" (is "?L \<longleftrightarrow> ?R")
proof
  assume ?L
  then obtain name k where m: "mech = name @ replicate k 0" "name \<noteq> []"
    "\<forall>b \<in> set name. is_ascii_uppercase b \<or> is_ascii_digit b" by blast
  then have "nul_position mech = length name"
    using mechanism_char_nonzero by (auto intro: nul_position_padded)
  with m show ?R by (auto simp: list_all_iff list_ex_iff)
next
  assume R: ?R
  let ?n = "nul_position mech"
  have "drop ?n mech = replicate (length mech - ?n) 0"
    using R by (intro nul_padding) simp
  then have "mech = take ?n mech @ replicate (length mech - ?n) 0"
    using append_take_drop_id [of ?n mech] by simp
  moreover have "take ?n mech \<noteq> []"
    using R by (auto simp: nul_position_def)
  moreover have "\<forall>b \<in> set (take ?n mech). is_ascii_uppercase b \<or> is_ascii_digit b"
    using R by (simp add: list_all_iff)
  ultimately show ?L by blast
qed

lemma greeting_parse_total: "\<exists>r. greeting_parse src = Some r"
  by (simp add: greeting_parse_def GREETING_SIZE_def Let_def)

lemma greeting_parse_Inr:
  "greeting_parse src = Some (Inr g) \<longleftrightarrow>
     valid_greeting src \<and> g = \<lparr>mechanism = take 20 (drop 12 src), as_server = (src ! 32 \<noteq> 0)\<rparr>"
proof (cases "length src = 64")
  case False
  then show ?thesis by (simp add: greeting_parse_def GREETING_SIZE_def valid_greeting_def)
next
  case True
  have i: "idx src 0 = Some (src ! 0)" "idx src 9 = Some (src ! 9)" "idx src 10 = Some (src ! 10)"
    "idx src 32 = Some (src ! 32)" "slice src 12 32 = Some (take 20 (drop 12 src))"
    using True by simp_all
  show ?thesis
    unfolding valid_greeting_def mechanism_field_iff greeting_parse_def GREETING_SIZE_def
      SIGNATURE_HEAD_def SIGNATURE_TAIL_def i Let_def True bind.bind_lunit not_less
    by (simp only: True not_less_iff_gr_or_eq split: if_split) fastforce
qed

lemma mechanism_bytes_ok:
  "as_greeting_bytes m \<noteq> []" "length (as_greeting_bytes m) \<le> 5"
  "\<forall>b \<in> set (as_greeting_bytes m). is_ascii_uppercase b \<or> is_ascii_digit b"
  by (cases m; simp add: as_greeting_bytes_def is_ascii_uppercase_def)+

lemma greeting_parse_Incomplete:
  "greeting_parse src = Some (Inl Incomplete) \<longleftrightarrow> length src < 64"
  by (auto simp: greeting_parse_def GREETING_SIZE_def Let_def)

lemma take_nul_position_padded:
  assumes "\<forall>b \<in> set name. is_ascii_uppercase b \<or> is_ascii_digit b"
  shows "take (nul_position (name @ replicate k 0)) (name @ replicate k 0) = name"
proof -
  have "\<forall>b \<in> set name. b \<noteq> 0" using assms mechanism_char_nonzero by blast
  then show ?thesis by (simp add: nul_position_padded)
qed

lemma mechanism_str_padded:
  assumes "\<forall>b \<in> set name. is_ascii_uppercase b \<or> is_ascii_digit b"
    and "mechanism g = name @ replicate k 0"
  shows "mechanism_str g = map unat name"
proof -
  have "\<forall>b \<in> set name. unat b < 0x80" using assms(1) mechanism_char_nonzero by blast
  then show ?thesis
    using take_nul_position_padded [OF assms(1)] utf8_decode_ascii [of name]
    by (simp add: mechanism_str_def assms(2))
qed

text \<open>The fields of a greeting the library builds.\<close>

lemma build_greeting_fields:
  fixes m opts
  defines "gr \<equiv> build_greeting_with_mechanism m opts"
  shows "length gr = 64" "gr ! 0 = 0xFF" "gr ! 9 = 0x7F" "gr ! 10 = 3"
    "gr ! 32 = (if greeting_as_server m opts then 1 else 0)"
    "take 20 (drop 12 gr) = as_greeting_bytes m @ replicate (20 - length (as_greeting_bytes m)) 0"
proof -
  let ?n = "as_greeting_bytes m" let ?z = "replicate (20 - length (as_greeting_bytes m)) (0 :: byte)"
  let ?h = "[0xFF] @ replicate 8 0 @ [0x7F] @ [0x03, 0x00] :: bytes"
  let ?f = "if greeting_as_server m opts then 1 else 0 :: byte"
  have g: "gr = ?h @ (?n @ ?z) @ ?f # replicate 31 0"
    by (simp add: gr_def build_greeting_with_mechanism_def)
  have l: "length ?h = 12" "length (?n @ ?z) = 20"
    using mechanism_bytes_ok(2) [of m] by simp_all
  show "length gr = 64" unfolding g using l by (simp only: length_append) simp
  show "take 20 (drop 12 gr) = ?n @ ?z" unfolding g using l by (simp only: drop_append take_append) simp
  show "gr ! 32 = ?f" unfolding g using l by (simp only: nth_append) simp
  show "gr ! 0 = 0xFF" "gr ! 9 = 0x7F" "gr ! 10 = 3" unfolding g by (simp_all add: nth_append nth_Cons')
qed

lemma valid_build_greeting: "valid_greeting (build_greeting_with_mechanism m opts)"
  unfolding valid_greeting_def build_greeting_fields
  using mechanism_bytes_ok [of m] by auto

lemma local_greeting_build: "local_greeting = build_greeting_with_mechanism NullMechanism opts"
  by (simp add: local_greeting_def build_greeting_with_mechanism_def as_greeting_bytes_def
      greeting_as_server_def)

lemma parse_greeting_mechanism_padded:
  "parse_greeting_mechanism (as_greeting_bytes m @ replicate k 0) = Inr m"
proof -
  have "take (nul_position (as_greeting_bytes m @ replicate k 0)) (as_greeting_bytes m @ replicate k 0)
    = as_greeting_bytes m"
    by (rule take_nul_position_padded [OF mechanism_bytes_ok(3)])
  then show ?thesis
    by (cases m) (simp_all add: parse_greeting_mechanism_def as_greeting_bytes_def)
qed

section \<open>Properties\<close>

text \<open>\<open>ZmtpGreeting::parse\<close> never panics, reports \<open>Incomplete\<close> exactly on inputs shorter than
  64 bytes, and accepts exactly the documented layout: 64 bytes, both signature bytes, a
  major version of at least 3, an upper-case or digit mechanism name padded with NULs and a
  role byte of 0 or 1; the parsed record holds the mechanism field and the role.\<close>

theorem greeting_parse_correct:
  "greeting_parse src \<noteq> None \<and>
   (greeting_parse src = Some (Inl Incomplete) \<longleftrightarrow> length src < 64) \<and>
   (greeting_parse src = Some (Inr g) \<longleftrightarrow>
      (length src = 64 \<and> src ! 0 = 0xFF \<and> src ! 9 = 0x7F \<and> 3 \<le> src ! 10 \<and> src ! 32 \<le> 1 \<and>
       (\<exists>name k. take 20 (drop 12 src) = name @ replicate k 0 \<and> name \<noteq> [] \<and>
          list_all (\<lambda>b. is_ascii_uppercase b \<or> is_ascii_digit b) name)) \<and>
      g = \<lparr>mechanism = take 20 (drop 12 src), as_server = (src ! 32 \<noteq> 0)\<rparr>)"
proof (intro conjI)
  show "greeting_parse src \<noteq> None" using greeting_parse_total [of src] by auto
  show "greeting_parse src = Some (Inl Incomplete) \<longleftrightarrow> length src < 64"
    by (rule greeting_parse_Incomplete)
qed (simp only: greeting_parse_Inr valid_greeting_def list_all_iff)

text \<open>The greeting a socket builds for any options is 64 bytes long and is accepted by the
  parser, which recovers the mechanism the options select and the server role; the
  mechanism of the raw field and the trimmed name agree with it. The greeting of the sans-IO
  session is the NULL instance.\<close>

theorem greeting_roundtrip:
  "\<exists>g. greeting_parse (build_greeting_with_mechanism m opts) = Some (Inr g) \<and>
     parse_greeting_mechanism (mechanism g) = Inr m \<and>
     mechanism_str g = map unat (as_greeting_bytes m) \<and>
     as_server g = greeting_as_server m opts \<and>
     local_greeting = build_greeting_with_mechanism NullMechanism opts"
proof -
  let ?gr = "build_greeting_with_mechanism m opts"
  let ?g = "\<lparr>mechanism = take 20 (drop 12 ?gr), as_server = (?gr ! 32 \<noteq> 0)\<rparr>"
  have "greeting_parse ?gr = Some (Inr ?g)"
    using valid_build_greeting [of m opts] by (simp add: greeting_parse_Inr)
  moreover have "mechanism ?g = as_greeting_bytes m @ replicate (20 - length (as_greeting_bytes m)) 0"
    by (simp add: build_greeting_fields)
  moreover have "as_server ?g = greeting_as_server m opts"
    by (simp add: build_greeting_fields)
  ultimately show ?thesis
    using mechanism_str_padded [OF mechanism_bytes_ok(3)] local_greeting_build
    by (metis parse_greeting_mechanism_padded)
qed

end
