(* ===== verification/Zmtp_Ready.thy ===== *)
theory Zmtp_Ready
  imports Zmtp_Greeting
begin

text \<open>
  The READY command: \<open>session.rs: SocketType\<close>, \<open>utils.rs: build_ready\<close> and
  \<open>put_property\<close>, \<open>handshake.rs: parse_ready_command\<close> and \<open>parse_socket_type\<close>. The parser
  works on raw offsets into the body; it never indexes out of range, and it accepts exactly
  the encodings of property lists with one known \<open>Socket-Type\<close> and at most one \<open>Identity\<close>
  of at most 255 bytes.
\<close>

section \<open>Model\<close>

datatype socket_type =
    StPair | StDealer | StRouter | StPub | StSub | StReq | StRep | StPush | StPull | StXpub | StXsub

definition socket_type_as_str :: "socket_type \<Rightarrow> str" where
  "socket_type_as_str t =
     (case t of
        StPair \<Rightarrow> lit ''PAIR'' | StDealer \<Rightarrow> lit ''DEALER'' | StRouter \<Rightarrow> lit ''ROUTER''
      | StPub \<Rightarrow> lit ''PUB'' | StSub \<Rightarrow> lit ''SUB'' | StReq \<Rightarrow> lit ''REQ'' | StRep \<Rightarrow> lit ''REP''
      | StPush \<Rightarrow> lit ''PUSH'' | StPull \<Rightarrow> lit ''PULL'' | StXpub \<Rightarrow> lit ''XPUB''
      | StXsub \<Rightarrow> lit ''XSUB'')"

definition parse_socket_type :: "bytes \<Rightarrow> zmtp_error + socket_type" where
  "parse_socket_type v =
     (if v = blit ''PAIR'' then Inr StPair
      else if v = blit ''DEALER'' then Inr StDealer
      else if v = blit ''ROUTER'' then Inr StRouter
      else if v = blit ''PUB'' then Inr StPub
      else if v = blit ''SUB'' then Inr StSub
      else if v = blit ''XPUB'' then Inr StXpub
      else if v = blit ''XSUB'' then Inr StXsub
      else if v = blit ''REQ'' then Inr StReq
      else if v = blit ''REP'' then Inr StRep
      else if v = blit ''PUSH'' then Inr StPush
      else if v = blit ''PULL'' then Inr StPull
      else Inl Protocol)"

definition put_property :: "bytes \<Rightarrow> str \<Rightarrow> bytes \<Rightarrow> bytes" where
  "put_property dst name v =
     (let name_bytes = utf8_encode name in
      dst @ [word_of_nat (length name_bytes)] @ name_bytes @ be_bytes 4 (length v) @ v)"

definition build_ready :: "str \<Rightarrow> bytes option \<Rightarrow> bytes" where
  "build_ready st ident =
     (let body = [5] @ blit ''READY'';
          body1 = put_property body (lit ''Socket-Type'') (utf8_encode st)
      in case ident of
           Some i \<Rightarrow> put_property body1 (lit ''Identity'') i
         | None \<Rightarrow> body1)"

subsection \<open>parse_ready_command\<close>

text \<open>
  One iteration of the property loop up to the \<open>match\<close>: the key, the value range and the
  new offset. The value length is a \<open>u32\<close>, so the additions stay far below \<open>usize::MAX\<close>.
\<close>

definition ready_property ::
  "bytes \<Rightarrow> nat \<Rightarrow> (zmtp_error + bytes \<times> nat \<times> nat \<times> nat) option" where
  "ready_property body off =
     (if length body < off + 1 then Some (Inl Protocol)
      else do {
        kb \<leftarrow> idx body off;
        let key_len = unat kb; off1 = off + 1 in
        if length body < off1 + key_len then Some (Inl Protocol)
        else do {
          key \<leftarrow> slice body off1 (off1 + key_len);
          let off2 = off1 + key_len in
          if length body < off2 + 4 then Some (Inl Protocol)
          else do {
            b0 \<leftarrow> idx body off2; b1 \<leftarrow> idx body (off2 + 1);
            b2 \<leftarrow> idx body (off2 + 2); b3 \<leftarrow> idx body (off2 + 3);
            let value_len = be_val [b0, b1, b2, b3]; off3 = off2 + 4 in
            if length body < off3 + value_len then Some (Inl Protocol)
            else Some (Inr (key, off3, off3 + value_len, off3 + value_len)) }}})"

type_synonym ready_acc = "socket_type option \<times> bytes option"

text \<open>The \<open>match key\<close> of one iteration.\<close>

definition ready_match ::
  "bytes \<Rightarrow> bytes \<Rightarrow> nat \<Rightarrow> nat \<Rightarrow> ready_acc \<Rightarrow> (zmtp_error + ready_acc) option" where
  "ready_match body key v0 v1 acc =
     (case acc of (st, ident) \<Rightarrow>
      if key = blit ''Socket-Type'' then
        (if st \<noteq> None then Some (Inl Protocol)
         else do {
           v \<leftarrow> slice body v0 v1;
           Some (case parse_socket_type v of Inl e \<Rightarrow> Inl e | Inr t \<Rightarrow> Inr (Some t, ident)) })
      else if key = blit ''Identity'' then
        (if ident \<noteq> None then Some (Inl Protocol)
         else if 255 < v1 - v0 then Some (Inl Protocol)
         else do { v \<leftarrow> slice body v0 v1; Some (Inr (st, Some v)) })
      else Some (Inr (st, ident)))"

lemma ready_property_bounds:
  "ready_property body off = Some (Inr (key, v0, v1, off')) \<Longrightarrow>
     off < v0 \<and> v0 \<le> v1 \<and> v1 = off' \<and> off' \<le> length body"
  by (auto simp: ready_property_def Let_def split: if_splits bind_splits)

function ready_loop :: "bytes \<Rightarrow> nat \<Rightarrow> ready_acc \<Rightarrow> (zmtp_error + ready_acc) option" where
  "ready_loop body off acc =
     (if off < length body then do {
        p \<leftarrow> ready_property body off;
        case p of
          Inl e \<Rightarrow> Some (Inl e)
        | Inr (key, v0, v1, off') \<Rightarrow> do {
            m \<leftarrow> ready_match body key v0 v1 acc;
            case m of Inl e \<Rightarrow> Some (Inl e) | Inr acc' \<Rightarrow> ready_loop body off' acc' }}
      else Some (Inr acc))"
  by pat_completeness auto
termination
  by (relation "measure (\<lambda>(body, off, _). length body - off)")
    (auto dest!: ready_property_bounds)

declare ready_loop.simps [simp del]

definition parse_ready_command :: "bytes \<Rightarrow> (zmtp_error + socket_type \<times> bytes option) option" where
  "parse_ready_command body =
     (if length body < 6 then Some (Inl Protocol)
      else do {
        nl \<leftarrow> idx body 0;
        name \<leftarrow> slice body 1 6;
        if unat nl \<noteq> 5 \<or> name \<noteq> blit ''READY'' then Some (Inl Protocol)
        else do {
          r \<leftarrow> ready_loop body 6 (None, None);
          Some (case r of
                  Inl e \<Rightarrow> Inl e
                | Inr (None, _) \<Rightarrow> Inl Protocol
                | Inr (Some t, ident) \<Rightarrow> Inr (t, ident)) }})"

section \<open>Property lists\<close>

text \<open>The encoding of a property list and what it means to read it.\<close>

definition enc_property :: "bytes \<times> bytes \<Rightarrow> bytes" where
  "enc_property p = word_of_nat (length (fst p)) # fst p @ be_bytes 4 (length (snd p)) @ snd p"

definition enc_properties :: "(bytes \<times> bytes) list \<Rightarrow> bytes" where
  "enc_properties ps = concat (map enc_property ps)"

definition ok_property :: "bytes \<times> bytes \<Rightarrow> bool" where
  "ok_property p \<longleftrightarrow> length (fst p) \<le> 255 \<and> length (snd p) < 2 ^ 32"

definition ready_values :: "bytes \<Rightarrow> (bytes \<times> bytes) list \<Rightarrow> bytes list" where
  "ready_values k ps = map snd (filter (\<lambda>p. fst p = k) ps)"

primrec opt_list :: "'a option \<Rightarrow> 'a list" where
  "opt_list None = []"
| "opt_list (Some x) = [x]"

lemma enc_properties_simps [simp]:
  "enc_properties [] = []"
  "enc_properties (p # ps) = enc_property p @ enc_properties ps"
  by (simp_all add: enc_properties_def)

lemma ready_values_simps [simp]:
  "ready_values k [] = []"
  "ready_values k (p # ps) = (if fst p = k then snd p # ready_values k ps else ready_values k ps)"
  by (simp_all add: ready_values_def)

lemma opt_list_eq_Nil [simp]: "opt_list x = [] \<longleftrightarrow> x = None"
  by (cases x) auto

lemma length_opt_list_le: "length (opt_list x) \<le> 1"
  by (cases x) auto

lemma opt_list_inject [simp]: "opt_list x = opt_list y \<longleftrightarrow> x = y"
  by (cases x; cases y) auto

lemma take_4_idx:
  assumes "off + 4 \<le> length body"
  shows "take 4 (drop off body) = [body ! off, body ! (off + 1), body ! (off + 2), body ! (off + 3)]"
  by (rule nth_equalityI) (use assms in \<open>auto simp: less_Suc_eq numeral_eq_Suc\<close>)

text \<open>Reading one well-formed property at an offset.\<close>

lemma ready_property_enc:
  assumes "drop off body = enc_property (k, v) @ rest" and "ok_property (k, v)"
  shows "ready_property body off =
      Some (Inr (k, off + 5 + length k, off + 5 + length k + length v, off + 5 + length k + length v))"
    and "slice body (off + 5 + length k) (off + 5 + length k + length v) = Some v"
    and "drop (off + 5 + length k + length v) body = rest"
    and "off < length body"
proof -
  let ?kb = "word_of_nat (length k) :: byte" let ?vb = "be_bytes 4 (length v)"
  have d0: "drop off body = ?kb # k @ ?vb @ v @ rest"
    using assms(1) by (simp add: enc_property_def)
  then show l: "off < length body" by (metis drop_all linorder_not_le list.distinct(1))
  have len: "length body = off + 5 + length k + length v + length rest"
    using arg_cong [OF d0, of length] l by simp
  have d1: "drop (off + 1) body = k @ ?vb @ v @ rest"
    using d0 by (metis add.commute drop_drop drop0 drop_Suc_Cons One_nat_def)
  have d2: "drop (off + 1 + length k) body = ?vb @ v @ rest"
    using arg_cong [OF d1, of "drop (length k)"] by (simp add: add.commute)
  have d3: "drop (off + 5 + length k) body = v @ rest"
    using arg_cong [OF d2, of "drop 4"] by (simp add: add_ac)
  have kb: "idx body off = Some ?kb"
    using l d0 by (metis idx_Some hd_drop_conv_nth list.sel(1))
  have uk: "unat ?kb = length k" using assms(2) by (simp add: ok_property_def)
  have "take 4 (drop (off + 1 + length k) body) = ?vb" unfolding d2 by simp
  then have vb: "[body ! (off + 1 + length k), body ! (off + 1 + length k + 1),
      body ! (off + 1 + length k + 2), body ! (off + 1 + length k + 3)] = ?vb"
    using take_4_idx [of "off + 1 + length k" body] len by simp
  have "be_val ?vb = length v" using assms(2) by (simp add: ok_property_def)
  then have bv: "be_val [body ! (off + 1 + length k), body ! (off + 1 + length k + 1),
      body ! (off + 1 + length k + 2), body ! (off + 1 + length k + 3)] = length v"
    unfolding vb .
  have key: "slice body (off + 1) (off + 1 + length k) = Some k"
    using len d1 by simp
  show "slice body (off + 5 + length k) (off + 5 + length k + length v) = Some v"
    using len d3 by simp
  show "drop (off + 5 + length k + length v) body = rest"
    using arg_cong [OF d3, of "drop (length v)"] by (simp add: add_ac)
  show "ready_property body off =
      Some (Inr (k, off + 5 + length k, off + 5 + length k + length v, off + 5 + length k + length v))"
    using len bv unfolding ready_property_def kb Option.bind.bind_lunit Let_def uk key
    by (simp add: add_ac)
qed

text \<open>The loop on the encoding of a property list is the fold of \<open>ready_step\<close>.\<close>

definition ready_step :: "bytes \<times> bytes \<Rightarrow> ready_acc \<Rightarrow> zmtp_error + ready_acc" where
  "ready_step p acc =
     (case acc of (st, ident) \<Rightarrow>
      if fst p = blit ''Socket-Type'' then
        (if st \<noteq> None then Inl Protocol
         else case parse_socket_type (snd p) of Inl e \<Rightarrow> Inl e | Inr t \<Rightarrow> Inr (Some t, ident))
      else if fst p = blit ''Identity'' then
        (if ident \<noteq> None \<or> 255 < length (snd p) then Inl Protocol else Inr (st, Some (snd p)))
      else Inr (st, ident))"

fun ready_fold :: "(bytes \<times> bytes) list \<Rightarrow> ready_acc \<Rightarrow> zmtp_error + ready_acc" where
  "ready_fold [] acc = Inr acc"
| "ready_fold (p # ps) acc =
     (case ready_step p acc of Inl e \<Rightarrow> Inl e | Inr acc' \<Rightarrow> ready_fold ps acc')"

lemma ready_match_step:
  assumes "slice body v0 v1 = Some v" and "v1 - v0 = length v"
  shows "ready_match body k v0 v1 acc = Some (ready_step (k, v) acc)"
  using assms by (cases acc) (simp add: ready_match_def ready_step_def)

lemma ready_loop_enc:
  assumes "drop off body = enc_properties ps" and "off \<le> length body" and "list_all ok_property ps"
  shows "ready_loop body off acc = Some (ready_fold ps acc)"
  using assms
proof (induction ps arbitrary: off acc)
  case Nil
  then show ?case by (simp add: ready_loop.simps)
next
  case (Cons p ps)
  obtain k v where p: "p = (k, v)" by (cases p)
  let ?v0 = "off + 5 + length k" let ?v1 = "?v0 + length v"
  from Cons.prems p have d: "drop off body = enc_property (k, v) @ enc_properties ps"
    and ok: "ok_property (k, v)" by simp_all
  note r = ready_property_enc [OF d ok]
  have m: "ready_match body k ?v0 ?v1 acc = Some (ready_step (k, v) acc)"
    by (rule ready_match_step [OF r(2)]) simp
  have le: "?v1 \<le> length body"
    using ready_property_bounds [OF r(1)] by simp
  have "ready_loop body off acc =
      (case ready_step (k, v) acc of Inl e \<Rightarrow> Some (Inl e) | Inr acc' \<Rightarrow> ready_loop body ?v1 acc')"
    using r(4) by (subst ready_loop.simps) (simp add: r(1) m)
  then show ?case
    using Cons.IH [OF r(3) le] Cons.prems(3) by (simp add: p split: sum.splits)
qed

text \<open>Conversely, what the loop accepts is such an encoding.\<close>

lemma ready_property_inv:
  assumes "ready_property body off = Some (Inr (k, v0, v1, off'))"
  obtains v where "drop off body = enc_property (k, v) @ drop off' body" "ok_property (k, v)"
    "slice body v0 v1 = Some v" "v1 - v0 = length v"
proof -
  define kl where "kl = unat (body ! off)"
  define o2 where "o2 = off + 1 + kl"
  define lb where "lb = take 4 (drop o2 body)"
  define v where "v = take (be_val lb) (drop (o2 + 4) body)"
  have b: "o2 + 4 \<le> length body" "k = take kl (drop (off + 1) body)"
    using assms by (auto simp: o2_def kl_def ready_property_def Let_def split: if_splits bind_splits)
  have c: "v0 = o2 + 4" "v1 = o2 + 4 + be_val lb" "off' = v1" "o2 + 4 + be_val lb \<le> length body"
    using assms b(1) unfolding lb_def take_4_idx [OF b(1)]
    by (auto simp: o2_def kl_def ready_property_def Let_def not_less add_ac split: if_splits bind_splits)
  have lk: "length k = kl" using b by (simp add: o2_def)
  have lb: "length lb = 4" using b(1) by (simp add: lb_def)
  have lv: "length v = be_val lb" using c(4) by (simp add: v_def)
  have "drop off body = body ! off # drop (off + 1) body"
    using b(1) by (simp add: o2_def Cons_nth_drop_Suc)
  moreover have "drop (off + 1) body = k @ drop o2 body"
    using append_take_drop_id [of kl "drop (off + 1) body"] b(2) by (simp add: o2_def add_ac)
  moreover have "drop o2 body = lb @ drop (o2 + 4) body"
    using append_take_drop_id [of 4 "drop o2 body"] by (simp add: lb_def add_ac)
  moreover have "drop (o2 + 4) body = v @ drop off' body"
    using append_take_drop_id [of "be_val lb" "drop (o2 + 4) body"] c by (simp add: v_def add_ac)
  moreover have "lb = be_bytes 4 (length v)"
    using be_bytes_be_val [of lb] lb lv by simp
  moreover have "body ! off = word_of_nat (length k)" by (simp add: lk kl_def)
  ultimately have "drop off body = enc_property (k, v) @ drop off' body"
    by (simp add: enc_property_def)
  moreover have "ok_property (k, v)"
    using be_val_less [of lb] unat_byte_less [of "body ! off"] lb lv
    by (simp add: ok_property_def lk kl_def less_Suc_eq_le del: unat_byte_less)
  moreover have "slice body v0 v1 = Some v" using c by (simp add: v_def)
  moreover have "v1 - v0 = length v" using c lv by simp
  ultimately show ?thesis using that by blast
qed

lemma ready_loop_inv:
  assumes "ready_loop body off acc = Some (Inr r)" and "off \<le> length body"
  shows "\<exists>ps. drop off body = enc_properties ps \<and> list_all ok_property ps"
  using assms
proof (induction body off acc rule: ready_loop.induct)
  case (1 body off acc)
  show ?case
  proof (cases "off < length body")
    case False
    then show ?thesis by (intro exI [of _ "[]"]) simp
  next
    case True
    with 1(2) obtain k v0 v1 off' acc' where
      p: "ready_property body off = Some (Inr (k, v0, v1, off'))"
      and m: "ready_match body k v0 v1 acc = Some (Inr acc')"
      and l: "ready_loop body off' acc' = Some (Inr r)"
      by (subst (asm) ready_loop.simps) (auto split: bind_splits sum.splits)
    from p obtain v where v: "drop off body = enc_property (k, v) @ drop off' body" "ok_property (k, v)"
      by (rule ready_property_inv)
    have "\<exists>ps. drop off' body = enc_properties ps \<and> list_all ok_property ps"
      using 1(1) [OF True p _ _ _ _ m] l ready_property_bounds [OF p] by blast
    then obtain ps where "drop off' body = enc_properties ps" "list_all ok_property ps" by blast
    with v show ?thesis by (intro exI [of _ "(k, v) # ps"]) simp
  qed
qed

lemma ready_property_total: "off < length body \<Longrightarrow> ready_property body off \<noteq> None"
  by (simp add: ready_property_def Let_def)

lemma ready_match_total: "v0 \<le> v1 \<Longrightarrow> v1 \<le> length body \<Longrightarrow> ready_match body k v0 v1 acc \<noteq> None"
  by (cases acc) (simp add: ready_match_def)

lemma ready_loop_total: "off \<le> length body \<Longrightarrow> ready_loop body off acc \<noteq> None"
proof (induction body off acc rule: ready_loop.induct)
  case (1 body off acc)
  show ?case
  proof (cases "off < length body")
    case True
    then obtain p where p: "ready_property body off = Some p"
      using ready_property_total by blast
    show ?thesis
    proof (cases p)
      case (Inl e)
      with True p show ?thesis by (simp add: ready_loop.simps [of body off])
    next
      case (Inr q)
      obtain k v0 v1 off' where q: "q = (k, v0, v1, off')" by (cases q)
      note bnd = ready_property_bounds [of body off k v0 v1 off', unfolded p Inr q, OF refl]
      then obtain m where m: "ready_match body k v0 v1 acc = Some m"
        using ready_match_total by blast
      have "ready_loop body off' acc' \<noteq> None" if "m = Inr acc'" for acc'
        using 1(1) [OF True p Inr q [symmetric] refl refl m that] bnd by simp
      with True p Inr q m show ?thesis
        by (subst ready_loop.simps) (simp split: sum.splits)
    qed
  qed (simp add: ready_loop.simps)
qed

section \<open>What the parser accepts\<close>

lemma parse_socket_type_error: "parse_socket_type v = Inl e \<Longrightarrow> e = Protocol"
  by (auto simp: parse_socket_type_def split: if_splits)

text \<open>The accumulated socket type and identity are the values of the two keys seen so far.\<close>

lemma ready_fold_iff:
  "ready_fold ps (st, ident) = Inr (st', ident') \<longleftrightarrow>
     map Inr (opt_list st') = map Inr (opt_list st) @ map parse_socket_type (ready_values (blit ''Socket-Type'') ps) \<and>
     opt_list ident' = opt_list ident @ ready_values (blit ''Identity'') ps \<and>
     list_all (\<lambda>v. length v \<le> 255) (ready_values (blit ''Identity'') ps)"
proof (induction ps arbitrary: st ident)
  case Nil
  have "inj (Inr :: socket_type \<Rightarrow> zmtp_error + socket_type)" by (simp add: inj_def)
  then show ?case by (auto simp: inj_map_eq_map)
next
  case (Cons p ps)
  have two: "\<not> (map f (opt_list x) = y # z # zs)" "\<not> (opt_list x' = y' # z' # zs')"
    for f :: "socket_type \<Rightarrow> zmtp_error + socket_type" and x y z zs and x' :: "bytes option" and y' z' zs'
    using length_opt_list_le [of x] length_opt_list_le [of x'] by (cases x; simp) (cases x'; simp)
  consider (st) "fst p = blit ''Socket-Type''" | (ident) "fst p = blit ''Identity''"
    | (other) "fst p \<noteq> blit ''Socket-Type''" "fst p \<noteq> blit ''Identity''" by blast
  then show ?case
  proof cases
    case st
    then show ?thesis
      using Cons.IH
      by (cases st; cases "parse_socket_type (snd p)") (auto simp: ready_step_def two)
  next
    case ident
    then show ?thesis
      using Cons.IH by (cases ident) (auto simp: ready_step_def two)
  next
    case other
    then show ?thesis using Cons.IH by (simp add: ready_step_def)
  qed
qed

lemma ready_fold_error: "ready_fold ps acc = Inl e \<Longrightarrow> e = Protocol"
  by (induction ps acc rule: ready_fold.induct)
    (auto simp: ready_step_def dest: parse_socket_type_error split: sum.splits prod.splits if_splits)

lemma ready_property_error: "ready_property body off = Some (Inl e) \<Longrightarrow> e = Protocol"
  by (auto simp: ready_property_def Let_def split: if_splits bind_splits)

lemma ready_match_error: "ready_match body k v0 v1 acc = Some (Inl e) \<Longrightarrow> e = Protocol"
  by (auto simp: ready_match_def dest: parse_socket_type_error
      split: if_splits bind_splits prod.splits sum.splits)

lemma ready_loop_error: "ready_loop body off acc = Some (Inl e) \<Longrightarrow> e = Protocol"
proof (induction body off acc rule: ready_loop.induct)
  case (1 body off acc)
  have off: "off < length body"
  proof (rule ccontr)
    assume "\<not> off < length body"
    with 1(2) show False by (simp add: ready_loop.simps [of body off acc])
  qed
  with ready_property_total obtain p where p: "ready_property body off = Some p" by blast
  show ?case
  proof (cases p)
    case (Inl e')
    with 1(2) off p show ?thesis
      using ready_property_error by (simp add: ready_loop.simps [of body off])
  next
    case (Inr q)
    obtain k v0 v1 off' where q: "q = (k, v0, v1, off')" by (cases q)
    note bnd = ready_property_bounds [of body off k v0 v1 off', unfolded p Inr q, OF refl]
    then obtain m where m: "ready_match body k v0 v1 acc = Some m"
      using ready_match_total by blast
    show ?thesis
    proof (cases m)
      case (Inl e')
      with 1(2) off p Inr q m show ?thesis
        using ready_match_error by (simp add: ready_loop.simps [of body off])
    next
      case (Inr acc')
      have "ready_loop body off acc = ready_loop body off' acc'"
        using off p \<open>p = Inr q\<close> q m Inr by (simp add: ready_loop.simps [of body off])
      with 1(1) [OF off p \<open>p = Inr q\<close> q [symmetric] refl refl m Inr] 1(2) show ?thesis by simp
    qed
  qed
qed

definition ready_header :: bytes where
  "ready_header = [5] @ blit ''READY''"

lemma length_ready_header [simp]: "length ready_header = 6"
  by (simp add: ready_header_def)

lemma unat_eq_5: "unat b = 5 \<longleftrightarrow> (b :: byte) = 5"
  by (simp add: word_unat_eq_iff)

lemma parse_ready_unfold:
  "parse_ready_command body =
     (if starts_with body ready_header
      then map_option (\<lambda>r. case r of Inl e \<Rightarrow> Inl e | Inr (None, _) \<Rightarrow> Inl Protocol
                               | Inr (Some t, ident) \<Rightarrow> Inr (t, ident))
             (ready_loop body 6 (None, None))
      else Some (Inl Protocol))"
proof (cases "length body < 6")
  case False
  then have "take 6 body = body ! 0 # take 5 (drop 1 body)"
    by (cases body) simp_all
  then have "starts_with body ready_header \<longleftrightarrow> unat (body ! 0) = 5 \<and> take 5 (drop 1 body) = blit ''READY''"
    using False unfolding starts_with_def length_ready_header
    by (simp add: ready_header_def unat_eq_5)
  moreover have "idx body 0 = Some (body ! 0)" "slice body 1 6 = Some (take 5 (drop 1 body))"
    using False by (auto intro!: idx_Some)
  ultimately show ?thesis
    using False by (cases "ready_loop body 6 (None, None)") (simp_all add: parse_ready_command_def)
qed (simp add: parse_ready_command_def starts_with_def)

lemma parse_ready_total:
  "parse_ready_command body = Some (Inl Protocol) \<or> (\<exists>t i. parse_ready_command body = Some (Inr (t, i)))"
proof (cases "starts_with body ready_header")
  case True
  then have "6 \<le> length body" by (simp add: starts_with_def)
  then obtain r where "ready_loop body 6 (None, None) = Some r"
    using ready_loop_total by blast
  with True ready_loop_error [of body 6] show ?thesis
    by (auto simp: parse_ready_unfold split: sum.splits option.splits)
qed (simp add: parse_ready_unfold)

text \<open>The parser on a header followed by a list of well-formed properties.\<close>

lemma parse_ready_enc:
  assumes "list_all ok_property ps"
  shows "parse_ready_command (ready_header @ enc_properties ps) = Some (Inr (t, ident)) \<longleftrightarrow>
    map parse_socket_type (ready_values (blit ''Socket-Type'') ps) = [Inr t] \<and>
    ready_values (blit ''Identity'') ps = opt_list ident \<and>
    list_all (\<lambda>v. length v \<le> 255) (ready_values (blit ''Identity'') ps)"
proof -
  let ?b = "ready_header @ enc_properties ps"
  have "drop 6 ?b = enc_properties ps" using length_ready_header by (simp only: drop_append) simp
  then have "ready_loop ?b 6 (None, None) = Some (ready_fold ps (None, None))"
    using assms by (intro ready_loop_enc) simp_all
  moreover have "starts_with ?b ready_header" by (simp add: starts_with_prefix)
  ultimately have "parse_ready_command ?b = Some (Inr (t, ident)) \<longleftrightarrow>
      ready_fold ps (None, None) = Inr (Some t, ident)"
    by (auto simp: parse_ready_unfold split: sum.splits option.splits)
  also have "\<dots> \<longleftrightarrow> map parse_socket_type (ready_values (blit ''Socket-Type'') ps) = [Inr t] \<and>
    ready_values (blit ''Identity'') ps = opt_list ident \<and>
    list_all (\<lambda>v. length v \<le> 255) (ready_values (blit ''Identity'') ps)"
    unfolding ready_fold_iff by auto
  finally show ?thesis .
qed

lemma parse_ready_accepts:
  assumes "parse_ready_command body = Some (Inr r)"
  obtains ps where "body = ready_header @ enc_properties ps" "list_all ok_property ps"
proof -
  from assms have sw: "starts_with body ready_header" by (auto simp: parse_ready_unfold split: if_splits)
  with assms obtain z where z: "ready_loop body 6 (None, None) = Some z"
    by (auto simp: parse_ready_unfold)
  with assms sw obtain acc where "z = Inr acc"
    by (cases z) (auto simp: parse_ready_unfold)
  with z have l: "ready_loop body 6 (None, None) = Some (Inr acc)" by simp
  from sw have "6 \<le> length body" "take 6 body = ready_header" by (simp_all add: starts_with_def)
  with ready_loop_inv [OF l] that show ?thesis by (metis append_take_drop_id)
qed

subsection \<open>The library's own READY commands\<close>

lemma parse_socket_type_as_str [simp]:
  "parse_socket_type (utf8_encode (socket_type_as_str t)) = Inr t"
  by (cases t) (simp_all add: socket_type_as_str_def utf8_encode_ascii parse_socket_type_def)

lemma length_socket_type_as_str: "length (utf8_encode (socket_type_as_str t)) \<le> 6"
  by (cases t) (simp_all add: socket_type_as_str_def utf8_encode_ascii)

definition ready_properties :: "str \<Rightarrow> bytes option \<Rightarrow> (bytes \<times> bytes) list" where
  "ready_properties st ident =
     (blit ''Socket-Type'', utf8_encode st) # map (Pair (blit ''Identity'')) (opt_list ident)"

lemma build_ready_enc: "build_ready st ident = ready_header @ enc_properties (ready_properties st ident)"
  by (cases ident) (simp_all add: build_ready_def put_property_def ready_properties_def
      enc_property_def ready_header_def Let_def utf8_encode_ascii)

lemma length_utf8_socket_type: "length (utf8_encode (socket_type_as_str t)) = length (socket_type_as_str t)"
  by (cases t) (simp_all add: socket_type_as_str_def utf8_encode_ascii)

lemma length_build_ready:
  "length (build_ready (socket_type_as_str t) ident) =
     22 + length (socket_type_as_str t) + (case ident of None \<Rightarrow> 0 | Some i \<Rightarrow> 13 + length i)"
  using length_utf8_socket_type [of t]
  by (simp add: build_ready_def put_property_def Let_def utf8_encode_ascii split: option.split)

lemma parse_build_ready:
  assumes "\<And>i. ident = Some i \<Longrightarrow> length i < 2 ^ 32"
  shows "parse_ready_command (build_ready (socket_type_as_str t) ident) =
    Some (if case_option True (\<lambda>i. length i \<le> 255) ident then Inr (t, ident) else Inl Protocol)"
proof -
  let ?ps = "ready_properties (socket_type_as_str t) ident"
  have ok: "list_all ok_property ?ps"
    using assms length_socket_type_as_str [of t]
    by (cases ident) (auto simp: ready_properties_def ok_property_def)
  have "ready_values (blit ''Socket-Type'') ?ps = [utf8_encode (socket_type_as_str t)]"
    "ready_values (blit ''Identity'') ?ps = opt_list ident"
    by (cases ident; simp add: ready_properties_def)+
  with parse_ready_enc [OF ok] have iff: "parse_ready_command (ready_header @ enc_properties ?ps) =
      Some (Inr (t', ident')) \<longleftrightarrow>
      t' = t \<and> ident' = ident \<and> case_option True (\<lambda>i. length i \<le> 255) ident" for t' ident'
    by (cases ident; cases ident') auto
  show ?thesis
    using parse_ready_total [of "ready_header @ enc_properties ?ps"] iff
    unfolding build_ready_enc by auto
qed

section \<open>Properties\<close>

text \<open>\<open>parse_ready_command\<close> never panics on any body, its only error is \<open>Protocol\<close>, and it
  accepts exactly the bodies that are the READY header followed by well-formed properties
  among which \<open>Socket-Type\<close> occurs once with a known value and \<open>Identity\<close> at most once with
  at most 255 bytes; it then returns those two values.\<close>

theorem parse_ready_exact:
  "(parse_ready_command body = Some (Inl Protocol) \<or>
      (\<exists>t i. parse_ready_command body = Some (Inr (t, i)))) \<and>
   (parse_ready_command body = Some (Inr (t, ident)) \<longleftrightarrow>
      (\<exists>ps. list_all ok_property ps \<and> body = [5] @ blit ''READY'' @ enc_properties ps \<and>
         map parse_socket_type (ready_values (blit ''Socket-Type'') ps) = [Inr t] \<and>
         ready_values (blit ''Identity'') ps = opt_list ident \<and>
         list_all (\<lambda>v. length v \<le> 255) (ready_values (blit ''Identity'') ps)))"
  (is "_ \<and> (?L \<longleftrightarrow> ?R)")
proof
  have "?L \<longleftrightarrow> (\<exists>ps. list_all ok_property ps \<and> body = ready_header @ enc_properties ps \<and>
      parse_ready_command (ready_header @ enc_properties ps) = Some (Inr (t, ident)))"
    by (metis parse_ready_accepts)
  then show "?L \<longleftrightarrow> ?R"
    using parse_ready_enc by (auto simp: ready_header_def)
qed (rule parse_ready_total)

text \<open>C32. Parsing the READY command built for any socket type and optional identity returns them,
  when the identity has at most 255 bytes; a longer identity is rejected with \<open>Protocol\<close>.\<close>

theorem ready_roundtrip:
  assumes "\<And>i. ident = Some i \<Longrightarrow> length i < 2 ^ 32"
  shows "parse_ready_command (build_ready (socket_type_as_str t) ident) =
    Some (if case_option True (\<lambda>i. length i \<le> 255) ident then Inr (t, ident) else Inl Protocol)"
  using assms by (rule parse_build_ready)

theorem ready_roundtrip_witness:
  "parse_ready_command (build_ready (lit ''ROUTER'') (Some [1, 2, 3])) = Some (Inr (StRouter, Some [1, 2, 3]))"
  using ready_roundtrip [of "Some [1, 2, 3]" StRouter] by (simp add: socket_type_as_str_def)

end
