(* ===== verification/Zmtp_Session.thy ===== *)
theory Zmtp_Session
  imports Zmtp_Ready
begin

text \<open>
  \<open>monocoque-zmtp/src/session.rs\<close>: the sans-IO ZMTP session, a state machine fed with the
  bytes of the connection that emits handshake bytes, frames and errors.

  The abstract machine \<open>abs_run\<close> works on one plain byte string per phase. \<open>on_bytes\<close>, with
  its segmented buffer, its greeting buffer and its incremental decoder, is a functional
  refinement of it. On the abstract side it is easy to see that the events do not depend on
  how the stream is cut into reads.
\<close>

section \<open>Model\<close>

datatype session_event =
    SendBytes bytes
  | FrameEvent zmtp_frame
  | HandshakeComplete "bytes option" socket_type
  | ErrorEvent zmtp_error

datatype session_state =
    SGreeting bytes
  | SHandshake zmtp_decoder "socket_type option" "bytes option"
  | SActive zmtp_decoder

record zmtp_session =
  sess_state :: session_state
  local_socket_type :: socket_type
  sess_recv :: segbuf
  sess_max_frame_size :: "nat option"

definition make_decoder :: "nat option \<Rightarrow> zmtp_decoder" where
  "make_decoder m = (case m of None \<Rightarrow> decoder_new | Some v \<Rightarrow> decoder_with_max_frame_size v)"

definition session_with_max_frame_size :: "socket_type \<Rightarrow> nat option \<Rightarrow> zmtp_session" where
  "session_with_max_frame_size t m =
     \<lparr>sess_state = SGreeting [], local_socket_type = t, sess_recv = seg_new, sess_max_frame_size = m\<rparr>"

definition session_new :: "socket_type \<Rightarrow> zmtp_session" where
  "session_new t = session_with_max_frame_size t None"

definition session_new_active_with_max_frame_size :: "socket_type \<Rightarrow> nat option \<Rightarrow> zmtp_session" where
  "session_new_active_with_max_frame_size t m =
     \<lparr>sess_state = SActive (make_decoder m), local_socket_type = t, sess_recv = seg_new,
      sess_max_frame_size = m\<rparr>"

definition session_new_active :: "socket_type \<Rightarrow> zmtp_session" where
  "session_new_active t = session_new_active_with_max_frame_size t None"

text \<open>
  One iteration of the loop of \<open>on_bytes\<close>: the events it pushes, the new state, and whether
  the loop goes on (\<open>True\<close>) or breaks.
\<close>

type_synonym session_iteration = "(session_event list \<times> zmtp_session \<times> bool) option"

definition greeting_step :: "zmtp_session \<Rightarrow> bytes \<Rightarrow> session_iteration" where
  "greeting_step s buffer =
     do { needed \<leftarrow> usub 64 (length buffer);
          (r, recv) \<leftarrow> take_bytes (sess_recv s) (min needed (seg_len (sess_recv s)));
          let buffer1 = (case r of Some bs \<Rightarrow> buffer @ bs | None \<Rightarrow> buffer);
              s1 = s\<lparr>sess_recv := recv, sess_state := SGreeting buffer1\<rparr> in
          if length buffer1 < 64 then Some ([], s1, False)
          else do {
            g \<leftarrow> greeting_parse buffer1;
            Some (case g of
                Inr _ \<Rightarrow>
                  ([SendBytes (encode_frame FLAG_COMMAND
                      (build_ready (socket_type_as_str (local_socket_type s)) None))],
                   s1\<lparr>sess_state := SHandshake (make_decoder (sess_max_frame_size s)) None None\<rparr>, True)
              | Inl e \<Rightarrow> ([ErrorEvent e], s1\<lparr>sess_state := SGreeting []\<rparr>, False)) }}"

definition handshake_step ::
  "zmtp_session \<Rightarrow> zmtp_decoder \<Rightarrow> socket_type option \<Rightarrow> bytes option \<Rightarrow> session_iteration" where
  "handshake_step s d pst pid =
     do { (r, d1, recv) \<leftarrow> decode d (sess_recv s);
          let s1 = s\<lparr>sess_recv := recv, sess_state := SHandshake d1 pst pid\<rparr> in
          case r of
            Inl e \<Rightarrow> Some ([ErrorEvent e], s1, False)
          | Inr None \<Rightarrow> Some ([], s1, False)
          | Inr (Some frame) \<Rightarrow>
              if \<not> frame_is_command frame then Some ([ErrorEvent Protocol], s1, False)
              else do {
                p \<leftarrow> parse_ready_command (payload frame);
                Some (case p of
                    Inl e \<Rightarrow> ([ErrorEvent e], s1, False)
                  | Inr (t, i) \<Rightarrow> ([HandshakeComplete i t], s1\<lparr>sess_state := SActive d1\<rparr>, True)) }}"

definition active_step :: "zmtp_session \<Rightarrow> zmtp_decoder \<Rightarrow> session_iteration" where
  "active_step s d =
     do { (r, d1, recv) \<leftarrow> decode d (sess_recv s);
          let s1 = s\<lparr>sess_recv := recv, sess_state := SActive d1\<rparr> in
          Some (case r of
              Inl e \<Rightarrow> ([ErrorEvent e], s1, False)
            | Inr None \<Rightarrow> ([], s1, False)
            | Inr (Some frame) \<Rightarrow> ([FrameEvent frame], s1, True)) }"

definition session_step :: "zmtp_session \<Rightarrow> session_iteration" where
  "session_step s =
     (case sess_state s of
        SGreeting buffer \<Rightarrow> greeting_step s buffer
      | SHandshake d pst pid \<Rightarrow> handshake_step s d pst pid
      | SActive d \<Rightarrow> active_step s d)"

text \<open>Progress of the loop: the phase advances, or the active decoder consumes a frame.\<close>

definition phase_rank :: "zmtp_session \<Rightarrow> nat" where
  "phase_rank s = (case sess_state s of SGreeting _ \<Rightarrow> 2 | SHandshake _ _ _ \<Rightarrow> 1 | SActive _ \<Rightarrow> 0)"

definition active_measure :: "zmtp_session \<Rightarrow> nat" where
  "active_measure s = (case sess_state s of SActive d \<Rightarrow> decode_measure d (sess_recv s) | _ \<Rightarrow> 0)"

lemma session_step_progress:
  assumes "session_step s = Some (es, s', True)"
  shows "phase_rank s' < phase_rank s \<or> phase_rank s' = phase_rank s \<and> active_measure s' < active_measure s"
proof (cases "sess_state s")
  case (SGreeting b)
  with assms show ?thesis
    by (auto simp: session_step_def greeting_step_def phase_rank_def Let_def
        split: bind_splits if_splits sum.splits)
next
  case (SHandshake d pst pid)
  with assms show ?thesis
    by (auto simp: session_step_def handshake_step_def phase_rank_def Let_def
        split: bind_splits if_splits sum.splits option.splits)
next
  case (SActive d)
  with assms show ?thesis
    by (auto simp: session_step_def active_step_def phase_rank_def active_measure_def Let_def
        intro!: decode_progress split: bind_splits sum.splits option.splits)
qed

function session_loop :: "zmtp_session \<Rightarrow> (session_event list \<times> zmtp_session) option" where
  "session_loop s =
     do { (es, s1, go) \<leftarrow> session_step s;
          if go then do { (es', s2) \<leftarrow> session_loop s1; Some (es @ es', s2) }
          else Some (es, s1) }"
  by pat_completeness auto
termination
  by (relation "measures [phase_rank, active_measure]") (auto dest: session_step_progress)

declare session_loop.simps [simp del]

definition on_bytes :: "zmtp_session \<Rightarrow> bytes \<Rightarrow> (session_event list \<times> zmtp_session) option" where
  "on_bytes s src = session_loop (s\<lparr>sess_recv := seg_push (sess_recv s) src\<rparr>)"

text \<open>A connection delivers its bytes in reads of arbitrary sizes.\<close>

fun on_reads :: "zmtp_session \<Rightarrow> bytes list \<Rightarrow> (session_event list \<times> zmtp_session) option" where
  "on_reads s [] = Some ([], s)"
| "on_reads s (c # cs) =
     do { (es, s1) \<leftarrow> on_bytes s c; (es', s2) \<leftarrow> on_reads s1 cs; Some (es @ es', s2) }"

section \<open>Abstract session\<close>

datatype abs_session = AGreeting bytes | AHandshake bytes | AActive bytes

primrec abs_feed :: "abs_session \<Rightarrow> bytes \<Rightarrow> abs_session" where
  "abs_feed (AGreeting bs) c = AGreeting (bs @ c)"
| "abs_feed (AHandshake bs) c = AHandshake (bs @ c)"
| "abs_feed (AActive bs) c = AActive (bs @ c)"

function drain :: "nat \<Rightarrow> bytes \<Rightarrow> session_event list \<times> bytes" where
  "drain m bs =
     (case parse_frame m bs of
        NeedMore \<Rightarrow> ([], bs)
      | Bad e \<Rightarrow> ([ErrorEvent e], bs)
      | Parsed f rest \<Rightarrow> (let (es, r) = drain m rest in (FrameEvent f # es, r)))"
  by pat_completeness auto
termination
  by (relation "measure (\<lambda>(m, bs). length bs)") (auto dest: parse_frame_rest)

declare drain.simps [simp del]

definition run_active :: "nat \<Rightarrow> bytes \<Rightarrow> session_event list \<times> abs_session" where
  "run_active m bs = (let (es, r) = drain m bs in (es, AActive r))"

definition run_handshake :: "nat \<Rightarrow> bytes \<Rightarrow> session_event list \<times> abs_session" where
  "run_handshake m bs =
     (case parse_frame m bs of
        NeedMore \<Rightarrow> ([], AHandshake bs)
      | Bad e \<Rightarrow> ([ErrorEvent e], AHandshake bs)
      | Parsed f rest \<Rightarrow>
          if \<not> frame_is_command f then ([ErrorEvent Protocol], AHandshake rest)
          else case the (parse_ready_command (payload f)) of
                 Inl e \<Rightarrow> ([ErrorEvent e], AHandshake rest)
               | Inr (t, i) \<Rightarrow> (let (es, a) = run_active m rest in (HandshakeComplete i t # es, a)))"

definition run_greeting :: "nat \<Rightarrow> socket_type \<Rightarrow> bytes \<Rightarrow> session_event list \<times> abs_session" where
  "run_greeting m t bs =
     (if length bs < 64 then ([], AGreeting bs)
      else case the (greeting_parse (take 64 bs)) of
             Inl e \<Rightarrow> ([ErrorEvent e], AGreeting (drop 64 bs))
           | Inr _ \<Rightarrow>
               (let (es, a) = run_handshake m (drop 64 bs) in
                (SendBytes (encode_frame FLAG_COMMAND (build_ready (socket_type_as_str t) None)) # es, a)))"

definition abs_run :: "nat \<Rightarrow> socket_type \<Rightarrow> abs_session \<Rightarrow> session_event list \<times> abs_session" where
  "abs_run m t a =
     (case a of AGreeting bs \<Rightarrow> run_greeting m t bs | AHandshake bs \<Rightarrow> run_handshake m bs
              | AActive bs \<Rightarrow> run_active m bs)"

definition session_limit :: "zmtp_session \<Rightarrow> nat" where
  "session_limit s = max_frame_size (make_decoder (sess_max_frame_size s))"

definition abs_of :: "zmtp_session \<Rightarrow> abs_session" where
  "abs_of s =
     (case sess_state s of
        SGreeting b \<Rightarrow> AGreeting (b @ contents (sess_recv s))
      | SHandshake d _ _ \<Rightarrow> AHandshake (vstream d (sess_recv s))
      | SActive d \<Rightarrow> AActive (vstream d (sess_recv s)))"

definition sess_inv :: "zmtp_session \<Rightarrow> bool" where
  "sess_inv s \<longleftrightarrow> seg_inv (sess_recv s) \<and>
     (case sess_state s of
        SGreeting b \<Rightarrow> length b < 64
      | SHandshake d _ _ \<Rightarrow> dec_inv d \<and> max_frame_size d = session_limit s
      | SActive d \<Rightarrow> dec_inv d \<and> max_frame_size d = session_limit s)"

section \<open>Refinement\<close>

lemma sess_inv_new [simp]: "sess_inv (session_with_max_frame_size t m)"
  by (simp add: sess_inv_def session_with_max_frame_size_def seg_inv_new)

lemma dec_inv_make [simp]: "dec_inv (make_decoder m)"
  by (simp add: make_decoder_def split: option.split)

lemma pending_make [simp]: "pending_flags (make_decoder m) = None"
  by (simp add: make_decoder_def decoder_new_def decoder_with_max_frame_size_def split: option.split)

lemma sess_inv_active [simp]: "sess_inv (session_new_active_with_max_frame_size t m)"
  by (simp add: sess_inv_def session_new_active_with_max_frame_size_def seg_inv_new session_limit_def)

text \<open>One abstract iteration; it mirrors one iteration of the loop.\<close>

definition iteration_refines :: "zmtp_session \<Rightarrow> session_iteration \<Rightarrow> bool" where
  "iteration_refines s res \<longleftrightarrow>
     (\<exists>es s' go. res = Some (es, s', go) \<and> sess_inv s' \<and>
        local_socket_type s' = local_socket_type s \<and> sess_max_frame_size s' = sess_max_frame_size s \<and>
        abs_run (session_limit s) (local_socket_type s) (abs_of s) =
          (if go then (let (es', a) = abs_run (session_limit s) (local_socket_type s) (abs_of s')
                       in (es @ es', a))
           else (es, abs_of s')))"

lemma iteration_stop:
  assumes "res = Some (es, s', False)" and "sess_inv s'"
    and "local_socket_type s' = local_socket_type s" "sess_max_frame_size s' = sess_max_frame_size s"
    and "abs_run (session_limit s) (local_socket_type s) (abs_of s) = (es, abs_of s')"
  shows "iteration_refines s res"
  unfolding iteration_refines_def using assms by (intro exI [of _ es] exI [of _ s'] exI [of _ False]) simp

lemma iteration_go:
  assumes "res = Some (es, s', True)" and "sess_inv s'"
    and "local_socket_type s' = local_socket_type s" "sess_max_frame_size s' = sess_max_frame_size s"
    and "abs_run (session_limit s) (local_socket_type s) (abs_of s) =
      (let (es', a) = abs_run (session_limit s) (local_socket_type s) (abs_of s') in (es @ es', a))"
  shows "iteration_refines s res"
  unfolding iteration_refines_def using assms by (intro exI [of _ es] exI [of _ s'] exI [of _ True]) simp

lemma session_limit_cong [simp]:
  "session_limit (s\<lparr>sess_recv := r\<rparr>) = session_limit s"
  "session_limit (s\<lparr>sess_state := st\<rparr>) = session_limit s"
  by (simp_all add: session_limit_def)

lemma abs_of_simps [simp]:
  "abs_of (s\<lparr>sess_state := SGreeting b\<rparr>) = AGreeting (b @ contents (sess_recv s))"
  "abs_of (s\<lparr>sess_state := SHandshake d pst pid\<rparr>) = AHandshake (vstream d (sess_recv s))"
  "abs_of (s\<lparr>sess_state := SActive d\<rparr>) = AActive (vstream d (sess_recv s))"
  by (simp_all add: abs_of_def)

lemma sess_inv_simps [simp]:
  "sess_inv (s\<lparr>sess_state := SGreeting b\<rparr>) \<longleftrightarrow> seg_inv (sess_recv s) \<and> length b < 64"
  "sess_inv (s\<lparr>sess_state := SHandshake d pst pid\<rparr>) \<longleftrightarrow>
     seg_inv (sess_recv s) \<and> dec_inv d \<and> max_frame_size d = session_limit s"
  "sess_inv (s\<lparr>sess_state := SActive d\<rparr>) \<longleftrightarrow>
     seg_inv (sess_recv s) \<and> dec_inv d \<and> max_frame_size d = session_limit s"
  by (auto simp: sess_inv_def)

lemma abs_run_simps [simp]:
  "abs_run m t (AGreeting bs) = run_greeting m t bs"
  "abs_run m t (AHandshake bs) = run_handshake m bs"
  "abs_run m t (AActive bs) = run_active m bs"
  by (simp_all add: abs_run_def)

lemma greeting_step_refines:
  assumes "sess_inv s" and "sess_state s = SGreeting b"
  shows "iteration_refines s (greeting_step s b)"
proof -
  from assms have inv: "seg_inv (sess_recv s)" and b: "length b < 64" by (simp_all add: sess_inv_def)
  let ?c = "contents (sess_recv s)" let ?n = "64 - length b"
  obtain recv where t: "take_bytes (sess_recv s) (min ?n (seg_len (sess_recv s))) = Some (Some (take ?n ?c), recv)"
    "seg_inv recv" "contents recv = drop ?n ?c"
    using segbuf.gather [OF inv] .
  define b1 where "b1 = b @ take ?n ?c"
  have stream: "take 64 (b @ ?c) = b1" "drop 64 (b @ ?c) = contents recv"
    using b t(3) by (simp_all add: b1_def)
  have a: "abs_run m st (abs_of s) = run_greeting m st (b @ ?c)" for m st
    using assms(2) by (simp add: abs_of_def abs_run_def)
  obtain g where g: "greeting_parse b1 = Some g" using greeting_parse_total by blast
  have u: "usub 64 (length b) = Some ?n" using b by simp
  show ?thesis
  proof (cases "length b1 < 64")
    case True
    then have f: "length (b @ ?c) < 64" "b1 = b @ ?c" "contents recv = []"
      using b t(3) by (auto simp: b1_def)
    have "greeting_step s b = Some ([], s\<lparr>sess_recv := recv, sess_state := SGreeting b1\<rparr>, False)"
      using f(1) t(1) u by (simp add: greeting_step_def Let_def b1_def)
    then show ?thesis
      by (rule iteration_stop) (use t True f in \<open>simp_all add: a run_greeting_def\<close>)
  next
    case False
    then have len: "\<not> length (b @ ?c) < 64" by (auto simp: b1_def)
    have rg: "run_greeting m st (b @ ?c) =
        (case g of Inl e \<Rightarrow> ([ErrorEvent e], AGreeting (contents recv))
         | Inr _ \<Rightarrow> (let (es, a) = run_handshake m (contents recv) in
             (SendBytes (encode_frame FLAG_COMMAND (build_ready (socket_type_as_str st) None)) # es, a)))" for m st
      using len g unfolding run_greeting_def stream by (simp split: sum.split)
    show ?thesis
    proof (cases g)
      case (Inl e)
      have "greeting_step s b = Some ([ErrorEvent e], s\<lparr>sess_recv := recv, sess_state := SGreeting []\<rparr>, False)"
        using False t(1) u g Inl by (simp add: greeting_step_def Let_def b1_def)
      then show ?thesis
        by (rule iteration_stop) (use t Inl in \<open>simp_all add: a rg\<close>)
    next
      case (Inr gr)
      have "greeting_step s b = Some ([SendBytes (encode_frame FLAG_COMMAND
          (build_ready (socket_type_as_str (local_socket_type s)) None))],
          s\<lparr>sess_recv := recv, sess_state := SHandshake (make_decoder (sess_max_frame_size s)) None None\<rparr>, True)"
        using False t(1) u g Inr by (simp add: greeting_step_def Let_def b1_def)
      then show ?thesis
        by (rule iteration_go)
          (use t Inr in \<open>simp_all add: a rg vstream_def session_limit_def\<close>)
    qed
  qed
qed

text \<open>What \<open>decode\<close> does to the stream of a session in one of the two decoding phases.\<close>

lemma session_decode:
  assumes "seg_inv (sess_recv s)" "dec_inv d" "max_frame_size d = session_limit s"
  obtains r d1 recv where "decode d (sess_recv s) = Some (r, d1, recv)" "dec_inv d1" "seg_inv recv"
    "max_frame_size d1 = session_limit s"
    "case parse_frame (session_limit s) (vstream d (sess_recv s)) of
         NeedMore \<Rightarrow> r = Inr None \<and> vstream d1 recv = vstream d (sess_recv s)
       | Bad e \<Rightarrow> r = Inl e \<and> d1 = d \<and> recv = sess_recv s
       | Parsed f rest \<Rightarrow> r = Inr (Some f) \<and> vstream d1 recv = rest \<and> pending_flags d1 = None"
  using decode_refines_parse [OF assms(2,1)] that unfolding decode_refines_def assms(3) by blast

lemma handshake_step_refines:
  assumes "sess_inv s" and "sess_state s = SHandshake d pst pid"
  shows "iteration_refines s (handshake_step s d pst pid)"
proof -
  from assms have inv: "seg_inv (sess_recv s)" "dec_inv d" "max_frame_size d = session_limit s"
    by (simp_all add: sess_inv_def)
  have a: "abs_run m st (abs_of s) = run_handshake m (vstream d (sess_recv s))" for m st
    using assms(2) by (simp add: abs_of_def abs_run_def)
  obtain r d1 recv where d: "decode d (sess_recv s) = Some (r, d1, recv)" "dec_inv d1" "seg_inv recv"
    "max_frame_size d1 = session_limit s"
    and c: "case parse_frame (session_limit s) (vstream d (sess_recv s)) of
         NeedMore \<Rightarrow> r = Inr None \<and> vstream d1 recv = vstream d (sess_recv s)
       | Bad e \<Rightarrow> r = Inl e \<and> d1 = d \<and> recv = sess_recv s
       | Parsed f rest \<Rightarrow> r = Inr (Some f) \<and> vstream d1 recv = rest \<and> pending_flags d1 = None"
    using session_decode [OF inv] .
  let ?s1 = "s\<lparr>sess_recv := recv, sess_state := SHandshake d1 pst pid\<rparr>"
  let ?s2 = "s\<lparr>sess_recv := recv, sess_state := SActive d1\<rparr>"
  have stop: "iteration_refines s (handshake_step s d pst pid)"
    if "handshake_step s d pst pid = Some (es, ?s1, False)"
      "run_handshake (session_limit s) (vstream d (sess_recv s)) = (es, AHandshake (vstream d1 recv))" for es
    by (rule iteration_stop [OF that(1)]) (simp_all add: d a that(2))
  show ?thesis
  proof (cases "parse_frame (session_limit s) (vstream d (sess_recv s))")
    case NeedMore
    with c d(1) show ?thesis by (intro stop) (simp_all add: handshake_step_def run_handshake_def Let_def)
  next
    case (Bad e)
    with c d(1) show ?thesis by (intro stop) (simp_all add: handshake_step_def run_handshake_def Let_def)
  next
    case (Parsed f rest)
    obtain p where p: "parse_ready_command (payload f) = Some p"
      using parse_ready_total [of "payload f"] by auto
    show ?thesis
    proof (cases "frame_is_command f \<and> isl p = False")
      case False
      with Parsed c d(1) p show ?thesis
        by (intro stop [of "[ErrorEvent (if frame_is_command f then projl p else Protocol)]"])
          (auto simp: handshake_step_def run_handshake_def Let_def split: sum.split)
    next
      case True
      then obtain t i where "p = Inr (t, i)" by (cases p) auto
      with True Parsed c d p have "handshake_step s d pst pid = Some ([HandshakeComplete i t], ?s2, True)"
        by (simp add: handshake_step_def Let_def)
      then show ?thesis
        by (rule iteration_go)
          (use True Parsed c d p \<open>p = Inr (t, i)\<close> in \<open>simp_all add: a run_handshake_def\<close>)
    qed
  qed
qed

lemma active_step_refines:
  assumes "sess_inv s" and "sess_state s = SActive d"
  shows "iteration_refines s (active_step s d)"
proof -
  from assms have inv: "seg_inv (sess_recv s)" "dec_inv d" "max_frame_size d = session_limit s"
    by (simp_all add: sess_inv_def)
  have a: "abs_run m st (abs_of s) = run_active m (vstream d (sess_recv s))" for m st
    using assms(2) by (simp add: abs_of_def abs_run_def)
  obtain r d1 recv where d: "decode d (sess_recv s) = Some (r, d1, recv)" "dec_inv d1" "seg_inv recv"
    "max_frame_size d1 = session_limit s"
    and c: "case parse_frame (session_limit s) (vstream d (sess_recv s)) of
         NeedMore \<Rightarrow> r = Inr None \<and> vstream d1 recv = vstream d (sess_recv s)
       | Bad e \<Rightarrow> r = Inl e \<and> d1 = d \<and> recv = sess_recv s
       | Parsed f rest \<Rightarrow> r = Inr (Some f) \<and> vstream d1 recv = rest \<and> pending_flags d1 = None"
    using session_decode [OF inv] .
  let ?s1 = "s\<lparr>sess_recv := recv, sess_state := SActive d1\<rparr>"
  note dr = drain.simps [of "session_limit s" "vstream d (sess_recv s)"]
  show ?thesis
  proof (cases "parse_frame (session_limit s) (vstream d (sess_recv s))")
    case NeedMore
    with c d(1) have "active_step s d = Some ([], ?s1, False)" by (simp add: active_step_def Let_def)
    then show ?thesis by (rule iteration_stop) (use d c NeedMore in \<open>simp_all add: a run_active_def dr\<close>)
  next
    case (Bad e)
    with c d(1) have "active_step s d = Some ([ErrorEvent e], ?s1, False)" by (simp add: active_step_def Let_def)
    then show ?thesis by (rule iteration_stop) (use d c Bad in \<open>simp_all add: a run_active_def dr\<close>)
  next
    case (Parsed f rest)
    with c d(1) have "active_step s d = Some ([FrameEvent f], ?s1, True)" by (simp add: active_step_def Let_def)
    then show ?thesis
      by (rule iteration_go)
        (use d c Parsed in \<open>simp_all add: a run_active_def dr split: prod.splits\<close>)
  qed
qed

lemma session_step_refines: "sess_inv s \<Longrightarrow> iteration_refines s (session_step s)"
  by (cases "sess_state s")
    (simp_all add: session_step_def greeting_step_refines handshake_step_refines active_step_refines)

definition session_refines :: "zmtp_session \<Rightarrow> (session_event list \<times> zmtp_session) option \<Rightarrow> bool" where
  "session_refines s res \<longleftrightarrow>
     (\<exists>es s'. res = Some (es, s') \<and> sess_inv s' \<and>
        local_socket_type s' = local_socket_type s \<and> sess_max_frame_size s' = sess_max_frame_size s \<and>
        abs_run (session_limit s) (local_socket_type s) (abs_of s) = (es, abs_of s'))"

lemma session_loop_refines: "sess_inv s \<Longrightarrow> session_refines s (session_loop s)"
proof (induction s rule: session_loop.induct)
  case (1 s)
  from session_step_refines [OF 1(2)] obtain es s1 go where
    s: "session_step s = Some (es, s1, go)" "sess_inv s1" and
    k: "local_socket_type s1 = local_socket_type s" "sess_max_frame_size s1 = sess_max_frame_size s"
    and a: "abs_run (session_limit s) (local_socket_type s) (abs_of s) =
          (if go then (let (es', a) = abs_run (session_limit s) (local_socket_type s) (abs_of s1)
                       in (es @ es', a))
           else (es, abs_of s1))"
    unfolding iteration_refines_def by blast
  show ?case
  proof (cases go)
    case False
    with s k a show ?thesis by (simp add: session_refines_def session_loop.simps [of s])
  next
    case True
    have "session_refines s1 (session_loop s1)"
      using 1(1) [OF s(1) refl refl True] s(2) .
    then obtain es' s2 where "session_loop s1 = Some (es', s2)" "sess_inv s2"
      "local_socket_type s2 = local_socket_type s" "sess_max_frame_size s2 = sess_max_frame_size s"
      "abs_run (session_limit s) (local_socket_type s) (abs_of s1) = (es', abs_of s2)"
      using k by (auto simp: session_refines_def session_limit_def)
    with True s a show ?thesis by (simp add: session_refines_def session_loop.simps [of s])
  qed
qed

lemma abs_of_push:
  "seg_inv (sess_recv s) \<Longrightarrow>
   abs_of (s\<lparr>sess_recv := seg_push (sess_recv s) c\<rparr>) = abs_feed (abs_of s) c"
  using seg_push_spec [of "sess_recv s" c]
  by (simp add: abs_of_def vstream_def split: session_state.split option.split)

lemma on_bytes_refines:
  assumes "sess_inv s"
  obtains es s' where "on_bytes s c = Some (es, s')" "sess_inv s'"
    "local_socket_type s' = local_socket_type s" "sess_max_frame_size s' = sess_max_frame_size s"
    "abs_run (session_limit s) (local_socket_type s) (abs_feed (abs_of s) c) = (es, abs_of s')"
proof -
  let ?s = "s\<lparr>sess_recv := seg_push (sess_recv s) c\<rparr>"
  have inv: "seg_inv (sess_recv s)" using assms by (simp add: sess_inv_def)
  then have "sess_inv ?s"
    using assms seg_push_spec [OF inv, of c] by (simp add: sess_inv_def split: session_state.splits)
  from session_loop_refines [OF this] show ?thesis
    using that by (auto simp: session_refines_def on_bytes_def abs_of_push [OF inv])
qed

section \<open>Independence of the chunking\<close>

definition no_error :: "session_event list \<Rightarrow> bool" where
  "no_error es \<longleftrightarrow> list_all (\<lambda>e. case e of ErrorEvent _ \<Rightarrow> False | _ \<Rightarrow> True) es"

lemma no_error_simps [simp]:
  "no_error []" "\<not> no_error (ErrorEvent e # es)"
  "no_error (FrameEvent f # es) = no_error es" "no_error (SendBytes b # es) = no_error es"
  "no_error (HandshakeComplete i t # es) = no_error es"
  "no_error (es @ es') \<longleftrightarrow> no_error es \<and> no_error es'"
  by (auto simp: no_error_def)

text \<open>The events of the active phase are the frames of the stream and its error.\<close>

lemma drain_parse_frames:
  "fst (drain m bs) = map FrameEvent (fst (parse_frames m bs)) @
     (case snd (parse_frames m bs) of Inl e \<Rightarrow> [ErrorEvent e] | Inr _ \<Rightarrow> [])"
proof (induction m bs rule: drain.induct)
  case (1 m bs)
  show ?case
  proof (cases "parse_frame m bs")
    case (Parsed f rest)
    with 1 [OF Parsed] show ?thesis
      by (cases "drain m rest"; cases "parse_frames m rest")
        (simp add: drain.simps [of m bs] parse_frames.simps [of m bs])
  qed (simp_all add: drain.simps [of m bs] parse_frames.simps [of m bs])
qed

lemma drain_append:
  assumes "drain m bs = (es, rest)" and "no_error es"
  shows "drain m (bs @ c) = (let (es', r) = drain m (rest @ c) in (es @ es', r))"
  using assms
proof (induction m bs arbitrary: es rule: drain.induct)
  case (1 m bs)
  show ?case
  proof (cases "parse_frame m bs")
    case NeedMore
    with 1(2) show ?thesis by (simp add: drain.simps [of m bs] split: prod.splits)
  next
    case (Bad e)
    with 1(2,3) show ?thesis by (auto simp: drain.simps [of m bs])
  next
    case (Parsed f rest')
    with 1(2) obtain es1 where d: "drain m rest' = (es1, rest)" "es = FrameEvent f # es1"
      by (auto simp: drain.simps [of m bs] Let_def split: prod.splits)
    with 1(1) [OF Parsed d(1)] 1(3)
    have "drain m (rest' @ c) = (let (es', r) = drain m (rest @ c) in (es1 @ es', r))" by simp
    with parse_frame_append [OF Parsed, of c] d show ?thesis
      by (simp add: drain.simps [of m "bs @ c"] split: prod.splits)
  qed
qed

lemma run_active_append:
  assumes "run_active m bs = (es, a)" and "no_error es"
  shows "run_active m (bs @ c) = (let (es', a') = abs_run m t (abs_feed a c) in (es @ es', a'))"
  using assms drain_append [of m bs es _ c]
  by (auto simp: run_active_def Let_def split: prod.splits)

lemma run_handshake_append:
  assumes "run_handshake m bs = (es, a)" and "no_error es"
  shows "run_handshake m (bs @ c) = (let (es', a') = abs_run m t (abs_feed a c) in (es @ es', a'))"
proof (cases "parse_frame m bs")
  case NeedMore
  with assms show ?thesis by (auto simp: run_handshake_def [of m bs] split: prod.splits)
next
  case (Bad e)
  with assms show ?thesis by (auto simp: run_handshake_def [of m bs])
next
  case (Parsed f rest)
  note p = parse_frame_append [OF Parsed, of c]
  from assms Parsed obtain st i es1 where f: "frame_is_command f"
    "the (parse_ready_command (payload f)) = Inr (st, i)"
    and r: "run_active m rest = (es1, a)" "es = HandshakeComplete i st # es1"
    by (auto simp: run_handshake_def Let_def split: if_splits sum.splits prod.splits)
  with assms(2) have "run_active m (rest @ c) = (let (es', a') = abs_run m t (abs_feed a c) in (es1 @ es', a'))"
    by (intro run_active_append) simp_all
  with p f r show ?thesis by (simp add: run_handshake_def [of m "bs @ c"] split: prod.splits)
qed

lemma run_greeting_append:
  assumes "run_greeting m t bs = (es, a)" and "no_error es"
  shows "run_greeting m t (bs @ c) = (let (es', a') = abs_run m t (abs_feed a c) in (es @ es', a'))"
proof (cases "length bs < 64")
  case True
  with assms show ?thesis by (auto simp: run_greeting_def [of m t bs] split: prod.splits)
next
  case False
  then have td: "take 64 (bs @ c) = take 64 bs" "drop 64 (bs @ c) = drop 64 bs @ c" by simp_all
  from assms False obtain g es1 where g: "the (greeting_parse (take 64 bs)) = Inr g"
    and r: "run_handshake m (drop 64 bs) = (es1, a)"
      "es = SendBytes (encode_frame FLAG_COMMAND (build_ready (socket_type_as_str t) None)) # es1"
    by (auto simp: run_greeting_def Let_def split: if_splits sum.splits prod.splits)
  with assms(2) have "run_handshake m (drop 64 bs @ c) =
      (let (es', a') = abs_run m t (abs_feed a c) in (es1 @ es', a'))"
    by (intro run_handshake_append) simp_all
  with False g r td show ?thesis
    by (simp add: run_greeting_def [of m t "bs @ c"] del: take_append drop_append split: prod.splits)
qed

lemma abs_run_append:
  "abs_run m t a = (es, a1) \<Longrightarrow> no_error es \<Longrightarrow>
   abs_run m t (abs_feed a c) = (let (es', a2) = abs_run m t (abs_feed a1 c) in (es @ es', a2))"
  by (cases a) (simp_all add: run_active_append [where t = t] run_handshake_append [where t = t]
      run_greeting_append)

lemma abs_feed_append [simp]: "abs_feed (abs_feed a c) c' = abs_feed a (c @ c')"
  by (cases a) simp_all

lemma abs_feed_Nil [simp]: "abs_feed a [] = a"
  by (cases a) simp_all

text \<open>
  Feeding reads one by one, starting from an abstract state with nothing left to do, runs
  the abstract session once on the whole stream, as long as no read but the last reports an
  error.
\<close>

lemma on_reads_total: "sess_inv s \<Longrightarrow> \<exists>es s'. on_reads s cs = Some (es, s') \<and> sess_inv s'"
proof (induction cs arbitrary: s)
  case (Cons c cs)
  obtain es1 s1 where "on_bytes s c = Some (es1, s1)" "sess_inv s1"
    using on_bytes_refines [OF Cons.prems] .
  with Cons.IH [of s1] show ?case by auto
qed simp

lemma on_reads_refines:
  assumes "sess_inv s" and "abs_run (session_limit s) (local_socket_type s) (abs_of s) = ([], abs_of s)"
  shows "\<exists>es s'. on_reads s cs = Some (es, s') \<and> sess_inv s' \<and>
    (no_error es \<longrightarrow>
       local_socket_type s' = local_socket_type s \<and> sess_max_frame_size s' = sess_max_frame_size s \<and>
       abs_run (session_limit s) (local_socket_type s) (abs_feed (abs_of s) (concat cs)) = (es, abs_of s'))"
  using assms
proof (induction cs arbitrary: s)
  case Nil
  then show ?case by simp
next
  case (Cons c cs)
  let ?run = "abs_run (session_limit s) (local_socket_type s)"
  obtain es1 s1 where o1: "on_bytes s c = Some (es1, s1)" "sess_inv s1"
    and k: "local_socket_type s1 = local_socket_type s" "sess_max_frame_size s1 = sess_max_frame_size s"
    and a: "abs_run (session_limit s) (local_socket_type s) (abs_feed (abs_of s) c) = (es1, abs_of s1)"
    using on_bytes_refines [OF Cons.prems(1)] .
  have lim: "session_limit s1 = session_limit s" using k by (simp add: session_limit_def)
  show ?case
  proof (cases "no_error es1")
    case True
    have "?run (abs_of s1) = ([], abs_of s1)"
      using abs_run_append [OF a True, of "[]"] a by (auto simp: Let_def split: prod.splits)
    with Cons.IH [OF o1(2)] k lim obtain es2 s2 where o2: "on_reads s1 cs = Some (es2, s2)" "sess_inv s2"
      and i: "no_error es2 \<Longrightarrow> local_socket_type s2 = local_socket_type s \<and>
        sess_max_frame_size s2 = sess_max_frame_size s \<and>
        ?run (abs_feed (abs_of s1) (concat cs)) = (es2, abs_of s2)"
      by auto
    have "?run (abs_feed (abs_of s) (concat (c # cs))) = (es1 @ es2, abs_of s2)" if "no_error es2"
      using abs_run_append [OF a True, of "concat cs"] i [OF that] by simp
    with o1 o2 i show ?thesis by auto
  next
    case False
    obtain es2 s2 where "on_reads s1 cs = Some (es2, s2)" "sess_inv s2"
      using on_reads_total [OF o1(2)] by blast
    with o1 False show ?thesis by simp
  qed
qed

text \<open>An error, once in the events of a stream, stays in the events of every extension.\<close>

lemma drain_error: "\<not> no_error (fst (drain m bs)) \<Longrightarrow> \<not> no_error (fst (drain m (bs @ c)))"
proof -
  have frames: "no_error (map FrameEvent fs)" for fs by (induction fs) simp_all
  then have "no_error (fst (drain m bs)) \<longleftrightarrow> (\<exists>r. snd (parse_frames m bs) = Inr r)" for bs
    unfolding drain_parse_frames by (auto split: sum.splits)
  then show "\<not> no_error (fst (drain m bs)) \<Longrightarrow> \<not> no_error (fst (drain m (bs @ c)))"
    by (auto simp: parse_frames_append [of m bs c] split: prod.splits sum.splits)
qed

lemma run_active_error: "\<not> no_error (fst (run_active m bs)) \<Longrightarrow> \<not> no_error (fst (run_active m (bs @ c)))"
  using drain_error [of m bs c]
  by (cases "drain m bs"; cases "drain m (bs @ c)") (simp add: run_active_def)

lemma run_handshake_error:
  "\<not> no_error (fst (run_handshake m bs)) \<Longrightarrow> \<not> no_error (fst (run_handshake m (bs @ c)))"
proof (cases "parse_frame m bs")
  case (Parsed f rest)
  then show "\<not> no_error (fst (run_handshake m bs)) \<Longrightarrow> \<not> no_error (fst (run_handshake m (bs @ c)))"
    using parse_frame_append [OF Parsed, of c] run_active_error [of m rest c]
    by (auto simp: run_handshake_def Let_def split: if_splits sum.splits prod.splits)
qed (simp_all add: run_handshake_def parse_frame_append_Bad)

lemma run_greeting_error:
  "\<not> no_error (fst (run_greeting m t bs)) \<Longrightarrow> \<not> no_error (fst (run_greeting m t (bs @ c)))"
proof (cases "length bs < 64")
  case False
  then have td: "take 64 (bs @ c) = take 64 bs" "drop 64 (bs @ c) = drop 64 bs @ c" by simp_all
  show "\<not> no_error (fst (run_greeting m t bs)) \<Longrightarrow> \<not> no_error (fst (run_greeting m t (bs @ c)))"
    using False run_handshake_error [of m "drop 64 bs" c]
    unfolding run_greeting_def td by (auto simp: Let_def split: if_splits sum.splits prod.splits)
qed (simp add: run_greeting_def)

lemma abs_run_error:
  "abs_run m t a = (es, a1) \<Longrightarrow> abs_run m t (abs_feed a c) = (es', a2) \<Longrightarrow> no_error es' \<Longrightarrow> no_error es"
  using run_active_error run_handshake_error run_greeting_error
  by (cases a) (auto, metis fst_conv, metis fst_conv, metis fst_conv)

lemma on_reads_no_error:
  assumes "sess_inv s"
    and "abs_run (session_limit s) (local_socket_type s) (abs_feed (abs_of s) (concat cs)) = (es, a)"
    and "no_error es" and "abs_run (session_limit s) (local_socket_type s) (abs_of s) = ([], abs_of s)"
  shows "\<exists>s'. on_reads s cs = Some (es, s') \<and> abs_of s' = a"
  using assms
proof (induction cs arbitrary: s es)
  case Nil
  then show ?case by simp
next
  case (Cons c cs)
  let ?run = "abs_run (session_limit s) (local_socket_type s)"
  obtain es1 s1 where o1: "on_bytes s c = Some (es1, s1)" "sess_inv s1"
    and k: "local_socket_type s1 = local_socket_type s" "sess_max_frame_size s1 = sess_max_frame_size s"
    and a: "?run (abs_feed (abs_of s) c) = (es1, abs_of s1)"
    using on_bytes_refines [OF Cons.prems(1)] .
  have lim: "session_limit s1 = session_limit s" using k by (simp add: session_limit_def)
  have ne: "no_error es1"
    using abs_run_error [OF a, of "concat cs"] Cons.prems(2,3) by simp
  obtain es2 where es: "es = es1 @ es2" and r: "?run (abs_feed (abs_of s1) (concat cs)) = (es2, a)"
    using abs_run_append [OF a ne, of "concat cs"] Cons.prems(2) by (auto split: prod.splits)
  have idle: "?run (abs_of s1) = ([], abs_of s1)"
    using abs_run_append [OF a ne, of "[]"] a by (auto simp: Let_def split: prod.splits)
  obtain s' where "on_reads s1 cs = Some (es2, s')" "abs_of s' = a"
    using Cons.IH [OF o1(2)] r es Cons.prems(3) idle k lim by auto
  with o1 es show ?case by auto
qed

lemma fresh_session [simp]:
  "abs_of (session_with_max_frame_size t mx) = AGreeting []"
  "local_socket_type (session_with_max_frame_size t mx) = t"
  "session_limit (session_with_max_frame_size t mx) = max_frame_size (make_decoder mx)"
  by (simp_all add: abs_of_def session_with_max_frame_size_def session_limit_def)

lemma fresh_session_idle:
  "abs_run m t (abs_of (session_with_max_frame_size t' mx)) = ([], abs_of (session_with_max_frame_size t' mx))"
  by (simp add: run_greeting_def)

lemma run_active_message:
  assumes "\<forall>p \<in> set msg. length p \<le> m \<and> length p < 2 ^ 63"
  shows "fst (run_active m (wire_message msg)) = map FrameEvent (message_frames msg)"
proof -
  have "parse_frames m (wire_message msg) = (message_frames msg, Inr [])"
    using parse_frames_message [OF assms, of "[]"]
    by (simp add: parse_frames.simps [of m "[]"] parse_frame_def)
  then show ?thesis
    using drain_parse_frames [of m "wire_message msg"]
    by (cases "drain m (wire_message msg)") (simp add: run_active_def)
qed

lemma length_build_ready_None: "length (build_ready (socket_type_as_str t) None) \<le> 28"
  using length_socket_type_as_str [of t] by (simp add: length_build_ready length_utf8_socket_type)

section \<open>Properties\<close>

text \<open>C15. The session never panics: from every well-formed state and for every read, \<open>on_bytes\<close>
  returns, keeps the state well-formed, and is a functional refinement of the abstract
  session on plain byte strings: it emits the events of the abstract run on the stream
  extended by the read and ends in the state that represents the abstract result.\<close>

theorem on_bytes_correct:
  assumes "sess_inv s"
  shows "\<exists>es s'. on_bytes s c = Some (es, s') \<and> sess_inv s' \<and>
    abs_run (session_limit s) (local_socket_type s) (abs_feed (abs_of s) c) = (es, abs_of s')"
  using on_bytes_refines [OF assms] by metis

theorem on_bytes_correct_witness:
  "\<exists>es s'. on_bytes (session_new StDealer) [0xFF] = Some (es, s') \<and> es = [] \<and> abs_of s' = AGreeting [0xFF]"
  using on_bytes_correct [of "session_new StDealer" "[0xFF]"]
  by (auto simp: session_new_def run_greeting_def)

text \<open>The events of a connection do not depend on how its byte stream is cut into reads:
  delivering the reads one by one and delivering their concatenation at once report an
  error in the same cases, and without an error they emit the same events and represent the
  same remaining stream.\<close>

theorem session_chunking:
  "\<exists>es s1 es' s2.
     on_reads (session_with_max_frame_size t m) cs = Some (es, s1) \<and>
     on_bytes (session_with_max_frame_size t m) (concat cs) = Some (es', s2) \<and>
     (no_error es \<longleftrightarrow> no_error es') \<and> (no_error es' \<longrightarrow> es = es' \<and> abs_of s1 = abs_of s2)"
proof -
  let ?s = "session_with_max_frame_size t m"
  let ?run = "abs_run (session_limit ?s) (local_socket_type ?s)"
  have idle: "?run (abs_of ?s) = ([], abs_of ?s)" by (rule fresh_session_idle)
  obtain es' s2 where w: "on_bytes ?s (concat cs) = Some (es', s2)"
    "?run (abs_feed (abs_of ?s) (concat cs)) = (es', abs_of s2)"
    using on_bytes_refines [OF sess_inv_new] .
  obtain es s1 where r: "on_reads ?s cs = Some (es, s1)"
    and i: "no_error es \<Longrightarrow> ?run (abs_feed (abs_of ?s) (concat cs)) = (es, abs_of s1)"
    using on_reads_refines [OF sess_inv_new idle] by blast
  show ?thesis
  proof (cases "no_error es'")
    case True
    obtain s' where "on_reads ?s cs = Some (es', s')" "abs_of s' = abs_of s2"
      using on_reads_no_error [OF sess_inv_new w(2) True idle] by blast
    with w(1) show ?thesis by auto
  next
    case False
    with i w(2) have "\<not> no_error es" by auto
    with False w(1) r show ?thesis by auto
  qed
qed

theorem session_chunking_witness:
  "\<exists>es s1. on_reads (session_with_max_frame_size StDealer None) [[0xFF], [0, 0]] = Some (es, s1) \<and>
     es = [] \<and> abs_of s1 = AGreeting [0xFF, 0, 0]"
proof -
  let ?s = "session_with_max_frame_size StDealer None"
  obtain es2 s3 where o: "on_bytes ?s (concat [[0xFF], [0, 0]]) = Some (es2, s3)"
    and a: "abs_run (session_limit ?s) (local_socket_type ?s) (abs_feed (abs_of ?s) (concat [[0xFF], [0, 0]])) =
      (es2, abs_of s3)"
    using on_bytes_refines [OF sess_inv_new] .
  from a have "es2 = [] \<and> abs_of s3 = AGreeting [0xFF, 0, 0]"
    by (simp add: run_greeting_def)
  with session_chunking [of StDealer None "[[0xFF], [0, 0]]"] o show ?thesis by auto
qed

text \<open>C9. End to end: a session that receives the greeting, the READY command and the encoding
  of a message from a peer session, cut into reads in any way, answers with its own READY
  command, completes the handshake with the peer's socket type, and delivers exactly the
  frames of the message, in order.\<close>

theorem session_end_to_end:
  assumes "concat cs = local_greeting
      @ encode_frame FLAG_COMMAND (build_ready (socket_type_as_str peer) None) @ encode_multipart msg []"
    and "28 \<le> max_frame_size (make_decoder mx)"
    and "\<forall>p \<in> set msg. length p \<le> max_frame_size (make_decoder mx) \<and> length p < 2 ^ 63"
  shows "\<exists>s'. on_reads (session_with_max_frame_size t mx) cs =
    Some ([SendBytes (encode_frame FLAG_COMMAND (build_ready (socket_type_as_str t) None)),
           HandshakeComplete None peer] @ map FrameEvent (message_frames msg), s')"
proof -
  let ?s = "session_with_max_frame_size t mx"
  let ?m = "max_frame_size (make_decoder mx)" let ?run = "abs_run ?m t"
  let ?ready = "build_ready (socket_type_as_str peer) None"
  let ?rest = "encode_frame FLAG_COMMAND ?ready @ wire_message msg"
  have g: "greeting_parse local_greeting = Some (Inr gr)" if "gr = \<lparr>mechanism = take 20 (drop 12 local_greeting),
      as_server = (local_greeting ! 32 \<noteq> 0)\<rparr>" for gr
    using valid_build_greeting [of NullMechanism socket_options_default] that
      local_greeting_build [of socket_options_default] by (simp add: greeting_parse_Inr)
  have l64: "length local_greeting = 64"
    by (simp add: local_greeting_def)
  have pr: "parse_ready_command ?ready = Some (Inr (peer, None))"
    using parse_build_ready [of None peer] by simp
  have pf: "parse_frame ?m ?rest =
      Parsed \<lparr>flags = canon_flags FLAG_COMMAND (length ?ready), payload = ?ready\<rparr> (wire_message msg)"
    using cmd_encode.parse_enc [of "(FLAG_COMMAND, ?ready)" ?m "wire_message msg"]
      length_build_ready_None [of peer] assms(2)
    by (simp add: valid_flags_def FLAG_COMMAND_def)
  have cmd: "frame_is_command \<lparr>flags = canon_flags FLAG_COMMAND (length ?ready), payload = ?ready\<rparr>"
    by (simp add: frame_more_canon FLAG_COMMAND_def)
  obtain a where "run_active ?m (wire_message msg) = (map FrameEvent (message_frames msg), a)"
    using run_active_message [OF assms(3)] by (metis prod.collapse)
  then have "?run (abs_feed (abs_of ?s) (concat cs)) =
     ([SendBytes (encode_frame FLAG_COMMAND (build_ready (socket_type_as_str t) None)),
           HandshakeComplete None peer] @ map FrameEvent (message_frames msg), a)" (is "_ = (?es, a)")
    using l64 g pr pf cmd assms(1)
    by (simp add: run_greeting_def run_handshake_def encode_multipart_wire)
  moreover have "no_error ?es" by (simp add: no_error_def list_all_iff)
  ultimately show ?thesis
    using on_reads_no_error [OF sess_inv_new _ _ fresh_session_idle, of t mx cs ?es a] by auto
qed

theorem session_end_to_end_witness:
  "\<exists>s'. on_reads (session_with_max_frame_size StRouter None)
      [local_greeting, encode_frame FLAG_COMMAND (build_ready (socket_type_as_str StDealer) None),
       encode_multipart [[1], [2, 3]] []] =
    Some ([SendBytes (encode_frame FLAG_COMMAND (build_ready (socket_type_as_str StRouter) None)),
           HandshakeComplete None StDealer] @ map FrameEvent (message_frames [[1], [2, 3]]), s')"
  by (rule session_end_to_end) (simp_all add: make_decoder_def decoder_new_def)

end
