(* ===== verification/Subscription_Index.thy ===== *)
theory Subscription_Index
  imports Mono_Prelude "HOL-Library.Multiset"
begin

text \<open>
  Topic subscriptions: \<open>monocoque-core/src/pubsub/index.rs\<close> (the sorted index of the hub) and
  \<open>monocoque-core/src/subscription.rs\<close> (the prefix set of one socket and the subscription
  messages).

  Both containers promise the same thing, a set of prefixes against which a topic is
  matched. The locale \<open>subscription_store\<close> states the contract of the hub's index over the
  set of (peer, prefix) pairs, the locale \<open>topic_filter\<close> that of a single peer's prefixes;
  each is interpreted on the code's own definitions.
\<close>

section \<open>Model of the sorted index\<close>

type_synonym peer_key = nat

record subscription =
  sub_prefix :: bytes
  sub_peers :: "peer_key list"

type_synonym subscription_index = "subscription list"

definition index_new :: subscription_index where
  "index_new = []"

definition index_is_empty :: "subscription_index \<Rightarrow> bool" where
  "index_is_empty subs \<longleftrightarrow> subs = []"

text \<open>\<open>slice::binary_search_by(|s| s.prefix.cmp(prefix))\<close>: the halving loop, then the verdict.\<close>

function search_loop :: "bytes list \<Rightarrow> bytes \<Rightarrow> nat \<Rightarrow> nat \<Rightarrow> nat" where
  "search_loop ps x base sz =
     (if 1 < sz then
        let half = sz div 2; mid = base + half in
        search_loop ps x (if x < ps ! mid then base else mid) (sz - half)
      else base)"
  by pat_completeness auto
termination
  by (relation "measure (\<lambda>(_, _, _, sz). sz)") auto

declare search_loop.simps [simp del]

text \<open>\<open>Inr i\<close> is \<open>Ok(i)\<close>, \<open>Inl i\<close> is \<open>Err(i)\<close>, the insertion point.\<close>

definition binary_search :: "bytes list \<Rightarrow> bytes \<Rightarrow> nat + nat" where
  "binary_search ps x =
     (if ps = [] then Inl 0
      else let i = search_loop ps x 0 (length ps) in
        if ps ! i = x then Inr i else if ps ! i < x then Inl (i + 1) else Inl i)"

text \<open>\<open>Vec::insert\<close>, \<open>Vec::remove\<close> and \<open>swap_remove\<close>.\<close>

definition vec_insert :: "nat \<Rightarrow> 'a \<Rightarrow> 'a list \<Rightarrow> 'a list" where
  "vec_insert i x xs = take i xs @ x # drop i xs"

definition vec_remove :: "nat \<Rightarrow> 'a list \<Rightarrow> 'a list" where
  "vec_remove i xs = take i xs @ drop (Suc i) xs"

definition swap_remove :: "nat \<Rightarrow> 'a list \<Rightarrow> 'a list" where
  "swap_remove i xs = butlast (xs[i := last xs])"

definition position :: "('a \<Rightarrow> bool) \<Rightarrow> 'a list \<Rightarrow> nat option" where
  "position P xs = (let i = length (takeWhile (\<lambda>x. \<not> P x) xs) in if i < length xs then Some i else None)"

definition index_subscribe :: "peer_key \<Rightarrow> bytes \<Rightarrow> subscription_index \<Rightarrow> subscription_index" where
  "index_subscribe peer p subs =
     (case binary_search (map sub_prefix subs) p of
        Inr i \<Rightarrow>
          let peers = sub_peers (subs ! i) in
          if peer \<in> set peers then subs
          else subs[i := (subs ! i)\<lparr>sub_peers := peers @ [peer]\<rparr>]
      | Inl i \<Rightarrow> vec_insert i \<lparr>sub_prefix = p, sub_peers = [peer]\<rparr> subs)"

text \<open>Dropping one peer from a peer list, as both removal operations do.\<close>

definition drop_peer :: "peer_key \<Rightarrow> peer_key list \<Rightarrow> peer_key list" where
  "drop_peer peer peers =
     (case position (\<lambda>q. q = peer) peers of Some pos \<Rightarrow> swap_remove pos peers | None \<Rightarrow> peers)"

definition index_unsubscribe :: "peer_key \<Rightarrow> bytes \<Rightarrow> subscription_index \<Rightarrow> subscription_index" where
  "index_unsubscribe peer p subs =
     (case binary_search (map sub_prefix subs) p of
        Inr i \<Rightarrow>
          let peers = drop_peer peer (sub_peers (subs ! i));
              subs1 = subs[i := (subs ! i)\<lparr>sub_peers := peers\<rparr>]
          in if peers = [] then vec_remove i subs1 else subs1
      | Inl _ \<Rightarrow> subs)"

text \<open>The \<open>while i < self.subs.len()\<close> loop: \<open>i\<close> does not advance past a removed entry.\<close>

function remove_peer_loop :: "peer_key \<Rightarrow> nat \<Rightarrow> subscription_index \<Rightarrow> subscription_index" where
  "remove_peer_loop peer i subs =
     (if i < length subs then
        let peers = drop_peer peer (sub_peers (subs ! i));
            subs1 = subs[i := (subs ! i)\<lparr>sub_peers := peers\<rparr>]
        in if peers = [] then remove_peer_loop peer i (vec_remove i subs1)
           else remove_peer_loop peer (i + 1) subs1
      else subs)"
  by pat_completeness auto
termination
  by (relation "measure (\<lambda>(_, i, subs). length subs - i)") (auto simp: vec_remove_def)

declare remove_peer_loop.simps [simp del]

definition remove_peer_everywhere :: "peer_key \<Rightarrow> subscription_index \<Rightarrow> subscription_index" where
  "remove_peer_everywhere peer subs = remove_peer_loop peer 0 subs"

text \<open>The scan of \<open>match_topic\<close>, with its early exit, then sorting and deduplication.\<close>

fun match_scan :: "bytes \<Rightarrow> subscription_index \<Rightarrow> peer_key list" where
  "match_scan topic [] = []"
| "match_scan topic (sub # subs) =
     (if topic < sub_prefix sub then []
      else (if starts_with topic (sub_prefix sub) then sub_peers sub else []) @ match_scan topic subs)"

definition match_topic :: "bytes \<Rightarrow> subscription_index \<Rightarrow> peer_key list" where
  "match_topic topic subs =
     (let out = match_scan topic subs in
      if 1 < length out then remdups_adj (sort out) else out)"

section \<open>Model of the per-socket prefix set and of subscription messages\<close>

text \<open>\<open>Subscription::matches\<close>.\<close>

definition prefix_matches :: "bytes \<Rightarrow> bytes \<Rightarrow> bool" where
  "prefix_matches p topic \<longleftrightarrow>
     (if p = [] then True else length p \<le> length topic \<and> take (length p) topic = p)"

text \<open>\<open>SubscriptionTrie\<close>: the \<open>BTreeSet<Vec<u8>>\<close> is its iteration sequence, ascending without repetition.\<close>

type_synonym subscription_trie = "bytes list"

definition trie_new :: subscription_trie where
  "trie_new = []"

definition trie_subscribe :: "bytes \<Rightarrow> subscription_trie \<Rightarrow> subscription_trie" where
  "trie_subscribe p t = insort_insert p t"

definition trie_unsubscribe :: "bytes \<Rightarrow> subscription_trie \<Rightarrow> subscription_trie" where
  "trie_unsubscribe p t = remove1 p t"

definition trie_matches :: "subscription_trie \<Rightarrow> bytes \<Rightarrow> bool" where
  "trie_matches t topic \<longleftrightarrow>
     (if t = [] then False else list_ex (\<lambda>len. take len topic \<in> set t) [0 ..< length topic + 1])"

definition trie_subscriptions :: "subscription_trie \<Rightarrow> bytes list" where
  "trie_subscriptions t = map (\<lambda>p. p) t"

definition trie_is_empty :: "subscription_trie \<Rightarrow> bool" where
  "trie_is_empty t \<longleftrightarrow> t = []"

definition trie_len :: "subscription_trie \<Rightarrow> nat" where
  "trie_len t = length t"

definition trie_clear :: "subscription_trie \<Rightarrow> subscription_trie" where
  "trie_clear t = []"

definition topic_matches_prefixes :: "bytes \<Rightarrow> bytes list \<Rightarrow> bool" where
  "topic_matches_prefixes topic ps \<longleftrightarrow> list_ex (\<lambda>p. p = [] \<or> starts_with topic p) ps"

datatype subscription_event = Subscribe bytes | Unsubscribe bytes

definition from_message :: "bytes \<Rightarrow> subscription_event option" where
  "from_message msg =
     (if msg = [] then None
      else let p = drop 1 msg in
        if msg ! 0 = 0x01 then Some (Subscribe p)
        else if msg ! 0 = 0x00 then Some (Unsubscribe p)
        else None)"

definition from_bytes :: "bytes \<Rightarrow> subscription_event option" where
  "from_bytes msg =
     (if msg = [] then None
      else let p = drop 1 msg in
        if msg ! 0 = 0x01 then Some (Subscribe p)
        else if msg ! 0 = 0x00 then Some (Unsubscribe p)
        else None)"

fun to_message :: "subscription_event \<Rightarrow> bytes" where
  "to_message (Subscribe p) = 0x01 # p"
| "to_message (Unsubscribe p) = 0x00 # p"

fun event_prefix :: "subscription_event \<Rightarrow> bytes" where
  "event_prefix (Subscribe p) = p"
| "event_prefix (Unsubscribe p) = p"

fun event_is_subscribe :: "subscription_event \<Rightarrow> bool" where
  "event_is_subscribe (Subscribe _) = True"
| "event_is_subscribe (Unsubscribe _) = False"

fun event_is_unsubscribe :: "subscription_event \<Rightarrow> bool" where
  "event_is_unsubscribe (Unsubscribe _) = True"
| "event_is_unsubscribe (Subscribe _) = False"

section \<open>Library operations\<close>

lemma position_Some:
  "position P xs = Some i \<Longrightarrow> i < length xs \<and> P (xs ! i)"
  using nth_length_takeWhile [of "\<lambda>x. \<not> P x" xs] by (auto simp: position_def Let_def split: if_splits)

lemma position_None: "position P xs = None \<longleftrightarrow> (\<forall>x \<in> set xs. \<not> P x)"
proof -
  have "length (takeWhile (\<lambda>x. \<not> P x) xs) < length xs \<longleftrightarrow> takeWhile (\<lambda>x. \<not> P x) xs \<noteq> xs"
    by (metis length_takeWhile_le linorder_not_less nat_less_le takeWhile_eq_take take_all order.refl)
  then show ?thesis by (auto simp: position_def Let_def takeWhile_eq_all_conv)
qed

text \<open>\<open>swap_remove\<close> removes one element and keeps the others.\<close>

lemma mset_swap_remove:
  assumes "i < length xs"
  shows "mset (swap_remove i xs) = mset xs - {# xs ! i #}"
proof -
  have ne: "xs \<noteq> []" using assms by auto
  then have l: "xs[i := last xs] \<noteq> []" by simp
  have "last (xs[i := last xs]) = last xs"
    using ne by (simp add: last_list_update)
  with append_butlast_last_id [OF l] have "xs[i := last xs] = swap_remove i xs @ [last xs]"
    by (simp add: swap_remove_def)
  then have "mset (xs[i := last xs]) = add_mset (last xs) (mset (swap_remove i xs))"
    by (metis add_mset_add_single mset_append mset_single_iff_right mset.simps(1) mset.simps(2))
  moreover have "mset (xs[i := last xs]) = add_mset (last xs) (mset xs - {# xs ! i #})"
    using assms by (simp add: mset_update)
  ultimately show ?thesis by simp
qed

lemma drop_peer_spec:
  assumes "distinct peers"
  shows "set (drop_peer k peers) = set peers - {k}" and "distinct (drop_peer k peers)"
proof -
  have "mset (drop_peer k peers) = mset peers - {# k #}"
  proof (cases "position (\<lambda>q. q = k) peers")
    case None
    then have "k \<notin> set peers" by (auto simp: position_None)
    then show ?thesis using None by (simp add: drop_peer_def diff_single_trivial)
  next
    case (Some i)
    with position_Some [OF this] mset_swap_remove [of i peers] show ?thesis by (simp add: drop_peer_def)
  qed
  then have m: "mset (drop_peer k peers) = mset (remove1 k peers)" by simp
  show "set (drop_peer k peers) = set peers - {k}"
    using mset_eq_setD [OF m] assms by (simp add: set_remove1_eq)
  show "distinct (drop_peer k peers)"
    using mset_eq_imp_distinct_iff [OF m] assms by simp
qed

lemma strict_nth_le: "sorted_wrt (<) ps \<Longrightarrow> i \<le> j \<Longrightarrow> j < length ps \<Longrightarrow> ps ! i \<le> (ps ! j :: bytes)"
  by (cases "i = j") (auto dest: sorted_wrt_nth_less [of _ ps i j])

lemma search_loop_spec:
  assumes "sorted_wrt (<) ps" and "0 < sz" and "base + sz \<le> length ps"
    and "base = 0 \<or> ps ! base \<le> x" and "\<forall>j. base + sz \<le> j \<and> j < length ps \<longrightarrow> x < ps ! j"
  shows "search_loop ps x base sz < length ps \<and>
    (search_loop ps x base sz = 0 \<or> ps ! search_loop ps x base sz \<le> x) \<and>
    (\<forall>j. search_loop ps x base sz < j \<and> j < length ps \<longrightarrow> x < ps ! j)"
  using assms
proof (induction ps x base sz rule: search_loop.induct)
  case (1 ps x base sz)
  show ?case
  proof (cases "1 < sz")
    case False
    with 1(3) have sz: "sz = 1" by simp
    with False have e: "search_loop ps x base sz = base" by (subst search_loop.simps) simp
    from 1(4-6) sz show ?thesis unfolding e by auto
  next
    case True
    define h where "h = sz div 2"
    define b where "b = (if x < ps ! (base + h) then base else base + h)"
    have e: "search_loop ps x base sz = search_loop ps x b (sz - h)"
      using True by (subst search_loop.simps) (simp add: Let_def h_def b_def)
    have h: "0 < h" "h < sz" "sz - h \<le> sz" using True by (auto simp: h_def)
    have up: "x < ps ! j" if "x < ps ! (base + h)" "base + h \<le> j" "j < length ps" for j
      using strict_nth_le [OF 1(2) that(2,3)] that(1) by simp
    have le: "sz - h \<le> h + 1" "h \<le> sz - h" by (auto simp: h_def)
    have bounds: "\<forall>j. b + (sz - h) \<le> j \<and> j < length ps \<longrightarrow> x < ps ! j"
    proof (cases "x < ps ! (base + h)")
      case True
      then show ?thesis using up le by (auto simp: b_def)
    next
      case False
      then show ?thesis using 1(6) h by (auto simp: b_def)
    qed
    have b: "0 < sz - h" "b + (sz - h) \<le> length ps" "b = 0 \<or> ps ! b \<le> x"
      using 1(4,5) h by (auto simp: b_def)
    show ?thesis
      unfolding e by (rule 1(1) [OF True h_def refl, folded b_def, OF 1(2) b bounds])
  qed
qed

lemma search_loop_full:
  assumes "sorted_wrt (<) ps" "ps \<noteq> []"
  shows "search_loop ps x 0 (length ps) < length ps"
    and "search_loop ps x 0 (length ps) = 0 \<or> ps ! search_loop ps x 0 (length ps) \<le> x"
    and "\<forall>j. search_loop ps x 0 (length ps) < j \<and> j < length ps \<longrightarrow> x < ps ! j"
proof -
  have p: "0 < length ps" "0 + length ps \<le> length ps" "(0::nat) = 0 \<or> ps ! 0 \<le> x"
    "\<forall>j. 0 + length ps \<le> j \<and> j < length ps \<longrightarrow> x < ps ! j" using assms(2) by auto
  note r = search_loop_spec [OF assms(1) p]
  show "search_loop ps x 0 (length ps) < length ps" using r by (rule conjunct1)
  show "search_loop ps x 0 (length ps) = 0 \<or> ps ! search_loop ps x 0 (length ps) \<le> x"
    using r [THEN conjunct2] by (rule conjunct1)
  show "\<forall>j. search_loop ps x 0 (length ps) < j \<and> j < length ps \<longrightarrow> x < ps ! j"
    using r [THEN conjunct2] by (rule conjunct2)
qed

lemma binary_search_Inr: "binary_search ps x = Inr i \<Longrightarrow> sorted_wrt (<) ps \<Longrightarrow> i < length ps \<and> ps ! i = x"
  using search_loop_full [of ps x]
  by (auto simp: binary_search_def Let_def split: if_splits)

lemma binary_search_Inl:
  assumes "binary_search ps x = Inl i" and "sorted_wrt (<) ps"
  shows "i \<le> length ps" and "\<forall>j < i. ps ! j < x" and "\<forall>j. i \<le> j \<and> j < length ps \<longrightarrow> x < ps ! j"
proof -
  let ?r = "search_loop ps x 0 (length ps)"
  have "i \<le> length ps \<and> (\<forall>j < i. ps ! j < x) \<and> (\<forall>j. i \<le> j \<and> j < length ps \<longrightarrow> x < ps ! j)"
  proof (cases "ps = []")
    case True
    with assms(1) show ?thesis by (simp add: binary_search_def)
  next
    case False
    then have r: "?r < length ps" "?r = 0 \<or> ps ! ?r \<le> x" "\<forall>j. ?r < j \<and> j < length ps \<longrightarrow> x < ps ! j"
      using search_loop_full [OF assms(2) False] by blast+
    show ?thesis
    proof (cases "ps ! ?r < x")
      case True
      with assms(1) False have "i = ?r + 1" by (auto simp: binary_search_def Let_def split: if_splits)
      moreover have "ps ! j < x" if "j \<le> ?r" for j
        using strict_nth_le [OF assms(2) that r(1)] True by simp
      ultimately show ?thesis using r by auto
    next
      case False
      with assms(1) \<open>ps \<noteq> []\<close> have i: "i = ?r" "ps ! ?r \<noteq> x" by (auto simp: binary_search_def Let_def split: if_splits)
      with False r(2) have "?r = 0" by auto
      moreover have "x < ps ! j" if "j < length ps" for j
        using that False i r(3) \<open>?r = 0\<close> by (cases j) auto
      ultimately show ?thesis using i by simp
    qed
  qed
  then show "i \<le> length ps" "\<forall>j < i. ps ! j < x" "\<forall>j. i \<le> j \<and> j < length ps \<longrightarrow> x < ps ! j" by auto
qed

lemma binary_search_notin: "binary_search ps x = Inl i \<Longrightarrow> sorted_wrt (<) ps \<Longrightarrow> x \<notin> set ps"
proof
  assume b: "binary_search ps x = Inl i" "sorted_wrt (<) ps" and "x \<in> set ps"
  then obtain j where j: "j < length ps" "ps ! j = x" by (auto simp: in_set_conv_nth)
  with binary_search_Inl [OF b] show False by (metis leI less_irrefl)
qed

section \<open>The index as a set of subscriptions\<close>

definition index_inv :: "subscription_index \<Rightarrow> bool" where
  "index_inv subs \<longleftrightarrow> sorted_wrt (<) (map sub_prefix subs) \<and>
     (\<forall>s \<in> set subs. sub_peers s \<noteq> [] \<and> distinct (sub_peers s))"

definition subscribed :: "subscription_index \<Rightarrow> (peer_key \<times> bytes) set" where
  "subscribed subs = {(k, p). \<exists>s \<in> set subs. sub_prefix s = p \<and> k \<in> set (sub_peers s)}"

lemma index_inv_new [simp]: "index_inv index_new" "subscribed index_new = {}"
  by (simp_all add: index_inv_def index_new_def subscribed_def)

lemma index_is_empty_iff: "index_inv subs \<Longrightarrow> index_is_empty subs \<longleftrightarrow> subscribed subs = {}"
  by (cases subs) (force simp: index_is_empty_def subscribed_def index_inv_def neq_Nil_conv)+

text \<open>An entry is determined by its prefix.\<close>

lemma index_prefix_unique:
  assumes "index_inv subs" "i < length subs" "s \<in> set subs" "sub_prefix s = sub_prefix (subs ! i)"
  shows "s = subs ! i"
proof -
  obtain j where j: "j < length subs" "s = subs ! j" using assms(3) by (auto simp: in_set_conv_nth)
  have "distinct (map sub_prefix subs)"
    using assms(1) by (simp add: index_inv_def strict_sorted_iff)
  with j assms(2,4) have "i = j" by (metis distinct_conv_nth length_map nth_map)
  with j show ?thesis by simp
qed

lemma subscribed_at:
  assumes "index_inv subs" "i < length subs"
  shows "(k, sub_prefix (subs ! i)) \<in> subscribed subs \<longleftrightarrow> k \<in> set (sub_peers (subs ! i))"
  using assms(2) by (auto simp: subscribed_def dest: index_prefix_unique [OF assms])

text \<open>Replacing the peers of one entry.\<close>

lemma index_update_peers:
  fixes peers :: "peer_key list"
  assumes "index_inv subs" "i < length subs"
  defines "subs' \<equiv> subs[i := (subs ! i)\<lparr>sub_peers := peers\<rparr>]"
  shows "map sub_prefix subs' = map sub_prefix subs"
    and "subscribed subs' =
      {x \<in> subscribed subs. snd x \<noteq> sub_prefix (subs ! i)} \<union> (\<lambda>k. (k, sub_prefix (subs ! i))) ` set peers"
    and "peers \<noteq> [] \<Longrightarrow> distinct peers \<Longrightarrow> index_inv subs'"
proof -
  show m: "map sub_prefix subs' = map sub_prefix subs"
    unfolding subs'_def map_update using assms(2) by (simp add: list_update_same_conv)
  have s': "set subs' = insert ((subs ! i)\<lparr>sub_peers := peers\<rparr>) {s \<in> set subs. sub_prefix s \<noteq> sub_prefix (subs ! i)}"
  proof -
    have d: "distinct (map sub_prefix subs)"
      using assms(1) by (simp add: index_inv_def strict_sorted_iff)
    then have "set subs' = insert ((subs ! i)\<lparr>sub_peers := peers\<rparr>) (set subs - {subs ! i})"
      unfolding subs'_def using assms(2) by (intro set_update_distinct) (auto simp: distinct_map)
    also have "set subs - {subs ! i} = {s \<in> set subs. sub_prefix s \<noteq> sub_prefix (subs ! i)}"
      by (auto dest: index_prefix_unique [OF assms(1,2)])
    finally show ?thesis .
  qed
  show "subscribed subs' =
      {x \<in> subscribed subs. snd x \<noteq> sub_prefix (subs ! i)} \<union> (\<lambda>k. (k, sub_prefix (subs ! i))) ` set peers"
    unfolding subscribed_def s' by auto
  show "peers \<noteq> [] \<Longrightarrow> distinct peers \<Longrightarrow> index_inv subs'"
    using assms(1) m unfolding index_inv_def s' by auto
qed

text \<open>Deleting one entry.\<close>

lemma index_vec_remove:
  assumes "index_inv subs" "i < length subs"
  shows "index_inv (vec_remove i subs)"
    and "subscribed (vec_remove i subs) = {x \<in> subscribed subs. snd x \<noteq> sub_prefix (subs ! i)}"
proof -
  have split: "take i subs @ subs ! i # drop (Suc i) subs = subs"
    using id_take_nth_drop [OF assms(2)] by (rule sym)
  have w: "sorted_wrt (<) (map sub_prefix (take i subs @ subs ! i # drop (Suc i) subs))"
    unfolding split using assms(1) by (simp add: index_inv_def)
  have v: "set (vec_remove i subs) \<subseteq> set subs"
    by (auto simp: vec_remove_def dest: in_set_takeD in_set_dropD)
  have "sorted_wrt (<) (map sub_prefix (vec_remove i subs))"
    using w by (simp add: vec_remove_def sorted_wrt_append)
  with v assms(1) show "index_inv (vec_remove i subs)" by (auto simp: index_inv_def)
  have r: "set (vec_remove i subs) = {s \<in> set subs. sub_prefix s \<noteq> sub_prefix (subs ! i)}"
  proof (intro set_eqI iffI)
    fix s assume "s \<in> set (vec_remove i subs)"
    moreover from this w have "sub_prefix s \<noteq> sub_prefix (subs ! i)"
      by (fastforce simp: vec_remove_def sorted_wrt_append)
    ultimately show "s \<in> {s \<in> set subs. sub_prefix s \<noteq> sub_prefix (subs ! i)}" using v by blast
  next
    fix s assume "s \<in> {s \<in> set subs. sub_prefix s \<noteq> sub_prefix (subs ! i)}"
    then have "s \<in> set (take i subs @ subs ! i # drop (Suc i) subs)" "s \<noteq> subs ! i" unfolding split by auto
    then show "s \<in> set (vec_remove i subs)" by (auto simp: vec_remove_def)
  qed
  show "subscribed (vec_remove i subs) = {x \<in> subscribed subs. snd x \<noteq> sub_prefix (subs ! i)}"
    unfolding subscribed_def r by auto
qed

lemma vec_remove_update [simp]: "vec_remove i (xs[i := x]) = vec_remove i xs"
  by (simp add: vec_remove_def)

text \<open>Inserting a new entry at the point the search reports.\<close>

lemma index_vec_insert:
  assumes "index_inv subs" "binary_search (map sub_prefix subs) p = Inl i"
  shows "index_inv (vec_insert i \<lparr>sub_prefix = p, sub_peers = [k]\<rparr> subs)"
    and "subscribed (vec_insert i \<lparr>sub_prefix = p, sub_peers = [k]\<rparr> subs) = insert (k, p) (subscribed subs)"
proof -
  have w: "sorted_wrt (<) (map sub_prefix subs)" using assms(1) by (simp add: index_inv_def)
  note b = binary_search_Inl [OF assms(2) w]
  have s: "set (vec_insert i x subs) = insert x (set subs)" for x
    using set_append [of "take i subs" "drop i subs"] by (simp add: vec_insert_def)
  have lo: "sub_prefix s < p" if "s \<in> set (take i subs)" for s
    using that b(1,2) by (auto simp: in_set_conv_nth)
  have hi: "p < sub_prefix s" if s: "s \<in> set (drop i subs)" for s
  proof -
    from s obtain j where "s = subs ! (i + j)" "i + j < length subs" by (auto simp: in_set_conv_nth)
    with b(3) show ?thesis by (metis le_add1 length_map nth_map)
  qed
  have "sorted_wrt (<) (map sub_prefix (take i subs) @ map sub_prefix (drop i subs))"
    using w by (simp flip: map_append)
  with lo hi have "sorted_wrt (<) (map sub_prefix (vec_insert i \<lparr>sub_prefix = p, sub_peers = [k]\<rparr> subs))"
    by (simp add: vec_insert_def sorted_wrt_append)
  then show "index_inv (vec_insert i \<lparr>sub_prefix = p, sub_peers = [k]\<rparr> subs)"
    using assms(1) by (simp add: index_inv_def s)
  show "subscribed (vec_insert i \<lparr>sub_prefix = p, sub_peers = [k]\<rparr> subs) = insert (k, p) (subscribed subs)"
    by (auto simp: subscribed_def s)
qed

lemma binary_search_entry:
  assumes "index_inv subs" "binary_search (map sub_prefix subs) p = Inr i"
  shows "i < length subs" "sub_prefix (subs ! i) = p"
  using binary_search_Inr [OF assms(2)] assms(1) by (auto simp: index_inv_def)

lemma binary_search_absent:
  assumes "index_inv subs" "binary_search (map sub_prefix subs) p = Inl i"
  shows "(k, p) \<notin> subscribed subs"
  using binary_search_notin [OF assms(2)] assms(1) by (auto simp: index_inv_def subscribed_def)

lemma index_subscribe_spec:
  assumes "index_inv subs"
  shows "index_inv (index_subscribe k p subs) \<and> subscribed (index_subscribe k p subs) = insert (k, p) (subscribed subs)"
proof (cases "binary_search (map sub_prefix subs) p")
  case (Inl i)
  with index_vec_insert [OF assms Inl, of k] show ?thesis by (simp add: index_subscribe_def)
next
  case (Inr i)
  note e = binary_search_entry [OF assms Inr]
  note at = subscribed_at [OF assms e(1), unfolded e(2)]
  have peers: "sub_peers (subs ! i) \<noteq> []" "distinct (sub_peers (subs ! i))"
    using assms e(1) by (auto simp: index_inv_def)
  note u = index_update_peers [OF assms e(1), unfolded e(2)]
  show ?thesis
  proof (cases "k \<in> set (sub_peers (subs ! i))")
    case True
    with assms at Inr show ?thesis by (auto simp: index_subscribe_def)
  next
    case False
    with u(2,3) [of "sub_peers (subs ! i) @ [k]"] peers at Inr show ?thesis
      by (auto simp: index_subscribe_def Let_def)
  qed
qed

lemma index_unsubscribe_spec:
  assumes "index_inv subs"
  shows "index_inv (index_unsubscribe k p subs) \<and> subscribed (index_unsubscribe k p subs) = subscribed subs - {(k, p)}"
proof (cases "binary_search (map sub_prefix subs) p")
  case (Inl i)
  with assms binary_search_absent [OF assms Inl] show ?thesis by (simp add: index_unsubscribe_def)
next
  case (Inr i)
  note e = binary_search_entry [OF assms Inr]
  note at = subscribed_at [OF assms e(1), unfolded e(2)]
  have "distinct (sub_peers (subs ! i))" using assms e(1) by (auto simp: index_inv_def)
  note d = drop_peer_spec [OF this, of k]
  note u = index_update_peers [OF assms e(1), unfolded e(2)]
  note r = index_vec_remove [OF assms e(1), unfolded e(2)]
  show ?thesis
  proof (cases "drop_peer k (sub_peers (subs ! i)) = []")
    case True
    with d(1) have "set (sub_peers (subs ! i)) - {k} = {}" by simp
    with r at True Inr show ?thesis by (auto simp: index_unsubscribe_def)
  next
    case False
    with u(2,3) [of "drop_peer k (sub_peers (subs ! i))"] d at Inr show ?thesis
      by (auto simp: index_unsubscribe_def Let_def)
  qed
qed

text \<open>The sweep over all entries is a map followed by a filter.\<close>

lemma remove_peer_loop_eq:
  "i \<le> length subs \<Longrightarrow> remove_peer_loop k i subs =
     take i subs @ filter (\<lambda>s. sub_peers s \<noteq> []) (map (\<lambda>s. s\<lparr>sub_peers := drop_peer k (sub_peers s)\<rparr>) (drop i subs))"
proof (induction k i subs rule: remove_peer_loop.induct)
  case (1 k i subs)
  show ?case
  proof (cases "i < length subs")
    case False
    with 1(3) show ?thesis by (subst remove_peer_loop.simps) simp
  next
    case True
    let ?s = "(subs ! i)\<lparr>sub_peers := drop_peer k (sub_peers (subs ! i))\<rparr>"
    have d: "drop i subs = subs ! i # drop (Suc i) subs" using True by (simp add: Cons_nth_drop_Suc)
    show ?thesis
    proof (cases "drop_peer k (sub_peers (subs ! i)) = []")
      case empty: True
      have "remove_peer_loop k i subs = remove_peer_loop k i (vec_remove i subs)"
        using True empty by (subst remove_peer_loop.simps) (simp add: Let_def)
      also have "\<dots> = take i (vec_remove i subs) @ filter (\<lambda>s. sub_peers s \<noteq> [])
          (map (\<lambda>s. s\<lparr>sub_peers := drop_peer k (sub_peers s)\<rparr>) (drop i (vec_remove i subs)))"
        using 1(1) [OF True refl refl empty] True by (simp add: vec_remove_def)
      finally show ?thesis using empty True by (simp add: d vec_remove_def)
    next
      case False
      have "remove_peer_loop k i subs = remove_peer_loop k (i + 1) (subs[i := ?s])"
        using True False by (subst remove_peer_loop.simps) (simp add: Let_def)
      also have "\<dots> = take (i + 1) (subs[i := ?s]) @ filter (\<lambda>s. sub_peers s \<noteq> [])
          (map (\<lambda>s. s\<lparr>sub_peers := drop_peer k (sub_peers s)\<rparr>) (drop (i + 1) (subs[i := ?s])))"
        using 1(2) [OF True refl refl False] True by simp
      also have "take (i + 1) (subs[i := ?s]) = take i subs @ [?s]"
        using True by (simp add: take_Suc_conv_app_nth)
      finally show ?thesis using False by (simp add: d)
    qed
  qed
qed

lemma remove_peer_everywhere_spec:
  assumes "index_inv subs"
  shows "index_inv (remove_peer_everywhere k subs) \<and>
    subscribed (remove_peer_everywhere k subs) = {x \<in> subscribed subs. fst x \<noteq> k}"
proof -
  let ?f = "\<lambda>s. s\<lparr>sub_peers := drop_peer k (sub_peers s)\<rparr>"
  let ?P = "\<lambda>s :: subscription. sub_peers s \<noteq> []"
  have e: "remove_peer_everywhere k subs = filter ?P (map ?f subs)"
    by (simp add: remove_peer_everywhere_def remove_peer_loop_eq)
  have w: "sorted_wrt (<) (map sub_prefix (map ?f subs))"
    using assms by (simp add: index_inv_def comp_def)
  have "sorted_wrt (<) (map sub_prefix (filter ?P (map ?f subs)))"
    unfolding sorted_wrt_map using w [unfolded sorted_wrt_map] by (intro sorted_wrt_filter) (simp add: sorted_wrt_map)
  moreover have d: "\<forall>s \<in> set subs. distinct (drop_peer k (sub_peers s)) \<and> set (drop_peer k (sub_peers s)) = set (sub_peers s) - {k}"
    using assms by (auto simp: index_inv_def drop_peer_spec)
  ultimately have "index_inv (remove_peer_everywhere k subs)"
    unfolding e index_inv_def by auto
  moreover have "subscribed (filter ?P (map ?f subs)) = {x \<in> subscribed subs. fst x \<noteq> k}"
  proof (intro set_eqI iffI)
    fix x assume "x \<in> subscribed (filter ?P (map ?f subs))"
    with d show "x \<in> {x \<in> subscribed subs. fst x \<noteq> k}" by (auto simp: subscribed_def)
  next
    fix x assume "x \<in> {x \<in> subscribed subs. fst x \<noteq> k}"
    then obtain s where "s \<in> set subs" "sub_prefix s = snd x" "fst x \<in> set (sub_peers s)" "fst x \<noteq> k"
      by (auto simp: subscribed_def)
    with d have "?f s \<in> set (filter ?P (map ?f subs))" "sub_prefix (?f s) = snd x" "fst x \<in> set (sub_peers (?f s))"
      by force+
    then show "x \<in> subscribed (filter ?P (map ?f subs))"
      unfolding subscribed_def mem_Collect_eq case_prod_beta by blast
  qed
  ultimately show ?thesis by (simp add: e)
qed

text \<open>Matching: the early exit loses nothing, because a prefix of the topic is never greater than it.\<close>

lemma prefix_le_lex: "prefix p t \<Longrightarrow> p \<le> (t :: bytes)"
proof (induction p arbitrary: t)
  case (Cons x p)
  then obtain t' where "t = x # t'" "prefix p t'" by (auto simp: prefix_def)
  with Cons.IH show ?case by simp
qed simp

lemma match_scan_set:
  assumes "sorted_wrt (<) (map sub_prefix subs)"
  shows "set (match_scan topic subs) = {k. \<exists>s \<in> set subs. prefix (sub_prefix s) topic \<and> k \<in> set (sub_peers s)}"
  using assms
proof (induction subs)
  case (Cons s subs)
  show ?case
  proof (cases "topic < sub_prefix s")
    case True
    have "\<not> prefix (sub_prefix r) topic" if "r \<in> set (s # subs)" for r
    proof
      assume "prefix (sub_prefix r) topic"
      then have "sub_prefix r \<le> topic" by (rule prefix_le_lex)
      moreover have "sub_prefix s \<le> sub_prefix r" using that Cons.prems by auto
      ultimately show False using True by simp
    qed
    with True show ?thesis by auto
  next
    case False
    with Cons show ?thesis by (auto simp: starts_with_prefix)
  qed
qed simp

lemma match_scan_distinct_singleton: "length xs \<le> 1 \<Longrightarrow> sorted xs \<and> distinct xs"
  by (cases xs; cases "tl xs") auto

lemma distinct_remdups_adj: "sorted xs \<Longrightarrow> distinct (remdups_adj (xs :: 'a :: linorder list))"
  by (induction xs rule: remdups_adj.induct) force+

lemma match_topic_spec:
  assumes "index_inv subs"
  shows "set (match_topic topic subs) = {k. \<exists>p. (k, p) \<in> subscribed subs \<and> prefix p topic}"
    and "sorted (match_topic topic subs)" and "distinct (match_topic topic subs)"
proof -
  have "set (match_topic topic subs) = set (match_scan topic subs)"
    by (simp add: match_topic_def Let_def)
  also have "\<dots> = {k. \<exists>s \<in> set subs. prefix (sub_prefix s) topic \<and> k \<in> set (sub_peers s)}"
    using assms by (intro match_scan_set) (simp add: index_inv_def)
  also have "\<dots> = {k. \<exists>p. (k, p) \<in> subscribed subs \<and> prefix p topic}"
    by (auto simp: subscribed_def)
  finally show "set (match_topic topic subs) = {k. \<exists>p. (k, p) \<in> subscribed subs \<and> prefix p topic}" .
  show "sorted (match_topic topic subs)" "distinct (match_topic topic subs)"
    using match_scan_distinct_singleton [of "match_scan topic subs"]
    by (auto simp: match_topic_def Let_def sorted_remdups_adj distinct_remdups_adj)
qed

section \<open>The contract of a subscription store\<close>

text \<open>
  What the hub relies on: a store abstracts to a set of (peer, prefix) pairs, its operations
  are the set operations, and matching a topic enumerates the peers of the matching pairs once
  each, in ascending order.
\<close>

datatype store_op = AddSub peer_key bytes | DelSub peer_key bytes | DropPeer peer_key

fun store_spec :: "store_op \<Rightarrow> (peer_key \<times> bytes) set \<Rightarrow> (peer_key \<times> bytes) set" where
  "store_spec (AddSub k p) S = insert (k, p) S"
| "store_spec (DelSub k p) S = S - {(k, p)}"
| "store_spec (DropPeer k) S = {x \<in> S. fst x \<noteq> k}"

definition matching_peers :: "(peer_key \<times> bytes) set \<Rightarrow> bytes \<Rightarrow> peer_key set" where
  "matching_peers S topic = {k. \<exists>p. (k, p) \<in> S \<and> prefix p topic}"

locale subscription_store =
  fixes new :: 'i
    and add :: "peer_key \<Rightarrow> bytes \<Rightarrow> 'i \<Rightarrow> 'i"
    and del :: "peer_key \<Rightarrow> bytes \<Rightarrow> 'i \<Rightarrow> 'i"
    and drop_all :: "peer_key \<Rightarrow> 'i \<Rightarrow> 'i"
    and lookup :: "bytes \<Rightarrow> 'i \<Rightarrow> peer_key list"
    and inv :: "'i \<Rightarrow> bool"
    and abs :: "'i \<Rightarrow> (peer_key \<times> bytes) set"
  assumes new_spec: "inv new" "abs new = {}"
    and add_spec: "inv i \<Longrightarrow> inv (add k p i) \<and> abs (add k p i) = insert (k, p) (abs i)"
    and del_spec: "inv i \<Longrightarrow> inv (del k p i) \<and> abs (del k p i) = abs i - {(k, p)}"
    and drop_spec: "inv i \<Longrightarrow> inv (drop_all k i) \<and> abs (drop_all k i) = {x \<in> abs i. fst x \<noteq> k}"
    and lookup_spec: "inv i \<Longrightarrow> set (lookup topic i) = matching_peers (abs i) topic \<and>
      sorted (lookup topic i) \<and> distinct (lookup topic i)"
begin

fun run_op :: "store_op \<Rightarrow> 'i \<Rightarrow> 'i" where
  "run_op (AddSub k p) i = add k p i"
| "run_op (DelSub k p) i = del k p i"
| "run_op (DropPeer k) i = drop_all k i"

lemma run_op_refines: "inv i \<Longrightarrow> inv (run_op c i) \<and> abs (run_op c i) = store_spec c (abs i)"
  by (cases c) (simp_all add: add_spec del_spec drop_spec)

lemma history_refines: "inv i \<Longrightarrow> inv (fold run_op cs i) \<and> abs (fold run_op cs i) = fold store_spec cs (abs i)"
  by (induction cs arbitrary: i) (simp_all add: run_op_refines)

lemma lookup_eq: "inv i \<Longrightarrow> lookup topic i = sorted_list_of_set (matching_peers (abs i) topic)"
  using lookup_spec [of i topic] by (metis sorted_list_of_set.idem_if_sorted_distinct)

lemma history_lookup:
  "lookup topic (fold run_op cs new) = sorted_list_of_set (matching_peers (fold store_spec cs {}) topic)"
  using history_refines [OF new_spec(1), of cs] by (simp add: lookup_eq new_spec(2))

end

interpretation hub_index: subscription_store index_new index_subscribe index_unsubscribe
  remove_peer_everywhere match_topic index_inv subscribed
  by unfold_locales
    (simp_all add: index_subscribe_spec index_unsubscribe_spec remove_peer_everywhere_spec
      match_topic_spec matching_peers_def)

fun index_run :: "store_op \<Rightarrow> subscription_index \<Rightarrow> subscription_index" where
  "index_run (AddSub k p) subs = index_subscribe k p subs"
| "index_run (DelSub k p) subs = index_unsubscribe k p subs"
| "index_run (DropPeer k) subs = remove_peer_everywhere k subs"

lemma index_run_eq: "hub_index.run_op = index_run"
proof (intro ext)
  show "hub_index.run_op c subs = index_run c subs" for c subs by (cases c) simp_all
qed

section \<open>The contract of a topic filter\<close>

text \<open>
  One socket's own prefixes: a filter holds a set of prefixes and accepts the topics one of
  them is a prefix of.
\<close>

locale topic_filter =
  fixes accepts :: "'f \<Rightarrow> bytes \<Rightarrow> bool"
    and prefixes :: "'f \<Rightarrow> bytes set"
    and ok :: "'f \<Rightarrow> bool"
  assumes accepts_iff: "ok f \<Longrightarrow> accepts f topic \<longleftrightarrow> (\<exists>p \<in> prefixes f. prefix p topic)"
begin

lemma accepts_all: "ok f \<Longrightarrow> [] \<in> prefixes f \<Longrightarrow> accepts f topic"
  by (auto simp: accepts_iff intro: bexI [where x = "[]"])

lemma accepts_none: "ok f \<Longrightarrow> prefixes f = {} \<Longrightarrow> \<not> accepts f topic"
  by (simp add: accepts_iff)

lemma accepts_mono: "ok f \<Longrightarrow> accepts f topic \<Longrightarrow> accepts f (topic @ rest)"
  using accepts_iff prefix_prefix by blast

end

definition trie_ok :: "subscription_trie \<Rightarrow> bool" where
  "trie_ok t \<longleftrightarrow> sorted t \<and> distinct t"

lemma trie_ops:
  "trie_ok trie_new" "set trie_new = {}"
  "trie_ok t \<Longrightarrow> trie_ok (trie_subscribe p t)" "set (trie_subscribe p t) = insert p (set t)"
  "trie_ok t \<Longrightarrow> trie_ok (trie_unsubscribe p t)" "trie_ok t \<Longrightarrow> set (trie_unsubscribe p t) = set t - {p}"
  "trie_ok (trie_clear t)" "set (trie_clear t) = {}"
  by (auto simp: trie_ok_def trie_new_def trie_subscribe_def trie_unsubscribe_def trie_clear_def
      sorted_insort_insert distinct_insort_insert set_insort_insert sorted_remove1)

lemma trie_matches_iff: "trie_matches t topic \<longleftrightarrow> (\<exists>p \<in> set t. prefix p topic)"
proof -
  have "(\<exists>len \<le> length topic. take len topic \<in> set t) \<longleftrightarrow> (\<exists>p \<in> set t. prefix p topic)"
    by (metis append_eq_conv_conj prefix_def prefix_length_le take_is_prefix)
  then show ?thesis
    by (auto simp: trie_matches_def list_ex_iff less_Suc_eq_le simp del: upt_Suc)
qed

lemma topic_matches_prefixes_iff: "topic_matches_prefixes topic ps \<longleftrightarrow> (\<exists>p \<in> set ps. prefix p topic)"
  by (auto simp: topic_matches_prefixes_def list_ex_iff starts_with_prefix intro: bexI [where x = "[]"])

lemma prefix_matches_iff: "prefix_matches p topic \<longleftrightarrow> prefix p topic"
  by (auto simp: prefix_matches_def starts_with_def simp flip: starts_with_prefix)

interpretation trie: topic_filter trie_matches set trie_ok
  by unfold_locales (rule trie_matches_iff)

interpretation linear: topic_filter "\<lambda>ps topic. topic_matches_prefixes topic ps" set "\<lambda>_. True"
  by unfold_locales (rule topic_matches_prefixes_iff)

interpretation single: topic_filter prefix_matches "\<lambda>p. {p}" "\<lambda>_. True"
  by unfold_locales (simp add: prefix_matches_iff)

section \<open>Properties\<close>

text \<open>C30. After any sequence of subscriptions, cancellations and peer removals, matching a topic
  in the sorted index yields, in ascending order and each exactly once, the peers that hold a
  subscription to some prefix of the topic: the binary search, the swap-removals, the sweep that
  does not advance past a deleted entry and the early exit of the scan all agree with the plain
  set of subscriptions.\<close>

theorem index_history:
  "match_topic topic (fold index_run cs index_new) =
     sorted_list_of_set (matching_peers (fold store_spec cs {}) topic)"
  by (rule hub_index.history_lookup [unfolded index_run_eq])

text \<open>The three matchers of the repository agree: the set behind \<open>SubscriptionTrie\<close>, probed
  with every prefix of the topic, the linear scan \<open>topic_matches_prefixes\<close> and the sorted index
  accept the same topics for the same subscriptions.\<close>

theorem matchers_agree:
  assumes "set ps = set t" and "index_inv subs" and "{p. (k, p) \<in> subscribed subs} = set t"
  shows "trie_matches t topic = topic_matches_prefixes topic ps \<and>
    (k \<in> set (match_topic topic subs) \<longleftrightarrow> trie_matches t topic) \<and>
    trie_matches t topic = list_ex (\<lambda>p. prefix_matches p topic) (trie_subscriptions t)"
proof -
  have "k \<in> set (match_topic topic subs) \<longleftrightarrow> (\<exists>p \<in> set t. prefix p topic)"
    using assms(2,3) by (auto simp: match_topic_spec)
  then show ?thesis
    using assms(1)
    by (simp add: trie_matches_iff topic_matches_prefixes_iff prefix_matches_iff
        trie_subscriptions_def list_ex_iff)
qed

theorem matchers_agree_witness:
  "let t = [blit ''a'', blit ''ab'']; subs = [\<lparr>sub_prefix = blit ''a'', sub_peers = [7]\<rparr>, \<lparr>sub_prefix = blit ''ab'', sub_peers = [3, 7]\<rparr>]
   in trie_matches t (blit ''abc'') = topic_matches_prefixes (blit ''abc'') (rev t) \<and>
      (7 \<in> set (match_topic (blit ''abc'') subs) \<longleftrightarrow> trie_matches t (blit ''abc'')) \<and>
      trie_matches t (blit ''abc'') = list_ex (\<lambda>p. prefix_matches p (blit ''abc'')) (trie_subscriptions t)"
  unfolding Let_def
  by (rule matchers_agree) (auto simp: index_inv_def subscribed_def)

text \<open>Subscription messages are decoded exactly: both decoders give the event whose encoding the
  message is, and reject every message that encodes none.\<close>

theorem subscription_message_exact:
  "(from_message msg = Some ev \<longleftrightarrow> msg = to_message ev) \<and> from_bytes msg = from_message msg"
  by (cases msg; cases ev) (auto simp: from_bytes_def from_message_def Let_def)

end
