(* ===== verification/Pubsub_Hub.thy ===== *)
theory Pubsub_Hub
  imports Subscription_Index "HOL-Library.AList"
begin

text \<open>
  The publish/subscribe hub, \<open>monocoque-core/src/pubsub/hub.rs\<close>: a single task that owns the
  subscription index and the table of live peers and handles peer events and user commands one
  at a time.

  The abstract hub below knows routing ids only: which are live, at which epoch and on which
  channel, and which prefixes each holds. The compact keys, the two directions of the key table
  and the sorted index are the code's representation of it; every handler is shown to simulate
  the abstract one.
\<close>

section \<open>Model of the code\<close>

text \<open>A channel is named by a number; what is sent on it is recorded in the handler's output.
  A failed \<open>tx.send\<close> is ignored by the code, so the output lists the attempts.\<close>

type_synonym chan = nat

datatype peer_cmd = SendBody "bytes list" | PeerClose

datatype pubsub_cmd = Publish "bytes list" | CloseHub

datatype pubsub_event =
    PeerUp bytes nat chan
  | PeerDown bytes nat
  | PeerSubscribe bytes bytes
  | PeerUnsubscribe bytes bytes

record pubsub_hub =
  hub_index :: subscription_index
  rid_to_key :: "bytes \<rightharpoonup> peer_key"
  key_to_rid :: "peer_key \<rightharpoonup> bytes"
  hub_peers :: "(peer_key \<times> (nat \<times> chan)) list"
  next_key :: peer_key

definition pubsub_new :: pubsub_hub where
  "pubsub_new = \<lparr>hub_index = index_new, rid_to_key = Map.empty, key_to_rid = Map.empty,
     hub_peers = [], next_key = 1\<rparr>"

text \<open>Resolve or allocate the key of a routing id.\<close>

definition peer_key_of :: "bytes \<Rightarrow> pubsub_hub \<Rightarrow> peer_key \<times> pubsub_hub" where
  "peer_key_of rid h =
     (case rid_to_key h rid of
        Some k \<Rightarrow> (k, h)
      | None \<Rightarrow>
          let k = next_key h in
          (k, h\<lparr>next_key := next_key h + 1, key_to_rid := (key_to_rid h)(k \<mapsto> rid),
                rid_to_key := (rid_to_key h)(rid \<mapsto> k)\<rparr>))"

fun on_hub_event :: "pubsub_hub \<Rightarrow> pubsub_event \<Rightarrow> pubsub_hub" where
  "on_hub_event h (PeerUp rid epoch tx) =
     (let (k, h1) = peer_key_of rid h in h1\<lparr>hub_peers := AList.update k (epoch, tx) (hub_peers h1)\<rparr>)"
| "on_hub_event h (PeerDown rid epoch) =
     (case rid_to_key h rid of
        None \<Rightarrow> h
      | Some k \<Rightarrow>
          (case map_of (hub_peers h) k of
             None \<Rightarrow> h
           | Some (current, _) \<Rightarrow>
               if current = epoch then
                 h\<lparr>hub_peers := AList.delete k (hub_peers h), hub_index := remove_peer_everywhere k (hub_index h)\<rparr>
               else h))"
| "on_hub_event h (PeerSubscribe rid p) =
     (case rid_to_key h rid of
        None \<Rightarrow> h
      | Some k \<Rightarrow>
          if map_of (hub_peers h) k \<noteq> None then h\<lparr>hub_index := index_subscribe k p (hub_index h)\<rparr> else h)"
| "on_hub_event h (PeerUnsubscribe rid p) =
     (case rid_to_key h rid of
        None \<Rightarrow> h
      | Some k \<Rightarrow> h\<lparr>hub_index := index_unsubscribe k p (hub_index h)\<rparr>)"

fun publish_loop :: "(peer_key \<times> (nat \<times> chan)) list \<Rightarrow> bytes list \<Rightarrow> peer_key list \<Rightarrow> (chan \<times> peer_cmd) list" where
  "publish_loop peers parts [] = []"
| "publish_loop peers parts (k # ks) =
     (case map_of peers k of Some (_, tx) \<Rightarrow> [(tx, SendBody parts)] | None \<Rightarrow> []) @ publish_loop peers parts ks"

definition publish :: "pubsub_hub \<Rightarrow> bytes list \<Rightarrow> (chan \<times> peer_cmd) list" where
  "publish h parts =
     (if parts = [] \<or> index_is_empty (hub_index h) then []
      else let ks = match_topic (parts ! 0) (hub_index h) in
        if ks = [] then [] else publish_loop (hub_peers h) parts ks)"

fun on_user_cmd :: "pubsub_hub \<Rightarrow> pubsub_cmd \<Rightarrow> (chan \<times> peer_cmd) list" where
  "on_user_cmd h (Publish parts) = publish h parts"
| "on_user_cmd h CloseHub = map (\<lambda>(_, _, tx). (tx, PeerClose)) (hub_peers h)"

text \<open>The event loop. Each round of the \<open>select!\<close> yields a message of one of the two queues or
  finds one of them disconnected, which ends the loop.\<close>

datatype pubsub_input = HubMsg pubsub_event | UserMsg pubsub_cmd | QueueClosed

fun pubsub_handle :: "pubsub_hub \<Rightarrow> pubsub_input \<Rightarrow> pubsub_hub \<times> (chan \<times> peer_cmd) list" where
  "pubsub_handle h (HubMsg ev) = (on_hub_event h ev, [])"
| "pubsub_handle h (UserMsg cmd) = (h, on_user_cmd h cmd)"
| "pubsub_handle h QueueClosed = (h, [])"

fun pubsub_run :: "pubsub_hub \<Rightarrow> pubsub_input list \<Rightarrow> pubsub_hub \<times> (chan \<times> peer_cmd) list" where
  "pubsub_run h [] = (h, [])"
| "pubsub_run h (QueueClosed # ins) = (h, [])"
| "pubsub_run h (inp # ins) =
     (let (h1, out1) = pubsub_handle h inp; (h2, out2) = pubsub_run h1 ins in (h2, out1 @ out2))"

section \<open>Abstract hub\<close>

record abs_hub =
  live :: "bytes \<rightharpoonup> nat \<times> chan"
  subs :: "(bytes \<times> bytes) set"

definition abs_init :: abs_hub where
  "abs_init = \<lparr>live = Map.empty, subs = {}\<rparr>"

fun abs_event :: "pubsub_event \<Rightarrow> abs_hub \<Rightarrow> abs_hub" where
  "abs_event (PeerUp rid epoch tx) a = a\<lparr>live := (live a)(rid \<mapsto> (epoch, tx))\<rparr>"
| "abs_event (PeerDown rid epoch) a =
     (if map_option fst (live a rid) = Some epoch
      then a\<lparr>live := (live a)(rid := None), subs := {x \<in> subs a. fst x \<noteq> rid}\<rparr> else a)"
| "abs_event (PeerSubscribe rid p) a = (if live a rid \<noteq> None then a\<lparr>subs := insert (rid, p) (subs a)\<rparr> else a)"
| "abs_event (PeerUnsubscribe rid p) a = a\<lparr>subs := subs a - {(rid, p)}\<rparr>"

text \<open>The peers a publication reaches.\<close>

definition receivers :: "abs_hub \<Rightarrow> bytes \<Rightarrow> bytes set" where
  "receivers a topic = {rid. live a rid \<noteq> None \<and> (\<exists>p. (rid, p) \<in> subs a \<and> prefix p topic)}"

definition hub_abs :: "pubsub_hub \<Rightarrow> abs_hub" where
  "hub_abs h =
     \<lparr>live = (\<lambda>rid. Option.bind (rid_to_key h rid) (map_of (hub_peers h))),
      subs = {(rid, p). \<exists>k. rid_to_key h rid = Some k \<and> (k, p) \<in> subscribed (hub_index h)}\<rparr>"

text \<open>The representation invariant: the two key tables are inverse to each other and below the
  next key, and only live peers are indexed.\<close>

definition hub_inv :: "pubsub_hub \<Rightarrow> bool" where
  "hub_inv h \<longleftrightarrow> index_inv (hub_index h) \<and> distinct (map fst (hub_peers h)) \<and>
     (\<forall>rid k. rid_to_key h rid = Some k \<longleftrightarrow> key_to_rid h k = Some rid) \<and>
     (\<forall>k. key_to_rid h k \<noteq> None \<longrightarrow> k < next_key h) \<and>
     (\<forall>k \<in> fst ` set (hub_peers h). key_to_rid h k \<noteq> None) \<and>
     (\<forall>(k, p) \<in> subscribed (hub_index h). k \<in> fst ` set (hub_peers h))"

lemma hub_invD:
  assumes "hub_inv h"
  shows "index_inv (hub_index h)" "distinct (map fst (hub_peers h))"
    "rid_to_key h rid = Some k \<longleftrightarrow> key_to_rid h k = Some rid"
    "key_to_rid h k \<noteq> None \<Longrightarrow> k < next_key h"
    "k \<in> fst ` set (hub_peers h) \<Longrightarrow> key_to_rid h k \<noteq> None"
    "(k, q) \<in> subscribed (hub_index h) \<Longrightarrow> k \<in> fst ` set (hub_peers h)"
  using assms unfolding hub_inv_def by blast+

text \<open>Two routing ids never share a key.\<close>

lemma rid_to_key_inj: "hub_inv h \<Longrightarrow> rid_to_key h r = Some k \<Longrightarrow> r' \<noteq> r \<Longrightarrow> rid_to_key h r' \<noteq> Some k"
  by (simp add: hub_invD(3))

text \<open>Abstract states are compared one routing id at a time.\<close>

lemma hub_abs_eqI:
  assumes "\<And>r. Option.bind (rid_to_key h r) (map_of (hub_peers h)) = live a r"
    and "\<And>r p. (\<exists>k. rid_to_key h r = Some k \<and> (k, p) \<in> subscribed (hub_index h)) \<longleftrightarrow> (r, p) \<in> subs a"
  shows "hub_abs h = (a :: abs_hub)"
  using assms by (auto simp: hub_abs_def intro!: abs_hub.equality)

lemma hub_abs_sel [simp]:
  "live (hub_abs h) r = Option.bind (rid_to_key h r) (map_of (hub_peers h))"
  "(r, p) \<in> subs (hub_abs h) \<longleftrightarrow> (\<exists>k. rid_to_key h r = Some k \<and> (k, p) \<in> subscribed (hub_index h))"
  by (simp_all add: hub_abs_def)

lemma fst_set_update: "fst ` set (AList.update k v al) = insert k (fst ` set al)"
  by (simp add: update_conv' flip: dom_map_of_conv_image_fst)

lemma fst_set_delete: "fst ` set (AList.delete k al) = fst ` set al - {k}"
  by (simp add: delete_conv' flip: dom_map_of_conv_image_fst)

section \<open>Every handler keeps the invariant and simulates the abstract hub\<close>

lemma peer_key_of_spec:
  assumes "hub_inv h" and "peer_key_of rid h = (k, h1)"
  shows "hub_inv h1 \<and> rid_to_key h1 rid = Some k \<and> hub_abs h1 = hub_abs h \<and> key_to_rid h1 k = Some rid"
proof (cases "rid_to_key h rid")
  case (Some k')
  with assms show ?thesis by (auto simp: peer_key_of_def hub_invD(3))
next
  case None
  let ?n = "next_key h"
  have h1: "k = ?n" "h1 = h\<lparr>next_key := ?n + 1, key_to_rid := (key_to_rid h)(?n \<mapsto> rid), rid_to_key := (rid_to_key h)(rid \<mapsto> ?n)\<rparr>"
    using assms(2) None by (auto simp: peer_key_of_def Let_def)
  have fresh: "key_to_rid h ?n = None" using hub_invD(4) [OF assms(1), of ?n] by blast
  then have nopeer: "?n \<notin> fst ` set (hub_peers h)" using hub_invD(5) [OF assms(1)] by blast
  then have nosub: "(?n, p) \<notin> subscribed (hub_index h)" for p using hub_invD(6) [OF assms(1)] by blast
  have norid: "key_to_rid h j \<noteq> Some rid" for j using None hub_invD(3) [OF assms(1)] by (metis option.simps(3))
  have nokey: "rid_to_key h r \<noteq> Some ?n" for r using fresh hub_invD(3) [OF assms(1)] by (metis option.simps(3))
  have "hub_inv h1"
    unfolding hub_inv_def h1
    using assms(1) norid nokey by (auto simp: hub_inv_def less_Suc_eq)
  moreover have "hub_abs h1 = hub_abs h"
    using None nosub nopeer by (intro hub_abs_eqI) (auto simp: h1 map_of_eq_None_iff)
  ultimately show ?thesis by (simp add: h1)
qed

lemma peer_up_spec:
  assumes "hub_inv h"
  shows "hub_inv (on_hub_event h (PeerUp rid epoch tx)) \<and>
    hub_abs (on_hub_event h (PeerUp rid epoch tx)) = abs_event (PeerUp rid epoch tx) (hub_abs h)"
proof -
  obtain k h1 where p: "peer_key_of rid h = (k, h1)" by fastforce
  note s = peer_key_of_spec [OF assms p]
  then have inv: "hub_inv h1" and k: "rid_to_key h1 rid = Some k" "key_to_rid h1 k = Some rid" by auto
  let ?h = "h1\<lparr>hub_peers := AList.update k (epoch, tx) (hub_peers h1)\<rparr>"
  have "hub_inv ?h"
    using inv k(2) unfolding hub_inv_def by (auto simp: fst_set_update distinct_update)
  moreover have "hub_abs ?h = abs_event (PeerUp rid epoch tx) (hub_abs h1)"
  proof (rule hub_abs_eqI)
    show "Option.bind (rid_to_key ?h r) (map_of (hub_peers ?h)) = live (abs_event (PeerUp rid epoch tx) (hub_abs h1)) r" for r
      using k(1) rid_to_key_inj [OF inv k(1), of r] by (cases "rid_to_key h1 r") (auto simp: update_conv')
  qed simp
  ultimately show ?thesis using s p by simp
qed

lemma peer_down_spec:
  assumes "hub_inv h"
  shows "hub_inv (on_hub_event h (PeerDown rid epoch)) \<and>
    hub_abs (on_hub_event h (PeerDown rid epoch)) = abs_event (PeerDown rid epoch) (hub_abs h)"
proof (cases "rid_to_key h rid")
  case None
  with assms show ?thesis by (simp add: hub_abs_def)
next
  case k: (Some k)
  show ?thesis
  proof (cases "map_of (hub_peers h) k")
    case None
    with assms k show ?thesis by (simp add: hub_abs_def)
  next
    case (Some e)
    obtain cur tx where e: "e = (cur, tx)" by fastforce
    show ?thesis
    proof (cases "cur = epoch")
      case False
      with assms k Some e show ?thesis by (simp add: hub_abs_def)
    next
      case True
      let ?h = "h\<lparr>hub_peers := AList.delete k (hub_peers h), hub_index := remove_peer_everywhere k (hub_index h)\<rparr>"
      note r = remove_peer_everywhere_spec [OF hub_invD(1) [OF assms], of k]
      have "hub_inv ?h"
        using assms r unfolding hub_inv_def by (auto simp: fst_set_delete distinct_delete)
      moreover have "hub_abs ?h = abs_event (PeerDown rid epoch) (hub_abs h)"
      proof (rule hub_abs_eqI)
        show "Option.bind (rid_to_key ?h s) (map_of (hub_peers ?h)) = live (abs_event (PeerDown rid epoch) (hub_abs h)) s" for s
          using k Some e True rid_to_key_inj [OF assms k, of s]
          by (cases "rid_to_key h s") (auto simp: delete_conv')
        show "(\<exists>k. rid_to_key ?h s = Some k \<and> (k, p) \<in> subscribed (hub_index ?h)) \<longleftrightarrow>
            (s, p) \<in> subs (abs_event (PeerDown rid epoch) (hub_abs h))" for s p
          using k Some e True r rid_to_key_inj [OF assms k, of s] by (cases "s = rid") auto
      qed
      ultimately show ?thesis using k Some e True by simp
    qed
  qed
qed

lemma peer_subscribe_spec:
  assumes "hub_inv h"
  shows "hub_inv (on_hub_event h (PeerSubscribe rid p)) \<and>
    hub_abs (on_hub_event h (PeerSubscribe rid p)) = abs_event (PeerSubscribe rid p) (hub_abs h)"
proof (cases "rid_to_key h rid")
  case None
  with assms show ?thesis by (simp add: hub_abs_def)
next
  case k: (Some k)
  note r = index_subscribe_spec [OF hub_invD(1) [OF assms], of k p]
  show ?thesis
  proof (cases "map_of (hub_peers h) k")
    case None
    with assms k show ?thesis by (simp add: hub_abs_def)
  next
    case (Some e)
    then have "k \<in> fst ` set (hub_peers h)" by (metis map_of_eq_None_iff option.simps(3))
    then have "hub_inv (h\<lparr>hub_index := index_subscribe k p (hub_index h)\<rparr>)"
      using assms r unfolding hub_inv_def by auto
    moreover have "hub_abs (h\<lparr>hub_index := index_subscribe k p (hub_index h)\<rparr>) = abs_event (PeerSubscribe rid p) (hub_abs h)"
    proof (rule hub_abs_eqI)
      let ?h = "h\<lparr>hub_index := index_subscribe k p (hub_index h)\<rparr>"
      show "(\<exists>k. rid_to_key ?h s = Some k \<and> (k, q) \<in> subscribed (hub_index ?h)) \<longleftrightarrow>
          (s, q) \<in> subs (abs_event (PeerSubscribe rid p) (hub_abs h))" for s q
        using k Some r rid_to_key_inj [OF assms k, of s] by (cases "s = rid") auto
    qed (simp add: k Some)
    ultimately show ?thesis using k Some by simp
  qed
qed

lemma peer_unsubscribe_spec:
  assumes "hub_inv h"
  shows "hub_inv (on_hub_event h (PeerUnsubscribe rid p)) \<and>
    hub_abs (on_hub_event h (PeerUnsubscribe rid p)) = abs_event (PeerUnsubscribe rid p) (hub_abs h)"
proof (cases "rid_to_key h rid")
  case None
  with assms show ?thesis by (auto simp: hub_abs_def)
next
  case k: (Some k)
  note r = index_unsubscribe_spec [OF hub_invD(1) [OF assms], of k p]
  have "hub_inv (h\<lparr>hub_index := index_unsubscribe k p (hub_index h)\<rparr>)"
    using assms r unfolding hub_inv_def by auto
  moreover have "hub_abs (h\<lparr>hub_index := index_unsubscribe k p (hub_index h)\<rparr>) = abs_event (PeerUnsubscribe rid p) (hub_abs h)"
  proof (rule hub_abs_eqI)
    let ?h = "h\<lparr>hub_index := index_unsubscribe k p (hub_index h)\<rparr>"
    show "(\<exists>k. rid_to_key ?h s = Some k \<and> (k, q) \<in> subscribed (hub_index ?h)) \<longleftrightarrow>
        (s, q) \<in> subs (abs_event (PeerUnsubscribe rid p) (hub_abs h))" for s q
      using k r rid_to_key_inj [OF assms k, of s] by (cases "s = rid") auto
  qed simp
  ultimately show ?thesis using k by simp
qed

lemma on_hub_event_refines:
  "hub_inv h \<Longrightarrow> hub_inv (on_hub_event h ev) \<and> hub_abs (on_hub_event h ev) = abs_event ev (hub_abs h)"
  by (cases ev) (use peer_up_spec peer_down_spec peer_subscribe_spec peer_unsubscribe_spec in blast)+

section \<open>What a publication sends\<close>

text \<open>The abstract hub allows exactly one copy per receiver, and one close per live peer.\<close>

definition sends_to :: "abs_hub \<Rightarrow> bytes set \<Rightarrow> peer_cmd \<Rightarrow> (chan \<times> peer_cmd) multiset" where
  "sends_to a rids c = image_mset (\<lambda>rid. (snd (the (live a rid)), c)) (mset_set rids)"

fun abs_allowed :: "abs_hub \<Rightarrow> pubsub_input \<Rightarrow> (chan \<times> peer_cmd) list \<Rightarrow> bool" where
  "abs_allowed a (UserMsg (Publish parts)) out \<longleftrightarrow>
     mset out = (if parts = [] then {#} else sends_to a (receivers a (hd parts)) (SendBody parts))"
| "abs_allowed a (UserMsg CloseHub) out \<longleftrightarrow> mset out = sends_to a (dom (live a)) PeerClose"
| "abs_allowed a (HubMsg _) out \<longleftrightarrow> out = []"
| "abs_allowed a QueueClosed out \<longleftrightarrow> out = []"

fun abs_input :: "pubsub_input \<Rightarrow> abs_hub \<Rightarrow> abs_hub" where
  "abs_input (HubMsg ev) a = abs_event ev a"
| "abs_input _ a = a"

text \<open>Sending by key is sending by routing id.\<close>

lemma sends_by_key:
  assumes inv: "hub_inv h" and "distinct ks" and "set ks \<subseteq> fst ` set (hub_peers h)"
  shows "mset (map (\<lambda>k. (snd (the (map_of (hub_peers h) k)), c)) ks) =
    sends_to (hub_abs h) {rid. \<exists>k \<in> set ks. rid_to_key h rid = Some k} c"
proof -
  let ?R = "{rid. \<exists>k \<in> set ks. rid_to_key h rid = Some k}"
  let ?key = "\<lambda>rid. the (rid_to_key h rid)"
  have "k \<in> ?key ` ?R" if k: "k \<in> set ks" for k
  proof -
    from k assms(3) obtain rid where "key_to_rid h k = Some rid"
      using hub_invD(5) [OF inv, of k] by auto
    then have "rid_to_key h rid = Some k" by (simp add: hub_invD(3) [OF inv])
    with k show ?thesis by (intro image_eqI [of _ _ rid]) auto
  qed
  then have im: "?key ` ?R = set ks" by auto
  have inj: "inj_on ?key ?R"
  proof (rule inj_onI)
    fix r r' assume "r \<in> ?R" "r' \<in> ?R" "?key r = ?key r'"
    then obtain k where "rid_to_key h r = Some k" "rid_to_key h r' = Some k" by auto
    then show "r = r'" using rid_to_key_inj [OF inv] by blast
  qed
  have "mset ks = image_mset ?key (mset_set ?R)"
    using image_mset_mset_set [OF inj] im mset_set_set [OF assms(2)] by simp
  then have "mset (map (\<lambda>k. (snd (the (map_of (hub_peers h) k)), c)) ks) =
      image_mset (\<lambda>rid. (snd (the (map_of (hub_peers h) (?key rid))), c)) (mset_set ?R)"
    by (simp add: multiset.map_comp comp_def)
  also have "\<dots> = sends_to (hub_abs h) ?R c"
    unfolding sends_to_def
  proof (rule image_mset_cong)
    fix rid assume "rid \<in># mset_set ?R"
    then have "rid \<in> ?R" by (cases "finite ?R") simp_all
    then show "(snd (the (map_of (hub_peers h) (?key rid))), c) = (snd (the (live (hub_abs h) rid)), c)" by auto
  qed
  finally show ?thesis .
qed

lemma publish_loop_eq:
  "set ks \<subseteq> fst ` set peers \<Longrightarrow>
   publish_loop peers parts ks = map (\<lambda>k. (snd (the (map_of peers k)), SendBody parts)) ks"
proof (induction ks)
  case (Cons k ks)
  then obtain e tx where "map_of peers k = Some (e, tx)"
    by (metis insert_subset list.set(2) map_of_eq_None_iff option.exhaust surj_pair)
  with Cons show ?case by simp
qed simp

lemma publish_spec:
  assumes inv: "hub_inv h"
  shows "mset (publish h parts) =
    (if parts = [] then {#} else sends_to (hub_abs h) (receivers (hub_abs h) (hd parts)) (SendBody parts))"
proof (cases "parts = []")
  case True
  then show ?thesis by (simp add: publish_def)
next
  case False
  let ?ks = "match_topic (hd parts) (hub_index h)"
  note m = match_topic_spec [OF hub_invD(1) [OF inv], of "hd parts"]
  have sub: "set ?ks \<subseteq> fst ` set (hub_peers h)"
    using hub_invD(6) [OF inv] unfolding m(1) by blast
  have "receivers (hub_abs h) (hd parts) = {rid. \<exists>k \<in> set ?ks. rid_to_key h rid = Some k}"
  proof (intro set_eqI iffI)
    fix rid assume "rid \<in> {rid. \<exists>k \<in> set ?ks. rid_to_key h rid = Some k}"
    then obtain k p where k: "rid_to_key h rid = Some k" "(k, p) \<in> subscribed (hub_index h)" "prefix p (hd parts)" "k \<in> set ?ks"
      by (auto simp: m(1))
    then have "map_of (hub_peers h) k \<noteq> None" using sub by (auto simp: map_of_eq_None_iff)
    with k show "rid \<in> receivers (hub_abs h) (hd parts)" by (auto simp: receivers_def)
  qed (auto simp: receivers_def m(1))
  moreover have "publish h parts = map (\<lambda>k. (snd (the (map_of (hub_peers h) k)), SendBody parts)) ?ks"
  proof (cases "index_is_empty (hub_index h)")
    case True
    then have "?ks = []" by (simp add: index_is_empty_def match_topic_def Let_def)
    with True show ?thesis by (simp add: publish_def)
  next
    case ne: False
    with False publish_loop_eq [OF sub] show ?thesis by (auto simp: publish_def hd_conv_nth Let_def)
  qed
  ultimately show ?thesis using False sends_by_key [OF inv m(3) sub] by simp
qed

lemma close_spec:
  assumes inv: "hub_inv h"
  shows "mset (on_user_cmd h CloseHub) = sends_to (hub_abs h) (dom (live (hub_abs h))) PeerClose"
proof -
  let ?ks = "map fst (hub_peers h)"
  have "on_user_cmd h CloseHub = map (\<lambda>k. (snd (the (map_of (hub_peers h) k)), PeerClose)) ?ks"
    using hub_invD(2) [OF inv] by (auto simp: map_of_eq_Some_iff [THEN iffD2])
  moreover have "dom (live (hub_abs h)) = {rid. \<exists>k \<in> set ?ks. rid_to_key h rid = Some k}"
  proof (intro set_eqI)
    fix rid
    have "rid \<in> dom (live (hub_abs h)) \<longleftrightarrow> (\<exists>k. rid_to_key h rid = Some k \<and> map_of (hub_peers h) k \<noteq> None)"
      by (cases "rid_to_key h rid") auto
    then show "rid \<in> dom (live (hub_abs h)) \<longleftrightarrow> rid \<in> {rid. \<exists>k \<in> set ?ks. rid_to_key h rid = Some k}"
      by (auto simp: map_of_eq_None_iff)
  qed
  ultimately show ?thesis using sends_by_key [OF inv hub_invD(2) [OF inv], of PeerClose] by (simp only: set_map)
qed

interpretation hub: refined_machine pubsub_new pubsub_handle hub_inv hub_abs abs_init abs_input abs_allowed
proof unfold_locales
  show "hub_inv pubsub_new" by (simp add: hub_inv_def pubsub_new_def)
  show "hub_abs pubsub_new = abs_init" by (auto simp: hub_abs_def pubsub_new_def abs_init_def)
  show "hub_inv (fst (pubsub_handle h i))" if "hub_inv h" for h i
    using that on_hub_event_refines by (cases i) auto
  show "hub_abs (fst (pubsub_handle h i)) = abs_input i (hub_abs h)" if "hub_inv h" for h i
    using that on_hub_event_refines by (cases i) auto
  show "abs_allowed (hub_abs h) i (snd (pubsub_handle h i))" if inv: "hub_inv h" for h i
  proof (cases i)
    case (UserMsg cmd)
    then show ?thesis using publish_spec [OF inv] close_spec [OF inv] by (cases cmd) simp_all
  qed auto
qed

text \<open>The loop is a run of the handler up to the first disconnected queue.\<close>

lemma pubsub_run_events: "pubsub_run h ins = run_events pubsub_handle h (takeWhile (\<lambda>i. i \<noteq> QueueClosed) ins)"
  by (induction h ins rule: pubsub_run.induct) (simp_all add: Let_def case_prod_beta)

section \<open>Properties\<close>

text \<open>C10. Publish/subscribe delivery. After any sequence of peer events and commands, publishing a
  message sends exactly one copy to every routing id that is live and holds a subscription to a
  prefix of the first frame, on the channel of its latest connection, and nothing to anyone else;
  the live peers and their subscriptions are those of the abstract hub, in which a
  disconnection carrying an outdated epoch has no effect.\<close>

theorem pubsub_delivery:
  "let h = fst (pubsub_run pubsub_new ins);
       a = fold abs_input (takeWhile (\<lambda>i. i \<noteq> QueueClosed) ins) abs_init
   in mset (publish h (topic # rest)) = sends_to a (receivers a topic) (SendBody (topic # rest)) \<and>
      mset (on_user_cmd h CloseHub) = sends_to a (dom (live a)) PeerClose"
  using hub.allowed_after [of "takeWhile (\<lambda>i. i \<noteq> QueueClosed) ins" "UserMsg (Publish (topic # rest))"]
    hub.allowed_after [of "takeWhile (\<lambda>i. i \<noteq> QueueClosed) ins" "UserMsg CloseHub"]
  by (simp add: pubsub_run_events Let_def)

text \<open>Reconnection. When a peer comes up again before the disconnection of its previous
  connection has been handled, that late disconnection is ignored, the new connection stays
  live, and it receives what the previous connection subscribed to: the epochs protect the
  live table, but the subscriptions of the old connection carry over to the new one.\<close>

theorem reconnect_inherits_subscriptions:
  assumes "prefix p topic" and "e1 \<noteq> e2"
  shows "publish (fst (pubsub_run pubsub_new
      [HubMsg (PeerUp rid e1 tx1), HubMsg (PeerSubscribe rid p), HubMsg (PeerUp rid e2 tx2), HubMsg (PeerDown rid e1)]))
      (topic # rest) = [(tx2, SendBody (topic # rest))]"
proof -
  let ?es = "[HubMsg (PeerUp rid e1 tx1), HubMsg (PeerSubscribe rid p), HubMsg (PeerUp rid e2 tx2), HubMsg (PeerDown rid e1)]"
  let ?a = "\<lparr>live = [rid \<mapsto> (e2, tx2)], subs = {(rid, p)}\<rparr>"
  have "fold abs_input ?es abs_init = ?a" using assms(2) by (simp add: abs_init_def)
  moreover have "receivers ?a topic = {rid}" using assms(1) by (auto simp: receivers_def)
  ultimately have "mset (publish (fst (pubsub_run pubsub_new ?es)) (topic # rest)) = {# (tx2, SendBody (topic # rest)) #}"
    using hub.allowed_after [of ?es "UserMsg (Publish (topic # rest))"] by (simp add: pubsub_run_events sends_to_def)
  then show ?thesis by (simp only: mset_single_iff)
qed

theorem reconnect_inherits_subscriptions_witness:
  "publish (fst (pubsub_run pubsub_new
      [HubMsg (PeerUp [9] 1 10), HubMsg (PeerSubscribe [9] [65]), HubMsg (PeerUp [9] 2 20), HubMsg (PeerDown [9] 1)]))
      [[65, 66], [1]] = [(20, SendBody [[65, 66], [1]])]"
  by (rule reconnect_inherits_subscriptions) simp_all

end
