(* ===== verification/Router_Hub.thy ===== *)
theory Router_Hub
  imports Pubsub_Hub
begin

text \<open>
  The router hub, \<open>monocoque-core/src/router.rs\<close>: a routing table keyed by identity, and a
  rotation list with a cursor for the load-balancing mode.

  The peers that hold an entry of the rotation list are exactly those of the table, so the
  repair branch of \<open>pick_rr_peer\<close> is never needed on a reachable state; the load balancer then
  visits the peers in turn.
\<close>

section \<open>Model of the code\<close>

datatype router_cmd = SendMessage "bytes list" | CloseRouter

datatype hub_event = RouterPeerUp bytes chan | RouterPeerDown bytes

datatype router_behavior = Standard | LoadBalancer

record router_hub =
  rh_peers :: "(bytes \<times> chan) list"
  lb_list :: "bytes list"
  lb_cursor :: nat
  behavior :: router_behavior

definition router_new :: "router_behavior \<Rightarrow> router_hub" where
  "router_new b = \<lparr>rh_peers = [], lb_list = [], lb_cursor = 0, behavior = b\<rparr>"

text \<open>Removing an identity from the rotation list, as both peer events do; the cursor is reset when
  it falls off the end.\<close>

definition lb_remove :: "bytes \<Rightarrow> router_hub \<Rightarrow> router_hub" where
  "lb_remove rid r =
     (case position (\<lambda>x. x = rid) (lb_list r) of
        None \<Rightarrow> r
      | Some pos \<Rightarrow>
          let l = vec_remove pos (lb_list r) in
          r\<lparr>lb_list := l, lb_cursor := if lb_cursor r \<ge> length l then 0 else lb_cursor r\<rparr>)"

fun handle_peer_event :: "router_hub \<Rightarrow> hub_event \<Rightarrow> router_hub" where
  "handle_peer_event r (RouterPeerUp rid tx) =
     (let r1 = (if map_of (rh_peers r) rid \<noteq> None then lb_remove rid r else r) in
      r1\<lparr>lb_list := lb_list r1 @ [rid], rh_peers := AList.update rid tx (rh_peers r1)\<rparr>)"
| "handle_peer_event r (RouterPeerDown rid) =
     lb_remove rid (r\<lparr>rh_peers := AList.delete rid (rh_peers r)\<rparr>)"

text \<open>The loop of \<open>pick_rr_peer\<close>: at most \<open>max_attempts + 1\<close> rounds, \<open>left\<close> counting the rounds that remain.
  Removing the stale entry leaves the cursor alone; the head of the next round repairs it.\<close>

fun pick_loop :: "nat \<Rightarrow> router_hub \<Rightarrow> bytes option \<times> router_hub" where
  "pick_loop 0 r = (None, r)"
| "pick_loop (Suc left) r =
     (if lb_list r = [] then (None, r)
      else
        let c = (if lb_cursor r \<ge> length (lb_list r) then 0 else lb_cursor r);
            rid = lb_list r ! c;
            r1 = r\<lparr>lb_cursor := (c + 1) mod length (lb_list r)\<rparr>
        in if map_of (rh_peers r1) rid \<noteq> None then (Some rid, r1)
           else pick_loop left
             (case position (\<lambda>x. x = rid) (lb_list r1) of
                Some pos \<Rightarrow> r1\<lparr>lb_list := vec_remove pos (lb_list r1)\<rparr>
              | None \<Rightarrow> r1))"

definition pick_rr_peer :: "router_hub \<Rightarrow> bytes option \<times> router_hub" where
  "pick_rr_peer r = pick_loop (length (lb_list r) + 1) r"

definition route_outbound :: "router_hub \<Rightarrow> bytes list \<Rightarrow> router_hub \<times> (chan \<times> peer_cmd) list" where
  "route_outbound r parts =
     (if parts = [] then (r, [])
      else case behavior r of
        Standard \<Rightarrow>
          let target = hd parts;
              rest = tl parts;
              body = (if rest \<noteq> [] \<and> hd rest = [] then tl rest else rest)
          in (r, case map_of (rh_peers r) target of Some tx \<Rightarrow> [(tx, SendBody body)] | None \<Rightarrow> [])
      | LoadBalancer \<Rightarrow>
          (case pick_rr_peer r of
             (Some rid, r1) \<Rightarrow>
               (r1, case map_of (rh_peers r1) rid of Some tx \<Rightarrow> [(tx, SendBody parts)] | None \<Rightarrow> [])
           | (None, r1) \<Rightarrow> (r1, [])))"

fun handle_user_cmd :: "router_hub \<Rightarrow> router_cmd \<Rightarrow> router_hub \<times> (chan \<times> peer_cmd) list" where
  "handle_user_cmd r (SendMessage parts) = route_outbound r parts"
| "handle_user_cmd r CloseRouter = (r, map (\<lambda>(_, tx). (tx, PeerClose)) (rh_peers r))"

text \<open>The event loop: one message of either queue per round; a disconnected queue ends the loop, after
  which every peer is told to close.\<close>

datatype router_input = RouterEvent hub_event | RouterUser router_cmd

fun router_handle :: "router_hub \<Rightarrow> router_input \<Rightarrow> router_hub \<times> (chan \<times> peer_cmd) list" where
  "router_handle r (RouterEvent ev) = (handle_peer_event r ev, [])"
| "router_handle r (RouterUser cmd) = handle_user_cmd r cmd"


section \<open>Invariant\<close>

text \<open>The rotation list has no repetition and lists exactly the routing table; the cursor is inside it.\<close>

definition router_inv :: "router_hub \<Rightarrow> bool" where
  "router_inv r \<longleftrightarrow> distinct (lb_list r) \<and> set (lb_list r) = fst ` set (rh_peers r) \<and>
     distinct (map fst (rh_peers r)) \<and> (lb_cursor r < length (lb_list r) \<or> lb_cursor r = 0)"

lemma position_vec_remove:
  assumes "distinct xs" "position (\<lambda>x. x = y) xs = Some pos"
  shows "vec_remove pos xs = remove1 y xs"
proof -
  from position_Some [OF assms(2)] have "pos < length xs" "xs ! pos = y" by auto
  moreover have "remove1 (xs ! pos) xs = take pos xs @ drop (Suc pos) xs" if "pos < length xs"
    using assms(1) that by (simp add: remove1_split) (metis id_take_nth_drop distinct_take in_set_conv_nth id_take_nth_drop not_distinct_conv_prefix)
  ultimately show ?thesis by (simp add: vec_remove_def)
qed

lemma lb_remove_eq:
  assumes "distinct (lb_list r)"
  shows "lb_remove rid r =
    (if rid \<in> set (lb_list r) then
       r\<lparr>lb_list := remove1 rid (lb_list r),
         lb_cursor := if lb_cursor r \<ge> length (remove1 rid (lb_list r)) then 0 else lb_cursor r\<rparr> else r)"
proof (cases "position (\<lambda>x. x = rid) (lb_list r)")
  case None
  then have "rid \<notin> set (lb_list r)" by (auto simp: position_None)
  with None show ?thesis by (simp add: lb_remove_def)
next
  case (Some pos)
  with position_Some [OF Some] position_vec_remove [OF assms Some] show ?thesis
    by (auto simp: lb_remove_def Let_def)
qed

lemma handle_peer_event_inv: "router_inv r \<Longrightarrow> router_inv (handle_peer_event r ev)"
proof (cases ev)
  case (RouterPeerUp rid tx)
  assume inv: "router_inv r"
  then have d: "distinct (lb_list r)" by (simp add: router_inv_def)
  show ?thesis
    using inv unfolding RouterPeerUp
    by (auto simp: router_inv_def lb_remove_eq [OF d] Let_def fst_set_update distinct_update map_of_eq_None_iff)
next
  case (RouterPeerDown rid)
  assume inv: "router_inv r"
  then have d: "distinct (lb_list (r\<lparr>rh_peers := AList.delete rid (rh_peers r)\<rparr>))" by (simp add: router_inv_def)
  show ?thesis
    using inv unfolding RouterPeerDown
    by (auto simp: router_inv_def lb_remove_eq [OF d] Let_def fst_set_delete distinct_delete)
qed

text \<open>On a state that satisfies the invariant the first round of the loop succeeds.\<close>

lemma pick_rr_peer_eq:
  assumes "router_inv r"
  shows "pick_rr_peer r =
    (if lb_list r = [] then (None, r)
     else (Some (lb_list r ! lb_cursor r), r\<lparr>lb_cursor := (lb_cursor r + 1) mod length (lb_list r)\<rparr>))"
proof (cases "lb_list r = []")
  case False
  with assms have c: "lb_cursor r < length (lb_list r)" by (auto simp: router_inv_def)
  then have "lb_list r ! lb_cursor r \<in> set (lb_list r)" by (rule nth_mem)
  with assms have "map_of (rh_peers r) (lb_list r ! lb_cursor r) \<noteq> None"
    by (simp add: router_inv_def map_of_eq_None_iff)
  with c False show ?thesis by (simp add: pick_rr_peer_def Let_def)
qed (simp add: pick_rr_peer_def)

lemma route_outbound_lb:
  assumes "router_inv r" "behavior r = LoadBalancer" "parts \<noteq> []"
  shows "route_outbound r parts =
    (if lb_list r = [] then (r, [])
     else (r\<lparr>lb_cursor := (lb_cursor r + 1) mod length (lb_list r)\<rparr>,
       [(the (map_of (rh_peers r) (lb_list r ! lb_cursor r)), SendBody parts)]))"
proof (cases "lb_list r = []")
  case True
  with assms show ?thesis by (simp add: route_outbound_def pick_rr_peer_eq)
next
  case False
  with assms(1) have "lb_list r ! lb_cursor r \<in> fst ` set (rh_peers r)" by (auto simp: router_inv_def)
  then obtain tx where "map_of (rh_peers r) (lb_list r ! lb_cursor r) = Some tx"
    by (metis map_of_eq_None_iff option.exhaust)
  with False assms show ?thesis by (simp add: route_outbound_def pick_rr_peer_eq)
qed

lemma route_outbound_state:
  assumes "router_inv r"
  shows "router_inv (fst (route_outbound r parts))" "rh_peers (fst (route_outbound r parts)) = rh_peers r"
    "behavior (fst (route_outbound r parts)) = behavior r" "lb_list (fst (route_outbound r parts)) = lb_list r"
proof -
  have cs: "fst (route_outbound r parts) = r \<or> (lb_list r \<noteq> [] \<and>
      fst (route_outbound r parts) = r\<lparr>lb_cursor := (lb_cursor r + 1) mod length (lb_list r)\<rparr>)"
  proof (cases "behavior r = Standard \<or> parts = []")
    case True
    then show ?thesis by (auto simp: route_outbound_def Let_def)
  next
    case False
    then show ?thesis using route_outbound_lb [OF assms] by (cases "behavior r") auto
  qed
  have "router_inv (r\<lparr>lb_cursor := (lb_cursor r + 1) mod length (lb_list r)\<rparr>)" if "lb_list r \<noteq> []"
    using assms that by (simp add: router_inv_def)
  with cs assms show "router_inv (fst (route_outbound r parts))" by auto
  show "rh_peers (fst (route_outbound r parts)) = rh_peers r" using cs by auto
  show "behavior (fst (route_outbound r parts)) = behavior r" using cs by auto
  show "lb_list (fst (route_outbound r parts)) = lb_list r" using cs by auto
qed

section \<open>Abstract router\<close>

text \<open>Which identities are connected, on which channel; no order, no cursor.\<close>

fun abs_router_step :: "router_input \<Rightarrow> (bytes \<rightharpoonup> chan) \<Rightarrow> (bytes \<rightharpoonup> chan)" where
  "abs_router_step (RouterEvent (RouterPeerUp rid tx)) m = m(rid \<mapsto> tx)"
| "abs_router_step (RouterEvent (RouterPeerDown rid)) m = m(rid := None)"
| "abs_router_step (RouterUser _) m = m"

text \<open>What the code strips off an addressed message: the identity and one empty delimiter.\<close>

fun routed_body :: "bytes list \<Rightarrow> bytes list" where
  "routed_body (_ # [] # body) = body"
| "routed_body (_ # body) = body"
| "routed_body [] = []"

fun abs_router_out :: "router_behavior \<Rightarrow> (bytes \<rightharpoonup> chan) \<Rightarrow> router_input \<Rightarrow> (chan \<times> peer_cmd) list \<Rightarrow> bool" where
  "abs_router_out b m (RouterEvent _) out \<longleftrightarrow> out = []"
| "abs_router_out b m (RouterUser (SendMessage [])) out \<longleftrightarrow> out = []"
| "abs_router_out Standard m (RouterUser (SendMessage (rid # parts))) out \<longleftrightarrow>
     out = (case m rid of None \<Rightarrow> [] | Some tx \<Rightarrow> [(tx, SendBody (routed_body (rid # parts)))])"
| "abs_router_out LoadBalancer m (RouterUser (SendMessage (p # parts))) out \<longleftrightarrow>
     (if m = Map.empty then out = [] else \<exists>rid tx. m rid = Some tx \<and> out = [(tx, SendBody (p # parts))])"
| "abs_router_out b m (RouterUser CloseRouter) out \<longleftrightarrow>
     mset out = image_mset (\<lambda>rid. (the (m rid), PeerClose)) (mset_set (dom m))"

lemma route_outbound_allowed:
  assumes "router_inv r"
  shows "abs_router_out (behavior r) (map_of (rh_peers r)) (RouterUser (SendMessage parts)) (snd (route_outbound r parts))"
proof (cases parts)
  case Nil
  then show ?thesis by (simp add: route_outbound_def)
next
  case (Cons p ps)
  show ?thesis
  proof (cases "behavior r")
    case Standard
    then show ?thesis
      by (cases "(p # ps)" rule: routed_body.cases)
        (auto simp: Cons route_outbound_def Let_def split: option.splits)
  next
    case LoadBalancer
    show ?thesis
    proof (cases "lb_list r = []")
      case True
      with assms have "rh_peers r = []" by (auto simp: router_inv_def)
      with True assms LoadBalancer show ?thesis by (simp add: Cons route_outbound_lb)
    next
      case False
      with assms have "lb_list r ! lb_cursor r \<in> fst ` set (rh_peers r)" by (auto simp: router_inv_def)
      then obtain tx where tx: "map_of (rh_peers r) (lb_list r ! lb_cursor r) = Some tx"
        by (metis map_of_eq_None_iff option.exhaust)
      then have "map_of (rh_peers r) \<noteq> Map.empty" by auto
      with tx False assms LoadBalancer show ?thesis
        by (auto simp: Cons route_outbound_lb)
    qed
  qed
qed

lemma close_router_allowed:
  assumes "distinct (map fst (al :: (bytes \<times> chan) list))"
  shows "mset (map (\<lambda>(_, tx). (tx, PeerClose)) al) =
    image_mset (\<lambda>rid. (the (map_of al rid), PeerClose)) (mset_set (dom (map_of al)))"
proof -
  have "map (\<lambda>(_, tx). (tx, PeerClose)) al = map (\<lambda>rid. (the (map_of al rid), PeerClose)) (map fst al)"
    using assms by (auto simp: map_of_eq_Some_iff [THEN iffD2])
  then have "mset (map (\<lambda>(_, tx). (tx, PeerClose)) al) =
      image_mset (\<lambda>rid. (the (map_of al rid), PeerClose)) (mset (map fst al))"
    by (simp only: mset_map)
  also have "mset (map fst al) = mset_set (dom (map_of al))"
    using mset_set_set [OF assms] by (simp add: dom_map_of_conv_image_fst)
  finally show ?thesis .
qed

lemma handle_peer_event_abs:
  assumes "router_inv r"
  shows "map_of (rh_peers (handle_peer_event r ev)) = abs_router_step (RouterEvent ev) (map_of (rh_peers r))"
    and "behavior (handle_peer_event r ev) = behavior r"
proof -
  have f: "rh_peers (lb_remove rid q) = rh_peers q" "behavior (lb_remove rid q) = behavior q" for rid q
    by (auto simp: lb_remove_def Let_def split: option.splits)
  show "map_of (rh_peers (handle_peer_event r ev)) = abs_router_step (RouterEvent ev) (map_of (rh_peers r))"
    by (cases ev) (simp_all add: f Let_def update_conv' delete_conv')
  show "behavior (handle_peer_event r ev) = behavior r"
    by (cases ev) (simp_all add: f Let_def)
qed

lemma router_input_cases:
  obtains (Event) ev where "i = RouterEvent ev"
    | (Send) parts where "i = RouterUser (SendMessage parts)"
    | (Close) "i = RouterUser CloseRouter"
  by (metis router_cmd.exhaust router_input.exhaust)

interpretation rhub: refined_machine "router_new b" router_handle "\<lambda>r. router_inv r \<and> behavior r = b"
  "\<lambda>r. map_of (rh_peers r)" Map.empty abs_router_step "abs_router_out b" for b
proof unfold_locales
  show "router_inv (router_new b) \<and> behavior (router_new b) = b"
    by (simp add: router_inv_def router_new_def)
  show "map_of (rh_peers (router_new b)) = Map.empty" by (simp add: router_new_def)
  fix r i assume "router_inv r \<and> behavior r = b"
  then have inv: "router_inv r" and b: "behavior r = b" by auto
  show "router_inv (fst (router_handle r i)) \<and> behavior (fst (router_handle r i)) = b"
    using b inv by (cases i rule: router_input_cases)
      (simp_all add: route_outbound_state handle_peer_event_inv handle_peer_event_abs)
  show "map_of (rh_peers (fst (router_handle r i))) = abs_router_step i (map_of (rh_peers r))"
    using inv by (cases i rule: router_input_cases) (simp_all add: route_outbound_state handle_peer_event_abs)
  show "abs_router_out b (map_of (rh_peers r)) i (snd (router_handle r i))"
    using route_outbound_allowed [OF inv] b inv close_router_allowed [of "rh_peers r"]
    by (cases i rule: router_input_cases) (simp_all add: router_inv_def)
qed

section \<open>Properties\<close>

text \<open>The turn of the load balancer: message number \<open>j\<close> goes to the peer \<open>j\<close> places after the cursor.\<close>

lemma lb_run:
  assumes "router_inv r" "behavior r = LoadBalancer" "lb_list r \<noteq> []" "\<forall>m \<in> set msgs. m \<noteq> []"
  shows "snd (run_events router_handle r (map (\<lambda>m. RouterUser (SendMessage m)) msgs)) =
    map (\<lambda>j. (the (map_of (rh_peers r) (lb_list r ! ((lb_cursor r + j) mod length (lb_list r)))), SendBody (msgs ! j)))
      [0 ..< length msgs]"
  using assms
proof (induction msgs arbitrary: r)
  case (Cons m msgs)
  let ?n = "length (lb_list r)" and ?r = "r\<lparr>lb_cursor := (lb_cursor r + 1) mod length (lb_list r)\<rparr>"
  have st: "route_outbound r m = (?r, [(the (map_of (rh_peers r) (lb_list r ! lb_cursor r)), SendBody m)])"
    using Cons.prems by (simp add: route_outbound_lb)
  have "router_inv ?r" using route_outbound_state(1) [OF Cons.prems(1), of m] by (simp add: st)
  then have "snd (run_events router_handle ?r (map (\<lambda>m. RouterUser (SendMessage m)) msgs)) =
      map (\<lambda>j. (the (map_of (rh_peers r) (lb_list r ! ((lb_cursor r + Suc j) mod ?n))), SendBody (msgs ! j))) [0 ..< length msgs]"
    using Cons.IH [of ?r] Cons.prems by (simp add: mod_add_left_eq)
  moreover have "lb_cursor r mod ?n = lb_cursor r" using Cons.prems(1,3) by (auto simp: router_inv_def)
  ultimately show ?case
    by (simp add: st Let_def case_prod_beta map_upt_Suc del: upt_Suc)
qed simp


text \<open>Fair rotation. After any history that leaves \<open>n\<close> peers connected, \<open>n\<close> consecutive
  messages in load-balancing mode go to \<open>n\<close> different peers: every connected peer gets exactly one.\<close>

theorem load_balancer_fair:
  assumes "r = fst (run_events router_handle (router_new LoadBalancer) ins)"
    and "length msgs = card (dom (fold abs_router_step ins Map.empty))" and "\<forall>m \<in> set msgs. m \<noteq> []"
  shows "\<exists>order. distinct order \<and> set order = dom (fold abs_router_step ins Map.empty) \<and>
    snd (run_events router_handle r (map (\<lambda>m. RouterUser (SendMessage m)) msgs)) =
      map2 (\<lambda>rid m. (the (fold abs_router_step ins Map.empty rid), SendBody m)) order msgs"
proof -
  have inv: "router_inv r" and lb: "behavior r = LoadBalancer"
    using rhub.inv_run [of LoadBalancer ins] by (auto simp: assms(1))
  have abs: "map_of (rh_peers r) = fold abs_router_step ins Map.empty"
    using rhub.abs_run [of LoadBalancer ins] by (simp add: assms(1))
  have s: "set (lb_list r) = dom (map_of (rh_peers r))" and d: "distinct (lb_list r)"
    using inv by (auto simp: router_inv_def dom_map_of_conv_image_fst)
  then have len: "length msgs = length (lb_list r)" using assms(2) abs by (metis distinct_card)
  let ?order = "rotate (lb_cursor r) (lb_list r)"
  have "snd (run_events router_handle r (map (\<lambda>m. RouterUser (SendMessage m)) msgs)) =
      map2 (\<lambda>rid m. (the (map_of (rh_peers r) rid), SendBody m)) ?order msgs"
  proof (cases "lb_list r = []")
    case True
    with len show ?thesis by simp
  next
    case False
    show ?thesis
      unfolding lb_run [OF inv lb False assms(3)]
      by (rule nth_equalityI) (simp_all add: len nth_rotate)
  qed
  then show ?thesis using s d by (intro exI [of _ ?order]) (simp add: abs)
qed

theorem load_balancer_fair_witness:
  "\<exists>order. distinct order \<and> set order = dom (fold abs_router_step [RouterEvent (RouterPeerUp [1] 10), RouterEvent (RouterPeerUp [2] 20)] Map.empty) \<and>
    snd (run_events router_handle (fst (run_events router_handle (router_new LoadBalancer) [RouterEvent (RouterPeerUp [1] 10), RouterEvent (RouterPeerUp [2] 20)]))
        (map (\<lambda>m. RouterUser (SendMessage m)) [[[7]], [[8]]])) =
      map2 (\<lambda>rid m. (the (fold abs_router_step [RouterEvent (RouterPeerUp [1] 10), RouterEvent (RouterPeerUp [2] 20)] Map.empty rid), SendBody m)) order [[[7]], [[8]]]"
  by (rule load_balancer_fair [OF refl]) simp_all

text \<open>The router hub carries no epochs: the late disconnection of a peer's previous connection
  removes its new one, and messages addressed to it are dropped although it is connected.\<close>

theorem router_late_disconnect:
  "snd (router_handle (fst (run_events router_handle (router_new Standard)
      [RouterEvent (RouterPeerUp rid tx1), RouterEvent (RouterPeerUp rid tx2), RouterEvent (RouterPeerDown rid)]))
      (RouterUser (SendMessage (rid # body)))) = []"
  using rhub.allowed_after [of Standard "[RouterEvent (RouterPeerUp rid tx1), RouterEvent (RouterPeerUp rid tx2), RouterEvent (RouterPeerDown rid)]"
      "RouterUser (SendMessage (rid # body))"] by simp

end
