(* ===== verification/Zap_Messages.thy ===== *)
theory Zap_Messages
  imports Utf8_Strings "HOL-Library.AList"
begin

text \<open>
  \<open>monocoque-zmtp/src/security/zap.rs\<close> and the reply handling of \<open>zap_client.rs\<close>: the
  requests and replies of the ZeroMQ Authentication Protocol (ZAP) as multi-frame messages.

  The \<open>HashMap\<close> of reply metadata is an association list: the order in which \<open>encode\<close> walks
  it is unspecified in Rust, and the theorems hold for every order. \<open>Err(String)\<close> of the
  decoders is a value of \<open>zap_decode_error\<close>, one constructor per message of the source.
\<close>

section \<open>Model\<close>

definition ZAP_VERSION :: str where
  "ZAP_VERSION = lit ''1.0''"

datatype zap_mechanism = ZapNull | ZapPlain | ZapCurve

definition zap_mechanism_as_str :: "zap_mechanism \<Rightarrow> str" where
  "zap_mechanism_as_str m =
     (case m of ZapNull \<Rightarrow> lit ''NULL'' | ZapPlain \<Rightarrow> lit ''PLAIN'' | ZapCurve \<Rightarrow> lit ''CURVE'')"

definition zap_mechanism_from_str :: "str \<Rightarrow> zap_mechanism option" where
  "zap_mechanism_from_str s =
     (if s = lit ''NULL'' then Some ZapNull
      else if s = lit ''PLAIN'' then Some ZapPlain
      else if s = lit ''CURVE'' then Some ZapCurve
      else None)"

datatype zap_status = ZapSuccess | ZapTemporaryError | ZapFailure | ZapInternalError

definition zap_status_as_str :: "zap_status \<Rightarrow> str" where
  "zap_status_as_str c =
     (case c of ZapSuccess \<Rightarrow> lit ''200'' | ZapTemporaryError \<Rightarrow> lit ''300''
              | ZapFailure \<Rightarrow> lit ''400'' | ZapInternalError \<Rightarrow> lit ''500'')"

definition zap_status_from_str :: "str \<Rightarrow> zap_status option" where
  "zap_status_from_str s =
     (if s = lit ''200'' then Some ZapSuccess
      else if s = lit ''300'' then Some ZapTemporaryError
      else if s = lit ''400'' then Some ZapFailure
      else if s = lit ''500'' then Some ZapInternalError
      else None)"

record zap_request =
  rq_version :: str
  rq_request_id :: str
  rq_domain :: str
  rq_address :: str
  rq_identity :: bytes
  rq_mechanism :: zap_mechanism
  rq_credentials :: "bytes list"

record zap_response =
  rs_version :: str
  rs_request_id :: str
  rs_status_code :: zap_status
  rs_status_text :: str
  rs_user_id :: str
  rs_metadata :: "(str \<times> str) list"

datatype zap_decode_error =
    ZapFrameCount | ZapInvalidString | ZapUnsupportedVersion | ZapEmptyAddress | ZapIdentityTooLong
  | ZapUnknownMechanism | ZapCredentialCount | ZapUnknownStatus | ZapStatusTextTooLong
  | ZapInvalidUserId | ZapMetadataBounds

definition zap_request_new ::
  "str \<Rightarrow> str \<Rightarrow> str \<Rightarrow> bytes \<Rightarrow> zap_mechanism \<Rightarrow> bytes list \<Rightarrow> zap_request" where
  "zap_request_new rid dmn addr ident m creds =
     \<lparr>rq_version = ZAP_VERSION, rq_request_id = rid, rq_domain = dmn, rq_address = addr,
      rq_identity = ident, rq_mechanism = m, rq_credentials = creds\<rparr>"

definition zap_request_encode :: "zap_request \<Rightarrow> bytes list" where
  "zap_request_encode r =
     [utf8_encode (rq_version r), utf8_encode (rq_request_id r), utf8_encode (rq_domain r),
      utf8_encode (rq_address r), rq_identity r, utf8_encode (zap_mechanism_as_str (rq_mechanism r))]
     @ rq_credentials r"

text \<open>\<open>String::from_utf8(b.to_vec()).map_err(|_| "Invalid ...")?\<close>\<close>

definition zap_string :: "bytes \<Rightarrow> zap_decode_error + str" where
  "zap_string b = (case utf8_decode b of Some s \<Rightarrow> Inr s | None \<Rightarrow> Inl ZapInvalidString)"

definition zap_bind :: "'e + 'a \<Rightarrow> ('a \<Rightarrow> 'e + 'b) \<Rightarrow> 'e + 'b" where
  "zap_bind x f = (case x of Inl e \<Rightarrow> Inl e | Inr a \<Rightarrow> f a)"

definition zap_credential_count :: "zap_mechanism \<Rightarrow> nat" where
  "zap_credential_count m = (case m of ZapNull \<Rightarrow> 0 | ZapPlain \<Rightarrow> 2 | ZapCurve \<Rightarrow> 1)"

definition zap_request_decode :: "bytes list \<Rightarrow> zap_decode_error + zap_request" where
  "zap_request_decode frames =
     (if length frames < 6 then Inl ZapFrameCount
      else
        zap_bind (zap_string (frames ! 0)) (\<lambda>version.
        if version \<noteq> ZAP_VERSION then Inl ZapUnsupportedVersion else
        zap_bind (zap_string (frames ! 1)) (\<lambda>request_id.
        zap_bind (zap_string (frames ! 2)) (\<lambda>domain.
        zap_bind (zap_string (frames ! 3)) (\<lambda>address.
        if address = [] then Inl ZapEmptyAddress
        else if 255 < length (frames ! 4) then Inl ZapIdentityTooLong else
        zap_bind (zap_string (frames ! 5)) (\<lambda>ms.
        case zap_mechanism_from_str ms of
          None \<Rightarrow> Inl ZapUnknownMechanism
        | Some m \<Rightarrow>
            let creds = drop 6 frames in
            if length creds \<noteq> zap_credential_count m then Inl ZapCredentialCount
            else Inr \<lparr>rq_version = version, rq_request_id = request_id, rq_domain = domain,
                      rq_address = address, rq_identity = frames ! 4, rq_mechanism = m,
                      rq_credentials = creds\<rparr>))))))"

definition zap_response_success :: "str \<Rightarrow> str \<Rightarrow> zap_response" where
  "zap_response_success rid uid =
     \<lparr>rs_version = ZAP_VERSION, rs_request_id = rid, rs_status_code = ZapSuccess,
      rs_status_text = lit ''OK'', rs_user_id = uid, rs_metadata = []\<rparr>"

definition zap_response_failure :: "str \<Rightarrow> str \<Rightarrow> zap_response" where
  "zap_response_failure rid reason =
     \<lparr>rs_version = ZAP_VERSION, rs_request_id = rid, rs_status_code = ZapFailure,
      rs_status_text = reason, rs_user_id = [], rs_metadata = []\<rparr>"

definition zap_response_internal_error :: "str \<Rightarrow> str \<Rightarrow> zap_response" where
  "zap_response_internal_error rid reason =
     \<lparr>rs_version = ZAP_VERSION, rs_request_id = rid, rs_status_code = ZapInternalError,
      rs_status_text = reason, rs_user_id = [], rs_metadata = []\<rparr>"

text \<open>One metadata entry: the key is cut to 255 bytes, the length is cast to \<open>u32\<close>.\<close>

definition zap_metadata_entry :: "str \<times> str \<Rightarrow> bytes" where
  "zap_metadata_entry kv =
     (let key_bytes = utf8_encode (fst kv); key_len = min (length key_bytes) 255;
          v = utf8_encode (snd kv)
      in [word_of_nat key_len] @ take key_len key_bytes @ be_bytes 4 (length v) @ v)"

definition zap_response_encode :: "zap_response \<Rightarrow> bytes list" where
  "zap_response_encode r =
     (let metadata_bytes =
            (if rs_metadata r = [] then [] else concat (map zap_metadata_entry (rs_metadata r)))
      in [utf8_encode (rs_version r), utf8_encode (rs_request_id r),
          utf8_encode (zap_status_as_str (rs_status_code r)), utf8_encode (rs_status_text r),
          utf8_encode (rs_user_id r), metadata_bytes])"

text \<open>
  \<open>parse_metadata\<close>: one entry at the head of the remaining data, then the loop.
  \<open>metadata.insert\<close> overwrites an earlier value of the key.
\<close>

definition zap_entry_head :: "bytes \<Rightarrow> zap_decode_error + (str \<times> str) \<times> bytes" where
  "zap_entry_head rest =
     (let key_len = unat (rest ! 0); r1 = drop 1 rest in
      if length r1 < key_len then Inl ZapMetadataBounds else
      zap_bind (zap_string (take key_len r1)) (\<lambda>key.
      let r2 = drop key_len r1 in
      if length r2 < 4 then Inl ZapMetadataBounds else
      let value_len = be_val (take 4 r2); r3 = drop 4 r2 in
      if length r3 < value_len then Inl ZapMetadataBounds else
      zap_bind (zap_string (take value_len r3)) (\<lambda>v.
      Inr ((key, v), drop value_len r3))))"

lemma zap_entry_head_shorter:
  "zap_entry_head rest = Inr (kv, rest') \<Longrightarrow> rest \<noteq> [] \<Longrightarrow> length rest' < length rest"
  by (auto simp: zap_entry_head_def zap_bind_def Let_def split: if_splits sum.splits)

function parse_metadata :: "bytes \<Rightarrow> (str \<times> str) list \<Rightarrow> zap_decode_error + (str \<times> str) list" where
  "parse_metadata rest acc =
     (if rest = [] then Inr acc
      else case zap_entry_head rest of
             Inl e \<Rightarrow> Inl e
           | Inr (kv, rest') \<Rightarrow> parse_metadata rest' (AList.update (fst kv) (snd kv) acc))"
  by pat_completeness auto
termination
  by (relation "measure (\<lambda>(rest, acc). length rest)") (auto dest: zap_entry_head_shorter)

declare parse_metadata.simps [simp del]

definition is_ascii :: "bytes \<Rightarrow> bool" where
  "is_ascii b \<longleftrightarrow> list_all (\<lambda>x. unat x < 0x80) b"

definition zap_response_decode :: "bytes list \<Rightarrow> zap_decode_error + zap_response" where
  "zap_response_decode frames =
     (if length frames \<noteq> 6 then Inl ZapFrameCount
      else
        zap_bind (zap_string (frames ! 0)) (\<lambda>version.
        if version \<noteq> ZAP_VERSION then Inl ZapUnsupportedVersion else
        zap_bind (zap_string (frames ! 1)) (\<lambda>request_id.
        zap_bind (zap_string (frames ! 2)) (\<lambda>status_str.
        case zap_status_from_str status_str of
          None \<Rightarrow> Inl ZapUnknownStatus
        | Some code \<Rightarrow>
            zap_bind (zap_string (frames ! 3)) (\<lambda>status_text.
            if 255 < length (utf8_encode status_text) then Inl ZapStatusTextTooLong
            else if \<not> is_ascii (frames ! 4) then Inl ZapInvalidUserId else
            zap_bind (zap_string (frames ! 4)) (\<lambda>user_id.
            zap_bind (parse_metadata (frames ! 5) []) (\<lambda>metadata.
            Inr \<lparr>rs_version = version, rs_request_id = request_id, rs_status_code = code,
                 rs_status_text = status_text, rs_user_id = user_id, rs_metadata = metadata\<rparr>)))))))"

subsection \<open>ZapClient::authenticate\<close>

text \<open>
  What the DEALER socket of the client reports for the request it sent: the send failed, or
  the receive (within the timeout) gave a message, end of stream, an error or a timeout.
\<close>

datatype zap_io =
    ZapSendError io_error_kind
  | ZapRecvFrames "bytes list"
  | ZapRecvEof
  | ZapRecvError io_error_kind
  | ZapRecvTimeout

definition denial_response :: "str \<Rightarrow> str \<Rightarrow> zap_response" where
  "denial_response rid reason =
     \<lparr>rs_version = ZAP_VERSION, rs_request_id = rid, rs_status_code = ZapFailure,
      rs_status_text = reason, rs_user_id = [], rs_metadata = []\<rparr>"

definition zap_authenticate :: "zap_request \<Rightarrow> zap_io \<Rightarrow> io_error_kind + zap_response" where
  "zap_authenticate request io =
     (case io of
        ZapSendError k \<Rightarrow>
          if k = NotFound then Inr (denial_response (rq_request_id request)
            (lit ''No ZAP handler registered - connection denied by default''))
          else Inl k
      | ZapRecvEof \<Rightarrow> Inl ConnectionReset
      | ZapRecvError k \<Rightarrow>
          if k = NotFound then Inr (denial_response (rq_request_id request)
            (lit ''ZAP handler unavailable - connection denied by default''))
          else Inl k
      | ZapRecvTimeout \<Rightarrow> Inl TimedOut
      | ZapRecvFrames frames \<Rightarrow>
          (case zap_response_decode frames of
             Inl _ \<Rightarrow> Inl InvalidData
           | Inr r \<Rightarrow>
               if rs_version r \<noteq> ZAP_VERSION then Inl InvalidData
               else if rs_request_id r \<noteq> rq_request_id request then Inl InvalidData
               else Inr r))"

text \<open>\<open>authenticate_plain\<close> and \<open>authenticate_curve\<close>; \<open>rid\<close> is the next value of the request counter.\<close>

definition authenticate_plain ::
  "str \<Rightarrow> str \<Rightarrow> str \<Rightarrow> str \<Rightarrow> str \<Rightarrow> zap_io \<Rightarrow> io_error_kind + zap_response" where
  "authenticate_plain rid username password domain address io =
     zap_authenticate
       (zap_request_new rid domain address [] ZapPlain [utf8_encode username, utf8_encode password]) io"

definition authenticate_curve ::
  "str \<Rightarrow> bytes \<Rightarrow> str \<Rightarrow> str \<Rightarrow> zap_io \<Rightarrow> io_error_kind + zap_response" where
  "authenticate_curve rid client_key domain address io =
     zap_authenticate (zap_request_new rid domain address [] ZapCurve [client_key]) io"

section \<open>Round trips\<close>

definition wf_str :: "str \<Rightarrow> bool" where
  "wf_str s \<longleftrightarrow> list_all scalar_value s"

lemma wf_str_Nil [simp]: "wf_str []"
  by (simp add: wf_str_def)

lemma zap_string_encode [simp]: "wf_str s \<Longrightarrow> zap_string (utf8_encode s) = Inr s"
  by (simp add: zap_string_def wf_str_def utf8_decode_encode)

lemma zap_bind_Inr [simp]: "zap_bind (Inr a) f = f a"
  by (simp add: zap_bind_def)

lemma zap_bind_eq_Inr: "zap_bind x f = Inr b \<longleftrightarrow> (\<exists>a. x = Inr a \<and> f a = Inr b)"
  by (cases x) (simp_all add: zap_bind_def)

lemma wf_literals [simp]:
  "wf_str ZAP_VERSION" "wf_str (zap_mechanism_as_str m)" "wf_str (zap_status_as_str c)"
  by (simp_all add: wf_str_def ZAP_VERSION_def zap_mechanism_as_str_def zap_status_as_str_def
      scalar_value_def split: zap_mechanism.split zap_status.split)

lemma zap_mechanism_roundtrip [simp]: "zap_mechanism_from_str (zap_mechanism_as_str m) = Some m"
  by (cases m) (simp_all add: zap_mechanism_from_str_def zap_mechanism_as_str_def)

lemma zap_status_roundtrip [simp]: "zap_status_from_str (zap_status_as_str c) = Some c"
  by (cases c) (simp_all add: zap_status_from_str_def zap_status_as_str_def)

definition ok_request :: "zap_request \<Rightarrow> bool" where
  "ok_request r \<longleftrightarrow> rq_version r = ZAP_VERSION \<and> wf_str (rq_request_id r) \<and> wf_str (rq_domain r) \<and>
     wf_str (rq_address r) \<and> rq_address r \<noteq> [] \<and> length (rq_identity r) \<le> 255 \<and>
     length (rq_credentials r) = zap_credential_count (rq_mechanism r)"

lemma zap_request_roundtrip: "ok_request r \<Longrightarrow> zap_request_decode (zap_request_encode r) = Inr r"
  by (cases r) (simp add: ok_request_def zap_request_decode_def zap_request_encode_def Let_def)

definition ok_entry :: "str \<times> str \<Rightarrow> bool" where
  "ok_entry kv \<longleftrightarrow> wf_str (fst kv) \<and> wf_str (snd kv) \<and> length (utf8_encode (fst kv)) \<le> 255 \<and>
     length (utf8_encode (snd kv)) < 2 ^ 32"

lemma zap_entry_head_entry:
  assumes "ok_entry kv"
  shows "zap_entry_head (zap_metadata_entry kv @ rest) = Inr (kv, rest)"
proof -
  let ?k = "utf8_encode (fst kv)" let ?v = "utf8_encode (snd kv)"
  have e: "zap_metadata_entry kv @ rest = word_of_nat (length ?k) # ?k @ be_bytes 4 (length ?v) @ ?v @ rest"
    using assms by (simp add: zap_metadata_entry_def ok_entry_def Let_def)
  have n: "length ?k mod 256 = length ?k" "length ?v mod 4294967296 = length ?v"
    using assms by (simp_all add: ok_entry_def)
  show ?thesis
    unfolding e using assms n by (simp add: zap_entry_head_def Let_def ok_entry_def)
qed

lemma parse_metadata_entries:
  assumes "list_all ok_entry kvs" and "distinct (map fst acc @ map fst kvs)"
  shows "parse_metadata (concat (map zap_metadata_entry kvs)) acc = Inr (acc @ kvs)"
  using assms
proof (induction kvs arbitrary: acc)
  case Nil
  then show ?case by (simp add: parse_metadata.simps)
next
  case (Cons kv kvs)
  have ne: "zap_metadata_entry kv \<noteq> []" by (simp add: zap_metadata_entry_def Let_def)
  have "fst kv \<notin> set (map fst acc)" using Cons.prems(2) by auto
  then have u: "AList.update (fst kv) (snd kv) acc = acc @ [kv]"
    by (induction acc) auto
  show ?case
    using Cons.IH [of "acc @ [kv]"] Cons.prems ne
    by (subst parse_metadata.simps) (simp add: zap_entry_head_entry u)
qed

definition ok_response :: "zap_response \<Rightarrow> bool" where
  "ok_response r \<longleftrightarrow> rs_version r = ZAP_VERSION \<and> wf_str (rs_request_id r) \<and> wf_str (rs_status_text r) \<and>
     length (utf8_encode (rs_status_text r)) \<le> 255 \<and> list_all (\<lambda>c. c < 0x80) (rs_user_id r) \<and>
     list_all ok_entry (rs_metadata r) \<and> distinct (map fst (rs_metadata r))"

lemma ascii_user_id:
  assumes "list_all (\<lambda>c. c < 0x80) u"
  shows "wf_str u" and "is_ascii (utf8_encode u)"
proof -
  show "wf_str u" using assms by (auto simp: wf_str_def list_all_iff scalar_value_def)
  have "utf8_encode u = map word_of_nat u" using assms by (simp add: utf8_encode_ascii list_all_iff)
  then show "is_ascii (utf8_encode u)" using assms by (auto simp: is_ascii_def list_all_iff)
qed

lemma zap_response_roundtrip:
  assumes "ok_response r"
  shows "zap_response_decode (zap_response_encode r) = Inr r"
proof -
  have "parse_metadata (concat (map zap_metadata_entry (rs_metadata r))) [] = Inr (rs_metadata r)"
    using parse_metadata_entries [of "rs_metadata r" "[]"] assms by (simp add: ok_response_def)
  then show ?thesis
    using assms ascii_user_id [of "rs_user_id r"]
    by (cases r) (auto simp: ok_response_def zap_response_decode_def zap_response_encode_def Let_def)
qed

lemma zap_authenticate_success:
  assumes "zap_authenticate request io = Inr r" and "rs_status_code r = ZapSuccess"
  shows "\<exists>frames. io = ZapRecvFrames frames \<and> zap_response_decode frames = Inr r \<and>
    rs_request_id r = rq_request_id request"
  using assms by (auto simp: zap_authenticate_def denial_response_def split: zap_io.splits sum.splits if_splits)

section \<open>Properties\<close>

text \<open>ZAP requests and replies survive the wire: decoding the frames of an encoded request
  (with a non-empty address, an identity of at most 255 bytes and the number of credential
  frames of its mechanism) gives the request back, and decoding the frames of an encoded
  reply (status text of at most 255 bytes, ASCII user id, metadata with distinct keys of at
  most 255 bytes) gives the reply back with all of its metadata.\<close>

theorem zap_messages_roundtrip:
  assumes "rq_version rq = ZAP_VERSION" "wf_str (rq_request_id rq)" "wf_str (rq_domain rq)"
      "wf_str (rq_address rq)" "rq_address rq \<noteq> []" "length (rq_identity rq) \<le> 255"
      "length (rq_credentials rq) = zap_credential_count (rq_mechanism rq)"
    and "rs_version rs = ZAP_VERSION" "wf_str (rs_request_id rs)" "wf_str (rs_status_text rs)"
      "length (utf8_encode (rs_status_text rs)) \<le> 255" "list_all (\<lambda>c. c < 0x80) (rs_user_id rs)"
      "list_all ok_entry (rs_metadata rs)" "distinct (map fst (rs_metadata rs))"
  shows "zap_request_decode (zap_request_encode rq) = Inr rq \<and>
    zap_response_decode (zap_response_encode rs) = Inr rs"
  using assms by (simp add: zap_request_roundtrip zap_response_roundtrip ok_request_def ok_response_def)

theorem zap_messages_roundtrip_witness:
  "zap_response_decode (zap_response_encode
     \<lparr>rs_version = ZAP_VERSION, rs_request_id = lit ''7'', rs_status_code = ZapSuccess,
      rs_status_text = lit ''OK'', rs_user_id = lit ''bob'',
      rs_metadata = [(lit ''k'', lit ''v''), (lit ''a'', [0x20AC])]\<rparr>) =
   Inr \<lparr>rs_version = ZAP_VERSION, rs_request_id = lit ''7'', rs_status_code = ZapSuccess,
      rs_status_text = lit ''OK'', rs_user_id = lit ''bob'',
      rs_metadata = [(lit ''k'', lit ''v''), (lit ''a'', [0x20AC])]\<rparr>"
  using zap_messages_roundtrip [of "zap_request_new (lit ''7'') [] (lit ''h'') [] ZapNull []"
      "\<lparr>rs_version = ZAP_VERSION, rs_request_id = lit ''7'', rs_status_code = ZapSuccess,
      rs_status_text = lit ''OK'', rs_user_id = lit ''bob'',
      rs_metadata = [(lit ''k'', lit ''v''), (lit ''a'', [0x20AC])]\<rparr>"]
  by (simp add: zap_request_new_def zap_credential_count_def wf_str_def scalar_value_def ok_entry_def
      utf8_encode_def utf8_char_def)

text \<open>Default deny: the ZAP client reports success only when a reply with status 200 that
  carries the id of this very request was received and decoded. Every other outcome (no
  handler bound, the handler gone, end of stream, a timeout, a malformed reply, a foreign
  request id) is an error or a reply whose status is not success.\<close>

theorem zap_default_deny:
  "(\<exists>r. zap_authenticate request io = Inr r \<and> rs_status_code r = ZapSuccess) \<longleftrightarrow>
   (\<exists>frames r. io = ZapRecvFrames frames \<and> zap_response_decode frames = Inr r \<and>
      rs_status_code r = ZapSuccess \<and> rs_request_id r = rq_request_id request)"
proof -
  have "rs_version r = ZAP_VERSION" if "zap_response_decode frames = Inr r" for frames r
    using that by (auto simp: zap_response_decode_def zap_bind_eq_Inr split: if_splits option.splits)
  then show ?thesis
    using zap_authenticate_success [of request io] by (auto simp: zap_authenticate_def)
qed

end
