(* ===== verification/Zmtp_Handshake.thy ===== *)
theory Zmtp_Handshake
  imports Zmtp_Ready Zap_Messages
begin

text \<open>
  \<open>monocoque-zmtp/src/handshake.rs: perform_handshake_with_options\<close> and the PLAIN mechanism
  of \<open>security/plain.rs\<close>, over the I/O helpers of \<open>monocoque-core/src/timeout.rs\<close>.

  The connection is a value: the bytes that have arrived, the bursts that arrive later, the
  bytes written, and how many bytes the peer still accepts. A read that needs more waits for
  later bursts; the probe for trailing bytes of the PLAIN server sees only what has arrived.
  A handshake step is a function on the connection with three outcomes: a value, a
  \<open>ZmtpError\<close>, or a panic. Every I/O error becomes \<open>ZmtpError::Protocol\<close>, as in the source.

  The CURVE exchange enters \<open>perform_handshake\<close> as the argument \<open>run_curve\<close>, which
  \<open>Curve_Handshake\<close> instantiates; the theorems here are about the NULL and PLAIN mechanisms
  and about the selection of the mechanism.
\<close>

section \<open>Connections\<close>

record hs_stream =
  hs_in :: bytes
  hs_later :: "bytes list"
  hs_out :: bytes
  hs_quota :: nat

datatype 'a hs_result = HOk 'a | HErr zmtp_error | HPanic

type_synonym 'a hs = "hs_stream \<Rightarrow> 'a hs_result \<times> hs_stream"

definition hs_return :: "'a \<Rightarrow> 'a hs" where
  "hs_return x st = (HOk x, st)"

definition hs_error :: "zmtp_error \<Rightarrow> 'a hs" where
  "hs_error e st = (HErr e, st)"

definition hs_bind :: "'a hs \<Rightarrow> ('a \<Rightarrow> 'b hs) \<Rightarrow> 'b hs" where
  "hs_bind m f st =
     (case m st of (HOk x, st') \<Rightarrow> f x st' | (HErr e, st') \<Rightarrow> (HErr e, st') | (HPanic, st') \<Rightarrow> (HPanic, st'))"

text \<open>A pure computation that may panic or fail.\<close>

definition hs_lift :: "(zmtp_error + 'a) option \<Rightarrow> 'a hs" where
  "hs_lift r st = (case r of None \<Rightarrow> (HPanic, st) | Some (Inl e) \<Rightarrow> (HErr e, st) | Some (Inr x) \<Rightarrow> (HOk x, st))"

fun take_exact :: "nat \<Rightarrow> bytes \<Rightarrow> bytes list \<Rightarrow> (bytes \<times> bytes \<times> bytes list) option" where
  "take_exact n cur [] = (if n \<le> length cur then Some (take n cur, drop n cur, []) else None)"
| "take_exact n cur (b # bs) =
     (if n \<le> length cur then Some (take n cur, drop n cur, b # bs) else take_exact n (cur @ b) bs)"

definition read_exact_with_timeout ::
  "nat \<Rightarrow> duration option \<Rightarrow> hs_stream \<Rightarrow> (io_error_kind + bytes) \<times> hs_stream" where
  "read_exact_with_timeout n timeout st =
     (if timeout = Some 0 then (Inl WouldBlock, st)
      else case take_exact n (hs_in st) (hs_later st) of
             Some (bs, cur, later) \<Rightarrow> (Inr bs, st\<lparr>hs_in := cur, hs_later := later\<rparr>)
           | None \<Rightarrow> (Inl (if timeout = None then UnexpectedEof else TimedOut),
                      st\<lparr>hs_in := [], hs_later := []\<rparr>))"

definition write_all_with_timeout ::
  "bytes \<Rightarrow> duration option \<Rightarrow> hs_stream \<Rightarrow> (io_error_kind + unit) \<times> hs_stream" where
  "write_all_with_timeout bs timeout st =
     (if timeout = Some 0 then (Inl WouldBlock, st)
      else if length bs \<le> hs_quota st
      then (Inr (), st\<lparr>hs_out := hs_out st @ bs, hs_quota := hs_quota st - length bs\<rparr>)
      else (Inl (if timeout = None then BrokenPipe else TimedOut),
            st\<lparr>hs_out := hs_out st @ take (hs_quota st) bs, hs_quota := 0\<rparr>))"

text \<open>\<open>impl From<io::Error> for ZmtpError\<close>, and the \<open>map_err\<close> closures of \<open>handshake.rs\<close>.\<close>

definition hs_read :: "nat \<Rightarrow> duration option \<Rightarrow> bytes hs" where
  "hs_read n timeout st =
     (case read_exact_with_timeout n timeout st of
        (Inl _, st') \<Rightarrow> (HErr Protocol, st') | (Inr bs, st') \<Rightarrow> (HOk bs, st'))"

definition hs_write :: "bytes \<Rightarrow> duration option \<Rightarrow> unit hs" where
  "hs_write bs timeout st =
     (case write_all_with_timeout bs timeout st of
        (Inl _, st') \<Rightarrow> (HErr Protocol, st') | (Inr u, st') \<Rightarrow> (HOk u, st'))"

section \<open>PLAIN\<close>

definition PLAIN_HELLO :: bytes where
  "PLAIN_HELLO = 5 # blit ''HELLO''"

definition PLAIN_WELCOME :: bytes where
  "PLAIN_WELCOME = 7 # blit ''WELCOME''"

definition PLAIN_ERROR :: bytes where
  "PLAIN_ERROR = 5 # blit ''ERROR''"

record plain_credentials =
  username :: str
  password :: str

text \<open>\<open>StaticPlainHandler\<close>: its \<open>HashMap\<close> of credentials and the check of one login.\<close>

type_synonym static_plain_handler = "(str \<times> str) list"

definition add_user :: "static_plain_handler \<Rightarrow> str \<Rightarrow> str \<Rightarrow> static_plain_handler" where
  "add_user h u p = AList.update u p h"

definition DUMMY_PASSWORD :: str where
  "DUMMY_PASSWORD = 0 # lit ''monocoque-plain-miss-placeholder'' @ [0]"

definition static_authenticate :: "static_plain_handler \<Rightarrow> str \<Rightarrow> str \<Rightarrow> str \<Rightarrow> str \<Rightarrow> str + str" where
  "static_authenticate h u p domain address =
     (let expected = map_of h u;
          reference = (case expected of None \<Rightarrow> DUMMY_PASSWORD | Some q \<Rightarrow> q);
          password_matches = (utf8_encode reference = utf8_encode p)
      in if expected \<noteq> None \<and> password_matches then Inr u else Inl (lit ''Invalid credentials''))"

definition plain_client_handshake :: "plain_credentials \<Rightarrow> duration option \<Rightarrow> unit hs" where
  "plain_client_handshake c timeout =
     (let ub = utf8_encode (username c); pb = utf8_encode (password c) in
      if 255 < length ub then hs_error Protocol
      else if 255 < length pb then hs_error Protocol
      else
        hs_bind (hs_write (PLAIN_HELLO @ [word_of_nat (length ub)] @ ub @ [word_of_nat (length pb)] @ pb) timeout) (\<lambda>_.
        hs_bind (hs_read 1 timeout) (\<lambda>len_buf.
        let cmd_len = unat (len_buf ! 0) in
        if cmd_len = 0 \<or> 32 < cmd_len then hs_error Protocol
        else
          hs_bind (hs_read cmd_len timeout) (\<lambda>cmd.
          if cmd = blit ''WELCOME'' then hs_return ()
          else if cmd = blit ''ERROR'' then hs_error AuthenticationFailed
          else hs_error Protocol))))"

text \<open>
  \<open>security/protocol.rs: reject_immediately_available_trailing_bytes\<close>: a read of one byte
  with a 10 ms timeout. It succeeds, and is then an error, when a byte has already arrived.
\<close>

definition reject_trailing_bytes :: "unit hs" where
  "reject_trailing_bytes st =
     (case hs_in st of [] \<Rightarrow> (HOk (), st) | b # bs \<Rightarrow> (HErr Protocol, st\<lparr>hs_in := bs\<rparr>))"

text \<open>The part \<open>plain_server_handshake\<close> and \<open>plain_server_handshake_zap\<close> share: reading HELLO.\<close>

definition plain_read_hello :: "duration option \<Rightarrow> (str \<times> str) hs" where
  "plain_read_hello timeout =
     hs_bind (hs_read 6 timeout) (\<lambda>header.
     if header \<noteq> PLAIN_HELLO then hs_error Protocol else
     hs_bind (hs_read 1 timeout) (\<lambda>ul.
     hs_bind (hs_read (unat (ul ! 0)) timeout) (\<lambda>ub.
     case utf8_decode ub of None \<Rightarrow> hs_error Protocol | Some u \<Rightarrow>
     hs_bind (hs_read 1 timeout) (\<lambda>pl.
     hs_bind (hs_read (unat (pl ! 0)) timeout) (\<lambda>pb.
     case utf8_decode pb of None \<Rightarrow> hs_error Protocol | Some p \<Rightarrow>
     hs_bind reject_trailing_bytes (\<lambda>_. hs_return (u, p)))))))"

definition plain_server_handshake ::
  "(str \<Rightarrow> str \<Rightarrow> str \<Rightarrow> str \<Rightarrow> str + str) \<Rightarrow> str \<Rightarrow> str \<Rightarrow> duration option \<Rightarrow> str hs" where
  "plain_server_handshake authenticate domain peer_address timeout =
     hs_bind (plain_read_hello timeout) (\<lambda>(u, p).
     case authenticate u p domain peer_address of
       Inr user_id \<Rightarrow> hs_bind (hs_write PLAIN_WELCOME timeout) (\<lambda>_. hs_return user_id)
     | Inl reason \<Rightarrow> hs_bind (hs_write PLAIN_ERROR timeout) (\<lambda>_. hs_error AuthenticationFailed))"

text \<open>
  With ZAP the decision is the reply of the handler behind the inproc endpoint. The
  environment supplies whether \<open>ZapClient::new\<close> finds the endpoint (\<open>None\<close>: it does not), the
  request id, and what the client's socket reports for a given request.
\<close>

type_synonym zap_environment = "(str \<times> (bytes list \<Rightarrow> zap_io)) option"

definition zap_plain_decision ::
  "zap_environment \<Rightarrow> str \<Rightarrow> str \<Rightarrow> str \<Rightarrow> str \<Rightarrow> io_error_kind + zap_response" where
  "zap_plain_decision zap u p domain address =
     (case zap of
        None \<Rightarrow> Inl NotFound
      | Some (rid, io) \<Rightarrow>
          authenticate_plain rid u p domain address
            (io (zap_request_encode
              (zap_request_new rid domain address [] ZapPlain [utf8_encode u, utf8_encode p]))))"

definition plain_server_handshake_zap ::
  "zap_environment \<Rightarrow> str \<Rightarrow> str \<Rightarrow> duration option \<Rightarrow> str hs" where
  "plain_server_handshake_zap zap domain peer_address timeout =
     hs_bind (plain_read_hello timeout) (\<lambda>(u, p).
     case zap_plain_decision zap u p domain peer_address of
       Inl _ \<Rightarrow> hs_error AuthenticationFailed
     | Inr r \<Rightarrow>
         if rs_status_code r = ZapSuccess
         then hs_bind (hs_write PLAIN_WELCOME timeout) (\<lambda>_. hs_return (rs_user_id r))
         else hs_bind (hs_write PLAIN_ERROR timeout) (\<lambda>_. hs_error AuthenticationFailed))"

definition run_plain_exchange :: "zap_environment \<Rightarrow> socket_options \<Rightarrow> duration option \<Rightarrow> unit hs" where
  "run_plain_exchange zap opts timeout =
     (if opt_plain_server opts then
        hs_bind (plain_server_handshake_zap zap (opt_zap_domain opts) (lit ''unknown'') timeout)
          (\<lambda>_. hs_return ())
      else case opt_plain_username opts of
             Some u \<Rightarrow>
               plain_client_handshake
                 \<lparr>username = u, password = (case opt_plain_password opts of Some p \<Rightarrow> p | None \<Rightarrow> [])\<rparr>
                 timeout
           | None \<Rightarrow> hs_return ())"

section \<open>The handshake\<close>

record 'c handshake_result =
  peer_identity :: "bytes option"
  peer_socket_type :: socket_type
  curve_cipher :: "'c option"

definition MAX_READY_SIZE :: nat where
  "MAX_READY_SIZE = 512"

text \<open>Steps 1 and 2: exchange of greetings and agreement on the mechanism.\<close>

definition exchange_greetings :: "security_mechanism \<Rightarrow> socket_options \<Rightarrow> duration option \<Rightarrow> unit hs" where
  "exchange_greetings m opts timeout =
     hs_bind (hs_write (build_greeting_with_mechanism m opts) timeout) (\<lambda>_.
     hs_bind (hs_read 64 timeout) (\<lambda>buf.
     if buf ! 0 \<noteq> 0xFF \<or> buf ! 9 \<noteq> 0x7F then hs_error Protocol
     else
       hs_bind (hs_lift (map_option (\<lambda>r. case r of Inl _ \<Rightarrow> Inl Protocol | Inr g \<Rightarrow> Inr g)
                           (greeting_parse buf))) (\<lambda>g.
       let our_name = (case utf8_decode (as_greeting_bytes m) of Some s \<Rightarrow> s | None \<Rightarrow> lit ''NULL'') in
       if \<not> eq_ignore_ascii_case (mechanism_str g) our_name then hs_error Protocol
       else if buf ! 9 \<noteq> 0x7F then hs_error Protocol
       else if m \<noteq> NullMechanism \<and> buf ! 10 \<noteq> 3 then hs_error Protocol
       else
         hs_bind (hs_lift (Some (parse_greeting_mechanism (take 20 (drop 12 buf))))) (\<lambda>pm.
         if pm \<noteq> m then hs_error Protocol else hs_return ()))))"

text \<open>Step 5: the frame that carries the peer's READY command.\<close>

definition read_ready_frame :: "duration option \<Rightarrow> bytes hs" where
  "read_ready_frame timeout =
     hs_bind (hs_read 2 timeout) (\<lambda>header.
     let fl = header ! 0; is_command = (fl AND FLAG_COMMAND \<noteq> 0); is_long = (fl AND 0x02 \<noteq> 0) in
     if \<not> is_command then hs_error Protocol
     else
       hs_bind (if is_long then
                  hs_bind (hs_read 8 timeout) (\<lambda>len_buf.
                  let raw_len = be_val len_buf in
                  if usize_max < raw_len then hs_error Protocol else hs_return raw_len)
                else hs_return (unat (header ! 1))) (\<lambda>body_len.
       if MAX_READY_SIZE < body_len then hs_error Protocol
       else hs_read body_len timeout))"

definition perform_handshake ::
  "(bytes \<times> bytes option \<times> 'c option) hs \<Rightarrow> zap_environment \<Rightarrow> socket_type \<Rightarrow> bytes option \<Rightarrow>
   duration option \<Rightarrow> socket_options \<Rightarrow> 'c handshake_result hs" where
  "perform_handshake run_curve zap st ident timeout opts =
     (let m = from_options opts in
      hs_bind (exchange_greetings m opts timeout) (\<lambda>_.
      if m = CurveMechanism then
        hs_bind run_curve (\<lambda>(pst, pid, cipher).
        hs_bind (hs_lift (Some (parse_socket_type pst))) (\<lambda>t.
        hs_return \<lparr>peer_identity = pid, peer_socket_type = t, curve_cipher = cipher\<rparr>))
      else
        hs_bind (if m = PlainMechanism then run_plain_exchange zap opts timeout else hs_return ()) (\<lambda>_.
        hs_bind (hs_write (encode_frame FLAG_COMMAND (build_ready (socket_type_as_str st) ident)) timeout) (\<lambda>_.
        hs_bind (read_ready_frame timeout) (\<lambda>body.
        hs_bind (hs_lift (parse_ready_command body)) (\<lambda>(t, pid).
        hs_return \<lparr>peer_identity = pid, peer_socket_type = t, curve_cipher = None\<rparr>))))))"

section \<open>Reading and writing\<close>

text \<open>Everything the peer has sent and will send.\<close>

definition hs_all :: "hs_stream \<Rightarrow> bytes" where
  "hs_all st = hs_in st @ concat (hs_later st)"

lemma take_exact_spec:
  "n \<le> length (cur @ concat later) \<Longrightarrow>
   \<exists>cur' later'. take_exact n cur later = Some (take n (cur @ concat later), cur', later') \<and>
     cur' @ concat later' = drop n (cur @ concat later)"
  by (induction n cur later rule: take_exact.induct) auto

lemma take_exact_Some:
  "take_exact n cur later = Some (bs, cur', later') \<Longrightarrow>
   length bs = n \<and> cur @ concat later = bs @ cur' @ concat later'"
  by (induction n cur later rule: take_exact.induct) (auto split: if_splits)

lemma hs_read_ok:
  assumes "timeout \<noteq> Some 0" and "hs_all st = bs @ rest" and "length bs = n"
  obtains st' where "hs_read n timeout st = (HOk bs, st')" "hs_all st' = rest"
    "hs_out st' = hs_out st" "hs_quota st' = hs_quota st"
proof -
  have all: "hs_in st @ concat (hs_later st) = bs @ rest" using assms(2) by (simp add: hs_all_def)
  have "n \<le> length (hs_in st @ concat (hs_later st))" unfolding all using assms(3) by simp
  from take_exact_spec [OF this] obtain cur later where
    "take_exact n (hs_in st) (hs_later st) = Some (bs, cur, later)" "cur @ concat later = rest"
    unfolding all using assms(3) by auto
  then show ?thesis
    using assms(1)
    by (intro that [of "st\<lparr>hs_in := cur, hs_later := later\<rparr>"])
      (simp_all add: hs_read_def read_exact_with_timeout_def hs_all_def)
qed

lemma hs_read_HOk:
  assumes "hs_read n timeout st = (HOk bs, st')"
  shows "length bs = n" "hs_all st = bs @ hs_all st'" "hs_out st' = hs_out st" "hs_quota st' = hs_quota st"
proof -
  from assms obtain cur later where
    t: "take_exact n (hs_in st) (hs_later st) = Some (bs, cur, later)"
    and s: "st' = st\<lparr>hs_in := cur, hs_later := later\<rparr>"
    by (auto simp: hs_read_def read_exact_with_timeout_def split: if_splits option.splits)
  from take_exact_Some [OF t] s show "length bs = n" "hs_all st = bs @ hs_all st'"
    "hs_out st' = hs_out st" "hs_quota st' = hs_quota st"
    by (simp_all add: hs_all_def)
qed

lemma hs_write_ok:
  "timeout \<noteq> Some 0 \<Longrightarrow> length bs \<le> hs_quota st \<Longrightarrow>
   hs_write bs timeout st = (HOk (), st\<lparr>hs_out := hs_out st @ bs, hs_quota := hs_quota st - length bs\<rparr>)"
  by (simp add: hs_write_def write_all_with_timeout_def)

lemma hs_write_HOk:
  "hs_write bs timeout st = (HOk u, st') \<Longrightarrow>
   hs_all st' = hs_all st \<and> hs_out st' = hs_out st @ bs"
  by (auto simp: hs_write_def write_all_with_timeout_def hs_all_def split: if_splits)

lemma hs_all_update [simp]:
  "hs_all (st\<lparr>hs_out := x\<rparr>) = hs_all st" "hs_all (st\<lparr>hs_quota := q\<rparr>) = hs_all st"
  by (simp_all add: hs_all_def)

lemma hs_bind_HOk [simp]: "m st = (HOk x, st') \<Longrightarrow> hs_bind m f st = f x st'"
  by (simp add: hs_bind_def)

lemma hs_bind_HErr [simp]: "m st = (HErr e, st') \<Longrightarrow> hs_bind m f st = (HErr e, st')"
  by (simp add: hs_bind_def)

lemma hs_bind_eq_HOk:
  "hs_bind m f st = (HOk y, st'') \<longleftrightarrow> (\<exists>x st'. m st = (HOk x, st') \<and> f x st' = (HOk y, st''))"
  by (auto simp: hs_bind_def split: prod.splits hs_result.splits)

lemma hs_simps [simp]:
  "hs_return x st = (HOk x, st)" "hs_error e st = (HErr e, st)"
  "hs_lift (Some (Inr x)) st = (HOk x, st)" "hs_lift (Some (Inl e)) st = (HErr e, st)"
  by (simp_all add: hs_return_def hs_error_def hs_lift_def)

lemma hs_bind_return [simp]: "hs_bind (hs_return x) f = f x"
  by (rule ext) (simp add: hs_bind_def)

lemma hs_lift_HOk: "hs_lift r st = (HOk x, st') \<longleftrightarrow> r = Some (Inr x) \<and> st' = st"
  by (auto simp: hs_lift_def split: option.splits sum.splits)

subsection \<open>No panics\<close>

definition no_panic :: "'a hs \<Rightarrow> bool" where
  "no_panic m \<longleftrightarrow> (\<forall>st. fst (m st) \<noteq> HPanic)"

named_theorems panic_free

lemma no_panic_basic [panic_free]:
  "no_panic (hs_return x)" "no_panic (hs_error e)" "no_panic (hs_read n timeout)"
  "no_panic (hs_write bs timeout)" "no_panic reject_trailing_bytes"
  by (auto simp: no_panic_def hs_read_def hs_write_def reject_trailing_bytes_def
      split: prod.splits sum.splits list.splits)

lemma no_panic_bind [panic_free]: "no_panic m \<Longrightarrow> (\<And>x. no_panic (f x)) \<Longrightarrow> no_panic (hs_bind m f)"
  by (auto simp: no_panic_def hs_bind_def split: prod.splits hs_result.splits) (metis fst_conv)

lemma no_panic_lift [panic_free]: "r \<noteq> None \<Longrightarrow> no_panic (hs_lift r)"
  by (auto simp: no_panic_def hs_lift_def split: sum.splits)

lemma no_panic_if [panic_free]: "no_panic m \<Longrightarrow> no_panic m' \<Longrightarrow> no_panic (if b then m else m')"
  by simp

lemma no_panic_option [panic_free]:
  "no_panic m \<Longrightarrow> (\<And>x. no_panic (f x)) \<Longrightarrow> no_panic (case_option m f z)"
  by (simp split: option.split)

lemma no_panic_sum [panic_free]:
  "(\<And>x. no_panic (f x)) \<Longrightarrow> (\<And>x. no_panic (g x)) \<Longrightarrow> no_panic (case_sum f g z)"
  by (simp split: sum.split)

lemma no_panic_prod [panic_free]: "(\<And>x y. no_panic (f x y)) \<Longrightarrow> no_panic (case_prod f z)"
  by (simp split: prod.split)

lemma no_panic_plain [panic_free]:
  "no_panic (plain_client_handshake c timeout)" "no_panic (plain_read_hello timeout)"
  "no_panic (plain_server_handshake auth domain addr timeout)"
  "no_panic (plain_server_handshake_zap zap domain addr timeout)"
  "no_panic (run_plain_exchange zap opts timeout)"
  unfolding plain_client_handshake_def plain_read_hello_def plain_server_handshake_def
    plain_server_handshake_zap_def run_plain_exchange_def Let_def
  by (intro panic_free)+

lemma no_panic_greetings [panic_free]: "no_panic (exchange_greetings m opts timeout)"
  using greeting_parse_total unfolding exchange_greetings_def Let_def
  by (intro panic_free) auto

lemma no_panic_ready [panic_free]: "no_panic (read_ready_frame timeout)"
  unfolding read_ready_frame_def Let_def by (intro panic_free)

lemma parse_ready_not_None [panic_free]: "parse_ready_command body \<noteq> None"
  using parse_ready_total [of body] by auto

lemma no_panic_handshake:
  "no_panic run_curve \<Longrightarrow> no_panic (perform_handshake run_curve zap st ident timeout opts)"
  unfolding perform_handshake_def Let_def by (intro panic_free) auto

section \<open>Greetings\<close>

lemma utf8_mechanism: "utf8_decode (as_greeting_bytes m) = Some (map unat (as_greeting_bytes m))"
  using mechanism_bytes_ok(3) [of m] mechanism_char_nonzero by (intro utf8_decode_ascii) blast

lemma greeting_parse_build:
  "greeting_parse (build_greeting_with_mechanism m opts) =
     Some (Inr \<lparr>mechanism = as_greeting_bytes m @ replicate (20 - length (as_greeting_bytes m)) 0,
                as_server = greeting_as_server m opts\<rparr>)"
  using valid_build_greeting [of m opts] by (simp add: greeting_parse_Inr build_greeting_fields)

lemma exchange_greetings_ok:
  assumes "timeout \<noteq> Some 0" and "hs_all st = build_greeting_with_mechanism m popts @ rest"
    and "64 \<le> hs_quota st"
  obtains st' where "exchange_greetings m opts timeout st = (HOk (), st')" "hs_all st' = rest"
    "hs_out st' = hs_out st @ build_greeting_with_mechanism m opts" "hs_quota st' = hs_quota st - 64"
proof -
  let ?g = "build_greeting_with_mechanism m opts" let ?p = "build_greeting_with_mechanism m popts"
  let ?st1 = "st\<lparr>hs_out := hs_out st @ ?g, hs_quota := hs_quota st - 64\<rparr>"
  have w: "hs_write ?g timeout st = (HOk (), ?st1)"
    using hs_write_ok [of timeout ?g st] assms by (simp add: build_greeting_fields(1))
  obtain st' where r: "hs_read 64 timeout ?st1 = (HOk ?p, st')" and st': "hs_all st' = rest"
    "hs_out st' = hs_out ?st1" "hs_quota st' = hs_quota ?st1"
    using hs_read_ok [OF assms(1), of ?st1 ?p rest 64] assms(2) build_greeting_fields(1) by auto
  have "mechanism_str \<lparr>mechanism = as_greeting_bytes m @ replicate (20 - length (as_greeting_bytes m)) 0,
                as_server = greeting_as_server m popts\<rparr> = map unat (as_greeting_bytes m)"
    by (rule mechanism_str_padded [OF mechanism_bytes_ok(3)]) simp
  then have "exchange_greetings m opts timeout st = (HOk (), st')"
    unfolding exchange_greetings_def hs_bind_HOk [where m = "hs_write ?g timeout", OF w]
      hs_bind_HOk [where m = "hs_read 64 timeout", OF r]
    by (simp add: build_greeting_fields greeting_parse_build hs_bind_def utf8_mechanism
        eq_ignore_ascii_case_def parse_greeting_mechanism_padded)
  with st' show ?thesis by (intro that) simp_all
qed

lemma exchange_greetings_HOk:
  assumes "exchange_greetings m opts timeout st = (HOk (), st')"
  obtains buf where "hs_all st = buf @ hs_all st'" "valid_greeting buf"
    "parse_greeting_mechanism (take 20 (drop 12 buf)) = Inr m"
    "hs_out st' = hs_out st @ build_greeting_with_mechanism m opts"
proof -
  from assms obtain st1 buf st2 g where
    w: "hs_write (build_greeting_with_mechanism m opts) timeout st = (HOk (), st1)"
    and r: "hs_read 64 timeout st1 = (HOk buf, st2)"
    and g: "greeting_parse buf = Some (Inr g)"
    and p: "parse_greeting_mechanism (take 20 (drop 12 buf)) = Inr m" "st' = st2"
    unfolding exchange_greetings_def
    by (auto simp: hs_bind_eq_HOk hs_lift_HOk Let_def split: if_splits sum.splits)
  from g have "valid_greeting buf" by (simp add: greeting_parse_Inr)
  with hs_write_HOk [OF w] hs_read_HOk [OF r] p show ?thesis by (intro that) simp_all
qed

section \<open>READY frames\<close>

lemma read_ready_short:
  assumes "timeout \<noteq> Some 0" and "length body \<le> 255"
    and "hs_all st = encode_frame FLAG_COMMAND body @ rest"
  obtains st' where "read_ready_frame timeout st = (HOk body, st')" "hs_all st' = rest"
    "hs_out st' = hs_out st" "hs_quota st' = hs_quota st"
proof -
  have e: "encode_frame FLAG_COMMAND body = [4, word_of_nat (length body)] @ body"
    using assms(2) by (simp add: encode_frame_def FLAG_COMMAND_def FLAG_LONG_def)
  obtain st1 where r1: "hs_read 2 timeout st = (HOk [4, word_of_nat (length body)], st1)"
    "hs_all st1 = body @ rest" "hs_out st1 = hs_out st" "hs_quota st1 = hs_quota st"
    using hs_read_ok [OF assms(1), of st "[4, word_of_nat (length body)]" "body @ rest" 2] assms(3) e
    by auto
  obtain st2 where r2: "hs_read (length body) timeout st1 = (HOk body, st2)" "hs_all st2 = rest"
    "hs_out st2 = hs_out st1" "hs_quota st2 = hs_quota st1"
    using hs_read_ok [OF assms(1) r1(2) refl] .
  have "read_ready_frame timeout st = (HOk body, st2)"
    unfolding read_ready_frame_def hs_bind_HOk [where m = "hs_read 2 timeout", OF r1(1)]
    using assms(2) r2(1) by (simp add: FLAG_COMMAND_def MAX_READY_SIZE_def)
  with r1 r2 show ?thesis by (intro that [of st2]) simp_all
qed

text \<open>
  A READY command of more than 255 bytes is sent as a long frame: a flag byte and an 8-byte
  length. The reader takes two bytes first and then eight more, so it reads the length one
  byte too far and refuses the frame.
\<close>

lemma be_bytes_leading_zero: "v < 256 ^ n \<Longrightarrow> be_bytes (Suc n) v = 0 # be_bytes n v"
proof (induction n arbitrary: v)
  case (Suc n)
  then have "v div 256 < 256 ^ n" by (simp add: less_mult_imp_div_less)
  from Suc.IH [OF this] show ?case by simp
qed simp

lemma read_ready_long:
  assumes "timeout \<noteq> Some 0" and "256 \<le> length body" and "length body < 2 ^ 56"
    and "hs_all st = encode_frame FLAG_COMMAND body @ rest"
  shows "fst (read_ready_frame timeout st) = HErr Protocol"
proof -
  let ?n = "length body"
  obtain b bs where body: "body = b # bs" using assms(2) by (cases body) auto
  have eight: "(8 :: nat) = Suc 7" by simp
  have "be_bytes 8 ?n = 0 # be_bytes 7 ?n"
    unfolding eight by (rule be_bytes_leading_zero) (use assms(3) in simp)
  then have e: "encode_frame FLAG_COMMAND body = [6, 0] @ (be_bytes 7 ?n @ [b]) @ bs"
    using assms(2) by (simp add: encode_frame_def FLAG_COMMAND_def FLAG_LONG_def body)
  obtain st1 where r1: "hs_read 2 timeout st = (HOk [6, 0], st1)"
    "hs_all st1 = (be_bytes 7 ?n @ [b]) @ bs @ rest"
    using hs_read_ok [OF assms(1), of st "[6, 0]" "(be_bytes 7 ?n @ [b]) @ bs @ rest" 2] assms(4) e
    by auto
  obtain st2 where r2: "hs_read 8 timeout st1 = (HOk (be_bytes 7 ?n @ [b]), st2)"
    using hs_read_ok [OF assms(1) r1(2), of 8] by auto
  have "be_val (be_bytes 7 ?n @ [b]) = 256 * ?n + unat b" using assms(3) by simp
  moreover have "512 < 256 * ?n + unat b" using assms(2) by linarith
  ultimately show ?thesis
    unfolding read_ready_frame_def hs_bind_HOk [where m = "hs_read 2 timeout", OF r1(1)]
    by (simp add: FLAG_COMMAND_def MAX_READY_SIZE_def hs_bind_def r2 Let_def)
qed

section \<open>The NULL handshake\<close>

lemma null_handshake_unfold:
  assumes "from_options opts = NullMechanism" and "from_options popts = NullMechanism"
    and "timeout \<noteq> Some 0"
    and "hs_all st = build_greeting_with_mechanism NullMechanism popts @ rest"
    and "64 + length (encode_frame FLAG_COMMAND (build_ready (socket_type_as_str t) ident)) \<le> hs_quota st"
  obtains st' where "perform_handshake run_curve zap t ident timeout opts st =
      hs_bind (read_ready_frame timeout) (\<lambda>body.
        hs_bind (hs_lift (parse_ready_command body)) (\<lambda>(t, pid).
        hs_return \<lparr>peer_identity = pid, peer_socket_type = t, curve_cipher = None\<rparr>)) st'"
    "hs_all st' = rest"
    "hs_out st' = hs_out st @ build_greeting_with_mechanism NullMechanism opts
       @ encode_frame FLAG_COMMAND (build_ready (socket_type_as_str t) ident)"
proof -
  let ?r = "encode_frame FLAG_COMMAND (build_ready (socket_type_as_str t) ident)"
  have "64 \<le> hs_quota st" using assms(5) by simp
  then obtain st1 where g: "exchange_greetings NullMechanism opts timeout st = (HOk (), st1)"
    "hs_all st1 = rest" "hs_out st1 = hs_out st @ build_greeting_with_mechanism NullMechanism opts"
    "hs_quota st1 = hs_quota st - 64"
    using exchange_greetings_ok [OF assms(3,4)] by metis
  let ?st2 = "st1\<lparr>hs_out := hs_out st1 @ ?r, hs_quota := hs_quota st1 - length ?r\<rparr>"
  have w: "hs_write ?r timeout st1 = (HOk (), ?st2)"
    using hs_write_ok [of timeout ?r st1] assms(3,5) g(4) by simp
  show ?thesis
  proof (rule that [of ?st2])
    show "perform_handshake run_curve zap t ident timeout opts st =
      hs_bind (read_ready_frame timeout) (\<lambda>body.
        hs_bind (hs_lift (parse_ready_command body)) (\<lambda>(t, pid).
        hs_return \<lparr>peer_identity = pid, peer_socket_type = t, curve_cipher = None\<rparr>)) ?st2"
      by (simp add: perform_handshake_def assms(1) Let_def hs_bind_HOk [where m = "exchange_greetings NullMechanism opts timeout", OF g(1)]
          hs_bind_HOk [where m = "hs_write ?r timeout", OF w])
  qed (simp_all add: g)
qed

section \<open>PLAIN exchanges\<close>

lemma take_exact_now: "n \<le> length cur \<Longrightarrow> take_exact n cur later = Some (take n cur, drop n cur, later)"
  by (cases later) simp_all

lemma hs_read_now:
  "timeout \<noteq> Some 0 \<Longrightarrow> n \<le> length (hs_in st) \<Longrightarrow>
   hs_read n timeout st = (HOk (take n (hs_in st)), st\<lparr>hs_in := drop n (hs_in st)\<rparr>)"
  by (simp add: hs_read_def read_exact_with_timeout_def take_exact_now)

definition plain_hello :: "str \<Rightarrow> str \<Rightarrow> bytes" where
  "plain_hello u p = PLAIN_HELLO @ [word_of_nat (length (utf8_encode u))] @ utf8_encode u
     @ [word_of_nat (length (utf8_encode p))] @ utf8_encode p"

lemma plain_read_hello_ok:
  assumes "timeout \<noteq> Some 0" and "wf_str u" "wf_str p"
    and "length (utf8_encode u) \<le> 255" "length (utf8_encode p) \<le> 255"
    and "hs_in st = plain_hello u p"
  shows "plain_read_hello timeout st = (HOk (u, p), st\<lparr>hs_in := []\<rparr>)"
proof -
  let ?u = "utf8_encode u" let ?p = "utf8_encode p"
  have dec: "utf8_decode ?u = Some u" "utf8_decode ?p = Some p"
    using assms(2,3) by (simp_all add: wf_str_def utf8_decode_encode)
  have n: "length ?u mod 256 = length ?u" "length ?p mod 256 = length ?p" using assms(4,5) by simp_all
  have l6: "length PLAIN_HELLO = 6" by (simp add: PLAIN_HELLO_def)
  show ?thesis
    unfolding plain_read_hello_def
    using assms(1,6) l6 n dec
    by (simp add: plain_hello_def hs_bind_def hs_read_now reject_trailing_bytes_def)
qed

lemma plain_client_ok:
  assumes "timeout \<noteq> Some 0" and "length (utf8_encode (username c)) \<le> 255" "length (utf8_encode (password c)) \<le> 255"
    and "length (plain_hello (username c) (password c)) \<le> hs_quota st"
  shows "hs_all st = PLAIN_WELCOME @ rest \<Longrightarrow> \<exists>st'. plain_client_handshake c timeout st = (HOk (), st') \<and>
      hs_all st' = rest \<and> hs_out st' = hs_out st @ plain_hello (username c) (password c)"
    and "hs_all st = PLAIN_ERROR @ rest \<Longrightarrow>
      fst (plain_client_handshake c timeout st) = HErr AuthenticationFailed"
proof -
  let ?h = "plain_hello (username c) (password c)"
  let ?st1 = "st\<lparr>hs_out := hs_out st @ ?h, hs_quota := hs_quota st - length ?h\<rparr>"
  have w: "hs_write ?h timeout st = (HOk (), ?st1)" using assms by (simp add: hs_write_ok)
  have reply: "\<exists>st3. plain_client_handshake c timeout st =
      (if cmd = blit ''WELCOME'' then (HOk (), st3) else if cmd = blit ''ERROR'' then (HErr AuthenticationFailed, st3)
       else (HErr Protocol, st3)) \<and> hs_all st3 = rest \<and> hs_out st3 = hs_out ?st1"
    if "hs_all st = word_of_nat (length cmd) # cmd @ rest" "0 < length cmd" "length cmd \<le> 32" for cmd
  proof -
    have a1: "hs_all ?st1 = [word_of_nat (length cmd)] @ cmd @ rest" using that(1) by simp
    have l1: "length [word_of_nat (length cmd) :: byte] = 1" by simp
    obtain st2 where r1: "hs_read 1 timeout ?st1 = (HOk [word_of_nat (length cmd)], st2)"
      "hs_all st2 = cmd @ rest" "hs_out st2 = hs_out ?st1"
      using hs_read_ok [OF assms(1) a1 l1] by metis
    obtain st3 where r2: "hs_read (length cmd) timeout st2 = (HOk cmd, st3)"
      "hs_all st3 = rest" "hs_out st3 = hs_out st2"
      using hs_read_ok [OF assms(1) r1(2) refl] by metis
    have "unat (word_of_nat (length cmd) :: byte) = length cmd" using that(3) by simp
    with r1 r2 that(2,3) assms(2,3) w show ?thesis
      by (intro exI [of _ st3]) (simp add: plain_client_handshake_def plain_hello_def hs_bind_def Let_def)
  qed
  show "hs_all st = PLAIN_WELCOME @ rest \<Longrightarrow> \<exists>st'. plain_client_handshake c timeout st = (HOk (), st') \<and>
      hs_all st' = rest \<and> hs_out st' = hs_out st @ ?h"
    using reply [of "blit ''WELCOME''"] by (auto simp: PLAIN_WELCOME_def)
  show "hs_all st = PLAIN_ERROR @ rest \<Longrightarrow>
      fst (plain_client_handshake c timeout st) = HErr AuthenticationFailed"
    using reply [of "blit ''ERROR''"] by (auto simp: PLAIN_ERROR_def)
qed

lemma plain_zap_server_iff:
  "plain_server_handshake_zap zap domain address timeout st = (HOk uid, st') \<longleftrightarrow>
   (\<exists>u p st1 r. plain_read_hello timeout st = (HOk (u, p), st1) \<and>
      zap_plain_decision zap u p domain address = Inr r \<and> rs_status_code r = ZapSuccess \<and>
      rs_user_id r = uid \<and> hs_write PLAIN_WELCOME timeout st1 = (HOk (), st'))"
proof -
  have "(case zap_plain_decision zap u p domain address of
       Inl _ \<Rightarrow> hs_error AuthenticationFailed
     | Inr r \<Rightarrow>
         if rs_status_code r = ZapSuccess
         then hs_bind (hs_write PLAIN_WELCOME timeout) (\<lambda>_. hs_return (rs_user_id r))
         else hs_bind (hs_write PLAIN_ERROR timeout) (\<lambda>_. hs_error AuthenticationFailed)) st1 = (HOk uid, st') \<longleftrightarrow>
     (\<exists>r. zap_plain_decision zap u p domain address = Inr r \<and> rs_status_code r = ZapSuccess \<and>
      rs_user_id r = uid \<and> hs_write PLAIN_WELCOME timeout st1 = (HOk (), st'))" for u p st1
    by (cases "zap_plain_decision zap u p domain address") (auto simp: hs_bind_eq_HOk)
  then show ?thesis
    unfolding plain_server_handshake_zap_def hs_bind_eq_HOk by (auto split: prod.splits)
qed

lemma null_handshake_completes:
  assumes "from_options opts = NullMechanism" and "from_options popts = NullMechanism"
    and "timeout \<noteq> Some 0"
    and "hs_all st = build_greeting_with_mechanism NullMechanism popts
      @ encode_frame FLAG_COMMAND (build_ready (socket_type_as_str pt) (Some pid)) @ rest"
    and "length pid + length (socket_type_as_str pt) \<le> 220"
    and "64 + length (encode_frame FLAG_COMMAND (build_ready (socket_type_as_str t) ident)) \<le> hs_quota st"
  shows "\<exists>st'. perform_handshake run_curve zap t ident timeout opts st =
      (HOk \<lparr>peer_identity = Some pid, peer_socket_type = pt, curve_cipher = None\<rparr>, st') \<and>
    hs_all st' = rest \<and>
    hs_out st' = hs_out st @ build_greeting_with_mechanism NullMechanism opts
       @ encode_frame FLAG_COMMAND (build_ready (socket_type_as_str t) ident)"
proof -
  let ?ready = "build_ready (socket_type_as_str pt) (Some pid)"
  obtain st1 where h: "perform_handshake run_curve zap t ident timeout opts st =
      hs_bind (read_ready_frame timeout) (\<lambda>body.
        hs_bind (hs_lift (parse_ready_command body)) (\<lambda>(t, pid).
        hs_return \<lparr>peer_identity = pid, peer_socket_type = t, curve_cipher = None\<rparr>)) st1"
    and st1: "hs_all st1 = encode_frame FLAG_COMMAND ?ready @ rest"
    "hs_out st1 = hs_out st @ build_greeting_with_mechanism NullMechanism opts
       @ encode_frame FLAG_COMMAND (build_ready (socket_type_as_str t) ident)"
    using null_handshake_unfold [OF assms(1-4,6)] by metis
  have "length ?ready \<le> 255" using assms(5) by (simp add: length_build_ready)
  then obtain st2 where r: "read_ready_frame timeout st1 = (HOk ?ready, st2)" "hs_all st2 = rest"
    "hs_out st2 = hs_out st1"
    using read_ready_short [OF assms(3) _ st1(1)] by metis
  have "parse_ready_command ?ready = Some (Inr (pt, Some pid))"
    using parse_build_ready [of "Some pid" pt] assms(5) by simp
  with h r st1 show ?thesis by (simp add: hs_bind_def)
qed

section \<open>Properties\<close>

text \<open>The NULL handshake succeeds between two sockets of this library: reading the greeting
  and the READY command the peer sends, cut into bursts in any way, \<open>perform_handshake\<close>
  returns the peer's socket type and identity, has written its own greeting and READY, and
  leaves the bytes after the peer's READY unread, provided the READY body fits a short frame
  (socket type name and identity of at most 220 bytes together).\<close>

theorem null_handshake_ok:
  assumes "from_options opts = NullMechanism" and "from_options popts = NullMechanism"
    and "timeout \<noteq> Some 0"
    and "hs_all st = build_greeting_with_mechanism NullMechanism popts
      @ encode_frame FLAG_COMMAND (build_ready (socket_type_as_str pt) (Some pid)) @ rest"
    and "length pid + length (socket_type_as_str pt) \<le> 220"
    and "64 + length (encode_frame FLAG_COMMAND (build_ready (socket_type_as_str t) ident)) \<le> hs_quota st"
  shows "\<exists>st'. perform_handshake run_curve zap t ident timeout opts st =
      (HOk \<lparr>peer_identity = Some pid, peer_socket_type = pt, curve_cipher = None\<rparr>, st') \<and>
    hs_all st' = rest \<and>
    hs_out st' = hs_out st @ build_greeting_with_mechanism NullMechanism opts
       @ encode_frame FLAG_COMMAND (build_ready (socket_type_as_str t) ident)"
  by (rule null_handshake_completes [OF assms])

lemma length_ready_frame:
  "length (encode_frame FLAG_COMMAND (build_ready (socket_type_as_str t) None)) \<le> 30"
  using length_socket_type_as_str [of t]
  by (simp add: encode_frame_def Let_def length_build_ready length_utf8_socket_type)

lemma default_options_null [simp]: "from_options socket_options_default = NullMechanism"
  by (simp add: from_options_def socket_options_default_def)

theorem null_handshake_ok_witness:
  "\<exists>st'. perform_handshake (hs_error Protocol :: (bytes \<times> bytes option \<times> unit option) hs) None
     StDealer None None socket_options_default
     \<lparr>hs_in = build_greeting_with_mechanism NullMechanism socket_options_default,
      hs_later = [encode_frame FLAG_COMMAND (build_ready (socket_type_as_str StRouter) (Some [7])), [1]],
      hs_out = [], hs_quota = 1000\<rparr> =
    (HOk \<lparr>peer_identity = Some [7], peer_socket_type = StRouter, curve_cipher = None\<rparr>, st') \<and>
    hs_all st' = [1]"
proof -
  let ?st = "\<lparr>hs_in = build_greeting_with_mechanism NullMechanism socket_options_default,
      hs_later = [encode_frame FLAG_COMMAND (build_ready (socket_type_as_str StRouter) (Some [7])), [1]],
      hs_out = [], hs_quota = 1000\<rparr>"
  have "hs_all ?st = build_greeting_with_mechanism NullMechanism socket_options_default
      @ encode_frame FLAG_COMMAND (build_ready (socket_type_as_str StRouter) (Some [7])) @ [1]"
    by (simp add: hs_all_def)
  moreover have "64 + length (encode_frame FLAG_COMMAND (build_ready (socket_type_as_str StDealer) None))
      \<le> hs_quota ?st"
    using length_ready_frame [of StDealer] by simp
  ultimately show ?thesis
    using null_handshake_ok [of socket_options_default socket_options_default None ?st StRouter "[7]" "[1]"
        StDealer None "hs_error Protocol :: (bytes \<times> bytes option \<times> unit option) hs" None]
    by (auto simp: socket_type_as_str_def)
qed

text \<open>C12. Mechanism agreement: whatever the peer sends, a handshake that succeeds has received
  a valid greeting whose mechanism is exactly the one selected by the local options (so no
  peer can downgrade it), and has sent its own greeting; and no input makes the handshake panic.\<close>

theorem handshake_mechanism_agreement:
  assumes "\<And>st. fst (run_curve st) \<noteq> HPanic"
  shows "fst (perform_handshake run_curve zap t ident timeout opts st) \<noteq> HPanic \<and>
    (\<forall>r st'. perform_handshake run_curve zap t ident timeout opts st = (HOk r, st') \<longrightarrow>
       (\<exists>buf rest. hs_all st = buf @ rest \<and> valid_greeting buf \<and>
          parse_greeting_mechanism (take 20 (drop 12 buf)) = Inr (from_options opts)))"
proof (intro conjI allI impI)
  show "fst (perform_handshake run_curve zap t ident timeout opts st) \<noteq> HPanic"
    using no_panic_handshake assms unfolding no_panic_def by metis
next
  fix r st'
  assume "perform_handshake run_curve zap t ident timeout opts st = (HOk r, st')"
  then obtain st1 where "exchange_greetings (from_options opts) opts timeout st = (HOk (), st1)"
    by (auto simp: perform_handshake_def Let_def hs_bind_eq_HOk)
  then obtain buf where "hs_all st = buf @ hs_all st1" "valid_greeting buf"
    "parse_greeting_mechanism (take 20 (drop 12 buf)) = Inr (from_options opts)"
    by (rule exchange_greetings_HOk)
  then show "\<exists>buf rest. hs_all st = buf @ rest \<and> valid_greeting buf \<and>
          parse_greeting_mechanism (take 20 (drop 12 buf)) = Inr (from_options opts)" by blast
qed

theorem handshake_mechanism_agreement_witness:
  "fst (perform_handshake (hs_error Protocol :: (bytes \<times> bytes option \<times> unit option) hs) None
     StDealer None None socket_options_default
     \<lparr>hs_in = [1, 2, 3], hs_later = [], hs_out = [], hs_quota = 0\<rparr>) \<noteq> HPanic"
  using handshake_mechanism_agreement
    [where run_curve = "hs_error Protocol :: (bytes \<times> bytes option \<times> unit option) hs"]
  unfolding hs_simps fst_conv by blast

text \<open>A READY command whose socket type name and identity exceed 220 bytes together is sent
  as a long frame, and no socket of this library can complete a NULL handshake with it,
  although identities of up to 255 bytes are legal: the receiver reads the eight length
  bytes one position too late and always answers with a protocol error.\<close>

theorem long_ready_rejected:
  assumes "from_options opts = NullMechanism" and "from_options popts = NullMechanism"
    and "timeout \<noteq> Some 0"
    and "hs_all st = build_greeting_with_mechanism NullMechanism popts
      @ encode_frame FLAG_COMMAND (build_ready (socket_type_as_str pt) (Some pid)) @ rest"
    and "220 < length pid + length (socket_type_as_str pt)" and "length pid \<le> 255"
    and "64 + length (encode_frame FLAG_COMMAND (build_ready (socket_type_as_str t) ident)) \<le> hs_quota st"
  shows "fst (perform_handshake run_curve zap t ident timeout opts st) = HErr Protocol \<and>
    parse_ready_command (build_ready (socket_type_as_str pt) (Some pid)) = Some (Inr (pt, Some pid))"
proof -
  let ?ready = "build_ready (socket_type_as_str pt) (Some pid)"
  obtain st1 where h: "perform_handshake run_curve zap t ident timeout opts st =
      hs_bind (read_ready_frame timeout) (\<lambda>body.
        hs_bind (hs_lift (parse_ready_command body)) (\<lambda>(t, pid).
        hs_return \<lparr>peer_identity = pid, peer_socket_type = t, curve_cipher = None\<rparr>)) st1"
    and st1: "hs_all st1 = encode_frame FLAG_COMMAND ?ready @ rest"
    using null_handshake_unfold [OF assms(1-4,7)] by metis
  have "256 \<le> length ?ready" "length ?ready < 2 ^ 56"
    using assms(5,6) length_socket_type_as_str [of pt]
    by (simp_all add: length_build_ready length_utf8_socket_type)
  from read_ready_long [OF assms(3) this st1] obtain st2 where
    r: "read_ready_frame timeout st1 = (HErr Protocol, st2)" by (metis prod.collapse)
  have "parse_ready_command ?ready = Some (Inr (pt, Some pid))"
    using parse_build_ready [of "Some pid" pt] assms(6) by simp
  then show ?thesis unfolding h by (simp add: hs_bind_def r)
qed

theorem long_ready_rejected_witness:
  "fst (perform_handshake (hs_error Protocol :: (bytes \<times> bytes option \<times> unit option) hs) None
     StRouter None None socket_options_default
     \<lparr>hs_in = build_greeting_with_mechanism NullMechanism socket_options_default
        @ encode_frame FLAG_COMMAND (build_ready (socket_type_as_str StDealer) (Some (replicate 255 1))),
      hs_later = [], hs_out = [], hs_quota = 1000\<rparr>) = HErr Protocol"
proof -
  let ?st = "\<lparr>hs_in = build_greeting_with_mechanism NullMechanism socket_options_default
        @ encode_frame FLAG_COMMAND (build_ready (socket_type_as_str StDealer) (Some (replicate 255 1))),
      hs_later = [], hs_out = [], hs_quota = 1000\<rparr>"
  have "64 + length (encode_frame FLAG_COMMAND (build_ready (socket_type_as_str StRouter) None)) \<le> hs_quota ?st"
    using length_ready_frame [of StRouter] by simp
  then show ?thesis
    using long_ready_rejected [of socket_options_default socket_options_default None ?st StDealer
        "replicate 255 1" "[]" StRouter None "hs_error Protocol :: (bytes \<times> bytes option \<times> unit option) hs" None]
    by (simp add: hs_all_def socket_type_as_str_def)
qed

text \<open>C31. PLAIN authentication, both sides: the HELLO command a client writes for well-formed
  credentials of at most 255 bytes each is read back by the server as exactly those
  credentials. The server answers WELCOME when its handler accepts them, and the client
  then succeeds; it answers ERROR when the handler refuses them, and then both sides fail
  with \<open>AuthenticationFailed\<close>.\<close>

theorem plain_exchange:
  assumes "timeout \<noteq> Some 0" and "wf_str u" "wf_str p"
    and "length (utf8_encode u) \<le> 255" "length (utf8_encode p) \<le> 255"
    and "hs_in sst = plain_hello u p" "hs_out sst = []" "8 \<le> hs_quota sst"
    and "hs_all cst = hs_out (snd (plain_server_handshake authenticate domain address timeout sst))"
    and "length (plain_hello u p) \<le> hs_quota cst"
  shows "case authenticate u p domain address of
      Inr uid \<Rightarrow>
        fst (plain_server_handshake authenticate domain address timeout sst) = HOk uid \<and>
        (\<exists>cst'. plain_client_handshake \<lparr>username = u, password = p\<rparr> timeout cst = (HOk (), cst') \<and>
           hs_out cst' = hs_out cst @ plain_hello u p \<and> hs_all cst' = [])
    | Inl _ \<Rightarrow>
        fst (plain_server_handshake authenticate domain address timeout sst) = HErr AuthenticationFailed \<and>
        fst (plain_client_handshake \<lparr>username = u, password = p\<rparr> timeout cst) = HErr AuthenticationFailed"
proof -
  note r = plain_read_hello_ok [OF assms(1-6)]
  let ?c = "\<lparr>username = u, password = p\<rparr>"
  have q: "length PLAIN_WELCOME \<le> hs_quota sst" "length PLAIN_ERROR \<le> hs_quota sst"
    using assms(8) by (simp_all add: PLAIN_WELCOME_def PLAIN_ERROR_def)
  have cq: "length (plain_hello (username ?c) (password ?c)) \<le> hs_quota cst"
    "length (utf8_encode (username ?c)) \<le> 255" "length (utf8_encode (password ?c)) \<le> 255"
    using assms(4,5,10) by simp_all
  show ?thesis
  proof (cases "authenticate u p domain address")
    case (Inl reason)
    have "plain_server_handshake authenticate domain address timeout sst =
        (HErr AuthenticationFailed, sst\<lparr>hs_in := [], hs_out := PLAIN_ERROR,
           hs_quota := hs_quota sst - length PLAIN_ERROR\<rparr>)"
      using Inl q(2) assms(1,7) by (simp add: plain_server_handshake_def hs_bind_def r hs_write_ok)
    moreover from this assms(9) have "hs_all cst = PLAIN_ERROR @ []" by simp
    ultimately show ?thesis using plain_client_ok(2) [OF assms(1) cq(2,3,1)] Inl by simp
  next
    case (Inr uid)
    have "plain_server_handshake authenticate domain address timeout sst =
        (HOk uid, sst\<lparr>hs_in := [], hs_out := PLAIN_WELCOME, hs_quota := hs_quota sst - length PLAIN_WELCOME\<rparr>)"
      using Inr q(1) assms(1,7) by (simp add: plain_server_handshake_def hs_bind_def r hs_write_ok)
    moreover from this assms(9) have "hs_all cst = PLAIN_WELCOME @ []" by simp
    ultimately show ?thesis using plain_client_ok(1) [OF assms(1) cq(2,3,1)] Inr by auto
  qed
qed

theorem plain_exchange_witness:
  "fst (plain_server_handshake (static_authenticate (add_user [] (lit ''bob'') (lit ''pw''))) [] [] None
     \<lparr>hs_in = plain_hello (lit ''bob'') (lit ''pw''), hs_later = [], hs_out = [], hs_quota = 8\<rparr>) = HOk (lit ''bob'')"
proof -
  let ?a = "static_authenticate (add_user [] (lit ''bob'') (lit ''pw''))"
  let ?s = "\<lparr>hs_in = plain_hello (lit ''bob'') (lit ''pw''), hs_later = [], hs_out = [], hs_quota = 8\<rparr>"
  let ?o = "hs_out (snd (plain_server_handshake ?a [] [] None ?s))"
  have w: "wf_str (lit ''bob'')" "wf_str (lit ''pw'')" by (simp_all add: wf_str_def scalar_value_def)
  have l: "length (utf8_encode (lit ''bob'')) \<le> 255" "length (utf8_encode (lit ''pw'')) \<le> 255"
    by (simp_all add: utf8_encode_ascii)
  have "?a (lit ''bob'') (lit ''pw'') [] [] = Inr (lit ''bob'')"
    by (simp add: static_authenticate_def add_user_def)
  with plain_exchange [of None "lit ''bob''" "lit ''pw''" ?s
      "\<lparr>hs_in = ?o, hs_later = [], hs_out = [], hs_quota = length (plain_hello (lit ''bob'') (lit ''pw''))\<rparr>" ?a "[]" "[]"]
    w l show ?thesis by (simp add: hs_all_def)
qed

text \<open>A socket that acts as PLAIN server admits a peer only on an explicit ZAP success: if the
  exchange succeeds then the ZAP endpoint was reachable, the handler's reply decoded, had
  status 200 and carried the id of the request, which asked about exactly the credentials
  the peer presented; and the returned user id is the one of that reply.\<close>

theorem plain_zap_admission:
  assumes "plain_server_handshake_zap zap domain address timeout st = (HOk uid, st')"
  shows "\<exists>rid io u p frames r. zap = Some (rid, io) \<and>
    fst (plain_read_hello timeout st) = HOk (u, p) \<and>
    io (zap_request_encode (zap_request_new rid domain address [] ZapPlain [utf8_encode u, utf8_encode p]))
      = ZapRecvFrames frames \<and>
    zap_response_decode frames = Inr r \<and> rs_status_code r = ZapSuccess \<and> rs_request_id r = rid \<and>
    rs_user_id r = uid"
proof -
  from assms obtain u p st1 r where h: "plain_read_hello timeout st = (HOk (u, p), st1)"
    and d: "zap_plain_decision zap u p domain address = Inr r" and s: "rs_status_code r = ZapSuccess"
    and uid: "rs_user_id r = uid"
    unfolding plain_zap_server_iff by blast
  from d obtain rid io where z: "zap = Some (rid, io)"
    by (auto simp: zap_plain_decision_def split: option.splits)
  with d have "zap_authenticate (zap_request_new rid domain address [] ZapPlain [utf8_encode u, utf8_encode p])
      (io (zap_request_encode (zap_request_new rid domain address [] ZapPlain [utf8_encode u, utf8_encode p]))) = Inr r"
    by (simp add: zap_plain_decision_def authenticate_plain_def)
  from zap_authenticate_success [OF this s] z h s uid show ?thesis
    by (auto simp: zap_request_new_def)
qed

theorem plain_zap_admission_witness:
  "\<exists>r. zap_response_decode (zap_response_encode (zap_response_success (lit ''1'') (lit ''u''))) = Inr r \<and>
     rs_user_id r = lit ''u''"
proof -
  let ?io = "\<lambda>_ :: bytes list. ZapRecvFrames (zap_response_encode (zap_response_success (lit ''1'') (lit ''u'')))"
  let ?st = "\<lparr>hs_in = plain_hello (lit ''b'') (lit ''p''), hs_later = [], hs_out = [], hs_quota = 8\<rparr>"
  have h: "plain_read_hello None ?st = (HOk (lit ''b'', lit ''p''), ?st\<lparr>hs_in := []\<rparr>)"
    by (rule plain_read_hello_ok) (simp_all add: wf_str_def scalar_value_def utf8_encode_ascii)
  have "zap_response_decode (zap_response_encode (zap_response_success (lit ''1'') (lit ''u''))) =
      Inr (zap_response_success (lit ''1'') (lit ''u''))"
    by (rule zap_response_roundtrip)
      (simp add: ok_response_def zap_response_success_def wf_str_def scalar_value_def utf8_encode_ascii)
  then have "zap_plain_decision (Some (lit ''1'', ?io)) (lit ''b'') (lit ''p'') [] [] =
      Inr (zap_response_success (lit ''1'') (lit ''u''))"
    by (simp add: zap_plain_decision_def authenticate_plain_def zap_authenticate_def
        zap_request_new_def zap_response_success_def)
  moreover obtain st' where "hs_write PLAIN_WELCOME None (?st\<lparr>hs_in := []\<rparr>) = (HOk (), st')"
    by (simp add: hs_write_ok PLAIN_WELCOME_def)
  moreover have "rs_status_code (zap_response_success (lit ''1'') (lit ''u'')) = ZapSuccess"
    "rs_user_id (zap_response_success (lit ''1'') (lit ''u'')) = lit ''u''"
    by (simp_all add: zap_response_success_def)
  ultimately have "plain_server_handshake_zap (Some (lit ''1'', ?io)) [] [] None ?st = (HOk (lit ''u''), st')"
    unfolding plain_zap_server_iff using h by blast
  from plain_zap_admission [OF this] show ?thesis by auto
qed

end
