(* ===== verification/Curve_Cipher.thy ===== *)
theory Curve_Cipher
  imports Mono_Prelude
begin

text \<open>
  The message cipher of the CURVE mechanism, \<open>monocoque-zmtp/src/security/curve.rs\<close>: the keys, the two
  boxes and \<open>CurveMessageCipher\<close>, which encrypts and decrypts the frames after the handshake.

  The cryptographic primitives belong to other crates. They are the fields of \<open>curve_crypto\<close>, an
  argument of every definition that uses them; \<open>crypto_laws\<close> states what their documentation
  promises: texts below the documented length limits (4 GiB is below all of them) can be sealed, opening
  undoes sealing and fails on everything else, the overhead is the 16-byte tag,
  and both sides of a Diffie-Hellman exchange obtain the same secret.
\<close>

section \<open>Primitives\<close>

record curve_crypto =
  x25519_public :: "bytes \<Rightarrow> bytes"
  x25519 :: "bytes \<Rightarrow> bytes \<Rightarrow> bytes"
  salsabox_seal :: "bytes \<Rightarrow> bytes \<Rightarrow> bytes \<Rightarrow> bytes \<Rightarrow> bytes option"
  salsabox_open :: "bytes \<Rightarrow> bytes \<Rightarrow> bytes \<Rightarrow> bytes \<Rightarrow> bytes option"
  xchacha_seal :: "bytes \<Rightarrow> bytes \<Rightarrow> bytes \<Rightarrow> bytes option"
  xchacha_open :: "bytes \<Rightarrow> bytes \<Rightarrow> bytes \<Rightarrow> bytes option"
  sha256 :: "bytes \<Rightarrow> bytes"

text \<open>The documented behaviour of \<open>x25519_dalek\<close>, \<open>crypto_box\<close>, \<open>chacha20poly1305\<close> and \<open>sha2\<close> that the
  code relies on. The arguments of the box functions are the other side's public key, the own secret
  key, the nonce and the text.\<close>

definition crypto_laws :: "curve_crypto \<Rightarrow> bool" where
  "crypto_laws cr \<longleftrightarrow>
     (\<forall>a b. x25519 cr a (x25519_public cr b) = x25519 cr b (x25519_public cr a)) \<and>
     (\<forall>a. length (x25519_public cr a) = 32) \<and>
     (\<forall>a b n pt. length pt < 2 ^ 32 \<longrightarrow>
        (\<exists>ct. salsabox_seal cr (x25519_public cr b) a n pt = Some ct \<and> length ct = length pt + 16 \<and>
           salsabox_open cr (x25519_public cr a) b n ct = Some pt)) \<and>
     (\<forall>a b n ct pt. salsabox_open cr (x25519_public cr a) b n ct = Some pt \<longrightarrow>
        salsabox_seal cr (x25519_public cr b) a n pt = Some ct) \<and>
     (\<forall>k n pt. length pt < 2 ^ 32 \<longrightarrow>
        (\<exists>ct. xchacha_seal cr k n pt = Some ct \<and> length ct = length pt + 16 \<and>
           xchacha_open cr k n ct = Some pt)) \<and>
     (\<forall>k n ct pt. xchacha_open cr k n ct = Some pt \<longrightarrow> xchacha_seal cr k n pt = Some ct)"

section \<open>Keys and boxes\<close>

datatype curve_error =
    EncryptionFailed | DecryptionFailed | InvalidKeySize | InvalidNonce | ProtocolViolation
  | CurveAuthenticationFailed | CurveIo io_error_kind

definition CURVE_MESSAGE :: bytes where
  "CURVE_MESSAGE = 7 # blit ''MESSAGE''"

definition CURVE_MESSAGE_NONCE_SIZE :: nat where
  "CURVE_MESSAGE_NONCE_SIZE = 8"

definition CURVE_KEY_SIZE :: nat where
  "CURVE_KEY_SIZE = 32"

text \<open>\<open>CurveSecretKey::public_key\<close> and \<open>CurveSecretKey::diffie_hellman\<close>, which refuses the all-zero secret
  of a low-order point.\<close>

record curve_keypair =
  kp_public :: bytes
  kp_secret :: bytes

definition public_key :: "curve_crypto \<Rightarrow> bytes \<Rightarrow> bytes" where
  "public_key cr sk = x25519_public cr sk"

definition diffie_hellman :: "curve_crypto \<Rightarrow> bytes \<Rightarrow> bytes \<Rightarrow> curve_error + bytes" where
  "diffie_hellman cr sk peer =
     (let shared = x25519 cr sk peer in
      if shared = replicate CURVE_KEY_SIZE 0 then Inl ProtocolViolation else Inr shared)"

text \<open>\<open>CurveKeyPair::generate\<close> with the random secret as an argument, and \<open>from_keys\<close>.\<close>

definition keypair_generate :: "curve_crypto \<Rightarrow> bytes \<Rightarrow> curve_keypair" where
  "keypair_generate cr random = \<lparr>kp_public = public_key cr random, kp_secret = random\<rparr>"

definition keypair_from_keys :: "bytes \<Rightarrow> bytes \<Rightarrow> curve_keypair" where
  "keypair_from_keys public secret = \<lparr>kp_public = public, kp_secret = secret\<rparr>"

definition salsa_encrypt :: "curve_crypto \<Rightarrow> bytes \<Rightarrow> bytes \<Rightarrow> bytes \<Rightarrow> bytes \<Rightarrow> curve_error + bytes" where
  "salsa_encrypt cr their_pk my_sk nonce pt =
     (case salsabox_seal cr their_pk my_sk nonce pt of None \<Rightarrow> Inl EncryptionFailed | Some ct \<Rightarrow> Inr ct)"

definition salsa_decrypt :: "curve_crypto \<Rightarrow> bytes \<Rightarrow> bytes \<Rightarrow> bytes \<Rightarrow> bytes \<Rightarrow> curve_error + bytes" where
  "salsa_decrypt cr their_pk my_sk nonce ct =
     (case salsabox_open cr their_pk my_sk nonce ct of None \<Rightarrow> Inl DecryptionFailed | Some pt \<Rightarrow> Inr pt)"

text \<open>\<open>CurveBox\<close> is its key.\<close>

definition box_encrypt :: "curve_crypto \<Rightarrow> bytes \<Rightarrow> bytes \<Rightarrow> bytes \<Rightarrow> curve_error + bytes" where
  "box_encrypt cr key pt nonce =
     (case xchacha_seal cr key nonce pt of None \<Rightarrow> Inl EncryptionFailed | Some ct \<Rightarrow> Inr ct)"

definition box_decrypt :: "curve_crypto \<Rightarrow> bytes \<Rightarrow> bytes \<Rightarrow> bytes \<Rightarrow> curve_error + bytes" where
  "box_decrypt cr key ct nonce =
     (case xchacha_open cr key nonce ct of None \<Rightarrow> Inl DecryptionFailed | Some pt \<Rightarrow> Inr pt)"

definition derive_message_key :: "curve_crypto \<Rightarrow> bytes \<Rightarrow> bytes \<Rightarrow> bytes \<Rightarrow> bytes" where
  "derive_message_key cr dh1 dh2 dh3 = sha256 cr (dh1 @ dh2 @ dh3)"

text \<open>A command body splits into the 8-byte nonce suffix and the ciphertext.\<close>

definition parse_curve_message :: "bytes \<Rightarrow> (curve_error + bytes \<times> bytes) option" where
  "parse_curve_message message =
     (let command_len = length CURVE_MESSAGE in
      if length message < command_len + CURVE_MESSAGE_NONCE_SIZE then Some (Inl ProtocolViolation)
      else do {
        head \<leftarrow> slice message 0 command_len;
        if head \<noteq> CURVE_MESSAGE then Some (Inl ProtocolViolation)
        else do {
          short_nonce \<leftarrow> slice message command_len (command_len + CURVE_MESSAGE_NONCE_SIZE);
          ciphertext \<leftarrow> slice message (command_len + CURVE_MESSAGE_NONCE_SIZE) (length message);
          Some (Inr (short_nonce, ciphertext)) }})"

section \<open>The message cipher\<close>

record message_cipher =
  mc_key :: bytes
  send_nonce :: nat
  recv_nonce :: nat
  is_client :: bool

definition new_client :: "bytes \<Rightarrow> nat \<Rightarrow> nat \<Rightarrow> message_cipher" where
  "new_client key sn rn = \<lparr>mc_key = key, send_nonce = sn, recv_nonce = rn, is_client = True\<rparr>"

definition new_server :: "bytes \<Rightarrow> nat \<Rightarrow> nat \<Rightarrow> message_cipher" where
  "new_server key sn rn = \<lparr>mc_key = key, send_nonce = sn, recv_nonce = rn, is_client = False\<rparr>"

definition is_curve_message :: "bytes \<Rightarrow> bool" where
  "is_curve_message bs \<longleftrightarrow> starts_with bs CURVE_MESSAGE"

text \<open>The 16-byte nonce prefixes of the two directions.\<close>

definition nonce_prefix :: "bool \<Rightarrow> bytes" where
  "nonce_prefix from_client = (if from_client then blit ''CurveZMQMESSAGEC'' else blit ''CurveZMQMESSAGES'')"

definition encrypt_frame ::
  "curve_crypto \<Rightarrow> message_cipher \<Rightarrow> bytes \<Rightarrow> bool \<Rightarrow> (curve_error + bytes) \<times> message_cipher" where
  "encrypt_frame cr c payload mf =
     (let suffix = be_bytes 8 (send_nonce c); nonce = nonce_prefix (is_client c) @ suffix in
      case checked_add (send_nonce c) 1 of
        None \<Rightarrow> (Inl ProtocolViolation, c)
      | Some next \<Rightarrow>
          (let c1 = c\<lparr>send_nonce := next\<rparr>; pt = (if mf then 1 else 0) # payload in
           case box_encrypt cr (mc_key c1) pt nonce of
             Inl e \<Rightarrow> (Inl e, c1)
           | Inr ct \<Rightarrow> (Inr (CURVE_MESSAGE @ suffix @ ct), c1)))"

text \<open>\<open>None\<close> is a panic: the slices of \<open>parse_curve_message\<close> and the flag byte of the plaintext.\<close>

definition decrypt_frame ::
  "curve_crypto \<Rightarrow> message_cipher \<Rightarrow> bytes \<Rightarrow> ((curve_error + bool \<times> bytes) \<times> message_cipher) option" where
  "decrypt_frame cr c cmd_body = do {
     parts \<leftarrow> parse_curve_message cmd_body;
     case parts of
       Inl e \<Rightarrow> Some (Inl e, c)
     | Inr (short_nonce, ciphertext) \<Rightarrow>
         if length short_nonce \<noteq> 8 then Some (Inl InvalidNonce, c)
         else (let counter = be_val short_nonce in
           if counter < recv_nonce c then Some (Inl ProtocolViolation, c)
           else (case checked_add counter 1 of
             None \<Rightarrow> Some (Inl ProtocolViolation, c)
           | Some next \<Rightarrow>
               (let c1 = c\<lparr>recv_nonce := next\<rparr>; nonce = nonce_prefix (\<not> is_client c) @ short_nonce in
                case box_decrypt cr (mc_key c1) ciphertext nonce of
                  Inl e \<Rightarrow> Some (Inl e, c1)
                | Inr pt \<Rightarrow>
                    if pt = [] then Some (Inl ProtocolViolation, c1)
                    else do { b \<leftarrow> idx pt 0; Some (Inr (b AND 1 \<noteq> 0, drop 1 pt), c1) }))) }"

section \<open>Lemmas\<close>

lemma crypto_lawsD:
  assumes "crypto_laws cr"
  shows "x25519 cr a (x25519_public cr b) = x25519 cr b (x25519_public cr a)"
    and "length (x25519_public cr a) = 32"
    and "length pt < 2 ^ 32 \<Longrightarrow> \<exists>ct. salsabox_seal cr (x25519_public cr b) a n pt = Some ct \<and> length ct = length pt + 16 \<and>
        salsabox_open cr (x25519_public cr a) b n ct = Some pt"
    and "salsabox_open cr (x25519_public cr a) b n ct = Some pt \<Longrightarrow> salsabox_seal cr (x25519_public cr b) a n pt = Some ct"
    and "length pt < 2 ^ 32 \<Longrightarrow> \<exists>ct. xchacha_seal cr k n pt = Some ct \<and> length ct = length pt + 16 \<and> xchacha_open cr k n ct = Some pt"
    and "xchacha_open cr k n ct = Some pt \<Longrightarrow> xchacha_seal cr k n pt = Some ct"
  using assms unfolding crypto_laws_def by blast+

lemma length_CURVE_MESSAGE [simp]: "length CURVE_MESSAGE = 8"
  by (simp add: CURVE_MESSAGE_def)

lemma nonce_prefix_inject: "nonce_prefix a = nonce_prefix b \<longleftrightarrow> a = b"
  by (simp add: nonce_prefix_def)

lemma parse_curve_message_total: "parse_curve_message m \<noteq> None"
  by (simp add: parse_curve_message_def CURVE_MESSAGE_NONCE_SIZE_def Let_def)

lemma parse_curve_message_Inr:
  "parse_curve_message m = Some (Inr (sn, ct)) \<longleftrightarrow> length sn = 8 \<and> m = CURVE_MESSAGE @ sn @ ct"
proof
  assume p: "parse_curve_message m = Some (Inr (sn, ct))"
  then have l: "16 \<le> length m" and h: "take 8 m = CURVE_MESSAGE" "sn = take 8 (drop 8 m)" "ct = drop 16 m"
    by (auto simp: parse_curve_message_def CURVE_MESSAGE_NONCE_SIZE_def Let_def split: if_splits)
  have "m = take 8 m @ take 8 (drop 8 m) @ drop 16 m"
    by (metis append_take_drop_id drop_drop numeral_Bit0)
  with l h show "length sn = 8 \<and> m = CURVE_MESSAGE @ sn @ ct" by auto
qed (auto simp: parse_curve_message_def CURVE_MESSAGE_NONCE_SIZE_def Let_def)

lemma decrypt_frame_total: "decrypt_frame cr c body \<noteq> None"
  using parse_curve_message_total [of body]
  by (auto simp: decrypt_frame_def Let_def idx_def split: sum.splits option.splits if_splits)

text \<open>What acceptance of a frame means.\<close>

lemma decrypt_frame_Inr:
  assumes "decrypt_frame cr c body = Some (Inr (mf, payload), c')"
  obtains n b ct where "n < 2 ^ 64 - 1" "recv_nonce c \<le> n" "body = CURVE_MESSAGE @ be_bytes 8 n @ ct"
    "c' = c\<lparr>recv_nonce := n + 1\<rparr>" "mf = (b AND 1 \<noteq> 0)"
    "xchacha_open cr (mc_key c) (nonce_prefix (\<not> is_client c) @ be_bytes 8 n) ct = Some (b # payload)"
proof -
  from assms obtain sn ct where p: "parse_curve_message body = Some (Inr (sn, ct))"
    by (auto simp: decrypt_frame_def split: bind_splits sum.splits)
  then have body: "length sn = 8" "body = CURVE_MESSAGE @ sn @ ct" by (simp_all add: parse_curve_message_Inr)
  let ?n = "be_val sn"
  have sn: "be_bytes 8 ?n = sn" using be_bytes_be_val [of sn] body(1) by simp
  have "?n < 256 ^ 8" using be_val_less [of sn] body(1) by simp
  from assms p body(1) obtain b where r: "recv_nonce c \<le> ?n" "?n + 1 \<le> usize_max" "c' = c\<lparr>recv_nonce := ?n + 1\<rparr>"
    "xchacha_open cr (mc_key c) (nonce_prefix (\<not> is_client c) @ sn) ct = Some (b # payload)" "mf = (b AND 1 \<noteq> 0)"
    by (auto simp: decrypt_frame_def Let_def checked_add_def box_decrypt_def idx_def neq_Nil_conv not_less
        split: if_splits option.splits)
  show ?thesis
    using that [of ?n ct b] r body(2) sn by (simp add: usize_max_def)
qed

section \<open>Sequences of frames\<close>

text \<open>A sender encrypts frames one after the other and stops at the first error; a receiver
  decrypts what arrives, whatever it is.\<close>

fun send_frames :: "curve_crypto \<Rightarrow> message_cipher \<Rightarrow> (bool \<times> bytes) list \<Rightarrow> curve_error + bytes list" where
  "send_frames cr c [] = Inr []"
| "send_frames cr c ((mf, payload) # ms) =
     (case encrypt_frame cr c payload mf of
        (Inl e, _) \<Rightarrow> Inl e
      | (Inr body, c1) \<Rightarrow> (case send_frames cr c1 ms of Inl e \<Rightarrow> Inl e | Inr bodies \<Rightarrow> Inr (body # bodies)))"

fun recv_frames :: "curve_crypto \<Rightarrow> message_cipher \<Rightarrow> bytes list \<Rightarrow> (curve_error + bool \<times> bytes) list" where
  "recv_frames cr d [] = []"
| "recv_frames cr d (body # bodies) =
     (case decrypt_frame cr d body of None \<Rightarrow> [] | Some (r, d1) \<Rightarrow> r # recv_frames cr d1 bodies)"

definition frame_counter :: "bytes \<Rightarrow> nat" where
  "frame_counter body = be_val (take 8 (drop 8 body))"

text \<open>The bodies a receiver accepts, in the order of arrival.\<close>

definition accepted :: "curve_crypto \<Rightarrow> message_cipher \<Rightarrow> bytes list \<Rightarrow> bytes list" where
  "accepted cr d bodies = map fst (filter (\<lambda>(_, r). \<not> isl r) (zip bodies (recv_frames cr d bodies)))"

lemma encrypt_frame_ok:
  assumes "crypto_laws cr" "send_nonce c < usize_max" "length payload + 1 < 2 ^ 32"
  obtains ct where "encrypt_frame cr c payload mf =
      (Inr (CURVE_MESSAGE @ be_bytes 8 (send_nonce c) @ ct), c\<lparr>send_nonce := send_nonce c + 1\<rparr>)"
    "xchacha_open cr (mc_key c) (nonce_prefix (is_client c) @ be_bytes 8 (send_nonce c)) ct = Some ((if mf then 1 else 0) # payload)"
proof -
  obtain ct where "xchacha_seal cr (mc_key c) (nonce_prefix (is_client c) @ be_bytes 8 (send_nonce c)) ((if mf then 1 else 0) # payload) = Some ct"
    "xchacha_open cr (mc_key c) (nonce_prefix (is_client c) @ be_bytes 8 (send_nonce c)) ct = Some ((if mf then 1 else 0) # payload)"
    using crypto_lawsD(5) [OF assms(1), of "(if mf then 1 else 0) # payload"] assms(3) by fastforce
  with that [of ct] assms(2) show ?thesis
    by (simp add: encrypt_frame_def Let_def box_encrypt_def)
qed

lemma decrypt_frame_ok:
  assumes "n < usize_max" "recv_nonce d \<le> n"
    and "xchacha_open cr (mc_key d) (nonce_prefix (\<not> is_client d) @ be_bytes 8 n) ct = Some ((if mf then 1 else 0) # payload)"
  shows "decrypt_frame cr d (CURVE_MESSAGE @ be_bytes 8 n @ ct) = Some (Inr (mf, payload), d\<lparr>recv_nonce := n + 1\<rparr>)"
proof -
  have "parse_curve_message (CURVE_MESSAGE @ be_bytes 8 n @ ct) = Some (Inr (be_bytes 8 n, ct))"
    by (simp add: parse_curve_message_Inr)
  moreover have "be_val (be_bytes 8 n) = n" using assms(1) by (simp add: usize_max_def)
  ultimately show ?thesis using assms by (simp add: decrypt_frame_def Let_def box_decrypt_def)
qed

text \<open>Frame number \<open>i\<close> of a sender carries counter \<open>send_nonce + i\<close> and opens to message \<open>i\<close>.\<close>

definition opens_to :: "curve_crypto \<Rightarrow> bytes \<Rightarrow> bool \<Rightarrow> nat \<Rightarrow> bytes \<Rightarrow> bool \<times> bytes \<Rightarrow> bool" where
  "opens_to cr key from_client n body m \<longleftrightarrow> n < usize_max \<and>
     (\<exists>ct. body = CURVE_MESSAGE @ be_bytes 8 n @ ct \<and>
       xchacha_open cr key (nonce_prefix from_client @ be_bytes 8 n) ct = Some ((if fst m then 1 else 0) # snd m))"

lemma send_frames_ok:
  assumes "crypto_laws cr" "send_nonce c + length ms \<le> usize_max" "\<forall>m \<in> set ms. length (snd m) + 1 < 2 ^ 32"
  shows "\<exists>bodies. send_frames cr c ms = Inr bodies \<and> length bodies = length ms \<and>
    (\<forall>i < length ms. opens_to cr (mc_key c) (is_client c) (send_nonce c + i) (bodies ! i) (ms ! i))"
  using assms
proof (induction ms arbitrary: c)
  case (Cons m ms)
  obtain mf payload where m: "m = (mf, payload)" by fastforce
  let ?c = "c\<lparr>send_nonce := send_nonce c + 1\<rparr>"
  obtain ct where e: "encrypt_frame cr c payload mf = (Inr (CURVE_MESSAGE @ be_bytes 8 (send_nonce c) @ ct), ?c)"
    and o: "xchacha_open cr (mc_key c) (nonce_prefix (is_client c) @ be_bytes 8 (send_nonce c)) ct = Some ((if mf then 1 else 0) # payload)"
    using encrypt_frame_ok [OF Cons.prems(1), of c payload mf] Cons.prems(2,3) m by (auto simp del: be_bytes.simps)
  obtain bodies where b: "send_frames cr ?c ms = Inr bodies" "length bodies = length ms"
    "\<forall>i < length ms. opens_to cr (mc_key c) (is_client c) (send_nonce c + 1 + i) (bodies ! i) (ms ! i)"
    using Cons.IH [of ?c] Cons.prems by auto
  let ?bodies = "(CURVE_MESSAGE @ be_bytes 8 (send_nonce c) @ ct) # bodies"
  have "opens_to cr (mc_key c) (is_client c) (send_nonce c + i) (?bodies ! i) ((m # ms) ! i)" if "i < length (m # ms)" for i
  proof (cases i)
    case 0
    with o m Cons.prems(2) show ?thesis by (auto simp: opens_to_def)
  next
    case (Suc j)
    with that b(3) show ?thesis by simp
  qed
  with e b m show ?case by (intro exI [of _ ?bodies]) simp
qed simp

lemma recv_opens_to:
  assumes "opens_to cr (mc_key d) (\<not> is_client d) n body m" "recv_nonce d \<le> n"
  shows "decrypt_frame cr d body = Some (Inr m, d\<lparr>recv_nonce := n + 1\<rparr>)"
  using assms decrypt_frame_ok [of n d cr] by (cases m) (auto simp: opens_to_def)

lemma recv_selection:
  assumes "sorted_wrt (<) is" "\<forall>i \<in> set is. recv_nonce d \<le> base + i"
    and "\<forall>i \<in> set is. opens_to cr (mc_key d) (\<not> is_client d) (base + i) (bodies ! i) (ms ! i)"
  shows "recv_frames cr d (map ((!) bodies) is) = map (\<lambda>i. Inr (ms ! i)) is"
  using assms
proof (induction "is" arbitrary: d)
  case (Cons i "is")
  let ?d = "d\<lparr>recv_nonce := base + i + 1\<rparr>"
  have "decrypt_frame cr d (bodies ! i) = Some (Inr (ms ! i), ?d)"
    using Cons.prems by (intro recv_opens_to) auto
  moreover have "recv_frames cr ?d (map ((!) bodies) is) = map (\<lambda>i. Inr (ms ! i)) is"
    using Cons.prems by (intro Cons.IH) auto
  ultimately show ?case by simp
qed simp

lemma decrypt_frame_mono:
  assumes "decrypt_frame cr d body = Some (r, d')"
  shows "recv_nonce d \<le> recv_nonce d' \<and> (\<not> isl r \<longrightarrow> recv_nonce d \<le> frame_counter body \<and> recv_nonce d' = frame_counter body + 1)"
proof (cases r)
  case (Inr m)
  with assms obtain n ct where n: "n < 2 ^ 64 - 1" "recv_nonce d \<le> n" "body = CURVE_MESSAGE @ be_bytes 8 n @ ct" "d' = d\<lparr>recv_nonce := n + 1\<rparr>"
    by (cases m) (auto elim!: decrypt_frame_Inr)
  then have "frame_counter body = n" by (simp add: frame_counter_def)
  with n show ?thesis by simp
next
  case (Inl e)
  with assms show ?thesis
    by (auto simp: decrypt_frame_def Let_def checked_add_def split: bind_splits sum.splits if_splits option.splits)
qed

lemma accepted_Cons:
  assumes "decrypt_frame cr d body = Some (r, d')"
  shows "accepted cr d (body # bodies) = (if \<not> isl r then [body] else []) @ accepted cr d' bodies"
  using assms by (simp add: accepted_def)

lemma accepted_counters:
  "sorted_wrt (<) (map frame_counter (accepted cr d bodies)) \<and> (\<forall>b \<in> set (accepted cr d bodies). recv_nonce d \<le> frame_counter b)"
proof (induction bodies arbitrary: d)
  case Nil
  then show ?case by (simp add: accepted_def)
next
  case (Cons body bodies)
  obtain r d' where dd: "decrypt_frame cr d body = Some (r, d')" using decrypt_frame_total by fast
  from decrypt_frame_mono [OF dd] Cons.IH [of d'] show ?case
    unfolding accepted_Cons [OF dd] by (fastforce simp: sorted_wrt_append)
qed

section \<open>Properties\<close>

text \<open>Encrypted traffic arrives. When the two ends of a connection hold the same key and opposite
  roles, and the receiver has not advanced past the sender, the sender encrypts any list of frames (up
  to the exhaustion of its 64-bit counter), and every selection of the encrypted frames that keeps
  their order decrypts to exactly the corresponding payloads with their MORE flags, also when others
  are lost in between.\<close>

theorem cipher_transfer:
  assumes "crypto_laws cr" and "mc_key d = mc_key c" and "is_client d \<longleftrightarrow> \<not> is_client c"
    and "recv_nonce d \<le> send_nonce c" and "send_nonce c + length ms \<le> usize_max"
    and "\<forall>m \<in> set ms. length (snd m) + 1 < 2 ^ 32"
  shows "\<exists>bodies. send_frames cr c ms = Inr bodies \<and> length bodies = length ms \<and>
    (\<forall>is. sorted_wrt (<) is \<and> (\<forall>i \<in> set is. i < length ms) \<longrightarrow>
       recv_frames cr d (map ((!) bodies) is) = map (\<lambda>i. Inr (ms ! i)) is)"
proof -
  obtain bodies where b: "send_frames cr c ms = Inr bodies" "length bodies = length ms"
    "\<forall>i < length ms. opens_to cr (mc_key c) (is_client c) (send_nonce c + i) (bodies ! i) (ms ! i)"
    using send_frames_ok [OF assms(1,5,6)] by blast
  moreover have "recv_frames cr d (map ((!) bodies) is) = map (\<lambda>i. Inr (ms ! i)) is"
    if "sorted_wrt (<) is" "\<forall>i \<in> set is. i < length ms" for "is"
    using that b(3) assms(2,3,4) by (intro recv_selection [where base = "send_nonce c"]) auto
  ultimately show ?thesis by blast
qed

text \<open>A concrete instance of the primitives, for the witnesses: the box is a fixed tag before the
  text, and the shared secret is the exclusive-or of the two keys.\<close>

definition pad32 :: "bytes \<Rightarrow> bytes" where
  "pad32 a = take 32 (a @ replicate 32 0)"

definition tag_open :: "bytes \<Rightarrow> bytes option" where
  "tag_open ct = (if 16 \<le> length ct \<and> take 16 ct = replicate 16 9 then Some (drop 16 ct) else None)"

definition tag_crypto :: curve_crypto where
  "tag_crypto = \<lparr>x25519_public = pad32, x25519 = (\<lambda>a p. map2 (XOR) (pad32 a) p),
     salsabox_seal = (\<lambda>_ _ _ pt. Some (replicate 16 9 @ pt)), salsabox_open = (\<lambda>_ _ _ ct. tag_open ct),
     xchacha_seal = (\<lambda>_ _ pt. Some (replicate 16 9 @ pt)), xchacha_open = (\<lambda>_ _ ct. tag_open ct),
     sha256 = pad32\<rparr>"

lemma tag_open_iff: "tag_open ct = Some pt \<longleftrightarrow> ct = replicate 16 9 @ pt"
  by (auto simp: tag_open_def) (metis append_take_drop_id)

lemma map2_xor_commute: "map2 (XOR) xs ys = map2 (XOR) ys (xs :: bytes)"
  by (subst zip_commute) (simp add: comp_def case_prod_beta xor.commute)

lemma tag_crypto_laws: "crypto_laws tag_crypto"
  unfolding crypto_laws_def tag_crypto_def
  by (simp add: tag_open_iff map2_xor_commute pad32_def min_def)

theorem cipher_transfer_witness:
  "\<exists>bodies. send_frames tag_crypto (new_client [5] 1 1) [(True, [1]), (False, [2, 3])] = Inr bodies \<and> length bodies = length [(True, [1 :: byte]), (False, [2, 3])] \<and>
    (\<forall>is. sorted_wrt (<) is \<and> (\<forall>i \<in> set is. i < length [(True, [1 :: byte]), (False, [2, 3])]) \<longrightarrow>
       recv_frames tag_crypto (new_server [5] 1 1) (map ((!) bodies) is) = map (\<lambda>i. Inr ([(True, [1]), (False, [2, 3])] ! i)) is)"
  by (rule cipher_transfer [OF tag_crypto_laws]) (simp_all add: new_client_def new_server_def usize_max_def)

text \<open>C11. No replay and no reordering. Whatever bytes arrive, in whatever order, the frames a
  receiver accepts carry strictly increasing counters: no frame is accepted twice, and none after a
  later one. Receiving never panics.\<close>

theorem cipher_no_replay:
  "sorted_wrt (<) (map frame_counter (accepted cr d bodies)) \<and> distinct (accepted cr d bodies) \<and>
   length (recv_frames cr d bodies) = length bodies"
proof -
  have s: "sorted_wrt (<) (map frame_counter (accepted cr d bodies))" using accepted_counters by blast
  then have "distinct (map frame_counter (accepted cr d bodies))" by (simp add: strict_sorted_iff)
  moreover have "length (recv_frames cr d bodies) = length bodies"
  proof (induction bodies arbitrary: d)
    case (Cons body bodies)
    obtain r d' where "decrypt_frame cr d body = Some (r, d')" using decrypt_frame_total by fast
    with Cons.IH show ?case by simp
  qed simp
  ultimately show ?thesis using s by (simp add: distinct_map)
qed

text \<open>C39. The counter moves before authentication. A body that fails to decrypt still advances the
  receive counter to its own unauthenticated counter: after one forged frame with the largest
  usable counter, every frame the peer sends is rejected.\<close>

theorem forged_counter_blocks:
  assumes "xchacha_open cr (mc_key d) (nonce_prefix (\<not> is_client d) @ be_bytes 8 (2 ^ 64 - 2)) ct = None"
    and "recv_nonce d \<le> 2 ^ 64 - 2" and "n < 2 ^ 64 - 1"
  shows "\<exists>d'. decrypt_frame cr d (CURVE_MESSAGE @ be_bytes 8 (2 ^ 64 - 2) @ ct) = Some (Inl DecryptionFailed, d') \<and>
    decrypt_frame cr d' (CURVE_MESSAGE @ be_bytes 8 n @ ct') = Some (Inl ProtocolViolation, d')"
proof -
  have p: "parse_curve_message (CURVE_MESSAGE @ be_bytes 8 k @ x) = Some (Inr (be_bytes 8 k, x))" for k x
    by (simp add: parse_curve_message_Inr)
  let ?d = "d\<lparr>recv_nonce := 2 ^ 64 - 1\<rparr>"
  have "decrypt_frame cr d (CURVE_MESSAGE @ be_bytes 8 (2 ^ 64 - 2) @ ct) = Some (Inl DecryptionFailed, ?d)"
    using assms(1,2) unfolding decrypt_frame_def p
    by (simp add: Let_def box_decrypt_def checked_add_def usize_max_def)
  moreover have "decrypt_frame cr ?d (CURVE_MESSAGE @ be_bytes 8 n @ ct') = Some (Inl ProtocolViolation, ?d)"
    using assms(3) unfolding decrypt_frame_def p by (simp add: Let_def)
  ultimately show ?thesis by blast
qed

theorem forged_counter_blocks_witness:
  "\<exists>d'. decrypt_frame tag_crypto (new_server [5] 1 1) (CURVE_MESSAGE @ be_bytes 8 (2 ^ 64 - 2) @ []) = Some (Inl DecryptionFailed, d') \<and>
    decrypt_frame tag_crypto d' (CURVE_MESSAGE @ be_bytes 8 1 @ [7]) = Some (Inl ProtocolViolation, d')"
  by (rule forged_counter_blocks) (simp_all add: tag_crypto_def tag_open_def new_server_def)

end
