(* ===== verification/Curve_Handshake.thy ===== *)
theory Curve_Handshake
  imports Zmtp_Handshake Curve_Cipher
begin

text \<open>
  The CURVE handshake, \<open>monocoque-zmtp/src/security/curve.rs\<close>: \<open>CurveClient\<close>, \<open>CurveServer\<close>, the
  variant that asks a ZAP handler, and \<open>run_curve_exchange\<close> of \<open>handshake.rs\<close>, which chooses the role.

  The steps are functions on the connection of \<open>Zmtp_Handshake\<close>; \<open>&mut self\<close> is the client or server
  record, returned updated by the steps that change it. What the random number generator delivers
  (the short-term secret, the cookie key and the nonces) is the record \<open>curve_entropy\<close>.

  \<open>hs_does\<close> describes a step by the bytes it reads, the bytes it writes and its value; it composes along
  \<open>hs_bind\<close>, so that both sides of the exchange are put together from the lemmas on the single steps.
\<close>

section \<open>Frames and property lists\<close>

text \<open>Slicing in the middle of a handshake step, and results turned into handshake errors.\<close>

definition hs_slice :: "bytes \<Rightarrow> nat \<Rightarrow> nat \<Rightarrow> bytes hs" where
  "hs_slice bs a b = hs_lift (map_option Inr (slice bs a b))"

definition hs_opt :: "zmtp_error \<Rightarrow> 'a option \<Rightarrow> 'a hs" where
  "hs_opt e x = (case x of None \<Rightarrow> hs_error e | Some y \<Rightarrow> hs_return y)"

definition hs_map_err :: "zmtp_error \<Rightarrow> curve_error + 'a \<Rightarrow> 'a hs" where
  "hs_map_err e x = (case x of Inl _ \<Rightarrow> hs_error e | Inr y \<Rightarrow> hs_return y)"

definition CURVE_HELLO :: bytes where
  "CURVE_HELLO = 5 # blit ''HELLO''"

definition CURVE_WELCOME :: bytes where
  "CURVE_WELCOME = 7 # blit ''WELCOME''"

definition CURVE_INITIATE :: bytes where
  "CURVE_INITIATE = 8 # blit ''INITIATE''"

definition CURVE_READY :: bytes where
  "CURVE_READY = 5 # blit ''READY''"

definition CURVE_READY_NONCE_PREFIX :: bytes where
  "CURVE_READY_NONCE_PREFIX = blit ''READY'' @ replicate 11 0"

definition MAX_INITIATE_BODY :: nat where
  "MAX_INITIATE_BODY = 4096"

definition MAX_CURVE_BODY :: nat where
  "MAX_CURVE_BODY = 512"

definition read_zmtp_cmd :: "duration option \<Rightarrow> nat \<Rightarrow> bytes hs" where
  "read_zmtp_cmd timeout max_body =
     hs_bind (hs_read 1 timeout) (\<lambda>fb.
     let flags = fb ! 0 in
     if flags AND 0x04 = 0 then hs_error Protocol
     else
       hs_bind (if flags AND 0x02 \<noteq> 0 then
                  hs_bind (hs_read 8 timeout) (\<lambda>lb.
                  let raw_len = be_val lb in
                  if usize_max < raw_len then hs_error Protocol else hs_return raw_len)
                else hs_bind (hs_read 1 timeout) (\<lambda>lb. hs_return (unat (lb ! 0)))) (\<lambda>body_len.
       if max_body < body_len then hs_error Protocol else hs_read body_len timeout))"

definition zmtp_cmd_frame :: "bytes \<Rightarrow> bytes" where
  "zmtp_cmd_frame body =
     (if length body \<le> 255 then [0x04, word_of_nat (length body)]
      else 0x06 # be_bytes 8 (length body)) @ body"

definition write_zmtp_cmd :: "bytes \<Rightarrow> duration option \<Rightarrow> unit hs" where
  "write_zmtp_cmd body timeout = hs_write (zmtp_cmd_frame body) timeout"

definition push_prop :: "bytes \<Rightarrow> bytes \<Rightarrow> bytes \<Rightarrow> bytes" where
  "push_prop out key value = out @ [word_of_nat (length key)] @ key @ be_bytes 4 (length value) @ value"

definition encode_zmtp_props :: "str \<Rightarrow> bytes option \<Rightarrow> bytes" where
  "encode_zmtp_props st ident =
     (let out = push_prop [] (blit ''Socket-Type'') (utf8_encode st) in
      case ident of
        Some i \<Rightarrow> if i \<noteq> [] then push_prop out (blit ''Identity'') i else out
      | None \<Rightarrow> out)"

text \<open>\<open>u8::eq_ignore_ascii_case\<close> on byte slices.\<close>

definition byte_lower :: "byte \<Rightarrow> byte" where
  "byte_lower b = (if 65 \<le> b \<and> b \<le> 90 then b + 32 else b)"

definition bytes_eq_ignore_case :: "bytes \<Rightarrow> bytes \<Rightarrow> bool" where
  "bytes_eq_ignore_case a b \<longleftrightarrow> map byte_lower a = map byte_lower b"

type_synonym props_acc = "bytes option \<times> bytes option"

definition props_match :: "bytes \<Rightarrow> bytes \<Rightarrow> props_acc \<Rightarrow> zmtp_error + props_acc" where
  "props_match key value acc =
     (case acc of (st, ident) \<Rightarrow>
      if bytes_eq_ignore_case key (blit ''Socket-Type'') then
        (if st \<noteq> None then Inl Protocol else Inr (Some value, ident))
      else if bytes_eq_ignore_case key (blit ''Identity'') then
        (if ident \<noteq> None then Inl Protocol
         else if 255 < length value then Inl Protocol
         else Inr (st, Some value))
      else Inr (st, ident))"

text \<open>One round of the loop of \<open>decode_zmtp_props\<close>: the key, the value and the rest of the data.\<close>

definition props_item :: "bytes \<Rightarrow> (zmtp_error + bytes \<times> bytes \<times> bytes) option" where
  "props_item data =
     (if length data < 5 then Some (Inl Protocol)
      else do {
        kb \<leftarrow> idx data 0;
        let klen = unat kb in do {
        data1 \<leftarrow> slice data 1 (length data);
        if length data1 < klen + 4 then Some (Inl Protocol)
        else do {
          key \<leftarrow> slice data1 0 klen;
          data2 \<leftarrow> slice data1 klen (length data1);
          b0 \<leftarrow> idx data2 0; b1 \<leftarrow> idx data2 1; b2 \<leftarrow> idx data2 2; b3 \<leftarrow> idx data2 3;
          let vlen = be_val [b0, b1, b2, b3] in do {
          data3 \<leftarrow> slice data2 4 (length data2);
          if length data3 < vlen then Some (Inl Protocol)
          else do {
            val \<leftarrow> slice data3 0 vlen;
            data4 \<leftarrow> slice data3 vlen (length data3);
            Some (Inr (key, val, data4)) }}}}})"


lemma props_item_shorter: "props_item data = Some (Inr (key, val, rest)) \<Longrightarrow> length rest < length data"
  by (auto simp: props_item_def Let_def slice_def split: if_splits bind_splits)

function props_loop :: "bytes \<Rightarrow> props_acc \<Rightarrow> (zmtp_error + props_acc) option" where
  "props_loop data acc =
     (if data = [] then Some (Inr acc)
      else do {
        r \<leftarrow> props_item data;
        case r of
          Inl e \<Rightarrow> Some (Inl e)
        | Inr (key, val, rest) \<Rightarrow>
            (case props_match key val acc of Inl e \<Rightarrow> Some (Inl e) | Inr acc' \<Rightarrow> props_loop rest acc') })"
  by pat_completeness auto
termination
  by (relation "measure (\<lambda>(data, _). length data)") (auto dest!: props_item_shorter)

declare props_loop.simps [simp del]

definition decode_zmtp_props :: "bytes \<Rightarrow> (zmtp_error + props_acc) option" where
  "decode_zmtp_props data = props_loop data (None, None)"

section \<open>Client\<close>

record curve_entropy =
  ce_short_secret :: bytes
  ce_cookie_key :: bytes
  ce_cookie_nonce :: bytes
  ce_welcome_nonce :: bytes
  ce_vouch_nonce :: bytes

record curve_result =
  cr_peer_type :: bytes
  cr_peer_identity :: "bytes option"
  cr_peer_key :: "bytes option"
  cr_cipher :: "message_cipher option"

record curve_client =
  cl_keypair :: curve_keypair
  cl_server_public :: bytes
  cl_short :: curve_keypair
  cl_server_short :: "bytes option"
  cl_cookie :: "bytes option"
  cl_socket_type :: str
  cl_identity :: "bytes option"
  cl_peer_type :: "bytes option"
  cl_peer_identity :: "bytes option"
  cl_send_nonce :: nat
  cl_recv_nonce :: nat
  cl_message_box :: "bytes option"

definition curve_client_new ::
  "curve_crypto \<Rightarrow> curve_entropy \<Rightarrow> curve_keypair \<Rightarrow> bytes \<Rightarrow> str \<Rightarrow> bytes option \<Rightarrow> curve_client" where
  "curve_client_new cr ent kp server_public st ident =
     \<lparr>cl_keypair = kp, cl_server_public = server_public,
      cl_short = keypair_generate cr (ce_short_secret ent), cl_server_short = None, cl_cookie = None,
      cl_socket_type = st, cl_identity = ident, cl_peer_type = None, cl_peer_identity = None,
      cl_send_nonce = 1, cl_recv_nonce = 1, cl_message_box = None\<rparr>"

definition send_hello :: "curve_crypto \<Rightarrow> curve_client \<Rightarrow> duration option \<Rightarrow> unit hs" where
  "send_hello cr cl timeout =
     (let nonce_counter = 1; nonce = blit ''CurveZMQHELLO---'' @ be_bytes 8 nonce_counter in
      hs_bind (hs_map_err Protocol
        (salsa_encrypt cr (cl_server_public cl) (kp_secret (cl_short cl)) nonce (replicate 64 0))) (\<lambda>hello_box.
      write_zmtp_cmd
        (CURVE_HELLO @ [1] @ replicate 71 0 @ kp_public (cl_short cl) @ be_bytes 8 nonce_counter @ hello_box)
        timeout))"

definition recv_welcome :: "curve_crypto \<Rightarrow> curve_client \<Rightarrow> duration option \<Rightarrow> curve_client hs" where
  "recv_welcome cr cl timeout =
     hs_bind (read_zmtp_cmd timeout MAX_CURVE_BODY) (\<lambda>body.
     if length body \<noteq> 168 then hs_error Protocol else
     hs_bind (hs_slice body 0 8) (\<lambda>name.
     if name \<noteq> CURVE_WELCOME then hs_error Protocol else
     hs_bind (hs_slice body 8 24) (\<lambda>server_nonce.
     hs_bind (hs_slice body 24 168) (\<lambda>welcome_box.
     hs_bind (hs_map_err Protocol
       (salsa_decrypt cr (cl_server_public cl) (kp_secret (cl_short cl)) (blit ''WELCOME-'' @ server_nonce) welcome_box)) (\<lambda>pt.
     if length pt \<noteq> 128 then hs_error Protocol else
     hs_bind (hs_slice pt 0 32) (\<lambda>s_prime.
     hs_bind (hs_slice pt 32 128) (\<lambda>cookie.
     hs_return (cl\<lparr>cl_server_short := Some s_prime, cl_cookie := Some cookie\<rparr>))))))))"

definition send_initiate :: "curve_crypto \<Rightarrow> curve_entropy \<Rightarrow> curve_client \<Rightarrow> duration option \<Rightarrow> unit hs" where
  "send_initiate cr ent cl timeout =
     hs_bind (hs_opt Protocol (cl_server_short cl)) (\<lambda>server_short.
     hs_bind (hs_opt Protocol (cl_cookie cl)) (\<lambda>cookie.
     let vouch_nonce = ce_vouch_nonce ent; vouch_pt = kp_public (cl_short cl) @ server_short in
     hs_bind (hs_map_err Protocol
       (salsa_encrypt cr (cl_server_public cl) (kp_secret (cl_keypair cl)) (blit ''VOUCH---'' @ vouch_nonce) vouch_pt)) (\<lambda>vouch_ct.
     let initiate_pt = (vouch_nonce @ vouch_ct) @ encode_zmtp_props (cl_socket_type cl) (cl_identity cl);
         initiate_counter = 1;
         initiate_nonce = blit ''CurveZMQINITIATE'' @ be_bytes 8 initiate_counter in
     hs_bind (hs_map_err Protocol
       (salsa_encrypt cr server_short (kp_secret (cl_short cl)) initiate_nonce initiate_pt)) (\<lambda>initiate_box.
     write_zmtp_cmd
       (CURVE_INITIATE @ cookie @ kp_public (cl_keypair cl) @ be_bytes 8 initiate_counter @ initiate_box)
       timeout))))"

definition client_recv_ready :: "curve_crypto \<Rightarrow> curve_client \<Rightarrow> duration option \<Rightarrow> curve_client hs" where
  "client_recv_ready cr cl timeout =
     hs_bind (read_zmtp_cmd timeout MAX_CURVE_BODY) (\<lambda>body.
     if length body < 30 then hs_error Protocol else
     hs_bind (hs_slice body 0 6) (\<lambda>name.
     if name \<noteq> CURVE_READY then hs_error Protocol else
     hs_bind (hs_slice body 6 14) (\<lambda>nonce_8.
     hs_bind (hs_slice body 14 (length body)) (\<lambda>ready_box.
     hs_bind (hs_opt Protocol (cl_server_short cl)) (\<lambda>s_prime.
     hs_bind (hs_map_err Protocol
       (salsa_decrypt cr s_prime (kp_secret (cl_short cl)) (CURVE_READY_NONCE_PREFIX @ nonce_8) ready_box)) (\<lambda>metadata.
     hs_bind (hs_lift (decode_zmtp_props metadata)) (\<lambda>(peer_st, peer_id).
     if peer_st = None then hs_error Protocol else
     let cl1 = cl\<lparr>cl_peer_type := peer_st, cl_peer_identity := peer_id\<rparr> in
     hs_bind (hs_map_err Protocol (diffie_hellman cr (kp_secret (cl_short cl)) (cl_server_public cl))) (\<lambda>dh1.
     hs_bind (hs_map_err Protocol (diffie_hellman cr (kp_secret (cl_keypair cl)) s_prime)) (\<lambda>dh2.
     hs_bind (hs_map_err Protocol (diffie_hellman cr (kp_secret (cl_short cl)) s_prime)) (\<lambda>dh3.
     hs_return (cl1\<lparr>cl_message_box := Some (derive_message_key cr dh1 dh2 dh3)\<rparr>)))))))))))"

definition curve_client_handshake ::
  "curve_crypto \<Rightarrow> curve_entropy \<Rightarrow> curve_client \<Rightarrow> duration option \<Rightarrow> (curve_result \<times> curve_client) hs" where
  "curve_client_handshake cr ent cl timeout =
     hs_bind (send_hello cr cl timeout) (\<lambda>_.
     hs_bind (recv_welcome cr cl timeout) (\<lambda>cl.
     hs_bind (send_initiate cr ent cl timeout) (\<lambda>_.
     hs_bind (client_recv_ready cr cl timeout) (\<lambda>cl.
     hs_bind (hs_opt Protocol (cl_message_box cl)) (\<lambda>message_box.
     let cl1 = cl\<lparr>cl_message_box := None\<rparr>; cipher = new_client message_box (cl_send_nonce cl) (cl_recv_nonce cl) in
     hs_bind (hs_opt Protocol (cl_peer_type cl1)) (\<lambda>pt.
     hs_return (\<lparr>cr_peer_type = pt, cr_peer_identity = cl_peer_identity cl1, cr_peer_key = None,
       cr_cipher = Some cipher\<rparr>, cl1)))))))"

definition client_encrypt_message :: "curve_crypto \<Rightarrow> curve_client \<Rightarrow> bytes \<Rightarrow> (curve_error + bytes) \<times> curve_client" where
  "client_encrypt_message cr cl pt =
     (case cl_message_box cl of
        None \<Rightarrow> (Inl ProtocolViolation, cl)
      | Some key \<Rightarrow>
          (let suffix = be_bytes 8 (cl_send_nonce cl); nonce = nonce_prefix True @ suffix in
           case checked_add (cl_send_nonce cl) 1 of
             None \<Rightarrow> (Inl ProtocolViolation, cl)
           | Some next \<Rightarrow>
               (let cl1 = cl\<lparr>cl_send_nonce := next\<rparr> in
                case box_encrypt cr key pt nonce of
                  Inl e \<Rightarrow> (Inl e, cl1)
                | Inr ct \<Rightarrow> (Inr (CURVE_MESSAGE @ suffix @ ct), cl1))))"

definition client_decrypt_message ::
  "curve_crypto \<Rightarrow> curve_client \<Rightarrow> bytes \<Rightarrow> ((curve_error + bytes) \<times> curve_client) option" where
  "client_decrypt_message cr cl message = do {
     parts \<leftarrow> parse_curve_message message;
     case parts of
       Inl e \<Rightarrow> Some (Inl e, cl)
     | Inr (short_nonce, ciphertext) \<Rightarrow>
         (case cl_message_box cl of
            None \<Rightarrow> Some (Inl ProtocolViolation, cl)
          | Some key \<Rightarrow>
              if length short_nonce \<noteq> 8 then Some (Inl InvalidNonce, cl)
              else (let counter = be_val short_nonce in
                if counter < cl_recv_nonce cl then Some (Inl ProtocolViolation, cl)
                else (case checked_add counter 1 of
                  None \<Rightarrow> Some (Inl ProtocolViolation, cl)
                | Some next \<Rightarrow>
                    (let cl1 = cl\<lparr>cl_recv_nonce := next\<rparr> in
                     Some (box_decrypt cr key ciphertext (nonce_prefix False @ short_nonce), cl1))))) }"

section \<open>Server\<close>

record curve_server =
  sv_keypair :: curve_keypair
  sv_short :: curve_keypair
  sv_client_short :: "bytes option"
  sv_client_public :: "bytes option"
  sv_cookie_key :: bytes
  sv_socket_type :: str
  sv_peer_type :: "bytes option"
  sv_peer_identity :: "bytes option"
  sv_send_nonce :: nat
  sv_recv_nonce :: nat
  sv_message_box :: "bytes option"

definition curve_server_new :: "curve_crypto \<Rightarrow> curve_entropy \<Rightarrow> curve_keypair \<Rightarrow> str \<Rightarrow> curve_server" where
  "curve_server_new cr ent kp st =
     \<lparr>sv_keypair = kp, sv_short = keypair_generate cr (ce_short_secret ent), sv_client_short = None,
      sv_client_public = None, sv_cookie_key = ce_cookie_key ent, sv_socket_type = st,
      sv_peer_type = None, sv_peer_identity = None, sv_send_nonce = 1, sv_recv_nonce = 1,
      sv_message_box = None\<rparr>"

definition recv_hello :: "curve_crypto \<Rightarrow> curve_server \<Rightarrow> duration option \<Rightarrow> curve_server hs" where
  "recv_hello cr sv timeout =
     hs_bind (read_zmtp_cmd timeout MAX_CURVE_BODY) (\<lambda>body.
     if length body \<noteq> 198 then hs_error Protocol else
     hs_bind (hs_slice body 0 6) (\<lambda>name.
     if name \<noteq> CURVE_HELLO then hs_error Protocol else
     hs_bind (hs_lift (map_option Inr (idx body 6))) (\<lambda>version.
     if version \<noteq> 1 then hs_error Protocol else
     hs_bind (hs_slice body 78 110) (\<lambda>c_prime.
     hs_bind (hs_slice body 110 118) (\<lambda>nonce_suffix.
     hs_bind (hs_slice body 118 198) (\<lambda>hello_box.
     if be_val nonce_suffix = 0 then hs_error Protocol else
     let sv1 = sv\<lparr>sv_client_short := Some c_prime\<rparr> in
     hs_bind (hs_map_err AuthenticationFailed
       (salsa_decrypt cr c_prime (kp_secret (sv_keypair sv)) (blit ''CurveZMQHELLO---'' @ nonce_suffix) hello_box)) (\<lambda>pt.
     if length pt \<noteq> 64 \<or> list_ex (\<lambda>b. b \<noteq> 0) pt then hs_error AuthenticationFailed
     else hs_return sv1)))))))"

definition send_welcome :: "curve_crypto \<Rightarrow> curve_entropy \<Rightarrow> curve_server \<Rightarrow> duration option \<Rightarrow> unit hs" where
  "send_welcome cr ent sv timeout =
     hs_bind (hs_opt Protocol (sv_client_short sv)) (\<lambda>c_prime.
     let cookie_nonce = ce_cookie_nonce ent; cookie_pt = c_prime @ kp_secret (sv_short sv) in
     hs_bind (hs_opt Protocol (xchacha_seal cr (sv_cookie_key sv) (blit ''COOKIE--'' @ cookie_nonce) cookie_pt)) (\<lambda>cookie_ct.
     let cookie = cookie_nonce @ cookie_ct; server_nonce = ce_welcome_nonce ent;
         welcome_pt = kp_public (sv_short sv) @ cookie in
     hs_bind (hs_map_err Protocol
       (salsa_encrypt cr c_prime (kp_secret (sv_keypair sv)) (blit ''WELCOME-'' @ server_nonce) welcome_pt)) (\<lambda>welcome_box.
     write_zmtp_cmd (CURVE_WELCOME @ server_nonce @ welcome_box) timeout)))"

definition recv_initiate :: "curve_crypto \<Rightarrow> curve_server \<Rightarrow> duration option \<Rightarrow> curve_server hs" where
  "recv_initiate cr sv timeout =
     hs_bind (read_zmtp_cmd timeout MAX_INITIATE_BODY) (\<lambda>body.
     if length body < 145 then hs_error Protocol else
     hs_bind (hs_slice body 0 9) (\<lambda>name.
     if name \<noteq> CURVE_INITIATE then hs_error Protocol else
     hs_bind (hs_slice body 9 105) (\<lambda>cookie.
     hs_bind (hs_slice body 105 137) (\<lambda>c_pk.
     hs_bind (hs_slice body 137 145) (\<lambda>nonce_suffix.
     hs_bind (hs_slice body 145 (length body)) (\<lambda>initiate_box.
     hs_bind (hs_slice cookie 0 16) (\<lambda>cookie_nonce.
     hs_bind (hs_slice cookie 16 (length cookie)) (\<lambda>cookie_ct.
     hs_bind (hs_opt AuthenticationFailed
       (xchacha_open cr (sv_cookie_key sv) (blit ''COOKIE--'' @ cookie_nonce) cookie_ct)) (\<lambda>cookie_pt.
     if length cookie_pt \<noteq> 64 then hs_error Protocol else
     hs_bind (hs_slice cookie_pt 0 32) (\<lambda>rec_c_prime.
     hs_bind (hs_slice cookie_pt 32 64) (\<lambda>rec_s_prime_sk.
     hs_bind (hs_opt Protocol (sv_client_short sv)) (\<lambda>c_prime.
     if rec_c_prime \<noteq> c_prime then hs_error AuthenticationFailed else
     hs_bind (hs_map_err AuthenticationFailed
       (salsa_decrypt cr rec_c_prime rec_s_prime_sk (blit ''CurveZMQINITIATE'' @ nonce_suffix) initiate_box)) (\<lambda>initiate_pt.
     if length initiate_pt < 96 then hs_error Protocol else
     hs_bind (hs_slice initiate_pt 0 16) (\<lambda>vouch_nonce.
     hs_bind (hs_slice initiate_pt 16 96) (\<lambda>vouch_ct.
     hs_bind (hs_map_err AuthenticationFailed
       (salsa_decrypt cr c_pk (kp_secret (sv_keypair sv)) (blit ''VOUCH---'' @ vouch_nonce) vouch_ct)) (\<lambda>vouch_pt.
     if length vouch_pt \<noteq> 64 then hs_error AuthenticationFailed else
     hs_bind (hs_slice vouch_pt 0 32) (\<lambda>vouched_c.
     if vouched_c \<noteq> c_prime then hs_error AuthenticationFailed else
     hs_bind (hs_slice vouch_pt 32 64) (\<lambda>vouched_s.
     if vouched_s \<noteq> kp_public (sv_short sv) then hs_error AuthenticationFailed else
     hs_bind (hs_slice initiate_pt 96 (length initiate_pt)) (\<lambda>metadata.
     hs_bind (hs_lift (decode_zmtp_props metadata)) (\<lambda>(peer_st, peer_id).
     if peer_st = None then hs_error Protocol
     else hs_return (sv\<lparr>sv_peer_type := peer_st, sv_peer_identity := peer_id, sv_client_public := Some c_pk\<rparr>)))))))))))))))))))))"

definition send_ready :: "curve_crypto \<Rightarrow> curve_server \<Rightarrow> duration option \<Rightarrow> curve_server hs" where
  "send_ready cr sv timeout =
     hs_bind (hs_opt Protocol (sv_client_short sv)) (\<lambda>c_prime.
     hs_bind (hs_opt Protocol (sv_client_public sv)) (\<lambda>c.
     hs_bind (hs_map_err Protocol (diffie_hellman cr (kp_secret (sv_keypair sv)) c_prime)) (\<lambda>dh1.
     hs_bind (hs_map_err Protocol (diffie_hellman cr (kp_secret (sv_short sv)) c)) (\<lambda>dh2.
     hs_bind (hs_map_err Protocol (diffie_hellman cr (kp_secret (sv_short sv)) c_prime)) (\<lambda>dh3.
     let sv1 = sv\<lparr>sv_message_box := Some (derive_message_key cr dh1 dh2 dh3)\<rparr>;
         ready_counter = 1;
         server_meta = encode_zmtp_props (sv_socket_type sv) None in
     hs_bind (hs_map_err Protocol
       (salsa_encrypt cr c_prime (kp_secret (sv_short sv)) (CURVE_READY_NONCE_PREFIX @ be_bytes 8 ready_counter) server_meta)) (\<lambda>ready_box.
     hs_bind (write_zmtp_cmd (CURVE_READY @ be_bytes 8 ready_counter @ ready_box) timeout) (\<lambda>_.
     hs_return sv1)))))))"

definition curve_server_handshake ::
  "curve_crypto \<Rightarrow> curve_entropy \<Rightarrow> curve_server \<Rightarrow> duration option \<Rightarrow> (curve_result \<times> curve_server) hs" where
  "curve_server_handshake cr ent sv timeout =
     hs_bind (recv_hello cr sv timeout) (\<lambda>sv.
     hs_bind (send_welcome cr ent sv timeout) (\<lambda>_.
     hs_bind (recv_initiate cr sv timeout) (\<lambda>sv.
     hs_bind (send_ready cr sv timeout) (\<lambda>sv.
     hs_bind (hs_opt Protocol (sv_message_box sv)) (\<lambda>message_box.
     let sv1 = sv\<lparr>sv_message_box := None\<rparr>; cipher = new_server message_box (sv_send_nonce sv) (sv_recv_nonce sv) in
     hs_bind (hs_opt Protocol (sv_peer_type sv1)) (\<lambda>pt.
     hs_return (\<lparr>cr_peer_type = pt, cr_peer_identity = sv_peer_identity sv1, cr_peer_key = sv_client_public sv1,
       cr_cipher = Some cipher\<rparr>, sv1)))))))"

definition server_encrypt_message :: "curve_crypto \<Rightarrow> curve_server \<Rightarrow> bytes \<Rightarrow> (curve_error + bytes) \<times> curve_server" where
  "server_encrypt_message cr sv pt =
     (case sv_message_box sv of
        None \<Rightarrow> (Inl ProtocolViolation, sv)
      | Some key \<Rightarrow>
          (let suffix = be_bytes 8 (sv_send_nonce sv); nonce = nonce_prefix False @ suffix in
           case checked_add (sv_send_nonce sv) 1 of
             None \<Rightarrow> (Inl ProtocolViolation, sv)
           | Some next \<Rightarrow>
               (let sv1 = sv\<lparr>sv_send_nonce := next\<rparr> in
                case box_encrypt cr key pt nonce of
                  Inl e \<Rightarrow> (Inl e, sv1)
                | Inr ct \<Rightarrow> (Inr (CURVE_MESSAGE @ suffix @ ct), sv1))))"

definition server_decrypt_message ::
  "curve_crypto \<Rightarrow> curve_server \<Rightarrow> bytes \<Rightarrow> ((curve_error + bytes) \<times> curve_server) option" where
  "server_decrypt_message cr sv message = do {
     parts \<leftarrow> parse_curve_message message;
     case parts of
       Inl e \<Rightarrow> Some (Inl e, sv)
     | Inr (short_nonce, ciphertext) \<Rightarrow>
         (case sv_message_box sv of
            None \<Rightarrow> Some (Inl ProtocolViolation, sv)
          | Some key \<Rightarrow>
              if length short_nonce \<noteq> 8 then Some (Inl InvalidNonce, sv)
              else (let counter = be_val short_nonce in
                if counter < sv_recv_nonce sv then Some (Inl ProtocolViolation, sv)
                else (case checked_add counter 1 of
                  None \<Rightarrow> Some (Inl ProtocolViolation, sv)
                | Some next \<Rightarrow>
                    (let sv1 = sv\<lparr>sv_recv_nonce := next\<rparr> in
                     Some (box_decrypt cr key ciphertext (nonce_prefix True @ short_nonce), sv1))))) }"

section \<open>ZAP and the choice of the role\<close>

definition create_curve_zap_request :: "str \<Rightarrow> str \<Rightarrow> str \<Rightarrow> bytes \<Rightarrow> bytes \<Rightarrow> zap_request" where
  "create_curve_zap_request rid domain address ident client_key =
     zap_request_new rid domain address ident ZapCurve [client_key]"

definition zap_curve_decision :: "zap_environment \<Rightarrow> bytes \<Rightarrow> str \<Rightarrow> str \<Rightarrow> io_error_kind + zap_response" where
  "zap_curve_decision zap client_key domain address =
     (case zap of
        None \<Rightarrow> Inl NotFound
      | Some (rid, io) \<Rightarrow>
          authenticate_curve rid client_key domain address
            (io (zap_request_encode (zap_request_new rid domain address [] ZapCurve [client_key]))))"

text \<open>The ERROR command; the outcome of the write is ignored.\<close>

definition send_zmtp_error :: "str \<Rightarrow> unit hs" where
  "send_zmtp_error reason =
     (let reason_bytes = utf8_encode reason; reason_len = min (length reason_bytes) 248 in
      hs_bind (hs_slice reason_bytes 0 reason_len) (\<lambda>cut.
      let body = 5 # blit ''ERROR'' @ [word_of_nat reason_len] @ cut in
      (\<lambda>st. (HOk (), snd (hs_write ([0x04, word_of_nat (length body)] @ body) None st)))))"

definition curve_server_handshake_zap ::
  "curve_crypto \<Rightarrow> curve_entropy \<Rightarrow> zap_environment \<Rightarrow> curve_keypair \<Rightarrow> str \<Rightarrow> duration option \<Rightarrow> str \<Rightarrow> str \<Rightarrow>
   curve_result hs" where
  "curve_server_handshake_zap cr ent zap kp domain timeout peer_addr st =
     hs_bind (curve_server_handshake cr ent (curve_server_new cr ent kp st) timeout) (\<lambda>(result, _).
     hs_bind (hs_opt Protocol (cr_peer_key result)) (\<lambda>client_key.
     case zap_curve_decision zap client_key domain peer_addr of
       Inl _ \<Rightarrow> hs_error AuthenticationFailed
     | Inr r \<Rightarrow>
         if rs_status_code r = ZapSuccess then hs_return result
         else hs_bind (send_zmtp_error (rs_status_text r)) (\<lambda>_. hs_error AuthenticationFailed)))"

definition run_curve_exchange ::
  "curve_crypto \<Rightarrow> curve_entropy \<Rightarrow> zap_environment \<Rightarrow> socket_options \<Rightarrow> duration option \<Rightarrow> socket_type \<Rightarrow>
   bytes option \<Rightarrow> curve_result hs" where
  "run_curve_exchange cr ent zap opts timeout st ident =
     (if opt_curve_server opts then
        hs_bind (hs_opt Protocol (opt_curve_secretkey opts)) (\<lambda>secret.
        let kp = keypair_from_keys (public_key cr secret) secret in
        if opt_zap_domain opts = [] then
          hs_bind (curve_server_handshake cr ent (curve_server_new cr ent kp (socket_type_as_str st)) timeout)
            (\<lambda>(result, _). hs_return result)
        else curve_server_handshake_zap cr ent zap kp (opt_zap_domain opts) timeout (lit ''unknown'') (socket_type_as_str st))
      else
        case (opt_curve_secretkey opts, opt_curve_serverkey opts) of
          (Some secret, Some server_key) \<Rightarrow>
            hs_bind (curve_client_handshake cr ent
              (curve_client_new cr ent (keypair_from_keys (public_key cr secret) secret) server_key
                (socket_type_as_str st) ident) timeout)
              (\<lambda>(result, _). hs_return result)
        | _ \<Rightarrow> hs_error Protocol)"

text \<open>The whole handshake, with the CURVE exchange in its place.\<close>

definition perform_handshake_with_options ::
  "curve_crypto \<Rightarrow> curve_entropy \<Rightarrow> zap_environment \<Rightarrow> socket_type \<Rightarrow> bytes option \<Rightarrow> duration option \<Rightarrow>
   socket_options \<Rightarrow> message_cipher handshake_result hs" where
  "perform_handshake_with_options cr ent zap st ident timeout opts =
     perform_handshake
       (hs_bind (run_curve_exchange cr ent zap opts timeout st ident)
         (\<lambda>r. hs_return (cr_peer_type r, cr_peer_identity r, cr_cipher r)))
       zap st ident timeout opts"

section \<open>No panics\<close>

text \<open>Branches keep their conditions, because the slices depend on the length checks.\<close>

lemma no_panic_branch: "(c \<Longrightarrow> no_panic m) \<Longrightarrow> (\<not> c \<Longrightarrow> no_panic m') \<Longrightarrow> no_panic (if c then m else m')"
  by simp

lemma no_panic_opt: "no_panic (hs_opt e x)"
  by (auto simp: hs_opt_def intro: panic_free split: option.splits)

lemma no_panic_map_err: "no_panic (hs_map_err e x)"
  by (auto simp: hs_map_err_def intro: panic_free split: sum.splits)

text \<open>A slice within bounds yields its bytes, and the continuation may use its length.\<close>

lemma no_panic_slice_bind:
  assumes "a \<le> b" "b \<le> length bs" "\<And>x. length x = b - a \<Longrightarrow> no_panic (f x)"
  shows "no_panic (hs_bind (hs_slice bs a b) f)"
  using assms by (auto simp: no_panic_def hs_bind_def hs_slice_def hs_lift_def)

lemma no_panic_idx_bind:
  assumes "i < length bs" "\<And>x. no_panic (f x)"
  shows "no_panic (hs_bind (hs_lift (map_option Inr (idx bs i))) f)"
  using assms by (auto simp: no_panic_def hs_bind_def hs_lift_def)

lemma props_item_total: "props_item data \<noteq> None"
  by (auto simp: props_item_def Let_def slice_def idx_def split: if_splits)

lemma props_loop_total: "props_loop data acc \<noteq> None"
proof (induction data acc rule: props_loop.induct)
  case (1 data acc)
  then show ?case
    using props_item_total [of data]
    by (subst props_loop.simps) (auto split: sum.splits)
qed

lemma no_panic_props: "no_panic (hs_lift (decode_zmtp_props data))"
  using props_loop_total by (intro panic_free) (simp add: decode_zmtp_props_def)

lemmas curve_panic_free = no_panic_basic no_panic_opt no_panic_map_err no_panic_slice_bind no_panic_idx_bind
  no_panic_props no_panic_branch no_panic_prod

lemma no_panic_cmd: "no_panic (read_zmtp_cmd timeout n)" "no_panic (write_zmtp_cmd body timeout)"
  unfolding read_zmtp_cmd_def write_zmtp_cmd_def Let_def by (intro panic_free)+

lemma no_panic_client_steps:
  "no_panic (send_hello cr cl timeout)" "no_panic (recv_welcome cr cl timeout)"
  "no_panic (send_initiate cr ent cl timeout)" "no_panic (client_recv_ready cr cl timeout)"
  unfolding send_hello_def recv_welcome_def send_initiate_def client_recv_ready_def Let_def
  by (intro curve_panic_free no_panic_cmd no_panic_bind; simp)+

lemma no_panic_server_steps:
  "no_panic (recv_hello cr sv timeout)" "no_panic (send_welcome cr ent sv timeout)"
  "no_panic (recv_initiate cr sv timeout)" "no_panic (send_ready cr sv timeout)"
  unfolding recv_hello_def send_welcome_def recv_initiate_def send_ready_def Let_def
  by (intro curve_panic_free no_panic_cmd no_panic_bind; simp)+

lemma no_panic_curve:
  "no_panic (curve_client_handshake cr ent cl timeout)" "no_panic (curve_server_handshake cr ent sv timeout)"
  unfolding curve_client_handshake_def curve_server_handshake_def Let_def
  by (intro no_panic_client_steps no_panic_server_steps no_panic_opt no_panic_bind no_panic_basic)+

lemma no_panic_error_cmd: "no_panic (send_zmtp_error reason)"
  unfolding send_zmtp_error_def Let_def
  by (intro no_panic_slice_bind) (simp_all add: no_panic_def)

lemma no_panic_curve_zap: "no_panic (curve_server_handshake_zap cr ent zap kp domain timeout addr st)"
  unfolding curve_server_handshake_zap_def
  by (intro no_panic_curve no_panic_error_cmd no_panic_opt panic_free)

lemma no_panic_run_curve: "no_panic (run_curve_exchange cr ent zap opts timeout st ident)"
  unfolding run_curve_exchange_def Let_def
  by (intro no_panic_curve no_panic_curve_zap no_panic_opt panic_free)

section \<open>What a step reads, writes and returns\<close>

definition hs_does :: "'a hs \<Rightarrow> bytes \<Rightarrow> bytes \<Rightarrow> 'a \<Rightarrow> bool" where
  "hs_does m inp out x \<longleftrightarrow>
     (\<forall>st rest. hs_all st = inp @ rest \<and> length out \<le> hs_quota st \<longrightarrow>
        (\<exists>st'. m st = (HOk x, st') \<and> hs_all st' = rest \<and> hs_out st' = hs_out st @ out \<and>
           hs_quota st' = hs_quota st - length out))"

lemma hs_does_return: "hs_does (hs_return x) [] [] x"
  by (simp add: hs_does_def)

lemma hs_does_Pair [simp]: "hs_does (Pair (HOk x)) [] [] x"
  by (simp add: hs_does_def)

lemma hs_does_bind:
  assumes "hs_does m i1 o1 x" "hs_does (f x) i2 o2 y"
  shows "hs_does (hs_bind m f) (i1 @ i2) (o1 @ o2) y"
  unfolding hs_does_def
proof (intro allI impI)
  fix st rest assume st: "hs_all st = (i1 @ i2) @ rest \<and> length (o1 @ o2) \<le> hs_quota st"
  then obtain st1 where s1: "m st = (HOk x, st1)" "hs_all st1 = i2 @ rest" "hs_out st1 = hs_out st @ o1" "hs_quota st1 = hs_quota st - length o1"
    using assms(1) unfolding hs_does_def by fastforce
  then obtain st2 where s2: "f x st1 = (HOk y, st2)" "hs_all st2 = rest" "hs_out st2 = hs_out st1 @ o2" "hs_quota st2 = hs_quota st1 - length o2"
    using assms(2) st unfolding hs_does_def by fastforce
  with s1 show "\<exists>st'. hs_bind m f st = (HOk y, st') \<and> hs_all st' = rest \<and> hs_out st' = hs_out st @ o1 @ o2 \<and>
      hs_quota st' = hs_quota st - length (o1 @ o2)"
    by (intro exI [of _ st2]) simp
qed

text \<open>The common shapes: a silent first step, and a last one.\<close>

lemma hs_does_silent: "hs_does m [] [] x \<Longrightarrow> hs_does (f x) i out y \<Longrightarrow> hs_does (hs_bind m f) i out y"
  using hs_does_bind [of m "[]" "[]" x f i out y] by simp

lemma hs_does_read: "timeout \<noteq> Some 0 \<Longrightarrow> length bs = n \<Longrightarrow> hs_does (hs_read n timeout) bs [] bs"
  unfolding hs_does_def by (metis append_Nil2 diff_zero hs_read_ok list.size(3))

lemma hs_does_write: "timeout \<noteq> Some 0 \<Longrightarrow> hs_does (hs_write bs timeout) [] bs ()"
  by (simp add: hs_does_def hs_write_ok)

lemma hs_does_opt: "x = Some y \<Longrightarrow> hs_does (hs_opt e x) [] [] y"
  by (simp add: hs_opt_def hs_does_return)

lemma hs_does_map_err: "x = Inr y \<Longrightarrow> hs_does (hs_map_err e x) [] [] y"
  by (simp add: hs_map_err_def hs_does_return)

lemma hs_does_lift: "r = Some (Inr x) \<Longrightarrow> hs_does (hs_lift r) [] [] x"
  by (simp add: hs_does_def)

lemma hs_does_slice: "slice bs a b = Some x \<Longrightarrow> hs_does (hs_slice bs a b) [] [] x"
  by (simp add: hs_slice_def hs_does_lift)

lemma hs_does_else: "\<not> c \<Longrightarrow> hs_does m i out x \<Longrightarrow> hs_does (if c then m' else m) i out x"
  by simp

lemma hs_does_write_cmd: "timeout \<noteq> Some 0 \<Longrightarrow> hs_does (write_zmtp_cmd body timeout) [] (zmtp_cmd_frame body) ()"
  by (simp add: write_zmtp_cmd_def hs_does_write)

text \<open>A command frame written by one side is read back by the other.\<close>

lemma hs_does_read_cmd:
  assumes t: "timeout \<noteq> Some 0" and "length body \<le> max_body" "length body \<le> usize_max"
  shows "hs_does (read_zmtp_cmd timeout max_body) (zmtp_cmd_frame body) [] body"
proof (cases "length body \<le> 255")
  case True
  have "hs_does (read_zmtp_cmd timeout max_body) ([4] @ ([word_of_nat (length body)] @ []) @ body) ([] @ ([] @ []) @ []) body"
    unfolding read_zmtp_cmd_def Let_def
    using assms True by (intro hs_does_bind hs_does_read hs_does_else)
      (auto intro!: hs_does_bind hs_does_read hs_does_return simp del: append_Nil2)
  with True show ?thesis by (simp add: zmtp_cmd_frame_def)
next
  case False
  have v: "be_val (be_bytes 8 (length body)) = length body" using assms(3) by (simp add: usize_max_def)
  let ?len = "hs_bind (hs_read 8 timeout) (\<lambda>lb. if usize_max < be_val lb then hs_error Protocol else hs_return (be_val lb))"
  have "hs_does ?len (be_bytes 8 (length body) @ []) ([] @ []) (length body)"
    using assms(3) v by (intro hs_does_bind [OF hs_does_read [OF t]]) (simp_all add: hs_does_return)
  then have len: "hs_does ?len (be_bytes 8 (length body)) [] (length body)" by simp
  have "hs_does (hs_bind ?len (\<lambda>n. if max_body < n then hs_error Protocol else hs_read n timeout))
      (be_bytes 8 (length body) @ body) ([] @ []) body"
    using assms by (intro hs_does_bind [OF len]) (simp add: hs_does_read)
  then have "hs_does (read_zmtp_cmd timeout max_body) ([6] @ be_bytes 8 (length body) @ body) ([] @ []) body"
    unfolding read_zmtp_cmd_def Let_def by (intro hs_does_bind [OF hs_does_read [OF t]]) simp_all
  with False show ?thesis by (simp add: zmtp_cmd_frame_def)
qed

section \<open>Property lists round trip\<close>

lemma slice_suffix: "a \<le> length xs \<Longrightarrow> slice xs a (length xs) = Some (drop a xs)"
  by (simp add: slice_def)

lemma slice_prefix: "b \<le> length xs \<Longrightarrow> slice xs 0 b = Some (take b xs)"
  by (simp add: slice_def)

lemma props_item_enc:
  assumes "ok_property (k, v)"
  shows "props_item (enc_property (k, v) @ rest) = Some (Inr (k, v, rest))"
proof -
  obtain c0 c1 c2 c3 where c: "be_bytes 4 (length v) = [c0, c1, c2, c3]"
    using length_be_bytes [of 4 "length v"] by (auto simp: length_Suc_conv numeral_eq_Suc simp del: be_bytes.simps length_be_bytes)
  have v: "be_val [c0, c1, c2, c3] = length v" using assms by (simp flip: c add: ok_property_def)
  have e: "enc_property (k, v) @ rest = word_of_nat (length k) # k @ [c0, c1, c2, c3] @ v @ rest"
    by (simp add: enc_property_def c)
  have k: "length k mod 256 = length k" using assms by (simp add: ok_property_def)
  show ?thesis
    unfolding e props_item_def Let_def by (simp add: slice_suffix slice_prefix k v)
qed

lemma props_loop_enc:
  assumes "ok_property (k, v)"
  shows "props_loop (enc_property (k, v) @ rest) acc =
    (case props_match k v acc of Inl e \<Rightarrow> Some (Inl e) | Inr acc' \<Rightarrow> props_loop rest acc')"
proof -
  have "enc_property (k, v) @ rest \<noteq> []" by (simp add: enc_property_def)
  then show ?thesis
    by (subst props_loop.simps, subst if_not_P) (simp_all add: props_item_enc [OF assms])
qed

lemma props_loop_Nil: "props_loop [] acc = Some (Inr acc)"
  by (subst props_loop.simps) simp

text \<open>An empty identity is not sent.\<close>

definition nonempty_identity :: "bytes option \<Rightarrow> bytes option" where
  "nonempty_identity ident = (if ident = Some [] then None else ident)"

lemma encode_zmtp_props_eq:
  "encode_zmtp_props st ident = enc_property (blit ''Socket-Type'', utf8_encode st) @
     (case nonempty_identity ident of None \<Rightarrow> [] | Some i \<Rightarrow> enc_property (blit ''Identity'', i) @ [])"
  by (auto simp: encode_zmtp_props_def push_prop_def enc_property_def nonempty_identity_def split: option.splits)

lemma bytes_eq_ignore_case_props:
  "bytes_eq_ignore_case (blit ''Socket-Type'') (blit ''Socket-Type'')"
  "bytes_eq_ignore_case (blit ''Identity'') (blit ''Identity'')"
  "\<not> bytes_eq_ignore_case (blit ''Identity'') (blit ''Socket-Type'')"
  by (auto simp: bytes_eq_ignore_case_def dest: arg_cong [where f = length])

lemma decode_encode_props:
  assumes "length (utf8_encode st) < 2 ^ 32" "\<forall>i. ident = Some i \<longrightarrow> length i \<le> 255"
  shows "decode_zmtp_props (encode_zmtp_props st ident) = Some (Inr (Some (utf8_encode st), nonempty_identity ident))"
proof -
  have ok1: "ok_property (blit ''Socket-Type'', utf8_encode st)" using assms(1) by (simp add: ok_property_def)
  have m1: "props_match (blit ''Socket-Type'') (utf8_encode st) (None, None) = Inr (Some (utf8_encode st), None)"
    unfolding props_match_def using bytes_eq_ignore_case_props(1) by simp
  show ?thesis
  proof (cases "nonempty_identity ident")
    case None
    then show ?thesis
      unfolding decode_zmtp_props_def encode_zmtp_props_eq props_loop_enc [OF ok1] m1 by (simp add: props_loop_Nil)
  next
    case (Some i)
    with assms(2) have l: "length i \<le> 255" by (auto simp: nonempty_identity_def split: if_splits)
    then have ok2: "ok_property (blit ''Identity'', i)" by (simp add: ok_property_def)
    have m2: "props_match (blit ''Identity'') i (Some (utf8_encode st), None) = Inr (Some (utf8_encode st), Some i)"
      unfolding props_match_def using bytes_eq_ignore_case_props(2,3) l by simp
    show ?thesis
      unfolding decode_zmtp_props_def encode_zmtp_props_eq props_loop_enc [OF ok1] m1 Some sum.case option.case
        props_loop_enc [OF ok2] m2 props_loop_Nil ..
  qed
qed

lemma length_encode_props:
  assumes "\<forall>i. ident = Some i \<longrightarrow> length i \<le> 255"
  shows "length (encode_zmtp_props st ident) \<le> 16 + length (utf8_encode st) + 268"
    and "16 + length (utf8_encode st) \<le> length (encode_zmtp_props st ident)"
  using assms
  by (auto simp: encode_zmtp_props_eq enc_property_def nonempty_identity_def split: option.splits)

section \<open>The four commands\<close>

text \<open>Silent steps evaluate; the rest of a step after its frame has been read is such a sequence.\<close>

lemma hs_slice_eq: "slice bs a b = Some x \<Longrightarrow> hs_slice bs a b = hs_return x"
  by (rule ext) (simp add: hs_slice_def)

lemma hs_idx_eq: "idx bs i = Some x \<Longrightarrow> hs_lift (map_option Inr (idx bs i)) = hs_return x"
  by (rule ext) simp

lemma hs_silent_eqs:
  "hs_opt e (Some y) = hs_return y" "hs_map_err e (Inr y) = hs_return y" "hs_lift (Some (Inr x)) = hs_return x"
  by (auto simp: hs_opt_def hs_map_err_def)

lemma hs_does_first: "hs_does m i out x \<Longrightarrow> hs_does (f x) [] [] y \<Longrightarrow> hs_does (hs_bind m f) i out y"
  using hs_does_bind [of m i out x f "[]" "[]" y] by simp

lemma slice_at: "bs = xs @ ys @ zs \<Longrightarrow> a = length xs \<Longrightarrow> b = a + length ys \<Longrightarrow> slice bs a b = Some ys"
  by (simp add: slice_def)

lemma slice_at_end: "bs = xs @ ys \<Longrightarrow> a = length xs \<Longrightarrow> slice bs a (length bs) = Some ys"
  by (simp add: slice_def)

lemma curve_command_lengths [simp]:
  "length CURVE_HELLO = 6" "length CURVE_WELCOME = 8" "length CURVE_INITIATE = 9" "length CURVE_READY = 6"
  "length CURVE_READY_NONCE_PREFIX = 16"
  by (simp_all add: CURVE_HELLO_def CURVE_WELCOME_def CURVE_INITIATE_def CURVE_READY_def CURVE_READY_NONCE_PREFIX_def)

lemmas silent_simps = hs_bind_return hs_silent_eqs simp_thms if_True if_False option.case sum.case
  salsa_decrypt_def salsa_encrypt_def Let_def not_True_eq_False not_False_eq_True

lemma hello_exchange:
  assumes laws: "crypto_laws cr" and t: "timeout \<noteq> Some 0"
    and cl: "cl_server_public cl = x25519_public cr S" "cl_short cl = keypair_generate cr c"
    and sv: "kp_secret (sv_keypair sv) = S"
  obtains hello where "hs_does (send_hello cr cl timeout) [] hello ()"
    "hs_does (recv_hello cr sv timeout) hello [] (sv\<lparr>sv_client_short := Some (x25519_public cr c)\<rparr>)"
proof -
  let ?P = "x25519_public cr" let ?n = "blit ''CurveZMQHELLO---'' @ be_bytes 8 1"
  obtain ct where ct: "salsabox_seal cr (?P S) c ?n (replicate 64 0) = Some ct" "length ct = 80"
    "salsabox_open cr (?P c) S ?n ct = Some (replicate 64 0)"
    using crypto_lawsD(3) [OF laws, of "replicate 64 0" S c ?n] by auto
  let ?body = "CURVE_HELLO @ [1] @ replicate 71 0 @ ?P c @ be_bytes 8 1 @ ct"
  have len: "length (?P c) = 32" by (rule crypto_lawsD(2) [OF laws])
  have body: "length ?body = 198" using len ct(2) by simp
  have key: "kp_secret (cl_short cl) = c" "kp_public (cl_short cl) = ?P c"
    by (simp_all add: cl(2) keypair_generate_def public_key_def)
  have slices: "slice ?body 0 6 = Some CURVE_HELLO" "slice ?body 78 110 = Some (?P c)"
    "slice ?body 110 118 = Some (be_bytes 8 1)" "slice ?body 118 198 = Some ct"
    using len ct(2) by (simp_all add: slice_def)
  have version: "idx ?body 6 = Some 1" by (simp add: nth_append)
  have nz: "be_val (be_bytes 8 1) \<noteq> 0" by simp
  have zeros: "length (replicate 64 (0 :: byte)) = 64" "list_ex (\<lambda>b. b \<noteq> (0 :: byte)) (replicate 64 0) = False"
    by (simp_all add: list_ex_iff)
  have "hs_does (send_hello cr cl timeout) [] (zmtp_cmd_frame ?body) ()"
    unfolding send_hello_def
    by (simp only: silent_simps cl(1) key ct(1)) (rule hs_does_write_cmd [OF t])
  moreover have "hs_does (recv_hello cr sv timeout) (zmtp_cmd_frame ?body) [] (sv\<lparr>sv_client_short := Some (?P c)\<rparr>)"
    unfolding recv_hello_def
  proof (rule hs_does_first [OF hs_does_read_cmd [OF t]])
    show "length ?body \<le> MAX_CURVE_BODY" "length ?body \<le> usize_max"
      unfolding body by (simp_all add: MAX_CURVE_BODY_def usize_max_def)
  qed (simp only: body silent_simps slices [THEN hs_slice_eq] version [THEN hs_idx_eq] nz sv ct(3) zeros hs_does_return)
  ultimately show ?thesis by (rule that)
qed

lemma welcome_exchange:
  assumes laws: "crypto_laws cr" and t: "timeout \<noteq> Some 0"
    and cl: "cl_server_public cl = x25519_public cr S" "cl_short cl = keypair_generate cr c"
    and sv: "kp_secret (sv_keypair sv) = S" "sv_short sv = keypair_generate cr s" "sv_client_short sv = Some (x25519_public cr c)"
    and ls: "length s = 32" "length (ce_cookie_nonce ent) = 16" "length (ce_welcome_nonce ent) = 16"
  obtains wframe ct where "hs_does (send_welcome cr ent sv timeout) [] wframe ()"
    "hs_does (recv_welcome cr cl timeout) wframe []
      (cl\<lparr>cl_server_short := Some (x25519_public cr s), cl_cookie := Some (ce_cookie_nonce ent @ ct)\<rparr>)"
    "length ct = 80"
    "xchacha_open cr (sv_cookie_key sv) (blit ''COOKIE--'' @ ce_cookie_nonce ent) ct = Some (x25519_public cr c @ s)"
proof -
  let ?P = "x25519_public cr" let ?cn = "blit ''COOKIE--'' @ ce_cookie_nonce ent" let ?wn = "blit ''WELCOME-'' @ ce_welcome_nonce ent"
  have len: "length (?P x) = 32" for x by (rule crypto_lawsD(2) [OF laws])
  obtain ct where ct: "xchacha_seal cr (sv_cookie_key sv) ?cn (?P c @ s) = Some ct" "length ct = 80"
    "xchacha_open cr (sv_cookie_key sv) ?cn ct = Some (?P c @ s)"
    using crypto_lawsD(5) [OF laws, of "?P c @ s" "sv_cookie_key sv" ?cn] len ls(1) by auto
  let ?pt = "?P s @ ce_cookie_nonce ent @ ct"
  have lpt: "length ?pt = 128" using len ls ct(2) by simp
  obtain wb where wb: "salsabox_seal cr (?P c) S ?wn ?pt = Some wb" "length wb = 144"
    "salsabox_open cr (?P S) c ?wn wb = Some ?pt"
    using crypto_lawsD(3) [OF laws, of ?pt c S ?wn] lpt by auto
  have keys: "kp_secret (cl_short cl) = c" "kp_secret (sv_short sv) = s" "kp_public (sv_short sv) = ?P s"
    by (simp_all add: cl(2) sv(2) keypair_generate_def public_key_def)
  let ?body = "CURVE_WELCOME @ ce_welcome_nonce ent @ wb"
  have body: "length ?body = 168" using ls wb(2) by simp
  have slices: "slice ?body 0 8 = Some CURVE_WELCOME" "slice ?body 8 24 = Some (ce_welcome_nonce ent)" "slice ?body 24 168 = Some wb"
    "slice ?pt 0 32 = Some (?P s)" "slice ?pt 32 128 = Some (ce_cookie_nonce ent @ ct)"
    using ls wb(2) ct(2) len by (simp_all add: slice_def)
  have "hs_does (send_welcome cr ent sv timeout) [] (zmtp_cmd_frame ?body) ()"
    unfolding send_welcome_def
    by (simp only: silent_simps sv(1,3) keys ct(1) wb(1)) (rule hs_does_write_cmd [OF t])
  moreover have "hs_does (recv_welcome cr cl timeout) (zmtp_cmd_frame ?body) []
      (cl\<lparr>cl_server_short := Some (?P s), cl_cookie := Some (ce_cookie_nonce ent @ ct)\<rparr>)"
    unfolding recv_welcome_def
  proof (rule hs_does_first [OF hs_does_read_cmd [OF t]])
    show "length ?body \<le> MAX_CURVE_BODY" "length ?body \<le> usize_max"
      unfolding body by (simp_all add: MAX_CURVE_BODY_def usize_max_def)
  qed (simp only: body lpt silent_simps slices [THEN hs_slice_eq] cl(1) keys wb(3) hs_does_return)
  ultimately show ?thesis using ct(2,3) by (rule that)
qed

lemma initiate_exchange:
  assumes laws: "crypto_laws cr" and t: "timeout \<noteq> Some 0"
    and cl: "cl_server_public cl = x25519_public cr S" "cl_short cl = keypair_generate cr c"
      "cl_keypair cl = keypair_from_keys (x25519_public cr C) C"
      "cl_server_short cl = Some (x25519_public cr s)" "cl_cookie cl = Some (nonce @ ct)"
    and sv: "kp_secret (sv_keypair sv) = S" "sv_short sv = keypair_generate cr s" "sv_client_short sv = Some (x25519_public cr c)"
    and ls: "length s = 32" "length nonce = 16" "length (ce_vouch_nonce ent) = 16" "length ct = 80"
    and cookie: "xchacha_open cr (sv_cookie_key sv) (blit ''COOKIE--'' @ nonce) ct = Some (x25519_public cr c @ s)"
    and st: "length (utf8_encode (cl_socket_type cl)) \<le> 255"
    and ident: "\<forall>i. cl_identity cl = Some i \<longrightarrow> length i \<le> 255"
  obtains initiate where "hs_does (send_initiate cr ent cl timeout) [] initiate ()"
    "hs_does (recv_initiate cr sv timeout) initiate []
      (sv\<lparr>sv_peer_type := Some (utf8_encode (cl_socket_type cl)), sv_peer_identity := nonempty_identity (cl_identity cl),
          sv_client_public := Some (x25519_public cr C)\<rparr>)"
proof -
  let ?P = "x25519_public cr" let ?vn = "blit ''VOUCH---'' @ ce_vouch_nonce ent"
  let ?in = "blit ''CurveZMQINITIATE'' @ be_bytes 8 1" let ?props = "encode_zmtp_props (cl_socket_type cl) (cl_identity cl)"
  have len: "length (?P x) = 32" for x by (rule crypto_lawsD(2) [OF laws])
  obtain vc where vc: "salsabox_seal cr (?P S) C ?vn (?P c @ ?P s) = Some vc" "length vc = 80"
    "salsabox_open cr (?P C) S ?vn vc = Some (?P c @ ?P s)"
    using crypto_lawsD(3) [OF laws, of "?P c @ ?P s" S C ?vn] len by auto
  let ?pt = "(ce_vouch_nonce ent @ vc) @ ?props"
  have lp: "length ?props \<le> 539" using length_encode_props(1) [OF ident, of "cl_socket_type cl"] st by simp
  then have lpt: "length ?pt < 2 ^ 32" using vc(2) ls by simp
  obtain ib where ib: "salsabox_seal cr (?P s) c ?in ?pt = Some ib" "length ib = length ?pt + 16"
    "salsabox_open cr (?P c) s ?in ib = Some ?pt"
    using crypto_lawsD(3) [OF laws lpt, of s c ?in] by auto
  have keys: "kp_secret (cl_short cl) = c" "kp_public (cl_short cl) = ?P c" "kp_secret (cl_keypair cl) = C"
    "kp_public (cl_keypair cl) = ?P C" "kp_secret (sv_short sv) = s" "kp_public (sv_short sv) = ?P s"
    by (simp_all add: cl sv keypair_generate_def keypair_from_keys_def public_key_def)
  let ?body = "CURVE_INITIATE @ (nonce @ ct) @ ?P C @ be_bytes 8 1 @ ib"
  have body: "length ?body \<le> 4096" "length ?body < 145 \<longleftrightarrow> False" using lp len ls vc(2) ib(2) by simp_all
  have pts: "length ?pt < 96 \<longleftrightarrow> False" "length (?P c @ s) = 64" "length (?P c @ ?P s) = 64"
    using ls vc(2) len by simp_all
  have slices: "slice ?body 0 9 = Some CURVE_INITIATE" "slice ?body 9 105 = Some (nonce @ ct)" "slice ?body 105 137 = Some (?P C)"
    "slice ?body 137 145 = Some (be_bytes 8 1)" "slice ?body 145 (length ?body) = Some ib"
    "slice (nonce @ ct) 0 16 = Some nonce" "slice (nonce @ ct) 16 (length (nonce @ ct)) = Some ct"
    "slice (?P c @ s) 0 32 = Some (?P c)" "slice (?P c @ s) 32 64 = Some s"
    "slice ?pt 0 16 = Some (ce_vouch_nonce ent)" "slice ?pt 16 96 = Some vc"
    "slice (?P c @ ?P s) 0 32 = Some (?P c)" "slice (?P c @ ?P s) 32 64 = Some (?P s)" "slice ?pt 96 (length ?pt) = Some ?props"
    using ls vc(2) len by (simp_all add: slice_def)
  have dec: "decode_zmtp_props ?props = Some (Inr (Some (utf8_encode (cl_socket_type cl)), nonempty_identity (cl_identity cl)))"
    using st ident by (intro decode_encode_props) simp_all
  have "hs_does (send_initiate cr ent cl timeout) [] (zmtp_cmd_frame ?body) ()"
    unfolding send_initiate_def
    by (simp only: silent_simps cl(1,4,5) keys vc(1) ib(1)) (rule hs_does_write_cmd [OF t])
  moreover have "hs_does (recv_initiate cr sv timeout) (zmtp_cmd_frame ?body) []
      (sv\<lparr>sv_peer_type := Some (utf8_encode (cl_socket_type cl)), sv_peer_identity := nonempty_identity (cl_identity cl),
          sv_client_public := Some (?P C)\<rparr>)"
    unfolding recv_initiate_def
  proof (rule hs_does_first [OF hs_does_read_cmd [OF t]])
    show "length ?body \<le> MAX_INITIATE_BODY" "length ?body \<le> usize_max"
      using body(1) by (simp_all add: MAX_INITIATE_BODY_def usize_max_def)
  qed (simp only: body pts silent_simps slices [THEN hs_slice_eq] cookie sv(1,3) ib(3) keys vc(3) dec hs_does_return
      case_prod_conv option.distinct)
  ultimately show ?thesis by (rule that)
qed

lemma ready_exchange:
  assumes laws: "crypto_laws cr" and t: "timeout \<noteq> Some 0"
    and cl: "cl_server_public cl = x25519_public cr S" "cl_short cl = keypair_generate cr c"
      "cl_keypair cl = keypair_from_keys (x25519_public cr C) C" "cl_server_short cl = Some (x25519_public cr s)"
    and sv: "kp_secret (sv_keypair sv) = S" "sv_short sv = keypair_generate cr s"
      "sv_client_short sv = Some (x25519_public cr c)" "sv_client_public sv = Some (x25519_public cr C)"
    and st: "length (utf8_encode (sv_socket_type sv)) \<le> 255"
    and dh: "x25519 cr c (x25519_public cr S) \<noteq> replicate 32 0" "x25519 cr C (x25519_public cr s) \<noteq> replicate 32 0"
      "x25519 cr c (x25519_public cr s) \<noteq> replicate 32 0"
  defines "key \<equiv> derive_message_key cr (x25519 cr c (x25519_public cr S)) (x25519 cr C (x25519_public cr s)) (x25519 cr c (x25519_public cr s))"
  obtains ready where "hs_does (send_ready cr sv timeout) [] ready (sv\<lparr>sv_message_box := Some key\<rparr>)"
    "hs_does (client_recv_ready cr cl timeout) ready []
      (cl\<lparr>cl_peer_type := Some (utf8_encode (sv_socket_type sv)), cl_peer_identity := None, cl_message_box := Some key\<rparr>)"
proof -
  let ?P = "x25519_public cr" let ?n = "CURVE_READY_NONCE_PREFIX @ be_bytes 8 1" let ?meta = "encode_zmtp_props (sv_socket_type sv) None"
  have lm: "length ?meta = 16 + length (utf8_encode (sv_socket_type sv))"
    by (simp add: encode_zmtp_props_eq nonempty_identity_def enc_property_def)
  obtain rb where rb: "salsabox_seal cr (?P c) s ?n ?meta = Some rb" "length rb = length ?meta + 16"
    "salsabox_open cr (?P s) c ?n rb = Some ?meta"
    using crypto_lawsD(3) [OF laws, of ?meta c s ?n] lm st by auto
  have keys: "kp_secret (cl_short cl) = c" "kp_secret (cl_keypair cl) = C" "kp_secret (sv_short sv) = s"
    by (simp_all add: cl sv keypair_generate_def keypair_from_keys_def)
  have cdh: "diffie_hellman cr c (?P S) = Inr (x25519 cr c (?P S))" "diffie_hellman cr C (?P s) = Inr (x25519 cr C (?P s))"
    "diffie_hellman cr c (?P s) = Inr (x25519 cr c (?P s))"
    using dh by (simp_all add: diffie_hellman_def CURVE_KEY_SIZE_def)
  then have sdh: "diffie_hellman cr S (?P c) = Inr (x25519 cr c (?P S))" "diffie_hellman cr s (?P C) = Inr (x25519 cr C (?P s))"
    "diffie_hellman cr s (?P c) = Inr (x25519 cr c (?P s))"
    unfolding diffie_hellman_def using crypto_lawsD(1) [OF laws] by metis+
  let ?body = "CURVE_READY @ be_bytes 8 1 @ rb"
  have body: "length ?body < 30 \<longleftrightarrow> False" "length ?body \<le> 512" using rb(2) lm st by simp_all
  have slices: "slice ?body 0 6 = Some CURVE_READY" "slice ?body 6 14 = Some (be_bytes 8 1)" "slice ?body 14 (length ?body) = Some rb"
    by (simp_all add: slice_def)
  have dec: "decode_zmtp_props ?meta = Some (Inr (Some (utf8_encode (sv_socket_type sv)), None))"
    using decode_encode_props [of "sv_socket_type sv" None] st by (simp add: nonempty_identity_def)
  have "hs_does (send_ready cr sv timeout) ([] @ []) (zmtp_cmd_frame ?body @ []) (sv\<lparr>sv_message_box := Some key\<rparr>)"
    unfolding send_ready_def
    by (simp only: silent_simps sv(1,3,4) keys sdh rb(1) key_def)
      (rule hs_does_bind [OF hs_does_write_cmd [OF t] hs_does_return])
  then have "hs_does (send_ready cr sv timeout) [] (zmtp_cmd_frame ?body) (sv\<lparr>sv_message_box := Some key\<rparr>)" by simp
  moreover have "hs_does (client_recv_ready cr cl timeout) (zmtp_cmd_frame ?body) []
      (cl\<lparr>cl_peer_type := Some (utf8_encode (sv_socket_type sv)), cl_peer_identity := None, cl_message_box := Some key\<rparr>)"
    unfolding client_recv_ready_def
  proof (rule hs_does_first [OF hs_does_read_cmd [OF t]])
    show "length ?body \<le> MAX_CURVE_BODY" "length ?body \<le> usize_max"
      using body(2) by (simp_all add: MAX_CURVE_BODY_def usize_max_def)
  qed (simp only: body silent_simps slices [THEN hs_slice_eq] cl(1,4) keys rb(3) dec cdh key_def hs_does_return
      case_prod_conv option.distinct)
  ultimately show ?thesis by (rule that)
qed

section \<open>Both sides together\<close>

text \<open>The conditions of an honest exchange: random values of their array sizes, and no shared secret is
  all zero.\<close>

definition honest_entropy :: "curve_entropy \<Rightarrow> bool" where
  "honest_entropy ent \<longleftrightarrow> length (ce_short_secret ent) = 32 \<and> length (ce_cookie_nonce ent) = 16 \<and>
     length (ce_welcome_nonce ent) = 16 \<and> length (ce_vouch_nonce ent) = 16"

definition session_key :: "curve_crypto \<Rightarrow> bytes \<Rightarrow> bytes \<Rightarrow> curve_entropy \<Rightarrow> curve_entropy \<Rightarrow> bytes" where
  "session_key cr C S ec es =
     derive_message_key cr (x25519 cr (ce_short_secret ec) (x25519_public cr S))
       (x25519 cr C (x25519_public cr (ce_short_secret es)))
       (x25519 cr (ce_short_secret ec) (x25519_public cr (ce_short_secret es)))"

definition nonzero_secrets :: "curve_crypto \<Rightarrow> bytes \<Rightarrow> bytes \<Rightarrow> curve_entropy \<Rightarrow> curve_entropy \<Rightarrow> bool" where
  "nonzero_secrets cr C S ec es \<longleftrightarrow>
     x25519 cr (ce_short_secret ec) (x25519_public cr S) \<noteq> replicate 32 0 \<and>
     x25519 cr C (x25519_public cr (ce_short_secret es)) \<noteq> replicate 32 0 \<and>
     x25519 cr (ce_short_secret ec) (x25519_public cr (ce_short_secret es)) \<noteq> replicate 32 0"

lemma curve_exchange:
  assumes laws: "crypto_laws cr" and t: "timeout \<noteq> Some 0" and ent: "honest_entropy ec" "honest_entropy es"
    and nz: "nonzero_secrets cr C S ec es"
    and st: "length (utf8_encode cst) \<le> 255" "length (utf8_encode sst) \<le> 255"
    and ident: "\<forall>i. ident = Some i \<longrightarrow> length i \<le> 255"
  obtains co so cl' sv' where
    "hs_does (curve_client_handshake cr ec
        (curve_client_new cr ec (keypair_from_keys (x25519_public cr C) C) (x25519_public cr S) cst ident) timeout) so co
      (\<lparr>cr_peer_type = utf8_encode sst, cr_peer_identity = None, cr_peer_key = None,
        cr_cipher = Some (new_client (session_key cr C S ec es) 1 1)\<rparr>, cl')"
    "hs_does (curve_server_handshake cr es
        (curve_server_new cr es (keypair_from_keys (x25519_public cr S) S) sst) timeout) co so
      (\<lparr>cr_peer_type = utf8_encode cst, cr_peer_identity = nonempty_identity ident, cr_peer_key = Some (x25519_public cr C),
        cr_cipher = Some (new_server (session_key cr C S ec es) 1 1)\<rparr>, sv')"
proof -
  let ?P = "x25519_public cr" let ?c = "ce_short_secret ec" let ?s = "ce_short_secret es"
  define cl0 where "cl0 = curve_client_new cr ec (keypair_from_keys (?P C) C) (?P S) cst ident"
  define sv0 where "sv0 = curve_server_new cr es (keypair_from_keys (?P S) S) sst"
  have cl0: "cl_server_public cl0 = ?P S" "cl_short cl0 = keypair_generate cr ?c" "cl_keypair cl0 = keypair_from_keys (?P C) C"
    "cl_socket_type cl0 = cst" "cl_identity cl0 = ident" "cl_send_nonce cl0 = 1" "cl_recv_nonce cl0 = 1"
    by (simp_all add: cl0_def curve_client_new_def)
  have sv0: "kp_secret (sv_keypair sv0) = S" "sv_short sv0 = keypair_generate cr ?s" "sv_socket_type sv0 = sst"
    "sv_send_nonce sv0 = 1" "sv_recv_nonce sv0 = 1"
    by (simp_all add: sv0_def curve_server_new_def keypair_from_keys_def)
  obtain hello where h: "hs_does (send_hello cr cl0 timeout) [] hello ()"
    "hs_does (recv_hello cr sv0 timeout) hello [] (sv0\<lparr>sv_client_short := Some (?P ?c)\<rparr>)"
    by (rule hello_exchange [OF laws t cl0(1,2) sv0(1)])
  let ?sv1 = "sv0\<lparr>sv_client_short := Some (?P ?c)\<rparr>"
  obtain wframe ct where w: "hs_does (send_welcome cr es ?sv1 timeout) [] wframe ()"
    "hs_does (recv_welcome cr cl0 timeout) wframe [] (cl0\<lparr>cl_server_short := Some (?P ?s), cl_cookie := Some (ce_cookie_nonce es @ ct)\<rparr>)"
    "length ct = 80" "xchacha_open cr (sv_cookie_key ?sv1) (blit ''COOKIE--'' @ ce_cookie_nonce es) ct = Some (?P ?c @ ?s)"
    using welcome_exchange [OF laws t cl0(1,2), of ?sv1 ?s es] sv0 ent(2) by (auto simp: honest_entropy_def simp del: blit_Cons)
  let ?cl1 = "cl0\<lparr>cl_server_short := Some (?P ?s), cl_cookie := Some (ce_cookie_nonce es @ ct)\<rparr>"
  obtain initiate where i: "hs_does (send_initiate cr ec ?cl1 timeout) [] initiate ()"
    "hs_does (recv_initiate cr ?sv1 timeout) initiate []
      (?sv1\<lparr>sv_peer_type := Some (utf8_encode cst), sv_peer_identity := nonempty_identity ident, sv_client_public := Some (?P C)\<rparr>)"
    using initiate_exchange [OF laws t, of ?cl1 S ?c C ?s "ce_cookie_nonce es" ct ?sv1 ec] cl0 sv0 ent w(3,4) st ident
    by (auto simp: honest_entropy_def simp del: blit_Cons)
  let ?sv2 = "?sv1\<lparr>sv_peer_type := Some (utf8_encode cst), sv_peer_identity := nonempty_identity ident, sv_client_public := Some (?P C)\<rparr>"
  let ?key = "session_key cr C S ec es"
  obtain ready where r: "hs_does (send_ready cr ?sv2 timeout) [] ready (?sv2\<lparr>sv_message_box := Some ?key\<rparr>)"
    "hs_does (client_recv_ready cr ?cl1 timeout) ready []
      (?cl1\<lparr>cl_peer_type := Some (utf8_encode sst), cl_peer_identity := None, cl_message_box := Some ?key\<rparr>)"
    using ready_exchange [OF laws t, of ?cl1 S ?c C ?s ?sv2] cl0 sv0 st nz
    by (auto simp: nonzero_secrets_def session_key_def)
  let ?cl2 = "?cl1\<lparr>cl_peer_type := Some (utf8_encode sst), cl_peer_identity := None, cl_message_box := Some ?key\<rparr>"
  let ?sv3 = "?sv2\<lparr>sv_message_box := Some ?key\<rparr>"
  have "hs_does (curve_client_handshake cr ec cl0 timeout) ([] @ wframe @ [] @ ready @ []) (hello @ [] @ initiate @ [] @ [])
      (\<lparr>cr_peer_type = utf8_encode sst, cr_peer_identity = None, cr_peer_key = None, cr_cipher = Some (new_client ?key 1 1)\<rparr>,
       ?cl2\<lparr>cl_message_box := None\<rparr>)"
    unfolding curve_client_handshake_def
    by (intro hs_does_bind [OF h(1)] hs_does_bind [OF w(2)] hs_does_bind [OF i(1)] hs_does_bind [OF r(2)])
      (simp add: hs_silent_eqs hs_does_return cl0)
  moreover have "hs_does (curve_server_handshake cr es sv0 timeout) (hello @ [] @ initiate @ [] @ []) ([] @ wframe @ [] @ ready @ [])
      (\<lparr>cr_peer_type = utf8_encode cst, cr_peer_identity = nonempty_identity ident, cr_peer_key = Some (?P C),
        cr_cipher = Some (new_server ?key 1 1)\<rparr>, ?sv3\<lparr>sv_message_box := None\<rparr>)"
    unfolding curve_server_handshake_def
    by (intro hs_does_bind [OF h(2)] hs_does_bind [OF w(1)] hs_does_bind [OF i(2)] hs_does_bind [OF r(1)])
      (simp add: hs_silent_eqs hs_does_return sv0)
  ultimately show ?thesis unfolding cl0_def sv0_def by (rule that)
qed

lemma hs_does_greetings:
  assumes "timeout \<noteq> Some 0"
  shows "hs_does (exchange_greetings m opts timeout) (build_greeting_with_mechanism m popts) (build_greeting_with_mechanism m opts) ()"
  unfolding hs_does_def
proof (intro allI impI)
  fix st rest
  assume st: "hs_all st = build_greeting_with_mechanism m popts @ rest \<and> length (build_greeting_with_mechanism m opts) \<le> hs_quota st"
  then have "64 \<le> hs_quota st" by (simp add: build_greeting_fields(1))
  then obtain st' where "exchange_greetings m opts timeout st = (HOk (), st')" "hs_all st' = rest"
    "hs_out st' = hs_out st @ build_greeting_with_mechanism m opts" "hs_quota st' = hs_quota st - 64"
    using exchange_greetings_ok [OF assms, of st m popts rest opts] st by blast
  then show "\<exists>st'. exchange_greetings m opts timeout st = (HOk (), st') \<and> hs_all st' = rest \<and>
      hs_out st' = hs_out st @ build_greeting_with_mechanism m opts \<and>
      hs_quota st' = hs_quota st - length (build_greeting_with_mechanism m opts)"
    by (simp add: build_greeting_fields(1))
qed

lemma hs_does_perform_curve:
  assumes "timeout \<noteq> Some 0" "from_options opts = CurveMechanism"
    and "hs_does (run_curve_exchange cr ent zap opts timeout st ident) inp out r"
    and "cr_peer_type r = utf8_encode (socket_type_as_str pst)"
  shows "hs_does (perform_handshake_with_options cr ent zap st ident timeout opts)
    (build_greeting_with_mechanism CurveMechanism popts @ inp) (build_greeting_with_mechanism CurveMechanism opts @ out)
    \<lparr>peer_identity = cr_peer_identity r, peer_socket_type = pst, curve_cipher = cr_cipher r\<rparr>"
proof -
  have "hs_does (hs_bind (hs_bind (run_curve_exchange cr ent zap opts timeout st ident)
         (\<lambda>r. hs_return (cr_peer_type r, cr_peer_identity r, cr_cipher r)))
       (\<lambda>(pst, pid, cipher). hs_bind (hs_lift (Some (parse_socket_type pst))) (\<lambda>t.
         hs_return \<lparr>peer_identity = pid, peer_socket_type = t, curve_cipher = cipher\<rparr>))) inp out
      \<lparr>peer_identity = cr_peer_identity r, peer_socket_type = pst, curve_cipher = cr_cipher r\<rparr>"
    by (rule hs_does_first [OF hs_does_first [OF assms(3)]], rule hs_does_return)
      (simp add: assms(4) hs_silent_eqs)
  then show ?thesis
    unfolding perform_handshake_with_options_def perform_handshake_def Let_def assms(2)
    using hs_does_bind [OF hs_does_greetings [OF assms(1)]] by (simp add: case_prod_beta)
qed

section \<open>What acceptance means\<close>

lemma hs_slice_HOk: "hs_slice bs a b st = (HOk x, st') \<longleftrightarrow> slice bs a b = Some x \<and> st' = st"
  by (auto simp: hs_slice_def hs_lift_HOk)

lemma hs_opt_HOk: "hs_opt e x st = (HOk y, st') \<longleftrightarrow> x = Some y \<and> st' = st"
  by (auto simp: hs_opt_def split: option.splits)

lemma hs_map_err_HOk: "hs_map_err e x st = (HOk y, st') \<longleftrightarrow> x = Inr y \<and> st' = st"
  by (auto simp: hs_map_err_def split: sum.splits)

lemma salsa_decrypt_Inr: "salsa_decrypt cr pk sk n ct = Inr pt \<longleftrightarrow> salsabox_open cr pk sk n ct = Some pt"
  by (auto simp: salsa_decrypt_def split: option.splits)

lemma if_error_HOk: "(if c then hs_error e else m) st = (HOk x, st') \<longleftrightarrow> \<not> c \<and> m st = (HOk x, st')"
  by simp

lemmas accept_simps = hs_bind_eq_HOk hs_slice_HOk hs_opt_HOk hs_map_err_HOk hs_lift_HOk salsa_decrypt_Inr if_error_HOk





section \<open>Properties\<close>

text \<open>The CURVE handshake succeeds between two sockets of the library and they agree. A client
  that knows the server's public key and a server with the matching secret key, over a connection
  that delivers to each what the other writes, both complete the whole handshake: each learns the
  other's socket type, the server learns the client's identity, and the two message ciphers
  hold the same key, opposite roles and fresh counters.\<close>

lemma curve_handshake_agreement:
  assumes "crypto_laws cr" and "timeout \<noteq> Some 0" and "honest_entropy ec" and "honest_entropy es"
    and "nonzero_secrets cr C S ec es"
    and "opt_curve_server copts = False" and "opt_curve_secretkey copts = Some C"
    and "opt_curve_serverkey copts = Some (x25519_public cr S)"
    and "opt_curve_server sopts" and "opt_curve_secretkey sopts = Some S" and "opt_zap_domain sopts = []"
    and "\<forall>i. ident = Some i \<longrightarrow> length i \<le> 255"
  shows "\<exists>co so. 
    hs_does (perform_handshake_with_options cr ec zapc ct ident timeout copts) so co
      \<lparr>peer_identity = None, peer_socket_type = st, curve_cipher = Some (new_client (session_key cr C S ec es) 1 1)\<rparr> \<and>
    hs_does (perform_handshake_with_options cr es zaps st sident timeout sopts) co so
      \<lparr>peer_identity = nonempty_identity ident, peer_socket_type = ct,
       curve_cipher = Some (new_server (session_key cr C S ec es) 1 1)\<rparr>"
proof -
  have l: "length (utf8_encode (socket_type_as_str x)) \<le> 255" for x
    using length_socket_type_as_str [of x] by linarith
  obtain co so cl' sv' where
    c: "hs_does (curve_client_handshake cr ec (curve_client_new cr ec (keypair_from_keys (x25519_public cr C) C) (x25519_public cr S)
          (socket_type_as_str ct) ident) timeout) so co
      (\<lparr>cr_peer_type = utf8_encode (socket_type_as_str st), cr_peer_identity = None, cr_peer_key = None,
        cr_cipher = Some (new_client (session_key cr C S ec es) 1 1)\<rparr>, cl')"
    and s: "hs_does (curve_server_handshake cr es (curve_server_new cr es (keypair_from_keys (x25519_public cr S) S)
          (socket_type_as_str st)) timeout) co so
      (\<lparr>cr_peer_type = utf8_encode (socket_type_as_str ct), cr_peer_identity = nonempty_identity ident,
        cr_peer_key = Some (x25519_public cr C), cr_cipher = Some (new_server (session_key cr C S ec es) 1 1)\<rparr>, sv')"
    by (rule curve_exchange [OF assms(1-5) l l assms(12)])
  have m: "from_options copts = CurveMechanism" "from_options sopts = CurveMechanism"
    using assms(7,9) by (simp_all add: from_options_def)
  have "hs_does (run_curve_exchange cr ec zapc copts timeout ct ident) so co
      \<lparr>cr_peer_type = utf8_encode (socket_type_as_str st), cr_peer_identity = None, cr_peer_key = None,
        cr_cipher = Some (new_client (session_key cr C S ec es) 1 1)\<rparr>"
    by (simp only: run_curve_exchange_def assms(6-8) silent_simps prod.case public_key_def)
      (rule hs_does_first [OF c], simp add: hs_does_return)
  moreover have "hs_does (run_curve_exchange cr es zaps sopts timeout st sident) co so
      \<lparr>cr_peer_type = utf8_encode (socket_type_as_str ct), cr_peer_identity = nonempty_identity ident,
        cr_peer_key = Some (x25519_public cr C), cr_cipher = Some (new_server (session_key cr C S ec es) 1 1)\<rparr>"
    by (simp only: run_curve_exchange_def assms(9-11) silent_simps public_key_def) (rule hs_does_first [OF s], simp add: hs_does_return)
  ultimately show ?thesis
    using hs_does_perform_curve [OF assms(2) m(1), where popts = sopts and pst = st]
      hs_does_perform_curve [OF assms(2) m(2), where popts = copts and pst = ct] by fastforce
qed

text \<open>Concrete keys and random values for the witnesses.\<close>

definition sample_entropy :: "byte \<Rightarrow> curve_entropy" where
  "sample_entropy b = \<lparr>ce_short_secret = replicate 32 b, ce_cookie_key = replicate 32 7, ce_cookie_nonce = replicate 16 8,
     ce_welcome_nonce = replicate 16 9, ce_vouch_nonce = replicate 16 10\<rparr>"

definition sample_client_options :: socket_options where
  "sample_client_options = socket_options_default
     \<lparr>opt_curve_server := False, opt_curve_secretkey := Some (replicate 32 2), opt_curve_serverkey := Some (x25519_public tag_crypto (replicate 32 1))\<rparr>"

definition sample_server_options :: "str \<Rightarrow> socket_options" where
  "sample_server_options domain = socket_options_default
     \<lparr>opt_curve_server := True, opt_curve_secretkey := Some (replicate 32 1), opt_zap_domain := domain\<rparr>"

lemma sample_honest: "honest_entropy (sample_entropy b)"
  by (simp add: honest_entropy_def sample_entropy_def)

lemma xor_pad_nonzero:
  assumes "a \<noteq> b"
  shows "x25519 tag_crypto (replicate 32 a) (x25519_public tag_crypto (replicate 32 b)) \<noteq> replicate 32 0"
proof -
  have "a XOR b \<noteq> 0"
  proof
    assume z: "a XOR b = 0"
    have "a = (a XOR b) XOR b" by (simp add: xor.assoc)
    with z assms show False by simp
  qed
  then show ?thesis by (simp add: tag_crypto_def pad32_def zip_replicate)
qed

lemma sample_nonzero: "nonzero_secrets tag_crypto (replicate 32 2) (replicate 32 1) (sample_entropy 3) (sample_entropy 4)"
  unfolding nonzero_secrets_def sample_entropy_def by (simp add: xor_pad_nonzero)

text \<open>C14. No peer can make the handshake panic: whatever bytes arrive, in whatever fragments, whatever the
  cryptographic primitives and the ZAP handler return, the handshake ends with a result or an
  error, for every mechanism, role and option.\<close>

theorem handshake_never_panics:
  "fst (perform_handshake_with_options cr ent zap st ident timeout opts stream) \<noteq> HPanic"
proof -
  have "no_panic (perform_handshake_with_options cr ent zap st ident timeout opts)"
    unfolding perform_handshake_with_options_def
    by (intro no_panic_handshake no_panic_bind no_panic_run_curve no_panic_basic)
  then show ?thesis by (simp add: no_panic_def)
qed


lemma sample_server_run:
  obtains res sv' st st' where "curve_server_handshake tag_crypto (sample_entropy 4) (curve_server_new tag_crypto (sample_entropy 4)
      (keypair_from_keys (x25519_public tag_crypto (replicate 32 1)) (replicate 32 1)) (lit ''ROUTER'')) None st = (HOk (res, sv'), st')"
    "cr_peer_key res = Some (x25519_public tag_crypto (replicate 32 2))"
proof -
  have l: "length (utf8_encode (lit ''DEALER'')) \<le> 255" "length (utf8_encode (lit ''ROUTER'')) \<le> 255"
    by (simp_all add: utf8_encode_ascii)
  obtain co so sv' where s: "hs_does (curve_server_handshake tag_crypto (sample_entropy 4) (curve_server_new tag_crypto (sample_entropy 4)
      (keypair_from_keys (x25519_public tag_crypto (replicate 32 1)) (replicate 32 1)) (lit ''ROUTER'')) None) co so
      (\<lparr>cr_peer_type = utf8_encode (lit ''DEALER''), cr_peer_identity = nonempty_identity None, cr_peer_key = Some (x25519_public tag_crypto (replicate 32 2)),
        cr_cipher = Some (new_server (session_key tag_crypto (replicate 32 2) (replicate 32 1) (sample_entropy 3) (sample_entropy 4)) 1 1)\<rparr>, sv')"
    using curve_exchange [OF tag_crypto_laws _ sample_honest sample_honest sample_nonzero l, of None None] by (metis option.distinct(1))
  let ?st = "\<lparr>hs_in = co, hs_later = [], hs_out = [], hs_quota = length so\<rparr>"
  have "hs_all ?st = co @ [] \<and> length so \<le> hs_quota ?st" by (simp add: hs_all_def)
  with s show ?thesis unfolding hs_does_def by (metis that curve_result.select_convs(3))
qed


text \<open>C22. A CURVE server with a ZAP domain admits a client only on an explicit ZAP success: the
  endpoint was reachable, and the handler answered the request about exactly the authenticated
  client key with a reply that decodes, has status 200 and carries the request's id.\<close>

theorem curve_zap_admission:
  assumes "curve_server_handshake_zap cr ent zap kp domain timeout address sst st = (HOk res, st')"
  shows "\<exists>rid io k frames r. zap = Some (rid, io) \<and> cr_peer_key res = Some k \<and>
    io (zap_request_encode (zap_request_new rid domain address [] ZapCurve [k])) = ZapRecvFrames frames \<and>
    zap_response_decode frames = Inr r \<and> rs_status_code r = ZapSuccess \<and> rs_request_id r = rid"
proof -
  from assms obtain k r where k: "cr_peer_key res = Some k" and d: "zap_curve_decision zap k domain address = Inr r"
    and s: "rs_status_code r = ZapSuccess"
  proof -
    from assms obtain res0 k st1 where a: "cr_peer_key res0 = Some k"
      "(case zap_curve_decision zap k domain address of Inl _ \<Rightarrow> hs_error AuthenticationFailed
        | Inr r \<Rightarrow> if rs_status_code r = ZapSuccess then hs_return res0
            else hs_bind (send_zmtp_error (rs_status_text r)) (\<lambda>_. hs_error AuthenticationFailed)) st1 = (HOk res, st')"
      by (auto simp: curve_server_handshake_zap_def accept_simps)
    then show ?thesis
      using that [of k] by (cases "zap_curve_decision zap k domain address") (auto simp: accept_simps split: if_splits)
  qed
  from d obtain rid io where z: "zap = Some (rid, io)"
    by (auto simp: zap_curve_decision_def split: option.splits)
  with d have "zap_authenticate (zap_request_new rid domain address [] ZapCurve [k])
      (io (zap_request_encode (zap_request_new rid domain address [] ZapCurve [k]))) = Inr r"
    by (simp add: zap_curve_decision_def authenticate_curve_def)
  from zap_authenticate_success [OF this s] z k s show ?thesis
    by (auto simp: zap_request_new_def)
qed

theorem curve_zap_admission_witness:
  "\<exists>r. zap_response_decode (zap_response_encode (zap_response_success (lit ''1'') (lit ''u''))) = Inr r \<and> rs_status_code r = ZapSuccess"
proof -
  let ?io = "\<lambda>_ :: bytes list. ZapRecvFrames (zap_response_encode (zap_response_success (lit ''1'') (lit ''u'')))"
  have z: "zap_response_decode (zap_response_encode (zap_response_success (lit ''1'') (lit ''u''))) =
      Inr (zap_response_success (lit ''1'') (lit ''u''))"
    by (rule zap_response_roundtrip)
      (simp add: ok_response_def zap_response_success_def wf_str_def scalar_value_def utf8_encode_ascii)
  then have d: "zap_curve_decision (Some (lit ''1'', ?io)) k [] [] = Inr (zap_response_success (lit ''1'') (lit ''u''))" for k
    by (simp add: zap_curve_decision_def authenticate_curve_def zap_authenticate_def
        zap_request_new_def zap_response_success_def)
  obtain res sv' st st' where r: "curve_server_handshake tag_crypto (sample_entropy 4) (curve_server_new tag_crypto (sample_entropy 4)
      (keypair_from_keys (x25519_public tag_crypto (replicate 32 1)) (replicate 32 1)) (lit ''ROUTER'')) None st = (HOk (res, sv'), st')"
    "cr_peer_key res = Some (x25519_public tag_crypto (replicate 32 2))"
    by (rule sample_server_run)
  have "rs_status_code (zap_response_success (lit ''1'') (lit ''u'')) = ZapSuccess" by (simp add: zap_response_success_def)
  with r d have "curve_server_handshake_zap tag_crypto (sample_entropy 4) (Some (lit ''1'', ?io))
      (keypair_from_keys (x25519_public tag_crypto (replicate 32 1)) (replicate 32 1)) [] None [] (lit ''ROUTER'') st = (HOk res, st')"
    unfolding curve_server_handshake_zap_def
    by (simp only: hs_bind_HOk case_prod_conv hs_silent_eqs hs_bind_return sum.case if_True simp_thms hs_simps)
  from curve_zap_admission [OF this] show ?thesis by auto
qed

text \<open>The message methods of the handshake objects never succeed: before the handshake the
  message box is absent, and a completed handshake moves it into the returned cipher, so that
  \<open>encrypt_message\<close> fails with a protocol violation on every client and server the API can produce, and
  \<open>decrypt_message\<close> yields no plaintext.\<close>

theorem handshake_objects_cannot_encrypt:
  "client_encrypt_message cr (curve_client_new cr ent kp sp st ident) pt = (Inl ProtocolViolation, curve_client_new cr ent kp sp st ident) \<and>
   (curve_client_handshake cr ent cl timeout stream = (HOk (res, cl'), stream') \<longrightarrow>
      client_encrypt_message cr cl' pt = (Inl ProtocolViolation, cl') \<and>
      (\<forall>m. \<exists>e. client_decrypt_message cr cl' m = Some (Inl e, cl'))) \<and>
   (curve_server_handshake cr ent sv timeout stream = (HOk (res, sv'), stream') \<longrightarrow>
      server_encrypt_message cr sv' pt = (Inl ProtocolViolation, sv') \<and>
      (\<forall>m. \<exists>e. server_decrypt_message cr sv' m = Some (Inl e, sv')))"
proof -
  have c: "\<exists>e. client_decrypt_message cr x m = Some (Inl e, x)" if "cl_message_box x = None" for x m
    using that parse_curve_message_total [of m] by (auto simp: client_decrypt_message_def split: sum.splits)
  have s: "\<exists>e. server_decrypt_message cr x m = Some (Inl e, x)" if "sv_message_box x = None" for x m
    using that parse_curve_message_total [of m] by (auto simp: server_decrypt_message_def split: sum.splits)
  have "cl_message_box cl' = None" if "curve_client_handshake cr ent cl timeout stream = (HOk (res, cl'), stream')"
    using that unfolding curve_client_handshake_def accept_simps Let_def hs_return_def by auto
  moreover have "sv_message_box sv' = None" if "curve_server_handshake cr ent sv timeout stream = (HOk (res, sv'), stream')"
    using that unfolding curve_server_handshake_def accept_simps Let_def hs_return_def by auto
  ultimately show ?thesis
    using c s by (auto simp: client_encrypt_message_def server_encrypt_message_def curve_client_new_def)
qed

theorem handshake_objects_cannot_encrypt_witness:
  "\<exists>stream res sv' stream'. curve_server_handshake tag_crypto (sample_entropy 4) (curve_server_new tag_crypto (sample_entropy 4)
      (keypair_from_keys (x25519_public tag_crypto (replicate 32 1)) (replicate 32 1)) (lit ''ROUTER'')) None stream = (HOk (res, sv'), stream') \<and>
    server_encrypt_message tag_crypto sv' [1] = (Inl ProtocolViolation, sv')"
proof -
  obtain res sv' st st' where "curve_server_handshake tag_crypto (sample_entropy 4) (curve_server_new tag_crypto (sample_entropy 4)
      (keypair_from_keys (x25519_public tag_crypto (replicate 32 1)) (replicate 32 1)) (lit ''ROUTER'')) None st = (HOk (res, sv'), st')"
    by (rule sample_server_run)
  with handshake_objects_cannot_encrypt [of tag_crypto "sample_entropy 4" _ _ _ _ "[1]"] show ?thesis by blast
qed

end
