(* ===== verification/Reconnect.thy ===== *)
theory Reconnect
  imports Socket_Options
begin

text \<open>
  \<open>monocoque-core/src/reconnect.rs\<close>: the exponential back-off of a reconnecting socket.
  The delays of successive attempts have a closed form, stay between the base and the
  maximum interval, never decrease, and agree with the stateless
  \<open>SocketOptions::next_reconnect_ivl\<close> exactly where the maximum is zero or above the base.
\<close>

section \<open>Model\<close>

record reconnect_state =
  base_interval :: duration
  max_interval :: duration
  attempt :: nat
  current_interval :: duration

definition reconnect_new :: "socket_options \<Rightarrow> reconnect_state" where
  "reconnect_new opts =
     \<lparr>base_interval = opt_reconnect_ivl opts, max_interval = opt_reconnect_ivl_max opts,
      attempt = 0, current_interval = opt_reconnect_ivl opts\<rparr>"

text \<open>\<open>None\<close> is the overflow panic of \<open>self.attempt += 1\<close> on the \<open>u32\<close> counter.\<close>

definition next_delay :: "reconnect_state \<Rightarrow> (duration \<times> reconnect_state) option" where
  "next_delay s =
     (if u32_max < attempt s + 1 then None
      else let delay = current_interval s; s1 = s\<lparr>attempt := attempt s + 1\<rparr> in
        Some (delay,
          if max_interval s1 = 0 \<or> max_interval s1 \<le> base_interval s1
          then s1\<lparr>current_interval := base_interval s1\<rparr>
          else s1\<lparr>current_interval :=
                 min (case checked_mul (base_interval s1) (2 ^ min (attempt s1) 10) of
                        Some d \<Rightarrow> d | None \<Rightarrow> max_interval s1) (max_interval s1)\<rparr>))"

definition reconnect_reset :: "reconnect_state \<Rightarrow> reconnect_state" where
  "reconnect_reset s = s\<lparr>attempt := 0, current_interval := base_interval s\<rparr>"

text \<open>The delays of \<open>n\<close> successive failed attempts.\<close>

fun next_delays :: "nat \<Rightarrow> reconnect_state \<Rightarrow> (duration list \<times> reconnect_state) option" where
  "next_delays 0 s = Some ([], s)"
| "next_delays (Suc n) s =
     do { (d, s1) \<leftarrow> next_delay s; (ds, s2) \<leftarrow> next_delays n s1; Some (d # ds, s2) }"

section \<open>Closed form\<close>

definition backoff :: "duration \<Rightarrow> duration \<Rightarrow> nat \<Rightarrow> duration" where
  "backoff b m k = (if m \<le> b then b else min (b * 2 ^ min k 10) m)"

definition reconnect_inv :: "reconnect_state \<Rightarrow> bool" where
  "reconnect_inv s \<longleftrightarrow> max_interval s \<le> duration_max \<and>
     current_interval s = backoff (base_interval s) (max_interval s) (attempt s)"

lemma backoff_0: "backoff b m 0 = b"
  by (simp add: backoff_def)

lemma backoff_mono: "j \<le> k \<Longrightarrow> backoff b m j \<le> backoff b m k"
proof -
  assume "j \<le> k"
  then have "b * 2 ^ min j 10 \<le> b * 2 ^ min k 10"
    by (intro mult_le_mono2 power_increasing) auto
  then have "min (b * 2 ^ min j 10) m \<le> min (b * 2 ^ min k 10) m"
    by (rule min.mono) simp
  then show ?thesis by (simp only: backoff_def) simp
qed

lemma backoff_bounds: "b \<le> backoff b m k" "backoff b m k \<le> max b m"
  by (auto simp: backoff_def le_max_iff_disj)

lemma reconnect_inv_new:
  "opt_reconnect_ivl_max opts \<le> duration_max \<Longrightarrow> reconnect_inv (reconnect_new opts)"
  by (simp add: reconnect_inv_def reconnect_new_def backoff_0)

lemma reconnect_inv_reset: "reconnect_inv s \<Longrightarrow> reconnect_inv (reconnect_reset s)"
  by (simp add: reconnect_inv_def reconnect_reset_def backoff_0)

lemma next_delay_step:
  assumes "reconnect_inv s" and "attempt s < u32_max"
  shows "next_delay s = Some (backoff (base_interval s) (max_interval s) (attempt s),
    s\<lparr>attempt := Suc (attempt s),
      current_interval := backoff (base_interval s) (max_interval s) (Suc (attempt s))\<rparr>)"
proof -
  have "min (case checked_mul (base_interval s) k of
          Some d \<Rightarrow> d | None \<Rightarrow> max_interval s) (max_interval s)
        = min (base_interval s * k) (max_interval s)" for k
    using assms(1) by (auto simp: checked_mul_def reconnect_inv_def)
  then show ?thesis
    using assms unfolding next_delay_def reconnect_inv_def backoff_def Let_def
    by (simp cong: option.case_cong)
qed

lemma next_delays_closed:
  assumes "reconnect_inv s" and "attempt s + n \<le> u32_max"
  shows "\<exists>s'. next_delays n s = Some
     (map (backoff (base_interval s) (max_interval s)) [attempt s ..< attempt s + n], s')
     \<and> base_interval s' = base_interval s \<and> max_interval s' = max_interval s"
  using assms
proof (induction n arbitrary: s)
  case 0
  then show ?case by simp
next
  case (Suc n)
  let ?s1 = "s\<lparr>attempt := Suc (attempt s),
      current_interval := backoff (base_interval s) (max_interval s) (Suc (attempt s))\<rparr>"
  have "reconnect_inv ?s1" "attempt ?s1 + n \<le> u32_max"
    using Suc.prems by (simp_all add: reconnect_inv_def)
  from Suc.IH [OF this] next_delay_step [OF Suc.prems(1)] Suc.prems(2) show ?case
    by (auto simp: upt_conv_Cons simp del: upt_Suc)
qed

lemma next_reconnect_ivl_backoff:
  assumes "opt_reconnect_ivl_max opts \<le> duration_max" and "k \<le> 10"
    and "opt_reconnect_ivl_max opts = 0 \<or> opt_reconnect_ivl opts < opt_reconnect_ivl_max opts"
  shows "next_reconnect_ivl opts k = backoff (opt_reconnect_ivl opts) (opt_reconnect_ivl_max opts) k"
proof -
  have "(2 :: nat) ^ k \<le> 2 ^ 10" using assms(2) by (intro power_increasing) auto
  then have "saturating_pow2 k = 2 ^ k" by (simp add: saturating_pow2_def u32_max_def)
  with assms show ?thesis
    by (auto simp: next_reconnect_ivl_def backoff_def saturating_mul_def)
qed

text \<open>C34. The delays of \<open>n\<close> successive attempts of a fresh \<open>ReconnectState\<close> never panic
  (below the \<open>u32\<close> limit of the counter) and are the closed form
  \<open>min (base * 2^min(k,10)) max\<close>, or constantly the base interval when the maximum is zero
  or not above the base. They never decrease, they stay between the base and the maximum,
  a reset gives the fresh state back, and where the maximum is zero or above the base the
  first eleven delays are those of the stateless \<open>SocketOptions::next_reconnect_ivl\<close>.\<close>

theorem reconnect_delays:
  assumes "opt_reconnect_ivl_max opts \<le> duration_max" and "n \<le> u32_max"
  shows "\<exists>ds s'. next_delays n (reconnect_new opts) = Some (ds, s') \<and>
    ds = map (\<lambda>k. if opt_reconnect_ivl_max opts \<le> opt_reconnect_ivl opts then opt_reconnect_ivl opts
                   else min (opt_reconnect_ivl opts * 2 ^ min k 10) (opt_reconnect_ivl_max opts)) [0..<n] \<and>
    sorted ds \<and>
    (\<forall>d \<in> set ds. opt_reconnect_ivl opts \<le> d \<and>
        d \<le> max (opt_reconnect_ivl opts) (opt_reconnect_ivl_max opts)) \<and>
    reconnect_reset s' = reconnect_new opts \<and>
    (opt_reconnect_ivl_max opts = 0 \<or> opt_reconnect_ivl opts < opt_reconnect_ivl_max opts \<longrightarrow>
       n \<le> 11 \<longrightarrow> ds = map (next_reconnect_ivl opts) [0..<n])"
proof -
  let ?b = "opt_reconnect_ivl opts" and ?m = "opt_reconnect_ivl_max opts"
  let ?ds = "map (backoff ?b ?m) [0..<n]"
  have new: "base_interval (reconnect_new opts) = ?b" "max_interval (reconnect_new opts) = ?m"
    "attempt (reconnect_new opts) = 0" by (simp_all add: reconnect_new_def)
  obtain s' where s': "next_delays n (reconnect_new opts) = Some (?ds, s')"
    and b: "base_interval s' = ?b" and m: "max_interval s' = ?m"
    using next_delays_closed [OF reconnect_inv_new [OF assms(1)], of n] assms(2) new by auto
  have "reconnect_reset s' = reconnect_new opts"
    using b m by (cases s') (simp add: reconnect_reset_def reconnect_new_def)
  moreover have "sorted ?ds"
    by (simp add: sorted_iff_nth_mono backoff_mono)
  moreover have "\<forall>d \<in> set ?ds. ?b \<le> d \<and> d \<le> max ?b ?m"
    using backoff_bounds by auto
  moreover have "?ds = map (next_reconnect_ivl opts) [0..<n]"
    if "?m = 0 \<or> ?b < ?m" "n \<le> 11"
    using that assms(1) by (auto simp: next_reconnect_ivl_backoff)
  ultimately show ?thesis
    using s' by (intro exI [of _ ?ds] exI [of _ s']) (simp add: backoff_def [abs_def])
qed

theorem reconnect_delays_witness:
  "\<exists>ds s'. next_delays 5 (reconnect_new
       (socket_options_default\<lparr>opt_reconnect_ivl := 100, opt_reconnect_ivl_max := 500\<rparr>)) = Some (ds, s') \<and>
     ds = [100, 200, 400, 500, 500]"
  using reconnect_delays [of "socket_options_default\<lparr>opt_reconnect_ivl := 100,
      opt_reconnect_ivl_max := 500\<rparr>" 5]
  by (auto simp: duration_max_def SEC_def u32_max_def upt_rec)

text \<open>
  The two back-off computations of the library differ when the maximum is positive but not
  above the base: the stateful one holds at the base interval, the stateless one returns
  the maximum.
\<close>

lemma next_reconnect_ivl_diverges:
  assumes "0 < opt_reconnect_ivl_max opts" and "opt_reconnect_ivl_max opts < opt_reconnect_ivl opts"
    and "opt_reconnect_ivl opts \<le> duration_max"
  shows "next_reconnect_ivl opts 0 = opt_reconnect_ivl_max opts"
    and "map_option fst (next_delay (reconnect_new opts)) = Some (opt_reconnect_ivl opts)"
  using assms
  by (simp_all add: next_reconnect_ivl_def saturating_mul_def saturating_pow2_def u32_max_def
      next_delay_def reconnect_new_def Let_def)

end
