(* ===== verification/Socket_Base.thy ===== *)
theory Socket_Base
  imports Curve_Handshake Reconnect
begin

text \<open>
  \<open>monocoque-zmtp/src/base.rs\<close>, with \<open>poison.rs\<close> and the endpoint type of \<open>endpoint.rs\<close>: the
  state every socket type is built on, and its operations. The transport answers each read and
  write with an outcome the environment chooses; a write that does not complete may have put any
  number of its bytes on the wire, and a call may be dropped at any suspension point. The stream
  is the list of bytes this socket has put on the current connection since its handshake, so the
  theorems can speak about what the peer sees: an unpoisoned socket has written whole frames, and
  after a torn frame nothing more is written until the socket reconnects.
\<close>

section \<open>Asynchronous I/O\<close>

text \<open>
  The outcome of a read (an empty read is end of file) and of a write; the number is how many
  bytes the transport took before the failure. A read or write that stalls never completes: it
  ends with the configured timeout, or, without one, when the call is dropped.
\<close>

datatype read_outcome = ReadBytes bytes | ReadFails io_error_kind | ReadStalls | ReadDropped

datatype write_outcome = Written | WriteFails io_error_kind nat | WriteStalls nat | WriteDropped nat

text \<open>What a call ends with; \<open>IoDropped\<close> is a future dropped before it completed.\<close>

datatype 'a io_out = IoOk 'a | IoErr io_error_kind | IoDropped | IoPanic

text \<open>The n-th reading of the clock is \<open>env_clock n\<close>, in nanoseconds.\<close>

record io_env =
  env_reads :: "read_outcome list"
  env_writes :: "write_outcome list"
  env_clock :: "nat \<Rightarrow> int"
  env_tick :: nat

type_synonym ('s, 'a) aio = "'s \<Rightarrow> io_env \<Rightarrow> 'a io_out \<times> 's \<times> io_env"

definition aio_return :: "'a \<Rightarrow> ('s, 'a) aio" where
  "aio_return x s e = (IoOk x, s, e)"

definition aio_fail :: "io_error_kind \<Rightarrow> ('s, 'a) aio" where
  "aio_fail k s e = (IoErr k, s, e)"

text \<open>The \<open>?\<close> operator: everything but success ends the calling function.\<close>

definition aio_bind :: "('s, 'a) aio \<Rightarrow> ('a \<Rightarrow> ('s, 'b) aio) \<Rightarrow> ('s, 'b) aio" where
  "aio_bind m f s e =
     (case m s e of
        (IoOk x, s1, e1) \<Rightarrow> f x s1 e1
      | (IoErr k, s1, e1) \<Rightarrow> (IoErr k, s1, e1)
      | (IoDropped, s1, e1) \<Rightarrow> (IoDropped, s1, e1)
      | (IoPanic, s1, e1) \<Rightarrow> (IoPanic, s1, e1))"

definition pop_read :: "io_env \<Rightarrow> read_outcome \<times> io_env" where
  "pop_read e = (case env_reads e of [] \<Rightarrow> (ReadDropped, e) | r # rs \<Rightarrow> (r, e\<lparr>env_reads := rs\<rparr>))"

definition pop_write :: "io_env \<Rightarrow> write_outcome \<times> io_env" where
  "pop_write e = (case env_writes e of [] \<Rightarrow> (WriteDropped 0, e) | w # ws \<Rightarrow> (w, e\<lparr>env_writes := ws\<rparr>))"

definition instant_now :: "io_env \<Rightarrow> int \<times> io_env" where
  "instant_now e = (env_clock e (env_tick e), e\<lparr>env_tick := Suc (env_tick e)\<rparr>)"

text \<open>\<open>Instant::duration_since\<close> saturates at zero; \<open>checked_sub\<close> fails below the least instant.\<close>

definition duration_since :: "int \<Rightarrow> int \<Rightarrow> duration" where
  "duration_since now earlier = nat (now - earlier)"

definition instant_checked_sub :: "int \<Rightarrow> duration \<Rightarrow> int option" where
  "instant_checked_sub now d =
     (if - (2 ^ 63 * int SEC) \<le> now - int d then Some (now - int d) else None)"

section \<open>Heartbeat frames\<close>

definition PING_CMD :: bytes where
  "PING_CMD = 4 # blit ''PING''"

definition PONG_CMD :: bytes where
  "PONG_CMD = 4 # blit ''PONG''"

definition build_ping_frame :: "nat \<Rightarrow> bytes" where
  "build_ping_frame ttl_tenths = encode_frame FLAG_COMMAND (PING_CMD @ be_bytes 2 ttl_tenths)"

definition build_pong_frame :: bytes where
  "build_pong_frame = encode_frame FLAG_COMMAND PONG_CMD"

definition is_ping_payload :: "bytes \<Rightarrow> bool" where
  "is_ping_payload p \<longleftrightarrow> starts_with p PING_CMD \<and> length p - length PING_CMD \<le> 18"

definition is_pong_payload :: "bytes \<Rightarrow> bool" where
  "is_pong_payload p \<longleftrightarrow> starts_with p PONG_CMD \<and> length p - length PONG_CMD \<le> 16"

section \<open>SocketBase\<close>

text \<open>\<open>endpoint.rs: Endpoint\<close>; a TCP address and a path are kept in their printed form.\<close>

datatype endpoint = TcpEndpoint str | IpcEndpoint str | InprocEndpoint str

fun endpoint_to_string :: "endpoint \<Rightarrow> str" where
  "endpoint_to_string (TcpEndpoint addr) = lit ''tcp://'' @ addr"
| "endpoint_to_string (IpcEndpoint path) = lit ''ipc://'' @ path"
| "endpoint_to_string (InprocEndpoint name) = lit ''inproc://'' @ name"

text \<open>
  \<open>sb_stream\<close> is \<open>Some w\<close> on an open connection, \<open>w\<close> the bytes put on it after its handshake.
  The buffers \<open>read_buf\<close> and \<open>iov\<close> only carry capacity from one call to the next.
\<close>

record socket_base =
  sb_stream :: "bytes option"
  sb_endpoint :: "endpoint option"
  sb_reconnect :: "reconnect_state option"
  sb_decoder :: zmtp_decoder
  sb_recv :: segbuf
  sb_write_buf :: bytes
  sb_send_buffer :: bytes
  sb_options :: socket_options
  sb_last_endpoint :: "str option"
  sb_is_poisoned :: bool
  sb_buffered_messages :: nat
  sb_last_recv_instant :: "int option"
  sb_ping_sent_at :: "int option"
  sb_awaiting_pong :: bool
  sb_curve_cipher :: "message_cipher option"

type_synonym 'a base_op = "(socket_base, 'a) aio"

definition decoder_for :: "socket_options \<Rightarrow> zmtp_decoder" where
  "decoder_for opts =
     (case opt_max_msg_size opts of Some m \<Rightarrow> decoder_with_max_frame_size m | None \<Rightarrow> decoder_new)"

definition base_new :: "socket_options \<Rightarrow> socket_base" where
  "base_new opts =
     \<lparr>sb_stream = Some [], sb_endpoint = None, sb_reconnect = None, sb_decoder = decoder_for opts,
      sb_recv = seg_new, sb_write_buf = [], sb_send_buffer = [], sb_options = opts,
      sb_last_endpoint = None, sb_is_poisoned = False, sb_buffered_messages = 0,
      sb_last_recv_instant = None, sb_ping_sent_at = None, sb_awaiting_pong = False,
      sb_curve_cipher = None\<rparr>"

definition base_with_endpoint :: "endpoint \<Rightarrow> socket_options \<Rightarrow> socket_base" where
  "base_with_endpoint ep opts =
     \<lparr>sb_stream = Some [], sb_endpoint = Some ep, sb_reconnect = Some (reconnect_new opts),
      sb_decoder = decoder_for opts, sb_recv = seg_new, sb_write_buf = [], sb_send_buffer = [],
      sb_options = opts, sb_last_endpoint = Some (endpoint_to_string ep), sb_is_poisoned = False,
      sb_buffered_messages = 0, sb_last_recv_instant = None, sb_ping_sent_at = None,
      sb_awaiting_pong = False, sb_curve_cipher = None\<rparr>"

definition is_connected :: "socket_base \<Rightarrow> bool" where
  "is_connected s \<longleftrightarrow> sb_stream s \<noteq> None"

definition base_set_options :: "socket_options \<Rightarrow> socket_base \<Rightarrow> socket_base" where
  "base_set_options opts s =
     s\<lparr>sb_decoder := set_max_body_len (sb_decoder s) (opt_max_msg_size opts), sb_options := opts\<rparr>"

definition hwm_reached :: "socket_base \<Rightarrow> bool" where
  "hwm_reached s \<longleftrightarrow> opt_send_hwm (sb_options s) \<noteq> 0 \<and> opt_send_hwm (sb_options s) \<le> sb_buffered_messages s"

definition base_has_more :: "socket_base \<Rightarrow> bool" where
  "base_has_more s = decoder_has_more (sb_decoder s)"

definition POLLIN :: nat where
  "POLLIN = 1"

definition POLLOUT :: nat where
  "POLLOUT = 2"

definition base_events :: "socket_base \<Rightarrow> nat" where
  "base_events s =
     (let e0 = 0;
          e1 = (if is_connected s \<and> \<not> sb_is_poisoned s then or e0 POLLIN else e0)
      in if is_connected s \<and> \<not> hwm_reached s \<and> \<not> sb_is_poisoned s then or e1 POLLOUT else e1)"

subsection \<open>Heartbeats\<close>

definition note_recv :: "unit base_op" where
  "note_recv s e =
     (if opt_heartbeat_ivl (sb_options s) \<noteq> None
      then (let (now, e1) = instant_now e in (IoOk (), s\<lparr>sb_last_recv_instant := Some now\<rparr>, e1))
      else (IoOk (), s, e))"

definition note_pong_received :: "socket_base \<Rightarrow> socket_base" where
  "note_pong_received s =
     (if sb_awaiting_pong s then s\<lparr>sb_awaiting_pong := False, sb_ping_sent_at := None\<rparr> else s)"

text \<open>The instant since which the connection counts as idle; \<open>None\<close> is the overflow panic of \<open>ivl + ivl\<close>.\<close>

definition idle_since :: "socket_base \<Rightarrow> int \<Rightarrow> duration \<Rightarrow> int option" where
  "idle_since s now ivl =
     (case sb_last_recv_instant s of
        Some t \<Rightarrow> Some t
      | None \<Rightarrow>
          if duration_max < ivl + ivl then None
          else Some (case instant_checked_sub now (ivl + ivl) of Some t \<Rightarrow> t | None \<Rightarrow> now))"

definition ttl_tenths :: "duration \<Rightarrow> nat" where
  "ttl_tenths d = min (d div MILLI div 100) 65535"

definition check_heartbeat :: "bool base_op" where
  "check_heartbeat s e =
     (case opt_heartbeat_ivl (sb_options s) of
        None \<Rightarrow> (IoOk False, s, e)
      | Some ivl \<Rightarrow>
          (let (now, e1) = instant_now e in
           if sb_awaiting_pong s
           then (case sb_ping_sent_at s of
                   Some ping_at \<Rightarrow>
                     if (case opt_heartbeat_timeout (sb_options s) of Some t \<Rightarrow> t | None \<Rightarrow> ivl)
                          < duration_since now ping_at
                     then (IoErr TimedOut,
                           s\<lparr>sb_stream := None, sb_awaiting_pong := False, sb_ping_sent_at := None\<rparr>, e1)
                     else (IoOk False, s, e1)
                 | None \<Rightarrow> (IoOk False, s, e1))
           else (case idle_since s now ivl of
                   None \<Rightarrow> (IoPanic, s, e1)
                 | Some idle \<Rightarrow>
                     if ivl \<le> duration_since now idle
                     then (let ttl = (case opt_heartbeat_ttl (sb_options s) of Some t \<Rightarrow> t | None \<Rightarrow> ivl) in
                       (IoOk True,
                        s\<lparr>sb_send_buffer := sb_send_buffer s @ build_ping_frame (ttl_tenths ttl),
                          sb_ping_sent_at := Some now, sb_awaiting_pong := True\<rparr>, e1))
                     else (IoOk False, s, e1))))"

subsection \<open>Reading\<close>

definition read_raw :: "nat base_op" where
  "read_raw s e =
     (if sb_stream s = None then (IoErr NotConnected, s, e)
      else if opt_recv_timeout (sb_options s) = Some 0 then (IoErr WouldBlock, s, e)
      else case pop_read e of
        (ReadDropped, e1) \<Rightarrow> (IoDropped, s, e1)
      | (ReadStalls, e1) \<Rightarrow>
          (if opt_recv_timeout (sb_options s) = None then IoDropped else IoErr TimedOut, s, e1)
      | (ReadFails k, e1) \<Rightarrow> (IoErr k, s, e1)
      | (ReadBytes bs, e1) \<Rightarrow>
          if bs = [] then (IoOk 0, s\<lparr>sb_stream := None\<rparr>, e1)
          else aio_bind note_recv (\<lambda>_. aio_return (length bs)) (s\<lparr>sb_recv := seg_push (sb_recv s) bs\<rparr>) e1)"

subsection \<open>Writing\<close>

text \<open>
  The part the three writers share: the poison guard is armed (\<open>PoisonGuard::new\<close>), the bytes are
  written with the send timeout, a failure drops the stream, and only success disarms the guard.
\<close>

definition guarded_write :: "bytes \<Rightarrow> unit base_op" where
  "guarded_write bs s e =
     (case sb_stream s of
        None \<Rightarrow> (IoErr NotConnected, s, e)
      | Some w \<Rightarrow>
          (let p = s\<lparr>sb_is_poisoned := True\<rparr> in
           case pop_write e of
             (Written, e1) \<Rightarrow> (IoOk (), p\<lparr>sb_stream := Some (w @ bs), sb_is_poisoned := False\<rparr>, e1)
           | (WriteFails k n, e1) \<Rightarrow> (IoErr k, p\<lparr>sb_stream := None\<rparr>, e1)
           | (WriteStalls n, e1) \<Rightarrow>
               (if opt_send_timeout (sb_options s) = None then IoDropped else IoErr TimedOut,
                p\<lparr>sb_stream := Some (w @ take n bs)\<rparr>, e1)
           | (WriteDropped n, e1) \<Rightarrow> (IoDropped, p\<lparr>sb_stream := Some (w @ take n bs)\<rparr>, e1)))"

definition flush_send_buffer :: "unit base_op" where
  "flush_send_buffer s e =
     (if sb_send_buffer s = [] then (IoOk (), s, e)
      else if sb_is_poisoned s then (IoErr BrokenPipe, s, e)
      else if sb_stream s = None then (IoErr NotConnected, s, e)
      else if opt_send_timeout (sb_options s) = Some 0 then (IoErr WouldBlock, s, e)
      else aio_bind (guarded_write (sb_send_buffer s)) (\<lambda>_ s1. aio_return () (s1\<lparr>sb_buffered_messages := 0\<rparr>))
             (s\<lparr>sb_send_buffer := []\<rparr>) e)"

definition write_from_buf :: "unit base_op" where
  "write_from_buf s e =
     (if sb_is_poisoned s then (IoErr BrokenPipe, s, e)
      else if sb_stream s = None then (IoErr NotConnected, s, e)
      else if opt_send_timeout (sb_options s) = Some 0 then (IoErr WouldBlock, s, e)
      else guarded_write (sb_write_buf s) (s\<lparr>sb_write_buf := []\<rparr>) e)"

definition should_vectored_write :: "socket_base \<Rightarrow> bytes list \<Rightarrow> bool" where
  "should_vectored_write s msg =
     (if sb_curve_cipher s \<noteq> None then False
      else list_ex (\<lambda>frame. opt_vectored_write_threshold (sb_options s) \<le> length frame) msg)"

text \<open>The two loops of \<open>send_vectored\<close>; \<open>None\<close> is the panic of \<open>split_to\<close>.\<close>

fun vectored_headers :: "nat \<Rightarrow> nat \<Rightarrow> bytes list \<Rightarrow> bytes \<Rightarrow> bytes" where
  "vectored_headers lst i [] buf = buf"
| "vectored_headers lst i (frame # rest) buf =
     vectored_headers lst (Suc i) rest (fst (write_frame_header buf (length frame) (i < lst)))"

fun vectored_slices :: "bytes list \<Rightarrow> bytes \<Rightarrow> bytes list option" where
  "vectored_slices [] headers = Some []"
| "vectored_slices (frame # rest) headers =
     (let hlen = (if 256 \<le> length frame then 9 else 2) in
      if length headers < hlen then None
      else do { iov \<leftarrow> vectored_slices rest (drop hlen headers); Some (take hlen headers # frame # iov) })"

definition send_vectored :: "bytes list \<Rightarrow> unit base_op" where
  "send_vectored msg =
     (if msg = [] then aio_return ()
      else aio_bind (\<lambda>s. if sb_send_buffer s \<noteq> [] then flush_send_buffer s else aio_return () s) (\<lambda>_ s e.
        if sb_is_poisoned s then (IoErr BrokenPipe, s, e)
        else if opt_send_timeout (sb_options s) = Some 0 then (IoErr WouldBlock, s, e)
        else (let headers = vectored_headers (length msg - 1) 0 msg []; s1 = s\<lparr>sb_write_buf := []\<rparr> in
          case vectored_slices msg headers of
            None \<Rightarrow> (IoPanic, s1, e)
          | Some iovecs \<Rightarrow> guarded_write (concat iovecs) s1 e)))"

subsection \<open>Encoding messages\<close>

text \<open>The CURVE loop of the three encoders.\<close>

fun encrypt_parts ::
  "curve_crypto \<Rightarrow> message_cipher \<Rightarrow> nat \<Rightarrow> nat \<Rightarrow> bytes list \<Rightarrow> bytes \<Rightarrow> bool \<times> message_cipher \<times> bytes" where
  "encrypt_parts cr c lst i [] buf = (True, c, buf)"
| "encrypt_parts cr c lst i (frame # rest) buf =
     (case encrypt_frame cr c frame (i < lst) of
        (Inl _, c1) \<Rightarrow> (False, c1, buf)
      | (Inr body, c1) \<Rightarrow> encrypt_parts cr c1 lst (Suc i) rest (append_zmtp_cmd_frame buf body))"

definition encode_message ::
  "curve_crypto \<Rightarrow> message_cipher option \<Rightarrow> bytes list \<Rightarrow> bytes \<Rightarrow> bool \<times> message_cipher option \<times> bytes" where
  "encode_message cr cipher msg buf =
     (case cipher of
        Some c \<Rightarrow>
          (case encrypt_parts cr c (length msg - 1) 0 msg buf of (ok, c1, buf1) \<Rightarrow> (ok, Some c1, buf1))
      | None \<Rightarrow> (True, None, encode_multipart msg buf))"

definition encode_message_to_write_buf :: "curve_crypto \<Rightarrow> bytes list \<Rightarrow> unit base_op" where
  "encode_message_to_write_buf cr msg s e =
     (case encode_message cr (sb_curve_cipher s) msg [] of
        (ok, cipher, buf) \<Rightarrow>
          (if ok then IoOk () else IoErr InvalidData, s\<lparr>sb_curve_cipher := cipher, sb_write_buf := buf\<rparr>, e))"

definition encode_message_to_send_buf :: "curve_crypto \<Rightarrow> bytes list \<Rightarrow> unit base_op" where
  "encode_message_to_send_buf cr msg s e =
     (case encode_message cr (sb_curve_cipher s) msg (sb_send_buffer s) of
        (ok, cipher, buf) \<Rightarrow>
          (let s1 = s\<lparr>sb_curve_cipher := cipher, sb_send_buffer := buf\<rparr> in
           if ok then (IoOk (), s1\<lparr>sb_buffered_messages := sb_buffered_messages s1 + 1\<rparr>, e)
           else (IoErr InvalidData, s1, e)))"

definition send_coalesced :: "curve_crypto \<Rightarrow> bytes list \<Rightarrow> unit base_op" where
  "send_coalesced cr msg s e =
     (case encode_message cr (sb_curve_cipher s) msg (sb_send_buffer s) of
        (ok, cipher, buf) \<Rightarrow>
          (let s1 = s\<lparr>sb_curve_cipher := cipher, sb_send_buffer := buf\<rparr> in
           if \<not> ok then (IoErr InvalidData, s1, e)
           else if opt_write_coalesce_threshold (sb_options s1) \<le> length (sb_send_buffer s1)
           then flush_send_buffer s1 e else (IoOk (), s1, e)))"

definition encode_one_curve_coalesced :: "curve_crypto \<Rightarrow> message_cipher \<Rightarrow> bytes \<Rightarrow> bool base_op" where
  "encode_one_curve_coalesced cr c frame s e =
     (case encrypt_frame cr c frame False of
        (Inl _, c1) \<Rightarrow> (IoErr InvalidData, s\<lparr>sb_curve_cipher := Some c1\<rparr>, e)
      | (Inr body, c1) \<Rightarrow>
          (let buf = append_zmtp_cmd_frame (sb_send_buffer s) body in
           (IoOk (opt_write_coalesce_threshold (sb_options s) \<le> length buf),
            s\<lparr>sb_curve_cipher := Some c1, sb_send_buffer := buf\<rparr>, e)))"

definition encode_one_coalesced :: "curve_crypto \<Rightarrow> bytes \<Rightarrow> bool base_op" where
  "encode_one_coalesced cr frame s e =
     (case sb_curve_cipher s of
        None \<Rightarrow>
          (let buf = encode_single frame (sb_send_buffer s) in
           (IoOk (opt_write_coalesce_threshold (sb_options s) \<le> length buf), s\<lparr>sb_send_buffer := buf\<rparr>, e))
      | Some c \<Rightarrow> encode_one_curve_coalesced cr c frame s e)"

subsection \<open>Incoming frames\<close>

datatype frame_result = FData bool bytes | FCommandHandled | FNeedMore

definition process_frame :: "curve_crypto \<Rightarrow> frame_result base_op" where
  "process_frame cr s e =
     (case decode (sb_decoder s) (sb_recv s) of
        None \<Rightarrow> (IoPanic, s, e)
      | Some (r, d1, src1) \<Rightarrow>
          (let s1 = s\<lparr>sb_decoder := d1, sb_recv := src1\<rparr> in
           case r of
             Inl _ \<Rightarrow> (IoErr InvalidData, s1, e)
           | Inr None \<Rightarrow> (IoOk FNeedMore, s1, e)
           | Inr (Some frame) \<Rightarrow>
               if frame_is_command frame
               then (if sb_curve_cipher s1 \<noteq> None \<and> is_curve_message (payload frame)
                     then (case decrypt_frame cr (the (sb_curve_cipher s1)) (payload frame) of
                             None \<Rightarrow> (IoPanic, s1, e)
                           | Some (Inl _, c) \<Rightarrow> (IoErr InvalidData, s1\<lparr>sb_curve_cipher := Some c\<rparr>, e)
                           | Some (Inr (mo, p), c) \<Rightarrow> (IoOk (FData mo p), s1\<lparr>sb_curve_cipher := Some c\<rparr>, e))
                     else (let s2 = (if is_ping_payload (payload frame)
                                     then s1\<lparr>sb_send_buffer := sb_send_buffer s1 @ build_pong_frame\<rparr> else s1);
                               s3 = (if is_pong_payload (payload frame) then note_pong_received s2 else s2)
                           in (IoOk FCommandHandled, s3, e)))
               else if sb_curve_cipher s1 \<noteq> None then (IoErr InvalidData, s1, e)
               else (IoOk (FData (frame_more frame) (payload frame)), s1, e)))"

subsection \<open>Closing\<close>

text \<open>\<open>stream.shutdown()\<close> is answered like a write; it puts nothing on the wire.\<close>

definition shutdown_stream :: "unit base_op" where
  "shutdown_stream s e =
     (if sb_stream s = None then (IoOk (), s, e)
      else case pop_write e of
        (Written, e1) \<Rightarrow> (IoOk (), s\<lparr>sb_stream := None\<rparr>, e1)
      | (WriteFails k n, e1) \<Rightarrow> (IoErr k, s, e1)
      | (_, e1) \<Rightarrow> (IoDropped, s, e1))"

text \<open>A flush dropped under the linger timeout is the expiry of that timeout.\<close>

definition flush_lingering :: "duration option \<Rightarrow> unit base_op \<Rightarrow> unit base_op" where
  "flush_lingering linger discard s e =
     (case linger of
        Some d \<Rightarrow>
          if d = 0 then discard s e
          else (case flush_send_buffer s e of
                  (IoDropped, s1, e1) \<Rightarrow> (IoOk (), s1, e1)
                | r \<Rightarrow> r)
      | None \<Rightarrow> flush_send_buffer s e)"

definition base_close :: "unit base_op" where
  "base_close =
     aio_bind
       (\<lambda>s. if sb_send_buffer s \<noteq> [] \<and> sb_stream s \<noteq> None
            then flush_lingering (opt_linger (sb_options s))
                   (\<lambda>s. aio_return () (s\<lparr>sb_send_buffer := [], sb_buffered_messages := 0\<rparr>)) s
            else aio_return () s)
       (\<lambda>_. shutdown_stream)"

subsection \<open>Reconnecting\<close>

text \<open>\<open>None\<close> is the overflow panic of the \<open>u64\<close> addition; \<open>r\<close> is the draw of \<open>gen_range(0..=half_ns)\<close>.\<close>

definition jittered_backoff :: "duration \<Rightarrow> nat \<Rightarrow> duration option" where
  "jittered_backoff delay r =
     (if delay = 0 then Some 0
      else let half_ns = (delay div 2) mod 2 ^ 64 in checked_add half_ns (min r half_ns))"

text \<open>What the environment supplies to one reconnection: the random draw, the outcome of the TCP
  connect (the fresh connection with what the peer will send), the error of the socket options,
  and the entropy and ZAP handler of the handshake.\<close>

record reconnect_io =
  rc_random :: nat
  rc_connect :: "hs_stream io_out"
  rc_configure :: "io_error_kind option"
  rc_entropy :: curve_entropy
  rc_zap :: zap_environment

definition reconnect_backoff :: "nat \<Rightarrow> socket_base \<Rightarrow> (duration \<times> socket_base) option" where
  "reconnect_backoff r s =
     (case sb_reconnect s of
        None \<Rightarrow> Some (0, s)
      | Some rs \<Rightarrow> do {
          (base_delay, rs1) \<leftarrow> next_delay rs;
          delay \<leftarrow> jittered_backoff base_delay r;
          Some (delay, s\<lparr>sb_reconnect := Some rs1\<rparr>) })"

definition fresh_connection :: "message_cipher option \<Rightarrow> socket_base \<Rightarrow> socket_base" where
  "fresh_connection cipher s =
     s\<lparr>sb_curve_cipher := cipher, sb_stream := Some [], sb_is_poisoned := False, sb_recv := seg_new,
       sb_send_buffer := [], sb_buffered_messages := 0, sb_last_recv_instant := None,
       sb_ping_sent_at := None, sb_awaiting_pong := False,
       sb_reconnect := map_option reconnect_reset (sb_reconnect s)\<rparr>"

definition base_try_reconnect :: "curve_crypto \<Rightarrow> reconnect_io \<Rightarrow> socket_type \<Rightarrow> unit base_op" where
  "base_try_reconnect cr io st s e =
     (case sb_endpoint s of
        None \<Rightarrow> (IoErr Unsupported, s, e)
      | Some ep \<Rightarrow>
          (case reconnect_backoff (rc_random io) s of
             None \<Rightarrow> (IoPanic, s, e)
           | Some (_, s1) \<Rightarrow>
               (case ep of
                  IpcEndpoint _ \<Rightarrow> (IoErr Unsupported, s1, e)
                | InprocEndpoint _ \<Rightarrow> (IoErr Unsupported, s1, e)
                | TcpEndpoint _ \<Rightarrow>
                    (case rc_connect io of
                       IoErr k \<Rightarrow> (IoErr k, s1, e)
                     | IoDropped \<Rightarrow> (IoDropped, s1, e)
                     | IoPanic \<Rightarrow> (IoPanic, s1, e)
                     | IoOk conn \<Rightarrow>
                         (case rc_configure io of
                            Some k \<Rightarrow> (IoErr k, s1, e)
                          | None \<Rightarrow>
                              (case perform_handshake_with_options cr (rc_entropy io) (rc_zap io) st
                                      (opt_routing_id (sb_options s1)) (Some (opt_handshake_timeout (sb_options s1)))
                                      (sb_options s1) conn of
                                 (HErr _, _) \<Rightarrow> (IoErr OtherError, s1, e)
                               | (HPanic, _) \<Rightarrow> (IoPanic, s1, e)
                               | (HOk hr, _) \<Rightarrow> (IoOk (), fresh_connection (curve_cipher hr) s1, e)))))))"

section \<open>Whole frames\<close>

text \<open>A byte string that any decoder with a large enough limit splits into frames with nothing left.\<close>

definition frame_limit :: nat where
  "frame_limit = 2 ^ 63"

definition whole_frames :: "bytes \<Rightarrow> bool" where
  "whole_frames bs \<longleftrightarrow> snd (parse_frames frame_limit bs) = Inr []"

lemma whole_frames_Nil [simp]: "whole_frames []"
  by (simp add: whole_frames_def parse_frames.simps [of _ "[]"] parse_frame_def)

lemma whole_frames_append:
  assumes "whole_frames a"
  shows "whole_frames (a @ b) \<longleftrightarrow> whole_frames b"
proof -
  obtain fs where "parse_frames frame_limit a = (fs, Inr [])"
    using assms by (cases "parse_frames frame_limit a") (simp add: whole_frames_def)
  then have "parse_frames frame_limit (a @ b) = (let (gs, r) = parse_frames frame_limit b in (fs @ gs, r))"
    by (simp add: parse_frames_append [of _ a b])
  then show ?thesis by (simp add: whole_frames_def case_prod_beta)
qed

lemma whole_frames_wire:
  assumes "valid_flags fl" and "length p < 2 ^ 63"
  shows "whole_frames (wire fl p)"
  using wire_encode.parse_frames_enc [of "(fl, p)" frame_limit "[]"] assms whole_frames_Nil
  by (simp add: whole_frames_def case_prod_beta frame_limit_def)

lemma whole_frames_message:
  assumes "\<forall>p \<in> set msg. length p < 2 ^ 63"
  shows "whole_frames (wire_message msg)"
proof -
  have "\<forall>p \<in> set msg. length p \<le> frame_limit \<and> length p < 2 ^ 63" using assms by (fastforce simp: frame_limit_def)
  from parse_frames_message [OF this, of "[]"] whole_frames_Nil show ?thesis
    by (simp add: whole_frames_def case_prod_beta)
qed

lemma whole_frames_command:
  assumes "length body < 2 ^ 63"
  shows "whole_frames (encode_frame FLAG_COMMAND body)"
  using whole_frames_wire [of FLAG_COMMAND body] assms cmd_encode.enc_wire [of "(FLAG_COMMAND, body)"]
  by (simp add: FLAG_COMMAND_def valid_flags_def)

lemma append_zmtp_cmd_frame_eq: "append_zmtp_cmd_frame buf body = buf @ append_zmtp_cmd_frame [] body"
  by (simp add: append_zmtp_cmd_frame_def Let_def)

lemma whole_frames_curve:
  assumes "length body < 2 ^ 63"
  shows "whole_frames (append_zmtp_cmd_frame [] body)"
  using whole_frames_wire [of "0x04" body] assms curve_encode.enc_wire [of body] by (simp add: valid_flags_def)

text \<open>A prefix of whole frames parses without an error: the peer waits for the rest of the last frame.\<close>

lemma whole_frames_prefix:
  assumes "whole_frames (a @ b)"
  shows "\<exists>fs rest. parse_frames frame_limit a = (fs, Inr rest)"
proof -
  obtain fs r where p: "parse_frames frame_limit a = (fs, r)" by fastforce
  with assms show ?thesis
    by (cases r) (simp_all add: whole_frames_def parse_frames_append)
qed

lemma length_PING [simp]: "length PING_CMD = 5" and length_PONG [simp]: "length PONG_CMD = 5"
  by (simp_all add: PING_CMD_def PONG_CMD_def)

lemma whole_frames_ping: "whole_frames (build_ping_frame t)" and whole_frames_pong: "whole_frames build_pong_frame"
  by (simp_all add: build_ping_frame_def build_pong_frame_def whole_frames_command)

section \<open>Messages on the wire\<close>

text \<open>The parts a socket can encrypt in one piece.\<close>

definition sendable :: "bytes list \<Rightarrow> bool" where
  "sendable msg \<longleftrightarrow> (\<forall>p \<in> set msg. length p + 1 < 2 ^ 32)"

lemma sendable_simps [simp]: "sendable []" "sendable (p # msg) \<longleftrightarrow> length p + 1 < 2 ^ 32 \<and> sendable msg"
  by (auto simp: sendable_def)

lemma sendable_lengths: "sendable msg \<Longrightarrow> \<forall>p \<in> set msg. length p < 2 ^ 63"
  unfolding sendable_def by fastforce

lemma encrypt_frame_length:
  assumes "crypto_laws cr" "length p + 1 < 2 ^ 32" "encrypt_frame cr c p mf = (Inr body, c')"
  shows "length body < 2 ^ 63"
proof -
  let ?pt = "(if mf then 1 else 0) # p"
  have "length ct < 2 ^ 62" if "xchacha_seal cr k n ?pt = Some ct" for k n ct
    using crypto_lawsD(5) [OF assms(1), of ?pt k n] that assms(2) by auto
  with assms(3) show ?thesis
    by (fastforce simp: encrypt_frame_def Let_def box_encrypt_def simp del: be_bytes.simps split: option.splits)
qed

lemma encrypt_parts_whole:
  assumes "crypto_laws cr" "sendable msg" "encrypt_parts cr c l i msg buf = (ok, c', buf')"
  shows "\<exists>out. buf' = buf @ out \<and> whole_frames out"
  using assms(2,3)
proof (induction msg arbitrary: c i buf)
  case (Cons p msg)
  show ?case
  proof (cases "encrypt_frame cr c p (i < l)")
    case (Pair r c1)
    show ?thesis
    proof (cases r)
      case (Inl a)
      with Pair Cons.prems show ?thesis by auto
    next
      case (Inr body)
      let ?f = "append_zmtp_cmd_frame [] body"
      from Inr Pair Cons.prems(2) have "encrypt_parts cr c1 l (Suc i) msg (append_zmtp_cmd_frame buf body) = (ok, c', buf')" by simp
      with Cons.IH Cons.prems(1) obtain out where out: "buf' = append_zmtp_cmd_frame buf body @ out" "whole_frames out" by fastforce
      have "whole_frames ?f"
        using encrypt_frame_length [OF assms(1), of p c "i < l" body c1] Cons.prems(1) Pair Inr by (simp add: whole_frames_curve)
      with out show ?thesis
        by (intro exI [of _ "?f @ out"]) (simp add: whole_frames_append append_zmtp_cmd_frame_eq [of buf])
    qed
  qed
qed auto

lemma encode_message_whole:
  assumes "crypto_laws cr" "sendable msg" "encode_message cr cipher msg buf = (ok, cipher', buf')"
  shows "\<exists>out. buf' = buf @ out \<and> whole_frames out"
proof (cases cipher)
  case None
  with assms(3) whole_frames_message [OF sendable_lengths [OF assms(2)]] show ?thesis
    by (auto simp: encode_message_def encode_multipart_wire)
next
  case (Some c)
  with assms encrypt_parts_whole [OF assms(1,2)] show ?thesis
    by (fastforce simp: encode_message_def split: prod.splits)
qed

subsection \<open>Vectored writes\<close>

lemma write_frame_header_eq: "fst (write_frame_header buf n mo) = buf @ fst (write_frame_header [] n mo)"
  by (simp add: write_frame_header_def Let_def)

lemma length_frame_header_vec: "length (fst (write_frame_header [] n mo)) = (if 256 \<le> n then 9 else 2)"
  by (simp add: write_frame_header_def Let_def)

lemma vectored_headers_append: "vectored_headers l i msg buf = buf @ vectored_headers l i msg []"
proof (induction msg arbitrary: i buf)
  case (Cons p msg)
  let ?h = "fst (write_frame_header [] (length p) (i < l))"
  have "vectored_headers l i (p # msg) buf = vectored_headers l (Suc i) msg (buf @ ?h)"
    by (simp add: write_frame_header_eq [of buf])
  also have "\<dots> = buf @ vectored_headers l i (p # msg) []"
    using Cons.IH [of "Suc i" "buf @ ?h"] Cons.IH [of "Suc i" ?h] by simp
  finally show ?case .
qed simp

lemma vectored_slices_wire:
  assumes "Suc l = i + length msg"
  shows "\<exists>iov. vectored_slices msg (vectored_headers l i msg []) = Some iov \<and> concat iov = wire_message msg"
  using assms
proof (induction msg arbitrary: i)
  case (Cons p msg)
  let ?h = "fst (write_frame_header [] (length p) (i < l))"
  have hs: "vectored_headers l i (p # msg) [] = ?h @ vectored_headers l (Suc i) msg []"
    using vectored_headers_append [of l "Suc i" msg ?h] by simp
  obtain iov where iov: "vectored_slices msg (vectored_headers l (Suc i) msg []) = Some iov" "concat iov = wire_message msg"
  proof (cases "msg = []")
    case True
    then show ?thesis using that by simp
  next
    case False
    then show ?thesis using Cons.IH [of "Suc i"] Cons.prems that by auto
  qed
  have last: "(i < l) = (msg \<noteq> [])" using Cons.prems by auto
  have "?h @ p = wire (if i < l then 0x01 else 0) p"
    using header_encode.enc_wire [of "(p, i < l)"] by simp
  with iov last show ?case
    unfolding hs by (simp add: length_frame_header_vec wire_message_Cons Let_def)
qed simp

section \<open>Invariants of calls\<close>

definition state_after :: "'a io_out \<times> 's \<times> io_env \<Rightarrow> 's" where
  "state_after r = fst (snd r)"

definition keeps :: "('s \<Rightarrow> bool) \<Rightarrow> ('s, 'a) aio \<Rightarrow> bool" where
  "keeps P m \<longleftrightarrow> (\<forall>s e. P s \<longrightarrow> P (state_after (m s e)))"

named_theorems keeps_intros

lemma state_after_simps [simp]: "state_after (r, s, e) = s"
  by (simp add: state_after_def)

lemma keepsI: "(\<And>s e. P s \<Longrightarrow> P (state_after (m s e))) \<Longrightarrow> keeps P m"
  by (simp add: keeps_def)

lemma keepsD: "keeps P m \<Longrightarrow> P s \<Longrightarrow> P (state_after (m s e))"
  by (simp add: keeps_def)

lemma keeps_return [keeps_intros]: "keeps P (aio_return x)"
  by (simp add: keeps_def aio_return_def)

lemma keeps_fail [keeps_intros]: "keeps P (aio_fail k)"
  by (simp add: keeps_def aio_fail_def)

lemma keeps_bind [keeps_intros]: "keeps P m \<Longrightarrow> (\<And>x. keeps P (f x)) \<Longrightarrow> keeps P (aio_bind m f)"
proof (rule keepsI)
  fix s e
  assume m: "keeps P m" and f: "\<And>x. keeps P (f x)" and s: "P s"
  obtain r s1 e1 where r: "m s e = (r, s1, e1)" by (cases "m s e")
  with keepsD [OF m s, of e] keepsD [OF f, of s1 _ e1] show "P (state_after (aio_bind m f s e))"
    by (cases r) (simp_all add: aio_bind_def)
qed

lemma keeps_if [keeps_intros]:
  "(b \<Longrightarrow> keeps P m) \<Longrightarrow> (\<not> b \<Longrightarrow> keeps P m') \<Longrightarrow> keeps P (if b then m else m')"
  by simp

lemma keeps_cond [keeps_intros]: "keeps P m \<Longrightarrow> keeps P m' \<Longrightarrow> keeps P (\<lambda>s. if b s then m s else m' s)"
  by (simp add: keeps_def)

subsection \<open>The wire invariant\<close>

text \<open>
  What the socket has buffered is whole frames. What is on the wire of a live connection is whole
  frames too, or, on a poisoned socket, a prefix of whole frames.
\<close>

fun wire_ok :: "bool \<Rightarrow> bytes option \<Rightarrow> bool" where
  "wire_ok poisoned None = True"
| "wire_ok poisoned (Some w) = (if poisoned then \<exists>v. whole_frames (w @ v) else whole_frames w)"

definition wire_inv :: "socket_base \<Rightarrow> bool" where
  "wire_inv s \<longleftrightarrow> whole_frames (sb_send_buffer s) \<and> whole_frames (sb_write_buf s) \<and>
     wire_ok (sb_is_poisoned s) (sb_stream s)"

lemma wire_inv_new: "wire_inv (base_new opts)" and wire_inv_with_endpoint: "wire_inv (base_with_endpoint ep opts)"
  by (simp_all add: wire_inv_def base_new_def base_with_endpoint_def)

lemma wire_inv_fresh: "wire_inv s \<Longrightarrow> wire_inv (fresh_connection c s)"
  by (simp add: wire_inv_def fresh_connection_def)

lemma wire_inv_disconnect: "wire_inv s \<Longrightarrow> wire_inv (s\<lparr>sb_stream := None\<rparr>)"
  by (simp add: wire_inv_def)

lemma wire_inv_set_options: "wire_inv s \<Longrightarrow> wire_inv (base_set_options opts s)"
  by (simp add: wire_inv_def base_set_options_def)

lemma guarded_write_inv:
  assumes "wire_inv s" "\<not> sb_is_poisoned s" "whole_frames bs"
  shows "wire_inv (state_after (guarded_write bs s e))"
proof (cases "sb_stream s")
  case (Some w)
  have "whole_frames w" using assms(1,2) Some by (simp add: wire_inv_def)
  then have "whole_frames ((w @ take n bs) @ drop n bs)" for n
    using assms(3) by (simp add: whole_frames_append)
  then have torn: "\<exists>v. whole_frames (w @ take n bs @ v)" for n by (metis append_assoc)
  show ?thesis
    using assms Some \<open>whole_frames w\<close> torn
    by (auto simp: guarded_write_def wire_inv_def Let_def whole_frames_append split: prod.splits write_outcome.splits)
qed (use assms in \<open>simp add: guarded_write_def\<close>)

lemma keeps_flush [keeps_intros]: "keeps wire_inv flush_send_buffer"
proof (rule keepsI)
  fix s e
  assume i: "wire_inv s"
  then have w: "whole_frames (sb_send_buffer s)" by (simp add: wire_inv_def)
  show "wire_inv (state_after (flush_send_buffer s e))"
  proof (cases "sb_is_poisoned s")
    case False
    have "wire_inv (s\<lparr>sb_send_buffer := []\<rparr>)" using i by (simp add: wire_inv_def)
    from guarded_write_inv [OF this, of "sb_send_buffer s" e] w False i show ?thesis
      by (auto simp: flush_send_buffer_def aio_bind_def aio_return_def wire_inv_def split: prod.splits io_out.splits)
  qed (use i in \<open>simp add: flush_send_buffer_def\<close>)
qed

lemma keeps_write_from_buf [keeps_intros]: "keeps wire_inv write_from_buf"
proof (rule keepsI)
  fix s e
  assume i: "wire_inv s"
  have "wire_inv (s\<lparr>sb_write_buf := []\<rparr>)" using i by (simp add: wire_inv_def)
  moreover have "whole_frames (sb_write_buf s)" using i by (simp add: wire_inv_def)
  ultimately show "wire_inv (state_after (write_from_buf s e))"
    using guarded_write_inv [of "s\<lparr>sb_write_buf := []\<rparr>" "sb_write_buf s" e] i by (simp add: write_from_buf_def)
qed

lemma keeps_send_vectored [keeps_intros]:
  assumes "\<forall>p \<in> set msg. length p < 2 ^ 63"
  shows "keeps wire_inv (send_vectored msg)"
proof (cases msg)
  case (Cons p ps)
  obtain iov where iov: "vectored_slices msg (vectored_headers (length msg - 1) 0 msg []) = Some iov"
    "concat iov = wire_message msg"
    using vectored_slices_wire [of "length msg - 1" 0 msg] Cons by auto
  have "keeps wire_inv (\<lambda>s e. if sb_is_poisoned s then (IoErr BrokenPipe, s, e)
        else if opt_send_timeout (sb_options s) = Some 0 then (IoErr WouldBlock, s, e)
        else guarded_write (wire_message msg) (s\<lparr>sb_write_buf := []\<rparr>) e)"
  proof (rule keepsI)
    fix s e
    assume i: "wire_inv s"
    then have "wire_inv (s\<lparr>sb_write_buf := []\<rparr>)" by (simp add: wire_inv_def)
    from guarded_write_inv [OF this, of "wire_message msg" e] whole_frames_message [OF assms] i
    show "wire_inv (state_after (if sb_is_poisoned s then (IoErr BrokenPipe, s, e)
        else if opt_send_timeout (sb_options s) = Some 0 then (IoErr WouldBlock, s, e)
        else guarded_write (wire_message msg) (s\<lparr>sb_write_buf := []\<rparr>) e))" by simp
  qed
  moreover have "msg \<noteq> []" using Cons by simp
  ultimately show ?thesis
    unfolding send_vectored_def iov Let_def option.case by (simp add: iov keeps_intros)
qed (simp add: send_vectored_def keeps_intros)

lemma keeps_encode_write [keeps_intros]:
  assumes "crypto_laws cr" "sendable msg"
  shows "keeps wire_inv (encode_message_to_write_buf cr msg)"
proof (rule keepsI)
  fix s e
  assume i: "wire_inv s"
  obtain ok c buf where m: "encode_message cr (sb_curve_cipher s) msg [] = (ok, c, buf)" by (cases "encode_message cr (sb_curve_cipher s) msg []")
  with encode_message_whole [OF assms m] i show "wire_inv (state_after (encode_message_to_write_buf cr msg s e))"
    by (auto simp: encode_message_to_write_buf_def wire_inv_def)
qed

lemma encode_message_send_buffer:
  assumes "crypto_laws cr" "sendable msg" "wire_inv s"
    "encode_message cr (sb_curve_cipher s) msg (sb_send_buffer s) = (ok, c, buf)"
  shows "wire_inv (s\<lparr>sb_curve_cipher := c, sb_send_buffer := buf\<rparr>)"
  using encode_message_whole [OF assms(1,2,4)] assms(3) by (auto simp: wire_inv_def whole_frames_append)

lemma keeps_encode_send [keeps_intros]:
  assumes "crypto_laws cr" "sendable msg"
  shows "keeps wire_inv (encode_message_to_send_buf cr msg)"
proof (rule keepsI)
  fix s e
  assume i: "wire_inv s"
  obtain ok c buf where m: "encode_message cr (sb_curve_cipher s) msg (sb_send_buffer s) = (ok, c, buf)"
    by (cases "encode_message cr (sb_curve_cipher s) msg (sb_send_buffer s)")
  with encode_message_send_buffer [OF assms i m] show "wire_inv (state_after (encode_message_to_send_buf cr msg s e))"
    by (simp add: encode_message_to_send_buf_def Let_def wire_inv_def)
qed

lemma keeps_coalesced [keeps_intros]:
  assumes "crypto_laws cr" "sendable msg"
  shows "keeps wire_inv (send_coalesced cr msg)"
proof (rule keepsI)
  fix s e
  assume i: "wire_inv s"
  obtain ok c buf where m: "encode_message cr (sb_curve_cipher s) msg (sb_send_buffer s) = (ok, c, buf)"
    by (cases "encode_message cr (sb_curve_cipher s) msg (sb_send_buffer s)")
  from encode_message_send_buffer [OF assms i m] keepsD [OF keeps_flush]
  show "wire_inv (state_after (send_coalesced cr msg s e))"
    unfolding send_coalesced_def m by (simp add: Let_def)
qed

lemma keeps_one_coalesced [keeps_intros]:
  assumes "crypto_laws cr" "length p + 1 < 2 ^ 32"
  shows "keeps wire_inv (encode_one_coalesced cr p)"
proof (rule keepsI)
  fix s e
  assume i: "wire_inv s"
  show "wire_inv (state_after (encode_one_coalesced cr p s e))"
  proof (cases "sb_curve_cipher s")
    case None
    have "encode_single p (sb_send_buffer s) = sb_send_buffer s @ wire_message [p]"
      using encode_multipart_wire [of "[p]"] by (simp add: encode_multipart_def)
    with None i whole_frames_message [of "[p]"] assms(2) show ?thesis
      by (simp add: encode_one_coalesced_def Let_def wire_inv_def whole_frames_append)
  next
    case (Some c)
    obtain r c1 where r: "encrypt_frame cr c p False = (r, c1)" by fastforce
    show ?thesis
    proof (cases r)
      case (Inr body)
      with encrypt_frame_length [OF assms(1,2)] r have "whole_frames (append_zmtp_cmd_frame [] body)" by (simp add: whole_frames_curve)
      with Some r Inr i show ?thesis
        by (simp add: encode_one_coalesced_def encode_one_curve_coalesced_def Let_def wire_inv_def
            append_zmtp_cmd_frame_eq [of "sb_send_buffer s"] whole_frames_append)
    qed (use Some r i in \<open>simp add: encode_one_coalesced_def encode_one_curve_coalesced_def wire_inv_def\<close>)
  qed
qed

lemma keeps_process_frame [keeps_intros]: "keeps wire_inv (process_frame cr)"
  by (rule keepsI)
    (auto simp: process_frame_def wire_inv_def note_pong_received_def whole_frames_append whole_frames_pong Let_def
      split: option.splits prod.splits sum.splits)

lemma keeps_note_recv [keeps_intros]: "keeps wire_inv note_recv"
  by (rule keepsI) (simp add: note_recv_def wire_inv_def instant_now_def)

lemma keeps_read_raw [keeps_intros]: "keeps wire_inv read_raw"
proof (rule keepsI)
  fix s e
  assume i: "wire_inv s"
  have "keeps wire_inv (aio_bind note_recv (\<lambda>_. aio_return n))" for n :: nat by (intro keeps_intros)
  from keepsD [OF this] i show "wire_inv (state_after (read_raw s e))"
    by (auto simp: read_raw_def wire_inv_def split: prod.splits read_outcome.splits)
qed

lemma keeps_check_heartbeat [keeps_intros]: "keeps wire_inv check_heartbeat"
  by (rule keepsI)
    (auto simp: check_heartbeat_def wire_inv_def instant_now_def Let_def whole_frames_append whole_frames_ping
      split: option.splits)

lemma keeps_lingering [keeps_intros]: "keeps wire_inv d \<Longrightarrow> keeps wire_inv (flush_lingering linger d)"
proof (rule keepsI)
  fix s e
  assume d: "keeps wire_inv d" and s: "wire_inv s"
  obtain r s1 e1 where r: "flush_send_buffer s e = (r, s1, e1)" by (cases "flush_send_buffer s e")
  with keepsD [OF d s, of e] keepsD [OF keeps_flush s, of e] show "wire_inv (state_after (flush_lingering linger d s e))"
    by (cases r) (simp_all add: flush_lingering_def split: option.split)
qed

lemma keeps_shutdown [keeps_intros]: "keeps wire_inv shutdown_stream"
  by (rule keepsI) (auto simp: shutdown_stream_def wire_inv_def split: prod.splits write_outcome.splits)

lemma keeps_close [keeps_intros]: "keeps wire_inv base_close"
proof -
  have "keeps wire_inv (\<lambda>s. aio_return () (s\<lparr>sb_send_buffer := [], sb_buffered_messages := 0\<rparr>))"
    by (simp add: keeps_def aio_return_def wire_inv_def)
  from keepsD [OF keeps_lingering [OF this]]
  have "keeps wire_inv (\<lambda>s. flush_lingering (opt_linger (sb_options s))
      (\<lambda>s. aio_return () (s\<lparr>sb_send_buffer := [], sb_buffered_messages := 0\<rparr>)) s)"
    by (simp add: keeps_def)
  then show ?thesis unfolding base_close_def by (intro keeps_intros)
qed

lemma reconnect_backoff_state:
  "reconnect_backoff r s = Some (d, s') \<Longrightarrow> \<exists>rs. s' = s\<lparr>sb_reconnect := rs\<rparr>"
  by (auto simp: reconnect_backoff_def split: option.splits Option.bind_splits intro: exI [of _ "sb_reconnect s"])

lemma keeps_try_reconnect [keeps_intros]: "keeps wire_inv (base_try_reconnect cr io st)"
proof (rule keepsI)
  fix s e
  assume i: "wire_inv s"
  have b: "wire_inv s1" if "reconnect_backoff r s = Some (d, s1)" for r d s1
    using reconnect_backoff_state [OF that] i by (auto simp: wire_inv_def)
  then show "wire_inv (state_after (base_try_reconnect cr io st s e))"
    using i by (auto simp: base_try_reconnect_def wire_inv_fresh
        split: option.splits prod.splits endpoint.splits io_out.splits hs_result.splits)
qed

subsection \<open>Poisoned connections\<close>

text \<open>A poisoned connection that carries \<open>w\<close>, or one that has been given up.\<close>

definition frozen :: "bytes \<Rightarrow> socket_base \<Rightarrow> bool" where
  "frozen w s \<longleftrightarrow> sb_is_poisoned s \<and> (sb_stream s = Some w \<or> sb_stream s = None)"

lemma flush_frozen: "frozen w s \<Longrightarrow> sb_send_buffer s \<noteq> [] \<Longrightarrow> flush_send_buffer s e = (IoErr BrokenPipe, s, e)"
  by (simp add: flush_send_buffer_def frozen_def)

lemma frozen_flush [keeps_intros]: "keeps (frozen w) flush_send_buffer"
  by (rule keepsI) (simp add: flush_send_buffer_def frozen_def)

lemma frozen_write_from_buf [keeps_intros]: "keeps (frozen w) write_from_buf"
  by (rule keepsI) (simp add: write_from_buf_def frozen_def)

lemma frozen_send_vectored [keeps_intros]: "keeps (frozen w) (send_vectored msg)"
  by (rule keepsI) (simp add: send_vectored_def flush_send_buffer_def frozen_def aio_bind_def aio_return_def)

lemma frozen_encode_write [keeps_intros]: "keeps (frozen w) (encode_message_to_write_buf cr msg)"
  by (rule keepsI) (simp add: encode_message_to_write_buf_def frozen_def split: prod.split)

lemma frozen_encode_send [keeps_intros]: "keeps (frozen w) (encode_message_to_send_buf cr msg)"
  by (rule keepsI) (simp add: encode_message_to_send_buf_def frozen_def Let_def split: prod.split)

lemma frozen_coalesced [keeps_intros]: "keeps (frozen w) (send_coalesced cr msg)"
  by (rule keepsI)
    (auto simp: send_coalesced_def frozen_def flush_send_buffer_def Let_def split: prod.split)

lemma frozen_one_coalesced [keeps_intros]: "keeps (frozen w) (encode_one_coalesced cr p)"
  by (rule keepsI)
    (auto simp: encode_one_coalesced_def encode_one_curve_coalesced_def frozen_def Let_def
      split: prod.split sum.split option.split)

lemma frozen_process_frame [keeps_intros]: "keeps (frozen w) (process_frame cr)"
  by (rule keepsI)
    (auto simp: process_frame_def frozen_def note_pong_received_def Let_def split: option.splits prod.splits sum.splits)

lemma frozen_read_raw [keeps_intros]: "keeps (frozen w) read_raw"
  by (rule keepsI)
    (auto simp: read_raw_def frozen_def note_recv_def instant_now_def aio_bind_def aio_return_def
      split: prod.splits read_outcome.splits)

lemma frozen_check_heartbeat [keeps_intros]: "keeps (frozen w) check_heartbeat"
  by (rule keepsI) (auto simp: check_heartbeat_def frozen_def instant_now_def Let_def split: option.splits)

lemma frozen_close [keeps_intros]: "keeps (frozen w) base_close"
  by (rule keepsI)
    (auto simp: base_close_def flush_lingering_def flush_frozen shutdown_stream_def aio_bind_def aio_return_def frozen_def
      split: option.splits prod.splits write_outcome.splits)

lemma frozen_set_options: "frozen w s \<Longrightarrow> frozen w (base_set_options opts s)"
  by (simp add: frozen_def base_set_options_def)

section \<open>Sequences of calls\<close>

text \<open>What the socket types do with their base, in any order and each with its own environment.\<close>

datatype base_call =
    CallSend "bytes list" | CallBuffer "bytes list" | CallFlush | CallVectored "bytes list"
  | CallCoalesced "bytes list" | CallOne bytes | CallProcess | CallRead | CallHeartbeat | CallClose
  | CallOptions socket_options | CallReconnect reconnect_io socket_type

fun perform_call :: "curve_crypto \<Rightarrow> base_call \<Rightarrow> unit base_op" where
  "perform_call cr (CallSend msg) = aio_bind (encode_message_to_write_buf cr msg) (\<lambda>_. write_from_buf)"
| "perform_call cr (CallBuffer msg) = encode_message_to_send_buf cr msg"
| "perform_call cr CallFlush = flush_send_buffer"
| "perform_call cr (CallVectored msg) = send_vectored msg"
| "perform_call cr (CallCoalesced msg) = send_coalesced cr msg"
| "perform_call cr (CallOne p) = aio_bind (encode_one_coalesced cr p) (\<lambda>full. if full then flush_send_buffer else aio_return ())"
| "perform_call cr CallProcess = aio_bind (process_frame cr) (\<lambda>_. aio_return ())"
| "perform_call cr CallRead = aio_bind read_raw (\<lambda>_. aio_return ())"
| "perform_call cr CallHeartbeat = aio_bind check_heartbeat (\<lambda>ping. if ping then flush_send_buffer else aio_return ())"
| "perform_call cr CallClose = base_close"
| "perform_call cr (CallOptions opts) = (\<lambda>s. aio_return () (base_set_options opts s))"
| "perform_call cr (CallReconnect io st) = base_try_reconnect cr io st"

fun call_messages :: "base_call \<Rightarrow> bytes list list" where
  "call_messages (CallSend msg) = [msg]"
| "call_messages (CallBuffer msg) = [msg]"
| "call_messages (CallVectored msg) = [msg]"
| "call_messages (CallCoalesced msg) = [msg]"
| "call_messages (CallOne p) = [[p]]"
| "call_messages _ = []"

fun reconnects :: "base_call \<Rightarrow> bool" where
  "reconnects (CallReconnect io st) = True"
| "reconnects _ = False"

fun run_calls :: "curve_crypto \<Rightarrow> (base_call \<times> io_env) list \<Rightarrow> socket_base \<Rightarrow> socket_base" where
  "run_calls cr [] s = s"
| "run_calls cr ((c, e) # calls) s = run_calls cr calls (state_after (perform_call cr c s e))"

text \<open>
  A predicate on the base that every operation of a connection keeps as long as the messages are
  acceptable, and what follows for the sockets built on the base; with the setting of options, for
  whole calls and sequences of calls.
\<close>

locale connection_invariant =
  fixes cr :: curve_crypto and ok :: "bytes list \<Rightarrow> bool" and inv :: "socket_base \<Rightarrow> bool"
  assumes flush_inv: "keeps inv flush_send_buffer"
    and write_from_buf_inv: "keeps inv write_from_buf"
    and vectored_inv: "ok msg \<Longrightarrow> keeps inv (send_vectored msg)"
    and encode_write_inv: "ok msg \<Longrightarrow> keeps inv (encode_message_to_write_buf cr msg)"
    and encode_send_inv: "ok msg \<Longrightarrow> keeps inv (encode_message_to_send_buf cr msg)"
    and coalesced_inv: "ok msg \<Longrightarrow> keeps inv (send_coalesced cr msg)"
    and one_coalesced_inv: "ok [p] \<Longrightarrow> keeps inv (encode_one_coalesced cr p)"
    and process_frame_inv: "keeps inv (process_frame cr)"
    and read_raw_inv: "keeps inv read_raw"
    and check_heartbeat_inv: "keeps inv check_heartbeat"
    and close_inv: "keeps inv base_close"
begin

lemmas base_intros = keeps_return keeps_fail keeps_bind keeps_if keeps_cond
  flush_inv write_from_buf_inv vectored_inv encode_write_inv encode_send_inv coalesced_inv
  one_coalesced_inv process_frame_inv read_raw_inv check_heartbeat_inv close_inv

end

locale base_invariant = connection_invariant +
  assumes set_options_inv: "inv s \<Longrightarrow> inv (base_set_options opts s)"
begin

lemma perform_call_inv:
  assumes "\<not> reconnects c" "\<forall>msg \<in> set (call_messages c). ok msg"
  shows "keeps inv (perform_call cr c)"
proof (cases c)
  case (CallOptions opts)
  then show ?thesis by (simp add: keeps_def aio_return_def set_options_inv)
qed (use assms in \<open>auto intro!: base_intros\<close>)

lemma run_calls_inv:
  assumes "\<forall>(c, e) \<in> set calls. \<not> reconnects c \<and> (\<forall>msg \<in> set (call_messages c). ok msg)" "inv s"
  shows "inv (run_calls cr calls s)"
  using assms
proof (induction calls arbitrary: s)
  case (Cons ce calls)
  obtain c e where ce: "ce = (c, e)" by fastforce
  have "inv (state_after (perform_call cr c s e))"
    using Cons.prems ce by (intro keepsD [OF perform_call_inv]) auto
  with Cons.IH [OF _ this] Cons.prems ce show ?case by simp
qed simp

end

interpretation whole: base_invariant cr "\<lambda>msg. crypto_laws cr \<and> sendable msg" wire_inv for cr
  by unfold_locales (auto intro!: keeps_intros wire_inv_set_options dest: sendable_lengths)

interpretation torn: base_invariant cr "\<lambda>_. True" "frozen w" for cr w
  by unfold_locales (auto intro!: keeps_intros frozen_set_options)

text \<open>The operations of a connection leave the options alone.\<close>

lemma guarded_write_options: "guarded_write bs b e = (r, b1, e1) \<Longrightarrow> sb_options b1 = sb_options b"
  by (auto simp: guarded_write_def Let_def split: option.splits prod.splits write_outcome.splits)

lemma flush_options: "flush_send_buffer b e = (r, b1, e1) \<Longrightarrow> sb_options b1 = sb_options b"
  by (auto simp: flush_send_buffer_def aio_bind_def aio_return_def dest!: guarded_write_options
      split: if_splits prod.splits io_out.splits)

lemma send_options:
  "write_from_buf b e = (r, b1, e1) \<Longrightarrow> sb_options b1 = sb_options b"
  "encode_message_to_write_buf cr msg b e = (r, b1, e1) \<Longrightarrow> sb_options b1 = sb_options b"
  "encode_message_to_send_buf cr msg b e = (r, b1, e1) \<Longrightarrow> sb_options b1 = sb_options b"
  "send_coalesced cr msg b e = (r, b1, e1) \<Longrightarrow> sb_options b1 = sb_options b"
  by (auto simp: write_from_buf_def encode_message_to_write_buf_def encode_message_to_send_buf_def send_coalesced_def Let_def
      dest!: guarded_write_options flush_options split: if_splits prod.splits)

lemma vectored_options: "send_vectored msg b e = (r, b1, e1) \<Longrightarrow> sb_options b1 = sb_options b"
  by (auto simp: send_vectored_def aio_bind_def aio_return_def Let_def dest!: guarded_write_options flush_options
      split: if_splits option.splits prod.splits io_out.splits)

lemma one_coalesced_options: "encode_one_coalesced cr p b e = (r, b1, e1) \<Longrightarrow> sb_options b1 = sb_options b"
  by (auto simp: encode_one_coalesced_def encode_one_curve_coalesced_def Let_def split: option.splits prod.splits sum.splits)

lemma receive_options:
  "process_frame cr b e = (fr, b1, e1) \<Longrightarrow> sb_options b1 = sb_options b"
  "read_raw b e = (n, b1, e1) \<Longrightarrow> sb_options b1 = sb_options b"
  "check_heartbeat b e = (ping, b1, e1) \<Longrightarrow> sb_options b1 = sb_options b"
  by (auto simp: process_frame_def read_raw_def note_recv_def note_pong_received_def check_heartbeat_def instant_now_def
      aio_bind_def aio_return_def Let_def split: option.splits prod.splits sum.splits if_splits read_outcome.splits)

lemma close_options: "base_close b e = (r, b1, e1) \<Longrightarrow> sb_options b1 = sb_options b"
  by (auto simp: base_close_def flush_lingering_def shutdown_stream_def aio_bind_def aio_return_def dest!: flush_options
      split: option.splits prod.splits if_splits io_out.splits write_outcome.splits)

lemma keeps_options:
  "(\<And>b e r b1 e1. m b e = (r, b1, e1) \<Longrightarrow> sb_options b1 = sb_options b) \<Longrightarrow> keeps (\<lambda>b. sb_options b = opts) m"
  by (rule keepsI) (metis state_after_def prod.collapse)

interpretation fixed: connection_invariant cr "\<lambda>_. True" "\<lambda>b. sb_options b = opts" for cr opts
  by unfold_locales (rule keeps_options, erule flush_options send_options vectored_options one_coalesced_options
      receive_options close_options)+

lemma perform_call_wire:
  "crypto_laws cr \<Longrightarrow> \<forall>msg \<in> set (call_messages c). sendable msg \<Longrightarrow> keeps wire_inv (perform_call cr c)"
  using whole.perform_call_inv [of c cr] by (cases c) (auto intro: keeps_intros)

lemma run_calls_wire:
  "crypto_laws cr \<Longrightarrow> \<forall>(c, e) \<in> set calls. \<forall>msg \<in> set (call_messages c). sendable msg \<Longrightarrow> wire_inv s \<Longrightarrow>
   wire_inv (run_calls cr calls s)"
  by (induction cr calls s rule: run_calls.induct) (simp_all add: keepsD [OF perform_call_wire])

section \<open>Incoming frames and reconnection\<close>

lemma try_reconnect_IoOk:
  assumes "base_try_reconnect cr io st s e = (IoOk (), s1, e1)"
  shows "e1 = e \<and> (\<exists>c rs. s1 = fresh_connection c (s\<lparr>sb_reconnect := rs\<rparr>))"
  using assms
  by (auto simp: base_try_reconnect_def
      split: option.splits prod.splits endpoint.splits io_out.splits hs_result.splits dest!: reconnect_backoff_state)

text \<open>Pushing bytes extends the stream the decoder sees.\<close>

lemma vstream_push: "seg_inv b \<Longrightarrow> vstream d (seg_push b bs) = vstream d b @ bs"
  using seg_push_spec [of b bs] by (simp add: vstream_def split: option.split)

lemma process_frame_parse:
  assumes "dec_inv (sb_decoder s)" "seg_inv (sb_recv s)"
    "parse_frame (max_frame_size (sb_decoder s)) (vstream (sb_decoder s) (sb_recv s)) = Parsed f rest"
  shows "\<exists>d1 src1. decode (sb_decoder s) (sb_recv s) = Some (Inr (Some f), d1, src1) \<and>
    dec_inv d1 \<and> seg_inv src1 \<and> vstream d1 src1 = rest \<and> max_frame_size d1 = max_frame_size (sb_decoder s)"
  using decode_refines_parse [OF assms(1,2)] assms(3) by (auto simp: decode_refines_def)

section \<open>Properties\<close>

text \<open>C1. No torn frames. Whatever the transport does to the reads and writes of a socket, and
  wherever its calls are dropped, the bytes on the wire always parse: the peer sees whole frames and
  at most one incomplete frame at the end, never a malformed header. On a socket that is not
  poisoned the wire ends with a whole frame. On a poisoned one no call but a reconnection writes
  another byte or lifts the poison, so nothing follows a torn frame.\<close>

theorem wire_never_torn:
  assumes "crypto_laws cr" and "\<forall>(c, e) \<in> set calls. \<forall>msg \<in> set (call_messages c). sendable msg"
    and "s = run_calls cr calls (base_with_endpoint ep opts)" and "sb_stream s = Some w"
  shows "\<exists>fs rest. parse_frames frame_limit w = (fs, Inr rest) \<and> (\<not> sb_is_poisoned s \<longrightarrow> rest = []) \<and>
    (sb_is_poisoned s \<longrightarrow>
       (\<forall>more. (\<forall>(c, e) \<in> set more. \<not> reconnects c) \<longrightarrow>
          (let s' = run_calls cr more s in sb_is_poisoned s' \<and> (sb_stream s' = Some w \<or> sb_stream s' = None))))"
proof -
  have i: "wire_inv s"
    unfolding assms(3) by (rule run_calls_wire [OF assms(1,2) wire_inv_with_endpoint])
  have frozen: "sb_is_poisoned s' \<and> (sb_stream s' = Some w \<or> sb_stream s' = None)"
    if "sb_is_poisoned s" "\<forall>(c, e) \<in> set more. \<not> reconnects c" "s' = run_calls cr more s" for more s'
    using torn.run_calls_inv [of more w s cr] that assms(4) by (simp add: frozen_def)
  obtain fs rest where "parse_frames frame_limit w = (fs, Inr rest)" "\<not> sb_is_poisoned s \<longrightarrow> rest = []"
  proof (cases "sb_is_poisoned s")
    case True
    with i assms(4) obtain v where "whole_frames (w @ v)" by (auto simp: wire_inv_def)
    from whole_frames_prefix [OF this] True show ?thesis using that by blast
  next
    case False
    with i assms(4) have "whole_frames w" by (simp add: wire_inv_def)
    then show ?thesis
      using that [of "fst (parse_frames frame_limit w)" "[]"] by (simp add: whole_frames_def prod_eq_iff)
  qed
  then show ?thesis
    by (intro exI [of _ fs] exI [of _ rest] conjI impI allI) (simp_all add: Let_def frozen)
qed

theorem wire_never_torn_witness:
  "\<exists>s w. s = run_calls tag_crypto
       [(CallSend [[7], [8]], \<lparr>env_reads = [], env_writes = [Written], env_clock = (\<lambda>_. 0), env_tick = 0\<rparr>),
        (CallSend [[9]], \<lparr>env_reads = [], env_writes = [WriteDropped 1], env_clock = (\<lambda>_. 0), env_tick = 0\<rparr>)]
       (base_with_endpoint (TcpEndpoint []) socket_options_default) \<and>
     sb_stream s = Some w \<and> sb_is_poisoned s \<and>
     (\<exists>fs rest. parse_frames frame_limit w = (fs, Inr rest) \<and>
       (\<forall>more. (\<forall>(c, e) \<in> set more. \<not> reconnects c) \<longrightarrow>
          (let s' = run_calls tag_crypto more s in sb_is_poisoned s' \<and> (sb_stream s' = Some w \<or> sb_stream s' = None))))"
proof -
  let ?calls = "[(CallSend [[7], [8]], \<lparr>env_reads = [], env_writes = [Written], env_clock = (\<lambda>_. 0), env_tick = 0\<rparr>),
        (CallSend [[9]], \<lparr>env_reads = [], env_writes = [WriteDropped 1], env_clock = (\<lambda>_. 0), env_tick = 0\<rparr>)]"
  let ?s = "run_calls tag_crypto ?calls (base_with_endpoint (TcpEndpoint []) socket_options_default)"
  have s: "sb_stream ?s = Some [1, 1, 7, 0, 1, 8, 0]" "sb_is_poisoned ?s"
    by (simp_all add: base_with_endpoint_def aio_bind_def encode_message_to_write_buf_def encode_message_def
        encode_multipart_def encode_single_def write_from_buf_def guarded_write_def pop_write_def
        socket_options_default_def Let_def)
  have c: "\<forall>(c, e) \<in> set ?calls. \<forall>msg \<in> set (call_messages c). sendable msg" by simp
  from wire_never_torn [OF tag_crypto_laws c refl s(1)] s show ?thesis
    by (intro exI [of _ ?s] exI [of _ "[1, 1, 7, 0, 1, 8, 0]"] conjI refl) auto
qed

text \<open>C36. A reconnection keeps half of an old frame. \<open>try_reconnect\<close> replaces the receive buffer but
  not the decoder. If the old connection broke inside a data frame, the first bytes of the new
  connection complete that frame: the socket delivers a payload that begins with bytes of the old
  connection and ends with bytes of the new one, and goes on decoding in the middle of a frame.\<close>

theorem reconnect_splices_frames:
  assumes "base_try_reconnect cr io st s e = (IoOk (), s1, e1)" and "sb_curve_cipher s1 = None"
    and "dec_inv (sb_decoder s)" and "pending_flags (sb_decoder s) = Some fl" and "fl AND 0x04 = 0"
    and "missing = expected_body_len (sb_decoder s) - length (staging (sb_decoder s))"
    and "missing \<le> length new"
  shows "\<exists>s2. process_frame cr (s1\<lparr>sb_recv := seg_push (sb_recv s1) new\<rparr>) e1 =
      (IoOk (FData (fl AND 0x01 \<noteq> 0) (staging (sb_decoder s) @ take missing new)), s2, e1) \<and>
    vstream (sb_decoder s2) (sb_recv s2) = drop missing new"
proof -
  let ?d = "sb_decoder s" and ?r = "seg_push seg_new new"
  let ?n = "expected_body_len ?d"
  let ?f = "\<lparr>flags = fl, payload = staging ?d @ take missing new\<rparr>"
  let ?s = "s1\<lparr>sb_recv := seg_push (sb_recv s1) new\<rparr>"
  obtain c rs where "s1 = fresh_connection c (s\<lparr>sb_reconnect := rs\<rparr>)"
    using try_reconnect_IoOk [OF assms(1)] by blast
  then have s1: "sb_decoder s1 = ?d" "sb_recv s1 = seg_new" by (simp_all add: fresh_connection_def)
  have inv: "valid_flags fl" "length (staging ?d) < ?n" "?n \<le> max_frame_size ?d" "?n < 2 ^ 63" "?n < 256 ^ (header_size fl - 1)"
    using assms(3,4) by (auto simp: dec_inv_def)
  have len: "?n = length (staging ?d) + missing" using assms(6) inv(2) by simp
  have "vstream ?d ?r = frame_header fl ?n @ staging ?d @ new"
    using vstream_push [of seg_new ?d new] by (simp add: vstream_def assms(4))
  then have p: "parse_frame (max_frame_size ?d) (vstream ?d ?r) = Parsed ?f (drop missing new)"
    using inv assms(7) len by (simp add: parse_frame_header)
  have seg: "seg_inv ?r" using seg_push_spec [of seg_new new] by simp
  obtain d1 src1 where "decode (sb_decoder ?s) (sb_recv ?s) = Some (Inr (Some ?f), d1, src1)" "vstream d1 src1 = drop missing new"
    using process_frame_parse [of ?s ?f "drop missing new"] assms(3) seg p by (auto simp: s1)
  moreover have "\<not> frame_is_command ?f" "frame_more ?f \<longleftrightarrow> fl AND 0x01 \<noteq> 0"
    using assms(5) by (simp_all add: frame_is_command_def frame_more_def)
  ultimately show ?thesis using assms(2) by (simp add: process_frame_def)
qed

text \<open>For the witnesses: a peer that answers with the greeting and the READY of a ROUTER, and a
  random source for a handshake that uses none.\<close>

definition quiet_env :: io_env where
  "quiet_env = \<lparr>env_reads = [], env_writes = [], env_clock = (\<lambda>_. 0), env_tick = 0\<rparr>"

definition honest_peer :: hs_stream where
  "honest_peer = \<lparr>hs_in = build_greeting_with_mechanism NullMechanism socket_options_default
       @ encode_frame FLAG_COMMAND (build_ready (socket_type_as_str StRouter) (Some [7])),
     hs_later = [], hs_out = [], hs_quota = 1000\<rparr>"

definition honest_reconnect :: reconnect_io where
  "honest_reconnect = \<lparr>rc_random = 0, rc_connect = IoOk honest_peer, rc_configure = None,
     rc_entropy = sample_entropy 3, rc_zap = None\<rparr>"

lemma honest_reconnect_ok:
  assumes "sb_endpoint s = Some (TcpEndpoint a)" "sb_options s = socket_options_default" "sb_reconnect s = None"
  shows "base_try_reconnect cr honest_reconnect st s e = (IoOk (), fresh_connection None s, e)"
proof -
  have "64 + length (encode_frame FLAG_COMMAND (build_ready (socket_type_as_str st) None)) \<le> hs_quota honest_peer"
    using length_ready_frame [of st] by (simp add: honest_peer_def)
  moreover have "hs_all honest_peer = build_greeting_with_mechanism NullMechanism socket_options_default
      @ encode_frame FLAG_COMMAND (build_ready (socket_type_as_str StRouter) (Some [7])) @ []"
    by (simp add: hs_all_def honest_peer_def)
  ultimately have "\<exists>st'. perform_handshake_with_options cr ent zap st None (Some (30 * SEC)) socket_options_default honest_peer =
      (HOk \<lparr>peer_identity = Some [7], peer_socket_type = StRouter, curve_cipher = None\<rparr>, st')"
    if "ent = rc_entropy honest_reconnect" "zap = rc_zap honest_reconnect" for ent zap
    unfolding perform_handshake_with_options_def
    using null_handshake_completes [of socket_options_default socket_options_default "Some (30 * SEC)" honest_peer StRouter "[7]" "[]" st None]
    by (fastforce simp: socket_type_as_str_def SEC_def)
  moreover have "opt_routing_id socket_options_default = None" "opt_handshake_timeout socket_options_default = 30 * SEC"
    by (simp_all add: socket_options_default_def)
  ultimately obtain st' where "perform_handshake_with_options cr (rc_entropy honest_reconnect) (rc_zap honest_reconnect) st
      (opt_routing_id (sb_options s)) (Some (opt_handshake_timeout (sb_options s))) (sb_options s) honest_peer =
      (HOk \<lparr>peer_identity = Some [7], peer_socket_type = StRouter, curve_cipher = None\<rparr>, st')"
    using assms(2) by metis
  moreover have "rc_connect honest_reconnect = IoOk honest_peer" "rc_configure honest_reconnect = None"
    by (simp_all add: honest_reconnect_def)
  ultimately show ?thesis using assms(1,3) by (simp add: base_try_reconnect_def reconnect_backoff_def)
qed

theorem reconnect_splices_frames_witness:
  "\<exists>s s1 s2. pending_flags (sb_decoder s) = Some 0 \<and>
    base_try_reconnect tag_crypto honest_reconnect StDealer s quiet_env = (IoOk (), s1, quiet_env) \<and>
    process_frame tag_crypto (s1\<lparr>sb_recv := seg_push (sb_recv s1) (encode_single [5, 6] [])\<rparr>) quiet_env =
      (IoOk (FData False [1, 0, 2]), s2, quiet_env) \<and>
    vstream (sb_decoder s2) (sb_recv s2) = [5, 6]"
proof -
  let ?d = "\<lparr>pending_flags = Some 0, expected_body_len = 3, staging = [1], max_frame_size = 100\<rparr>"
  let ?s = "(base_new socket_options_default)\<lparr>sb_endpoint := Some (TcpEndpoint []), sb_decoder := ?d\<rparr>"
  let ?s1 = "fresh_connection None ?s"
  have r: "base_try_reconnect tag_crypto honest_reconnect StDealer ?s quiet_env = (IoOk (), ?s1, quiet_env)"
    by (rule honest_reconnect_ok [where a = "[]"]) (simp_all add: base_new_def)
  have new: "encode_single [5, 6] [] = [0, 2, 5, 6]" by (simp add: encode_single_def)
  have "dec_inv (sb_decoder ?s)" by (simp add: dec_inv_def valid_flags_def header_size_def)
  from reconnect_splices_frames [OF r _ this, of 0 2 "[0, 2, 5, 6]"]
  obtain s2 where "process_frame tag_crypto (?s1\<lparr>sb_recv := seg_push (sb_recv ?s1) [0, 2, 5, 6]\<rparr>) quiet_env =
      (IoOk (FData False [1, 0, 2]), s2, quiet_env)" "vstream (sb_decoder s2) (sb_recv s2) = [5, 6]"
    by (auto simp: fresh_connection_def)
  with r new show ?thesis by (intro exI [of _ ?s] exI [of _ ?s1] exI [of _ s2]) simp
qed

end
