(* ===== verification/Socket_Recv.thy ===== *)
theory Socket_Recv
  imports Socket_Base
begin

text \<open>
  The receive loop that the socket types of \<open>monocoque-zmtp\<close> share (\<open>dealer.rs\<close>, \<open>pair.rs\<close>,
  \<open>pull.rs\<close>, \<open>router.rs\<close>, \<open>req.rs\<close>, \<open>rep.rs\<close>, \<open>subscriber.rs\<close> and \<open>xsub.rs\<close> each spell it out):
  decode frames from the buffer, answer commands, hand data frames to the socket, and read more
  bytes when the buffer runs dry. What a data frame and the end of the stream do is the argument
  of the loop. The theorems say that it hands over exactly the frames the peer has encoded, plain
  or encrypted, however the transport cuts the stream.
\<close>

section \<open>Sockets around a base\<close>

text \<open>A socket is its \<open>SocketBase\<close> and the fields of its own.\<close>

record 'x sock =
  base :: socket_base
  own :: 'x

definition on_base :: "'a base_op \<Rightarrow> ('x sock, 'a) aio" where
  "on_base m s e = (case m (base s) e of (r, b, e1) \<Rightarrow> (r, s\<lparr>base := b\<rparr>, e1))"

text \<open>\<open>if self.base.check_heartbeat()? { self.base.flush_send_buffer().await?; }\<close>\<close>

definition heartbeat_flush :: "unit base_op" where
  "heartbeat_flush = aio_bind check_heartbeat (\<lambda>ping. if ping then flush_send_buffer else aio_return ())"

text \<open>\<open>if !self.base.send_buffer.is_empty() { self.base.flush_send_buffer().await?; }\<close>\<close>

definition flush_replies :: "unit base_op" where
  "flush_replies s = (if sb_send_buffer s \<noteq> [] then flush_send_buffer s else aio_return () s)"

text \<open>
  A data frame: the socket's options, the MORE flag and the payload change the own fields, and
  end the loop with a result or continue it. At the end of the stream the own fields give the result.
\<close>

type_synonym ('x, 'r) data_handler = "socket_options \<Rightarrow> bool \<Rightarrow> bytes \<Rightarrow> 'x \<Rightarrow> 'r io_out option \<times> 'x"

lemma aio_bind_cong [fundef_cong]:
  assumes "m s e = m' s' e'" and "\<And>x s1 e1. m' s' e' = (IoOk x, s1, e1) \<Longrightarrow> f x s1 e1 = f' x s1 e1"
  shows "aio_bind m f s e = aio_bind m' f' s' e'"
  using assms by (auto simp: aio_bind_def split: prod.split io_out.split)

lemma on_base_IoOk: "on_base m s e = (r, s1, e1) \<longleftrightarrow> (\<exists>b. m (base s) e = (r, b, e1) \<and> s1 = s\<lparr>base := b\<rparr>)"
  by (auto simp: on_base_def split: prod.split)

lemma aio_bind_IoOk:
  "aio_bind m f s e = (IoOk y, s2, e2) \<longleftrightarrow> (\<exists>x s1 e1. m s e = (IoOk x, s1, e1) \<and> f x s1 e1 = (IoOk y, s2, e2))"
  by (auto simp: aio_bind_def split: prod.splits io_out.splits)

text \<open>Progress: a decoded frame shrinks the buffer, a read consumes an outcome, and writes touch neither.\<close>

lemma process_frame_progress:
  assumes "process_frame cr b e = (IoOk r, b1, e1)"
  shows "e1 = e" and "r \<noteq> FNeedMore \<Longrightarrow>
    decode_measure (sb_decoder b1) (sb_recv b1) < decode_measure (sb_decoder b) (sb_recv b)"
  using assms decode_progress [of "sb_decoder b" "sb_recv b"]
  by (auto simp: process_frame_def Let_def note_pong_received_def split: option.splits prod.splits sum.splits if_splits)

lemma guarded_write_frame:
  "guarded_write bs b e = (r, b1, e1) \<Longrightarrow> sb_decoder b1 = sb_decoder b \<and> sb_recv b1 = sb_recv b \<and> env_reads e1 = env_reads e"
  by (auto simp: guarded_write_def pop_write_def Let_def split: option.splits list.splits write_outcome.splits)

lemma flush_frame:
  "flush_send_buffer b e = (r, b1, e1) \<Longrightarrow> sb_decoder b1 = sb_decoder b \<and> sb_recv b1 = sb_recv b \<and> env_reads e1 = env_reads e"
  by (auto simp: flush_send_buffer_def aio_bind_def aio_return_def dest!: guarded_write_frame
      split: if_splits prod.splits io_out.splits)

lemma check_heartbeat_frame:
  "check_heartbeat b e = (r, b1, e1) \<Longrightarrow> sb_decoder b1 = sb_decoder b \<and> sb_recv b1 = sb_recv b \<and> env_reads e1 = env_reads e"
  by (auto simp: check_heartbeat_def instant_now_def Let_def split: option.splits if_splits)

lemma heartbeat_flush_frame:
  "heartbeat_flush b e = (IoOk u, b1, e1) \<Longrightarrow> sb_decoder b1 = sb_decoder b \<and> sb_recv b1 = sb_recv b \<and> env_reads e1 = env_reads e"
  by (auto simp: heartbeat_flush_def aio_bind_IoOk aio_return_def dest!: check_heartbeat_frame flush_frame split: if_splits)

lemma flush_replies_frame:
  "flush_replies b e = (r, b1, e1) \<Longrightarrow> sb_decoder b1 = sb_decoder b \<and> sb_recv b1 = sb_recv b \<and> env_reads e1 = env_reads e"
  by (auto simp: flush_replies_def aio_return_def dest!: flush_frame split: if_splits)

lemma read_raw_progress:
  "read_raw b e = (IoOk n, b1, e1) \<Longrightarrow> length (env_reads e1) < length (env_reads e)"
  by (auto simp: read_raw_def pop_read_def note_recv_def instant_now_def aio_bind_def aio_return_def
      split: if_splits list.splits read_outcome.splits)

lemma on_base_progress:
  "on_base (process_frame cr) s e = (IoOk r, s1, e1) \<Longrightarrow> e1 = e \<and> (r \<noteq> FNeedMore \<longrightarrow>
     decode_measure (sb_decoder (base s1)) (sb_recv (base s1)) < decode_measure (sb_decoder (base s)) (sb_recv (base s)))"
  "on_base read_raw s e = (IoOk n, s1, e1) \<Longrightarrow> length (env_reads e1) < length (env_reads e)"
  "on_base heartbeat_flush s e = (IoOk u, s1, e1) \<Longrightarrow> env_reads e1 = env_reads e"
  "on_base flush_replies s e = (IoOk u, s1, e1) \<Longrightarrow> env_reads e1 = env_reads e \<and>
     sb_decoder (base s1) = sb_decoder (base s) \<and> sb_recv (base s1) = sb_recv (base s)"
  using process_frame_progress read_raw_progress heartbeat_flush_frame flush_replies_frame
  by (fastforce simp: on_base_IoOk)+

section \<open>The receive loop\<close>

function recv_loop ::
  "curve_crypto \<Rightarrow> ('x, 'r) data_handler \<Rightarrow> ('x \<Rightarrow> 'r \<times> 'x) \<Rightarrow> ('x sock, 'r) aio" where
  "recv_loop cr on_data on_eof s e =
     aio_bind (on_base (process_frame cr)) (\<lambda>fr s1 e1.
       case fr of
         FNeedMore \<Rightarrow>
           aio_bind (on_base read_raw) (\<lambda>n s2 e2.
             if n = 0 then (let (r, x) = on_eof (own s2) in (IoOk r, s2\<lparr>own := x\<rparr>, e2))
             else aio_bind (on_base heartbeat_flush) (\<lambda>_ s3 e3. recv_loop cr on_data on_eof s3 e3) s2 e2) s1 e1
       | FCommandHandled \<Rightarrow>
           aio_bind (on_base flush_replies) (\<lambda>_ s2 e2. recv_loop cr on_data on_eof s2 e2) s1 e1
       | FData mo p \<Rightarrow>
           (case on_data (sb_options (base s1)) mo p (own s1) of
              (Some r, x) \<Rightarrow> (r, s1\<lparr>own := x\<rparr>, e1)
            | (None, x) \<Rightarrow> recv_loop cr on_data on_eof (s1\<lparr>own := x\<rparr>) e1)) s e"
  by pat_completeness auto
termination
  by (relation "inv_image (less_than <*lex*> less_than)
    (\<lambda>(cr, on_data, on_eof, s, e). (length (env_reads e), decode_measure (sb_decoder (base s)) (sb_recv (base s))))")
    (auto dest!: on_base_progress)

declare recv_loop.simps [simp del]

lemma keeps_on_base: "keeps P m \<Longrightarrow> keeps (\<lambda>s. P (base s)) (on_base m)"
  by (simp add: keeps_def on_base_def state_after_def case_prod_beta)

lemma state_after_bind:
  assumes "P (state_after (m s e))" and "\<And>x s1 e1. m s e = (IoOk x, s1, e1) \<Longrightarrow> P s1 \<Longrightarrow> P (state_after (f x s1 e1))"
  shows "P (state_after (aio_bind m f s e))"
  using assms by (auto simp: aio_bind_def split: prod.split io_out.split)

context connection_invariant
begin

lemma heartbeat_flush_inv: "keeps inv heartbeat_flush"
  unfolding heartbeat_flush_def by (intro base_intros)

lemma flush_replies_inv: "keeps inv flush_replies"
  unfolding flush_replies_def by (intro base_intros)

lemma recv_loop_inv:
  "cr' = cr \<Longrightarrow> inv (base s) \<Longrightarrow> inv (base (state_after (recv_loop cr' on_data on_eof s e)))"
proof (induction cr' on_data on_eof s e rule: recv_loop.induct)
  case (1 cr' on_data on_eof s e)
  note on = keepsD [OF keeps_on_base]
  show ?case
    unfolding recv_loop.simps [of cr' on_data on_eof s e]
  proof (rule state_after_bind [where P = "\<lambda>s. inv (base s)"])
    show "inv (base (state_after (on_base (process_frame cr') s e)))"
      using on [OF process_frame_inv] "1.prems" by simp
  next
    fix fr s1 e1
    assume p: "on_base (process_frame cr') s e = (IoOk fr, s1, e1)" and i: "inv (base s1)"
    have "inv (base (state_after (on_base read_raw s1 e1)))" by (rule on [OF read_raw_inv i])
    moreover have "inv (base (state_after (on_base heartbeat_flush s2 e2)))" if "inv (base s2)" for s2 :: "'a sock" and e2
      by (rule on [OF heartbeat_flush_inv that])
    moreover have "inv (base (state_after (on_base flush_replies s1 e1)))" by (rule on [OF flush_replies_inv i])
    ultimately show "inv (base (state_after (case fr of
         FNeedMore \<Rightarrow>
           aio_bind (on_base read_raw) (\<lambda>n s2 e2.
             if n = 0 then (let (r, x) = on_eof (own s2) in (IoOk r, s2\<lparr>own := x\<rparr>, e2))
             else aio_bind (on_base heartbeat_flush) (\<lambda>_ s3 e3. recv_loop cr' on_data on_eof s3 e3) s2 e2) s1 e1
       | FCommandHandled \<Rightarrow>
           aio_bind (on_base flush_replies) (\<lambda>_ s2 e2. recv_loop cr' on_data on_eof s2 e2) s1 e1
       | FData mo p \<Rightarrow>
           (case on_data (sb_options (base s1)) mo p (own s1) of
              (Some r, x) \<Rightarrow> (r, s1\<lparr>own := x\<rparr>, e1)
            | (None, x) \<Rightarrow> recv_loop cr' on_data on_eof (s1\<lparr>own := x\<rparr>) e1))))"
      using "1.IH" [OF p] "1.prems" i
      by (auto simp: Let_def intro!: state_after_bind [where P = "\<lambda>s. inv (base s)"]
          split: frame_result.split prod.split option.split)
  qed
qed

lemma recv_loop_keeps: "keeps (\<lambda>s. inv (base s)) (recv_loop cr on_data on_eof)"
  by (rule keepsI) (rule recv_loop_inv [OF refl])

end

section \<open>What a byte stream carries\<close>

text \<open>
  \<open>carries cr m d bs ds d'\<close>: a receiver with cipher \<open>d\<close> (none on a plain connection) and frame
  limit \<open>m\<close> reads from \<open>bs\<close> the data frames \<open>ds\<close>, each a MORE flag and a payload, and then has
  cipher \<open>d'\<close>.
\<close>

inductive carries ::
  "curve_crypto \<Rightarrow> nat \<Rightarrow> message_cipher option \<Rightarrow> bytes \<Rightarrow> (bool \<times> bytes) list \<Rightarrow> message_cipher option \<Rightarrow> bool"
  for cr m where
  carries_Nil: "carries cr m d [] [] d"
| carries_plain: "carries cr m None bs ds d' \<Longrightarrow> length p \<le> m \<Longrightarrow> length p < 2 ^ 63 \<Longrightarrow>
    carries cr m None (wire (if mo then 0x01 else 0) p @ bs) ((mo, p) # ds) d'"
| carries_curve: "decrypt_frame cr c body = Some (Inr (mo, p), c1) \<Longrightarrow> length body \<le> m \<Longrightarrow> length body < 2 ^ 63 \<Longrightarrow>
    carries cr m (Some c1) bs ds d' \<Longrightarrow>
    carries cr m (Some c) (append_zmtp_cmd_frame [] body @ bs) ((mo, p) # ds) d'"

inductive_cases carries_ConsE: "carries cr m d bs (x # ds) d'"

lemma carries_append:
  "carries cr m d bs ds d1 \<Longrightarrow> carries cr m d1 cs es d2 \<Longrightarrow> carries cr m d (bs @ cs) (ds @ es) d2"
proof (induction rule: carries.induct)
  case (carries_plain bs ds d' p mo)
  then show ?case using carries.carries_plain [of cr m "bs @ cs" "ds @ es" d2 p mo] by simp
next
  case (carries_curve c body mo p c1 bs ds d')
  then show ?case using carries.carries_curve [of cr c body mo p c1 m "bs @ cs" "ds @ es" d2] by simp
qed simp

fun message_parts :: "bytes list \<Rightarrow> (bool \<times> bytes) list" where
  "message_parts [] = []"
| "message_parts (p # ps) = (ps \<noteq> [], p) # message_parts ps"

text \<open>The messages a connection can carry: the parts fit the peer's frame limit, also encrypted.\<close>

definition fits :: "nat \<Rightarrow> bytes list \<Rightarrow> bool" where
  "fits m msg \<longleftrightarrow> (\<forall>p \<in> set msg. length p + 33 \<le> m \<and> length p + 1 < 2 ^ 32)"

text \<open>The ciphers of the two ends of a connection, for one direction.\<close>

fun matched :: "message_cipher option \<Rightarrow> message_cipher option \<Rightarrow> bool" where
  "matched None None = True"
| "matched (Some c) (Some d) = (mc_key d = mc_key c \<and> is_client d = (\<not> is_client c) \<and> recv_nonce d \<le> send_nonce c)"
| "matched _ _ = False"

text \<open>How many more frames a sender can encrypt.\<close>

fun budget :: "message_cipher option \<Rightarrow> nat \<Rightarrow> bool" where
  "budget None n = True"
| "budget (Some c) n = (send_nonce c + n \<le> usize_max)"

lemma budget_mono: "budget c n \<Longrightarrow> k \<le> n \<Longrightarrow> budget c k"
  by (cases c) auto

lemma carries_wire_message:
  "\<forall>p \<in> set msg. length p \<le> m \<and> length p < 2 ^ 63 \<Longrightarrow> carries cr m None (wire_message msg) (message_parts msg) None"
proof (induction msg)
  case (Cons p ps)
  have "carries cr m None (wire (if ps \<noteq> [] then 0x01 else 0) p @ wire_message ps) ((ps \<noteq> [], p) # message_parts ps) None"
    using Cons by (intro carries_plain) auto
  then show ?case by (simp add: wire_message_Cons split: if_splits)
qed (simp add: carries_Nil)

text \<open>An encrypted frame: its body carries the counter, opens to the payload and is 33 bytes longer.\<close>

lemma encrypt_frame_body:
  assumes "crypto_laws cr" "send_nonce c < usize_max" "length p + 1 < 2 ^ 32"
  obtains ct where "encrypt_frame cr c p mo = (Inr (CURVE_MESSAGE @ be_bytes 8 (send_nonce c) @ ct), c\<lparr>send_nonce := send_nonce c + 1\<rparr>)"
    "xchacha_open cr (mc_key c) (nonce_prefix (is_client c) @ be_bytes 8 (send_nonce c)) ct = Some ((if mo then 1 else 0) # p)"
    "length (CURVE_MESSAGE @ be_bytes 8 (send_nonce c) @ ct) = length p + 33"
proof -
  let ?k = "mc_key c" and ?n = "nonce_prefix (is_client c) @ be_bytes 8 (send_nonce c)" and ?pt = "(if mo then 1 else 0) # p"
  obtain ct where e: "encrypt_frame cr c p mo = (Inr (CURVE_MESSAGE @ be_bytes 8 (send_nonce c) @ ct), c\<lparr>send_nonce := send_nonce c + 1\<rparr>)"
    and o: "xchacha_open cr ?k ?n ct = Some ?pt"
    using encrypt_frame_ok [OF assms, of mo] by metis
  have "xchacha_seal cr ?k ?n ?pt = Some ct" using crypto_lawsD(6) [OF assms(1) o] .
  then have "length ct = length p + 17"
    using crypto_lawsD(5) [OF assms(1), of ?pt ?k ?n] assms(3) by auto
  with that [OF e o] show ?thesis by simp
qed

lemma encrypt_parts_carries:
  assumes "crypto_laws cr" and "fits m msg" and "matched (Some c) (Some d)" and "send_nonce c + length msg \<le> usize_max"
    and "Suc l = i + length msg \<or> msg = []"
  shows "\<exists>c' d' out. encrypt_parts cr c l i msg buf = (True, c', buf @ out) \<and>
    carries cr m (Some d) out (message_parts msg) (Some d') \<and> matched (Some c') (Some d') \<and>
    send_nonce c' = send_nonce c + length msg"
  using assms(2-5)
proof (induction msg arbitrary: c d i buf)
  case (Cons p ps)
  let ?mo = "i < l" and ?n = "send_nonce c"
  let ?c = "c\<lparr>send_nonce := ?n + 1\<rparr>" and ?d = "d\<lparr>recv_nonce := ?n + 1\<rparr>"
  have mo: "?mo = (ps \<noteq> [])" using Cons.prems(4) by auto
  have pl: "length p + 1 < 2 ^ 32" "length p + 33 \<le> m" using Cons.prems(1) by (simp_all add: fits_def)
  have lt: "?n < usize_max" using Cons.prems(3) by simp
  obtain ct where e: "encrypt_frame cr c p ?mo = (Inr (CURVE_MESSAGE @ be_bytes 8 ?n @ ct), ?c)"
    and o: "xchacha_open cr (mc_key c) (nonce_prefix (is_client c) @ be_bytes 8 ?n) ct = Some ((if ?mo then 1 else 0) # p)"
    and l: "length (CURVE_MESSAGE @ be_bytes 8 ?n @ ct) = length p + 33"
    using encrypt_frame_body [OF assms(1) lt pl(1), of ?mo] by metis
  let ?body = "CURVE_MESSAGE @ be_bytes 8 ?n @ ct"
  have dec: "decrypt_frame cr d ?body = Some (Inr (?mo, p), ?d)"
    using o lt Cons.prems(2) by (intro decrypt_frame_ok) simp_all
  have bl: "length ?body \<le> m" "length ?body < 2 ^ 63" using pl l by simp_all
  obtain c' d' out where IH: "encrypt_parts cr ?c l (Suc i) ps (append_zmtp_cmd_frame buf ?body) = (True, c', append_zmtp_cmd_frame buf ?body @ out)"
    "carries cr m (Some ?d) out (message_parts ps) (Some d')" "matched (Some c') (Some d')" "send_nonce c' = ?n + 1 + length ps"
    using Cons.IH [of ?c ?d "Suc i" "append_zmtp_cmd_frame buf ?body"] Cons.prems by (fastforce simp: fits_def)
  have "encrypt_parts cr c l i (p # ps) buf = (True, c', buf @ append_zmtp_cmd_frame [] ?body @ out)"
    using e IH(1) append_zmtp_cmd_frame_eq [of buf ?body] by simp
  moreover have "carries cr m (Some d) (append_zmtp_cmd_frame [] ?body @ out) (message_parts (p # ps)) (Some d')"
    using carries_curve [OF dec bl IH(2)] mo by simp
  ultimately show ?case using IH(3,4) by (intro exI [of _ c'] exI [of _ d'] exI conjI) auto
qed (auto intro: carries_Nil)

lemma encode_message_carries:
  assumes "crypto_laws cr" and "fits m msg" and "matched c d" and "budget c (length msg + k)"
  shows "\<exists>c' d' out. encode_message cr c msg buf = (True, c', buf @ out) \<and> carries cr m d out (message_parts msg) d' \<and>
    matched c' d' \<and> budget c' k"
proof (cases c)
  case None
  then have d: "d = None" using assms(3) by (cases d) simp_all
  have "\<forall>p \<in> set msg. length p \<le> m \<and> length p < 2 ^ 63" using assms(2) unfolding fits_def by fastforce
  then have "carries cr m None (wire_message msg) (message_parts msg) None" by (rule carries_wire_message)
  then show ?thesis
    by (intro exI [of _ None] exI [of _ "wire_message msg"]) (simp add: encode_message_def encode_multipart_wire None d)
next
  case (Some c0)
  then obtain d0 where d: "d = Some d0" using assms(3) by (cases d) simp_all
  have "\<exists>c' d' out. encrypt_parts cr c0 (length msg - 1) 0 msg buf = (True, c', buf @ out) \<and>
    carries cr m (Some d0) out (message_parts msg) (Some d') \<and> matched (Some c') (Some d') \<and>
    send_nonce c' = send_nonce c0 + length msg"
    using assms(3,4) Some d by (intro encrypt_parts_carries [OF assms(1,2)]) (simp_all, auto)
  then obtain c' d' out where "encrypt_parts cr c0 (length msg - 1) 0 msg buf = (True, c', buf @ out)"
    "carries cr m (Some d0) out (message_parts msg) (Some d')" "matched (Some c') (Some d')" "send_nonce c' = send_nonce c0 + length msg"
    by blast
  then show ?thesis using Some d assms(4)
    by (intro exI [of _ "Some c'"] exI [of _ "Some d'"] exI [of _ out]) (simp add: encode_message_def)
qed

section \<open>The loop delivers what the stream carries\<close>

text \<open>A connected receiver without heartbeats whose unread bytes are \<open>v\<close>.\<close>

definition receiving :: "nat \<Rightarrow> message_cipher option \<Rightarrow> bytes \<Rightarrow> socket_base \<Rightarrow> bool" where
  "receiving m d v b \<longleftrightarrow> dec_inv (sb_decoder b) \<and> seg_inv (sb_recv b) \<and> max_frame_size (sb_decoder b) = m \<and>
     sb_curve_cipher b = d \<and> vstream (sb_decoder b) (sb_recv b) = v \<and> sb_stream b \<noteq> None \<and>
     opt_heartbeat_ivl (sb_options b) = None \<and> opt_recv_timeout (sb_options b) \<noteq> Some 0"

text \<open>What the sending direction of a connection depends on; receiving leaves it alone.\<close>

fun sealing :: "message_cipher option \<Rightarrow> (bytes \<times> bool \<times> nat) option" where
  "sealing None = None"
| "sealing (Some c) = Some (mc_key c, is_client c, send_nonce c)"

definition send_side :: "socket_base \<Rightarrow> bytes option \<times> bool \<times> bytes \<times> socket_options \<times> (bytes \<times> bool \<times> nat) option" where
  "send_side b = (sb_stream b, sb_is_poisoned b, sb_send_buffer b, sb_options b, sealing (sb_curve_cipher b))"

lemma send_side_options: "send_side b1 = send_side b \<Longrightarrow> sb_options b1 = sb_options b"
  by (simp add: send_side_def)

lemma send_side_recv [simp]:
  "send_side (b\<lparr>sb_decoder := x\<rparr>) = send_side b" "send_side (b\<lparr>sb_recv := y\<rparr>) = send_side b"
  "send_side (b\<lparr>sb_last_recv_instant := z\<rparr>) = send_side b"
  by (simp_all add: send_side_def)

lemma decrypt_keeps_sealing: "decrypt_frame cr c body = Some (Inr x, c1) \<Longrightarrow> sealing (Some c1) = sealing (Some c)"
  by (cases x) (auto elim!: decrypt_frame_Inr)

lemma process_frame_needmore:
  assumes "receiving m d v b" and "parse_frame m v = NeedMore"
  shows "\<exists>b1. process_frame cr b e = (IoOk FNeedMore, b1, e) \<and> receiving m d v b1 \<and> send_side b1 = send_side b"
proof -
  have inv: "dec_inv (sb_decoder b)" "seg_inv (sb_recv b)" using assms(1) by (simp_all add: receiving_def)
  from decode_refines_parse [OF inv] assms show ?thesis
    by (auto simp: decode_refines_def receiving_def process_frame_def)
qed

lemma process_frame_parsed:
  assumes "receiving m d v b" and "parse_frame m v = Parsed f v1"
  shows "\<exists>d1 src1. decode (sb_decoder b) (sb_recv b) = Some (Inr (Some f), d1, src1) \<and>
    receiving m d v1 (b\<lparr>sb_decoder := d1, sb_recv := src1\<rparr>)"
  using process_frame_parse [of b f v1] assms by (auto simp: receiving_def)

lemma carries_first:
  assumes "carries cr m d out ((mo, p) # ds) d'"
  obtains (plain) out1 where "d = None" "out = wire (if mo then 0x01 else 0) p @ out1" "carries cr m None out1 ds d'"
      "length p \<le> m" "length p < 2 ^ 63"
    | (curve) c body c1 out1 where "d = Some c" "out = append_zmtp_cmd_frame [] body @ out1"
      "decrypt_frame cr c body = Some (Inr (mo, p), c1)" "carries cr m (Some c1) out1 ds d'" "length body \<le> m" "length body < 2 ^ 63"
  using assms by (rule carries_ConsE) (auto split: if_splits)

lemma decrypted_is_message: "decrypt_frame cr c body = Some (Inr x, c1) \<Longrightarrow> is_curve_message body"
  by (cases x) (auto elim!: decrypt_frame_Inr simp: is_curve_message_def starts_with_def)

text \<open>The first frame of the stream is either there, and is handed over, or the loop has to read.\<close>

lemma process_frame_carries:
  assumes "carries cr m d out ((mo, p) # ds) d'" and "receiving m d v b" and "out @ rest = v @ w"
  shows "(\<exists>b1. process_frame cr b e = (IoOk FNeedMore, b1, e) \<and> receiving m d v b1 \<and> send_side b1 = send_side b \<and> w \<noteq> []) \<or>
    (\<exists>b1 d1 v1 out1. process_frame cr b e = (IoOk (FData mo p), b1, e) \<and> receiving m d1 v1 b1 \<and>
       send_side b1 = send_side b \<and> carries cr m d1 out1 ds d' \<and> out1 @ rest = v1 @ w)"
proof -
  obtain f out1 where f: "parse_frame m (out @ rest) = Parsed f (out1 @ rest)"
    and cases: "d = None \<and> carries cr m None out1 ds d' \<and> \<not> frame_is_command f \<and> frame_more f = mo \<and> payload f = p \<or>
      (\<exists>c c1. d = Some c \<and> carries cr m (Some c1) out1 ds d' \<and> frame_is_command f \<and>
        decrypt_frame cr c (payload f) = Some (Inr (mo, p), c1))"
    using assms(1)
  proof (cases rule: carries_first)
    case (plain out1)
    let ?f = "\<lparr>flags = canon_flags (if mo then 0x01 else 0) (length p), payload = p\<rparr>"
    have "valid_flags (if mo then 0x01 else 0)" by (simp add: valid_flags_def)
    then have "parse_frame m (out @ rest) = Parsed ?f (out1 @ rest)"
      using wire_encode.parse_enc [of "(if mo then 0x01 else 0, p)" m "out1 @ rest"] plain by (simp del: if_split)
    with plain show ?thesis using that [of ?f out1] by (simp add: frame_more_canon)
  next
    case (curve c body c1 out1)
    let ?f = "\<lparr>flags = canon_flags 0x04 (length body), payload = body\<rparr>"
    have "parse_frame m (out @ rest) = Parsed ?f (out1 @ rest)"
      using curve_encode.parse_enc [of body m "out1 @ rest"] curve by (simp add: valid_flags_def)
    with curve show ?thesis using that [of ?f out1] by (simp add: frame_more_canon)
  qed
  show ?thesis
  proof (cases "parse_frame m v")
    case NeedMore
    with f assms(3) have "w \<noteq> []" by auto
    with process_frame_needmore [OF assms(2) NeedMore] show ?thesis by blast
  next
    case (Bad e)
    with parse_frame_append_Bad [OF Bad, of w] f assms(3) show ?thesis by simp
  next
    case (Parsed g v1)
    with parse_frame_append [OF Parsed, of w] f assms(3) have g: "g = f" "v1 @ w = out1 @ rest" by simp_all
    obtain d1 src1 where dec: "decode (sb_decoder b) (sb_recv b) = Some (Inr (Some f), d1, src1)"
      and r: "receiving m d v1 (b\<lparr>sb_decoder := d1, sb_recv := src1\<rparr>)"
      using process_frame_parsed [OF assms(2) Parsed] g(1) by blast
    have bd: "sb_curve_cipher b = d" using assms(2) by (simp add: receiving_def)
    from cases show ?thesis
    proof (elim disjE exE)
      assume "d = None \<and> carries cr m None out1 ds d' \<and> \<not> frame_is_command f \<and> frame_more f = mo \<and> payload f = p"
      with dec r g bd show ?thesis
        by (intro disjI2 exI [of _ "b\<lparr>sb_decoder := d1, sb_recv := src1\<rparr>"] exI [of _ None] exI [of _ v1] exI [of _ out1])
          (simp add: process_frame_def)
    next
      fix c c1
      assume "d = Some c \<and> carries cr m (Some c1) out1 ds d' \<and> frame_is_command f \<and>
        decrypt_frame cr c (payload f) = Some (Inr (mo, p), c1)"
      with dec r g bd decrypted_is_message show ?thesis
        by (intro disjI2 exI [of _ "b\<lparr>sb_decoder := d1, sb_recv := src1, sb_curve_cipher := Some c1\<rparr>"]
            exI [of _ "Some c1"] exI [of _ v1] exI [of _ out1])
          (auto simp: process_frame_def receiving_def send_side_def dest: decrypt_keeps_sealing)
    qed
  qed
qed

lemma read_raw_receiving:
  assumes "receiving m d v b" and "env_reads e = ReadBytes bs # rs" and "bs \<noteq> []"
  shows "\<exists>b1. read_raw b e = (IoOk (length bs), b1, e\<lparr>env_reads := rs\<rparr>) \<and> receiving m d (v @ bs) b1 \<and> send_side b1 = send_side b"
  using assms seg_push_spec [of "sb_recv b" bs] vstream_push [of "sb_recv b" "sb_decoder b" bs]
  by (auto simp: receiving_def read_raw_def pop_read_def note_recv_def aio_bind_def aio_return_def)

lemma heartbeat_flush_receiving: "receiving m d v b \<Longrightarrow> heartbeat_flush b e = (IoOk (), b, e)"
  by (simp add: receiving_def heartbeat_flush_def check_heartbeat_def aio_bind_def aio_return_def)

text \<open>When the buffer holds no whole frame, the loop reads the next piece.\<close>

lemma recv_loop_reads:
  assumes "process_frame cr (base s) e = (IoOk FNeedMore, b1, e)" and "receiving m d v b1"
    and "env_reads e = ReadBytes bs # rs" and "bs \<noteq> []"
  shows "\<exists>b2. recv_loop cr on_data on_eof s e = recv_loop cr on_data on_eof (s\<lparr>base := b2\<rparr>) (e\<lparr>env_reads := rs\<rparr>) \<and>
    receiving m d (v @ bs) b2 \<and> send_side b2 = send_side b1"
proof -
  obtain b2 where b2: "read_raw b1 e = (IoOk (length bs), b2, e\<lparr>env_reads := rs\<rparr>)" "receiving m d (v @ bs) b2"
    "send_side b2 = send_side b1"
    using read_raw_receiving [OF assms(2-4)] by blast
  have "recv_loop cr on_data on_eof s e = recv_loop cr on_data on_eof (s\<lparr>base := b2\<rparr>) (e\<lparr>env_reads := rs\<rparr>)"
    using assms(1,4) b2(1) heartbeat_flush_receiving [OF b2(2)]
    by (simp add: recv_loop.simps [of cr on_data on_eof s e] aio_bind_def on_base_def)
  with b2(2,3) show ?thesis by blast
qed

text \<open>The data frames \<open>ds\<close> lead the own fields from \<open>x\<close> to \<open>x'\<close>, and the last of them ends the loop with \<open>r\<close>.\<close>

fun feeds :: "('x, 'r) data_handler \<Rightarrow> socket_options \<Rightarrow> (bool \<times> bytes) list \<Rightarrow> 'x \<Rightarrow> 'r io_out \<Rightarrow> 'x \<Rightarrow> bool" where
  "feeds f opts [] x r x' = False"
| "feeds f opts ((mo, p) # ds) x r x' =
     (case f opts mo p x of
        (Some r0, x1) \<Rightarrow> ds = [] \<and> r0 = r \<and> x1 = x'
      | (None, x1) \<Rightarrow> feeds f opts ds x1 r x')"

lemma recv_loop_carries:
  assumes "carries cr m d out ds d'" and "receiving m d v (base s)" and "out @ rest = v @ concat chunks"
    and "[] \<notin> set chunks" and "env_reads e = map ReadBytes chunks @ rs"
    and "feeds on_data (sb_options (base s)) ds (own s) r x"
  shows "\<exists>b v' chunks'. recv_loop cr on_data on_eof s e =
      (r, s\<lparr>base := b, own := x\<rparr>, e\<lparr>env_reads := map ReadBytes chunks' @ rs\<rparr>) \<and>
    receiving m d' v' b \<and> rest = v' @ concat chunks' \<and> (\<exists>pre. chunks = pre @ chunks') \<and> send_side b = send_side (base s)"
  using assms
proof (induction "length ds + length chunks" arbitrary: d out ds v s chunks e rule: less_induct)
  case less
  obtain mo p ds1 where ds: "ds = (mo, p) # ds1"
    using less.prems(6) by (cases ds) auto
  from process_frame_carries [OF less.prems(1) [unfolded ds] less.prems(2,3), of e]
  show ?case
  proof (elim disjE exE conjE)
    fix b1
    assume p1: "process_frame cr (base s) e = (IoOk FNeedMore, b1, e)" "receiving m d v b1" "send_side b1 = send_side (base s)"
      and "concat chunks \<noteq> []"
    then obtain bs cs where chunks: "chunks = bs # cs" by (cases chunks) auto
    with less.prems(4,5) have bs: "bs \<noteq> []" "[] \<notin> set cs" "env_reads e = ReadBytes bs # map ReadBytes cs @ rs" by auto
    let ?e = "e\<lparr>env_reads := map ReadBytes cs @ rs\<rparr>"
    obtain b2 where step: "recv_loop cr on_data on_eof s e = recv_loop cr on_data on_eof (s\<lparr>base := b2\<rparr>) ?e"
      and b2: "receiving m d (v @ bs) b2" "send_side b2 = send_side b1"
      using recv_loop_reads [OF p1(1,2) bs(3,1)] by blast
    have "\<exists>b v' chunks'. recv_loop cr on_data on_eof (s\<lparr>base := b2\<rparr>) ?e =
        (r, (s\<lparr>base := b2\<rparr>)\<lparr>base := b, own := x\<rparr>, ?e\<lparr>env_reads := map ReadBytes chunks' @ rs\<rparr>) \<and>
      receiving m d' v' b \<and> rest = v' @ concat chunks' \<and> (\<exists>pre. cs = pre @ chunks') \<and> send_side b = send_side (base (s\<lparr>base := b2\<rparr>))"
      using less.prems b2 p1(3) bs(2) chunks send_side_options [OF b2(2)] send_side_options [OF p1(3)]
      by (intro less.hyps [of ds cs d out "v @ bs"]) simp_all
    moreover have "(\<exists>pre. cs = pre @ chunks') \<Longrightarrow> \<exists>pre. chunks = pre @ chunks'" for chunks'
      using chunks by (metis append_Cons)
    ultimately show ?thesis using step b2(2) p1(3) by (simp, blast)
  next
    fix b1 d1 v1 out1
    assume p1: "process_frame cr (base s) e = (IoOk (FData mo p), b1, e)" "receiving m d1 v1 b1"
      "send_side b1 = send_side (base s)" "carries cr m d1 out1 ds1 d'" "out1 @ rest = v1 @ concat chunks"
    note opts = send_side_options [OF p1(3)]
    show ?thesis
    proof (cases "on_data (sb_options (base s)) mo p (own s)")
      case (Pair y x1)
      show ?thesis
      proof (cases y)
        case (Some r0)
        with less.prems(6) ds Pair have "ds1 = []" "r0 = r" "x1 = x" by simp_all
        moreover from this p1(4) have "d1 = d'" "out1 = []" by (auto elim: carries.cases)
        ultimately show ?thesis
          using p1 opts Pair Some less.prems(4,5)
          by (intro exI [of _ b1] exI [of _ v1] exI [of _ chunks])
            (simp add: recv_loop.simps [of cr on_data on_eof s e] aio_bind_def on_base_def)
      next
        case None
        let ?s = "s\<lparr>base := b1, own := x1\<rparr>"
        have step: "recv_loop cr on_data on_eof s e = recv_loop cr on_data on_eof ?s e"
          using p1 opts Pair None by (simp add: recv_loop.simps [of cr on_data on_eof s e] aio_bind_def on_base_def)
        have "\<exists>b v' chunks'. recv_loop cr on_data on_eof ?s e =
            (r, ?s\<lparr>base := b, own := x\<rparr>, e\<lparr>env_reads := map ReadBytes chunks' @ rs\<rparr>) \<and>
          receiving m d' v' b \<and> rest = v' @ concat chunks' \<and> (\<exists>pre. chunks = pre @ chunks') \<and> send_side b = send_side (base ?s)"
          using less.prems p1 opts ds Pair None by (intro less.hyps [of ds1 chunks d1 out1 v1]) simp_all
        with step p1(3) show ?thesis by simp
      qed
    qed
  qed
qed

text \<open>
  Frames an encrypted connection refuses: plain data, and encrypted messages that do not decrypt.
\<close>

definition refused :: "curve_crypto \<Rightarrow> message_cipher \<Rightarrow> zmtp_frame \<Rightarrow> bool" where
  "refused cr c f \<longleftrightarrow>
     (if frame_is_command f
      then is_curve_message (payload f) \<and> (\<exists>err c'. decrypt_frame cr c (payload f) = Some (Inl err, c'))
      else True)"

lemma recv_loop_refuses_now:
  assumes "receiving m (Some c) v (base s)" and "parse_frame m v = Parsed f rest" and "refused cr c f"
  shows "fst (recv_loop cr on_data on_eof s e) = IoErr InvalidData"
proof -
  from process_frame_parsed [OF assms(1,2)] obtain d1 src1 where
    "decode (sb_decoder (base s)) (sb_recv (base s)) = Some (Inr (Some f), d1, src1)" by blast
  moreover have "sb_curve_cipher (base s) = Some c" using assms(1) by (simp add: receiving_def)
  ultimately show ?thesis
    using assms(3)
    by (auto simp: recv_loop.simps [of cr on_data on_eof s e] aio_bind_def on_base_def process_frame_def refused_def
        split: if_splits)
qed

lemma recv_loop_refuses:
  assumes "receiving m (Some c) v (base s)" and "parse_frame m (v @ concat chunks) = Parsed f rest" and "refused cr c f"
    and "[] \<notin> set chunks" and "env_reads e = map ReadBytes chunks @ rs"
  shows "fst (recv_loop cr on_data on_eof s e) = IoErr InvalidData"
  using assms
proof (induction chunks arbitrary: v s e)
  case Nil
  then show ?case by (simp add: recv_loop_refuses_now)
next
  case (Cons bs chunks)
  show ?case
  proof (cases "parse_frame m v")
    case NeedMore
    obtain b1 where b1: "process_frame cr (base s) e = (IoOk FNeedMore, b1, e)" "receiving m (Some c) v b1"
      using process_frame_needmore [OF Cons.prems(1) NeedMore] by blast
    have bs: "env_reads e = ReadBytes bs # map ReadBytes chunks @ rs" "bs \<noteq> []" using Cons.prems(4,5) by auto
    obtain b2 where "receiving m (Some c) (v @ bs) b2" "recv_loop cr on_data on_eof s e =
        recv_loop cr on_data on_eof (s\<lparr>base := b2\<rparr>) (e\<lparr>env_reads := map ReadBytes chunks @ rs\<rparr>)"
      using recv_loop_reads [OF b1 bs] by blast
    then show ?thesis using Cons.prems by (simp add: Cons.IH [of "v @ bs"])
  next
    case (Bad err)
    with parse_frame_append_Bad [OF Bad, of "concat (bs # chunks)"] Cons.prems(2) show ?thesis by simp
  next
    case (Parsed g v1)
    with parse_frame_append [OF Parsed, of "concat (bs # chunks)"] Cons.prems(2) have "g = f" by simp
    with Parsed recv_loop_refuses_now [OF Cons.prems(1) _ Cons.prems(3)] show ?thesis by blast
  qed
qed

end
