(* ===== verification/Message_Sockets.thy ===== *)
theory Message_Sockets
  imports Socket_Recv
begin

text \<open>
  \<open>monocoque-zmtp/src/dealer.rs\<close>, \<open>pair.rs\<close>, \<open>push.rs\<close>, \<open>pull.rs\<close> and \<open>router.rs\<close>: the socket types
  that exchange messages freely. Their constructors run the handshake of \<open>Curve_Handshake\<close>, their
  operations are compositions of the operations of \<open>Socket_Base\<close> and of the receive loop. The
  theorems: what one socket sends another receives, in order, plain and encrypted; no operation
  tears a frame; and four places where the code does not do what it means to.
\<close>

section \<open>Opening a connection\<close>

text \<open>The common part of \<open>with_options\<close>: the handshake, then a base that carries its cipher.\<close>

definition with_handshake ::
  "curve_crypto \<Rightarrow> curve_entropy \<Rightarrow> zap_environment \<Rightarrow> socket_type \<Rightarrow> bytes option \<Rightarrow> socket_options \<Rightarrow>
   (socket_options \<Rightarrow> socket_base) \<Rightarrow> hs_stream \<Rightarrow> (message_cipher handshake_result \<times> socket_base) io_out" where
  "with_handshake cr ent zap st ident opts new_base conn =
     (case perform_handshake_with_options cr ent zap st ident (Some (opt_handshake_timeout opts)) opts conn of
        (HErr _, _) \<Rightarrow> IoErr OtherError
      | (HPanic, _) \<Rightarrow> IoPanic
      | (HOk hr, _) \<Rightarrow> IoOk (hr, (new_base opts)\<lparr>sb_curve_cipher := curve_cipher hr\<rparr>))"

fun io_map :: "('a \<Rightarrow> 'b) \<Rightarrow> 'a io_out \<Rightarrow> 'b io_out" where
  "io_map f (IoOk x) = IoOk (f x)"
| "io_map f (IoErr k) = IoErr k"
| "io_map f IoDropped = IoDropped"
| "io_map f IoPanic = IoPanic"

text \<open>
  The common part of \<open>connect_with_options\<close> after the TCP connect, whose peer address is \<open>addr\<close>:
  the error of setting the TCP options, if any, then the handshake.
\<close>

definition connect_handshake ::
  "curve_crypto \<Rightarrow> curve_entropy \<Rightarrow> zap_environment \<Rightarrow> socket_type \<Rightarrow> str \<Rightarrow> io_error_kind option \<Rightarrow> hs_stream \<Rightarrow>
   socket_options \<Rightarrow> (message_cipher handshake_result \<times> socket_base) io_out" where
  "connect_handshake cr ent zap st addr configure conn opts =
     (case configure of
        Some k \<Rightarrow> IoErr k
      | None \<Rightarrow> with_handshake cr ent zap st (opt_routing_id opts) opts (base_with_endpoint (TcpEndpoint addr)) conn)"

section \<open>DEALER\<close>

type_synonym dealer_socket = "bytes list sock"

definition dealer_with_options ::
  "curve_crypto \<Rightarrow> curve_entropy \<Rightarrow> zap_environment \<Rightarrow> hs_stream \<Rightarrow> socket_options \<Rightarrow> dealer_socket io_out" where
  "dealer_with_options cr ent zap conn opts =
     io_map (\<lambda>(_, b). \<lparr>base = b, own = []\<rparr>) (with_handshake cr ent zap StDealer (opt_routing_id opts) opts base_new conn)"

definition dealer_connect_with_options ::
  "curve_crypto \<Rightarrow> curve_entropy \<Rightarrow> zap_environment \<Rightarrow> str \<Rightarrow> io_error_kind option \<Rightarrow> hs_stream \<Rightarrow> socket_options \<Rightarrow> dealer_socket io_out" where
  "dealer_connect_with_options cr ent zap addr configure conn opts =
     io_map (\<lambda>(_, b). \<lparr>base = b, own = []\<rparr>) (connect_handshake cr ent zap StDealer addr configure conn opts)"

text \<open>\<open>self.frames.push(payload)\<close>, and the drained frames when MORE is clear.\<close>

definition collect_frames :: "(bytes list, bytes list option) data_handler" where
  "collect_frames opts mo p frames =
     (let frames1 = frames @ [p] in if \<not> mo then (Some (IoOk (Some frames1)), []) else (None, frames1))"

definition eof_none :: "'x \<Rightarrow> 'r option \<times> 'x" where
  "eof_none x = (None, x)"

definition dealer_recv :: "curve_crypto \<Rightarrow> (dealer_socket, bytes list option) aio" where
  "dealer_recv cr = recv_loop cr collect_frames eof_none"

definition write_message :: "curve_crypto \<Rightarrow> bytes list \<Rightarrow> unit base_op" where
  "write_message cr msg = aio_bind (encode_message_to_write_buf cr msg) (\<lambda>_. write_from_buf)"

definition dealer_send :: "curve_crypto \<Rightarrow> bytes list \<Rightarrow> (dealer_socket, unit) aio" where
  "dealer_send cr msg = on_base (write_message cr msg)"

definition dealer_send_buffered :: "curve_crypto \<Rightarrow> bytes list \<Rightarrow> (dealer_socket, unit) aio" where
  "dealer_send_buffered cr msg =
     on_base (\<lambda>b. if hwm_reached b then aio_fail WouldBlock b else encode_message_to_send_buf cr msg b)"

definition dealer_flush :: "(dealer_socket, unit) aio" where
  "dealer_flush = on_base flush_send_buffer"

fun buffer_all :: "curve_crypto \<Rightarrow> bytes list list \<Rightarrow> unit base_op" where
  "buffer_all cr [] = aio_return ()"
| "buffer_all cr (msg # msgs) = aio_bind (encode_message_to_send_buf cr msg) (\<lambda>_. buffer_all cr msgs)"

definition dealer_send_batch :: "curve_crypto \<Rightarrow> bytes list list \<Rightarrow> (dealer_socket, unit) aio" where
  "dealer_send_batch cr msgs =
     on_base (\<lambda>b. if opt_send_hwm (sb_options b) \<noteq> 0 \<and>
                     opt_send_hwm (sb_options b) < min (sb_buffered_messages b + length msgs) usize_max
                  then aio_fail WouldBlock b
                  else aio_bind (buffer_all cr msgs) (\<lambda>_. flush_send_buffer) b)"

text \<open>The socket is consumed; the state after is what had happened when it is dropped.\<close>

definition dealer_close :: "(dealer_socket, unit) aio" where
  "dealer_close =
     on_base (\<lambda>b. if sb_send_buffer b = [] then aio_return () b
                  else flush_lingering (opt_linger (sb_options b)) (aio_return ()) b)"

definition dealer_set_options :: "socket_options \<Rightarrow> dealer_socket \<Rightarrow> dealer_socket" where
  "dealer_set_options opts s = s\<lparr>base := base_set_options opts (base s)\<rparr>"

definition dealer_try_reconnect :: "curve_crypto \<Rightarrow> reconnect_io \<Rightarrow> (dealer_socket, unit) aio" where
  "dealer_try_reconnect cr io = on_base (base_try_reconnect cr io StDealer)"

subsection \<open>Automatic reconnection\<close>

text \<open>
  The loops of \<open>recv_with_reconnect\<close> and \<open>send_with_reconnect\<close>, which the socket types share but
  for what they \<open>reset\<close> of their own fields when the connection is lost. The environment supplies the
  data of one possible reconnection for every iteration; a call that has not returned after them
  is dropped.
\<close>

definition reconnectable :: "io_error_kind \<Rightarrow> bool" where
  "reconnectable k \<longleftrightarrow> k \<in> {ConnectionReset, ConnectionAborted, BrokenPipe, UnexpectedEof}"

definition attempts_exhausted :: "nat option \<Rightarrow> nat \<Rightarrow> bool" where
  "attempts_exhausted limit attempts = (case limit of None \<Rightarrow> False | Some n \<Rightarrow> n \<le> attempts)"

definition lost :: "'x sock \<Rightarrow> bool" where
  "lost s \<longleftrightarrow> sb_stream (base s) = None"

definition drop_stream :: "'x sock \<Rightarrow> 'x sock" where
  "drop_stream s = s\<lparr>base := (base s)\<lparr>sb_stream := None\<rparr>\<rparr>"

fun recv_reconnecting ::
  "('x \<Rightarrow> 'x) \<Rightarrow> (reconnect_io \<Rightarrow> ('x sock, unit) aio) \<Rightarrow> ('x sock, 'r option) aio \<Rightarrow> nat option \<Rightarrow> nat \<Rightarrow> reconnect_io list \<Rightarrow>
   ('x sock, 'r option) aio" where
  "recv_reconnecting reset try rcv limit attempts [] s e = (IoDropped, s, e)"
| "recv_reconnecting reset try rcv limit attempts (io # ios) s e =
     (if lost s \<and> attempts_exhausted limit attempts then (IoErr NotConnected, s, e)
      else aio_bind (\<lambda>s. if lost s then try io (s\<lparr>own := reset (own s)\<rparr>) else aio_return () s) (\<lambda>_ s1 e1.
        case rcv s1 e1 of
          (IoOk (Some msg), s2, e2) \<Rightarrow> (IoOk (Some msg), s2, e2)
        | (IoOk None, s2, e2) \<Rightarrow>
            recv_reconnecting reset try rcv limit (if lost s then attempts + 1 else attempts) ios (s2\<lparr>own := reset (own s2)\<rparr>) e2
        | (IoErr k, s2, e2) \<Rightarrow>
            if lost s2 \<or> reconnectable k
            then recv_reconnecting reset try rcv limit (if lost s then attempts + 1 else attempts) ios
                   (drop_stream (s2\<lparr>own := reset (own s2)\<rparr>)) e2
            else (IoErr k, s2, e2)
        | r \<Rightarrow> r) s e)"

fun send_reconnecting ::
  "('x \<Rightarrow> 'x) \<Rightarrow> (reconnect_io \<Rightarrow> ('x sock, unit) aio) \<Rightarrow> ('x sock, unit) aio \<Rightarrow> nat option \<Rightarrow> nat \<Rightarrow> reconnect_io list \<Rightarrow>
   ('x sock, unit) aio" where
  "send_reconnecting reset try sender limit attempts [] s e = (IoDropped, s, e)"
| "send_reconnecting reset try sender limit attempts (io # ios) s e =
     (if lost s \<and> attempts_exhausted limit attempts then (IoErr NotConnected, s, e)
      else aio_bind (\<lambda>s. if lost s then try io (s\<lparr>own := reset (own s)\<rparr>) else aio_return () s) (\<lambda>_ s1 e1.
        case sender s1 e1 of
          (IoErr k, s2, e2) \<Rightarrow>
            if lost s2
            then send_reconnecting reset try sender limit (if lost s then attempts + 1 else attempts) ios (s2\<lparr>own := reset (own s2)\<rparr>) e2
            else (IoErr k, s2, e2)
        | r \<Rightarrow> r) s e)"

definition dealer_recv_with_reconnect :: "curve_crypto \<Rightarrow> reconnect_io list \<Rightarrow> (dealer_socket, bytes list option) aio" where
  "dealer_recv_with_reconnect cr ios s =
     recv_reconnecting id (dealer_try_reconnect cr) (dealer_recv cr) (opt_max_reconnect_attempts (sb_options (base s))) 0 ios s"

definition dealer_send_with_reconnect :: "curve_crypto \<Rightarrow> bytes list \<Rightarrow> reconnect_io list \<Rightarrow> (dealer_socket, unit) aio" where
  "dealer_send_with_reconnect cr msg ios s =
     send_reconnecting id (dealer_try_reconnect cr) (dealer_send cr msg) (opt_max_reconnect_attempts (sb_options (base s))) 0 ios s"

section \<open>PAIR\<close>

type_synonym pair_socket = "bytes list sock"

definition pair_with_options ::
  "curve_crypto \<Rightarrow> curve_entropy \<Rightarrow> zap_environment \<Rightarrow> hs_stream \<Rightarrow> socket_options \<Rightarrow> pair_socket io_out" where
  "pair_with_options cr ent zap conn opts =
     io_map (\<lambda>(_, b). \<lparr>base = b, own = []\<rparr>) (with_handshake cr ent zap StPair (opt_routing_id opts) opts base_new conn)"

definition pair_connect_with_options ::
  "curve_crypto \<Rightarrow> curve_entropy \<Rightarrow> zap_environment \<Rightarrow> str \<Rightarrow> io_error_kind option \<Rightarrow> hs_stream \<Rightarrow> socket_options \<Rightarrow> pair_socket io_out" where
  "pair_connect_with_options cr ent zap addr configure conn opts =
     io_map (\<lambda>(_, b). \<lparr>base = b, own = []\<rparr>) (connect_handshake cr ent zap StPair addr configure conn opts)"

definition pair_send :: "curve_crypto \<Rightarrow> bytes list \<Rightarrow> (pair_socket, unit) aio" where
  "pair_send cr msg = on_base (write_message cr msg)"

definition pair_recv :: "curve_crypto \<Rightarrow> (pair_socket, bytes list option) aio" where
  "pair_recv cr = recv_loop cr collect_frames eof_none"

definition pair_close :: "(pair_socket, unit) aio" where
  "pair_close = on_base base_close"

definition pair_recv_with_reconnect :: "curve_crypto \<Rightarrow> reconnect_io list \<Rightarrow> (pair_socket, bytes list option) aio" where
  "pair_recv_with_reconnect cr ios s =
     recv_reconnecting id (\<lambda>io. on_base (base_try_reconnect cr io StPair)) (pair_recv cr)
       (opt_max_reconnect_attempts (sb_options (base s))) 0 ios s"

definition pair_send_with_reconnect :: "curve_crypto \<Rightarrow> bytes list \<Rightarrow> reconnect_io list \<Rightarrow> (pair_socket, unit) aio" where
  "pair_send_with_reconnect cr msg ios s =
     send_reconnecting id (\<lambda>io. on_base (base_try_reconnect cr io StPair)) (pair_send cr msg)
       (opt_max_reconnect_attempts (sb_options (base s))) 0 ios s"

section \<open>PUSH\<close>

type_synonym push_socket = "unit sock"

definition push_with_options ::
  "curve_crypto \<Rightarrow> curve_entropy \<Rightarrow> zap_environment \<Rightarrow> hs_stream \<Rightarrow> socket_options \<Rightarrow> push_socket io_out" where
  "push_with_options cr ent zap conn opts =
     io_map (\<lambda>(_, b). \<lparr>base = b, own = ()\<rparr>) (with_handshake cr ent zap StPush (opt_routing_id opts) opts base_new conn)"

definition push_connect_with_options ::
  "curve_crypto \<Rightarrow> curve_entropy \<Rightarrow> zap_environment \<Rightarrow> str \<Rightarrow> io_error_kind option \<Rightarrow> hs_stream \<Rightarrow> socket_options \<Rightarrow> push_socket io_out" where
  "push_connect_with_options cr ent zap addr configure conn opts =
     io_map (\<lambda>(_, b). \<lparr>base = b, own = ()\<rparr>) (connect_handshake cr ent zap StPush addr configure conn opts)"

text \<open>The choice between the coalesced, the vectored and the copied path.\<close>

definition push_write :: "curve_crypto \<Rightarrow> bytes list \<Rightarrow> unit base_op" where
  "push_write cr msg b =
     (if opt_write_coalescing (sb_options b) then send_coalesced cr msg b
      else if should_vectored_write b msg then send_vectored msg b
      else write_message cr msg b)"

definition push_send :: "curve_crypto \<Rightarrow> bytes list \<Rightarrow> (push_socket, unit) aio" where
  "push_send cr msg = on_base (aio_bind (push_write cr msg) (\<lambda>_. heartbeat_flush))"

definition push_send_one :: "curve_crypto \<Rightarrow> bytes \<Rightarrow> (push_socket, unit) aio" where
  "push_send_one cr frame =
     on_base (aio_bind
       (\<lambda>b. if opt_write_coalescing (sb_options b)
            then aio_bind (encode_one_coalesced cr frame) (\<lambda>full. if full then flush_send_buffer else aio_return ()) b
            else if should_vectored_write b [frame] then send_vectored [frame] b
            else write_message cr [frame] b)
       (\<lambda>_. heartbeat_flush))"

definition push_flush :: "(push_socket, unit) aio" where
  "push_flush = on_base flush_send_buffer"

definition push_send_batch :: "curve_crypto \<Rightarrow> bytes list list \<Rightarrow> (push_socket, nat) aio" where
  "push_send_batch cr msgs =
     on_base (aio_bind (buffer_all cr msgs) (\<lambda>_.
       aio_bind (if 0 < length msgs then flush_send_buffer else aio_return ()) (\<lambda>_.
       aio_bind heartbeat_flush (\<lambda>_. aio_return (length msgs)))))"

definition push_close :: "(push_socket, unit) aio" where
  "push_close = on_base base_close"

definition push_send_with_reconnect :: "curve_crypto \<Rightarrow> bytes list \<Rightarrow> reconnect_io list \<Rightarrow> (push_socket, unit) aio" where
  "push_send_with_reconnect cr msg ios s =
     send_reconnecting id (\<lambda>io. on_base (base_try_reconnect cr io StPush)) (push_send cr msg)
       (opt_max_reconnect_attempts (sb_options (base s))) 0 ios s"

section \<open>PULL\<close>

type_synonym pull_socket = "bytes list sock"

definition pull_with_options ::
  "curve_crypto \<Rightarrow> curve_entropy \<Rightarrow> zap_environment \<Rightarrow> hs_stream \<Rightarrow> socket_options \<Rightarrow> pull_socket io_out" where
  "pull_with_options cr ent zap conn opts =
     io_map (\<lambda>(_, b). \<lparr>base = b, own = []\<rparr>) (with_handshake cr ent zap StPull (opt_routing_id opts) opts base_new conn)"

definition pull_connect_with_options ::
  "curve_crypto \<Rightarrow> curve_entropy \<Rightarrow> zap_environment \<Rightarrow> str \<Rightarrow> io_error_kind option \<Rightarrow> hs_stream \<Rightarrow> socket_options \<Rightarrow> pull_socket io_out" where
  "pull_connect_with_options cr ent zap addr configure conn opts =
     io_map (\<lambda>(_, b). \<lparr>base = b, own = []\<rparr>) (connect_handshake cr ent zap StPull addr configure conn opts)"

text \<open>A lone frame does not pass through \<open>frames\<close>.\<close>

definition pull_frames :: "(bytes list, bytes list option) data_handler" where
  "pull_frames opts mo p frames =
     (if \<not> mo \<and> frames = [] then (Some (IoOk (Some [p])), frames)
      else let frames1 = frames @ [p] in if \<not> mo then (Some (IoOk (Some frames1)), []) else (None, frames1))"

definition pull_recv :: "curve_crypto \<Rightarrow> (pull_socket, bytes list option) aio" where
  "pull_recv cr = recv_loop cr pull_frames eof_none"

text \<open>\<open>recv_into\<close> fills a buffer of the caller, which it clears on entry; the result is the pair of
  the flag and the buffer.\<close>

definition pull_into :: "(bytes list \<times> bytes list, bool) data_handler" where
  "pull_into opts mo p x =
     (case x of (frames, out) \<Rightarrow>
        if \<not> mo \<and> frames = [] then (Some (IoOk True), (frames, out @ [p]))
        else let frames1 = frames @ [p] in
          if \<not> mo then (Some (IoOk True), ([], out @ frames1)) else (None, (frames1, out)))"

definition eof_false :: "'x \<Rightarrow> bool \<times> 'x" where
  "eof_false x = (False, x)"

definition with_out :: "bytes list \<Rightarrow> pull_socket \<Rightarrow> (bytes list \<times> bytes list) sock" where
  "with_out out s = \<lparr>base = base s, own = (own s, out)\<rparr>"

definition without_out :: "'r io_out \<times> (bytes list \<times> bytes list) sock \<times> io_env \<Rightarrow> ('r io_out \<times> bytes list) \<times> pull_socket \<times> io_env" where
  "without_out r = (case r of (x, s, e) \<Rightarrow> ((x, snd (own s)), \<lparr>base = base s, own = fst (own s)\<rparr>, e))"

definition pull_recv_into ::
  "curve_crypto \<Rightarrow> bytes list \<Rightarrow> pull_socket \<Rightarrow> io_env \<Rightarrow> (bool io_out \<times> bytes list) \<times> pull_socket \<times> io_env" where
  "pull_recv_into cr out s e = without_out (recv_loop cr pull_into eof_false (with_out [] s) e)"

text \<open>\<open>try_recv\<close> and \<open>try_recv_into\<close>: the same loop over the frames that are already buffered.\<close>

function try_loop :: "curve_crypto \<Rightarrow> ('x, 'r) data_handler \<Rightarrow> ('x \<Rightarrow> 'r \<times> 'x) \<Rightarrow> ('x sock, 'r) aio" where
  "try_loop cr on_data on_empty s e =
     aio_bind (on_base (process_frame cr)) (\<lambda>fr s1 e1.
       case fr of
         FNeedMore \<Rightarrow> (let (r, x) = on_empty (own s1) in (IoOk r, s1\<lparr>own := x\<rparr>, e1))
       | FCommandHandled \<Rightarrow> try_loop cr on_data on_empty s1 e1
       | FData mo p \<Rightarrow>
           (case on_data (sb_options (base s1)) mo p (own s1) of
              (Some r, x) \<Rightarrow> (r, s1\<lparr>own := x\<rparr>, e1)
            | (None, x) \<Rightarrow> try_loop cr on_data on_empty (s1\<lparr>own := x\<rparr>) e1)) s e"
  by pat_completeness auto
termination
  by (relation "measure (\<lambda>(cr, on_data, on_empty, s, e). decode_measure (sb_decoder (base s)) (sb_recv (base s)))")
    (auto dest!: on_base_progress)

declare try_loop.simps [simp del]

definition pull_try_recv :: "curve_crypto \<Rightarrow> (pull_socket, bytes list option) aio" where
  "pull_try_recv cr = try_loop cr pull_frames eof_none"

definition pull_try_into :: "(bytes list \<times> bytes list, bool) data_handler" where
  "pull_try_into opts mo p x =
     (case x of (frames, out) \<Rightarrow>
        if \<not> mo \<and> frames = [] then (Some (IoOk True), (frames, [p]))
        else let frames1 = frames @ [p] in
          if \<not> mo then (Some (IoOk True), ([], frames1)) else (None, (frames1, out)))"

definition pull_try_recv_into ::
  "curve_crypto \<Rightarrow> bytes list \<Rightarrow> pull_socket \<Rightarrow> io_env \<Rightarrow> (bool io_out \<times> bytes list) \<times> pull_socket \<times> io_env" where
  "pull_try_recv_into cr out s e = without_out (try_loop cr pull_try_into eof_false (with_out out s) e)"

text \<open>\<open>recv_batch\<close>: after the first message, \<open>try_recv\<close> until it finds none.\<close>

lemma try_loop_progress:
  assumes "try_loop cr on_data on_empty s e = (IoOk r, s1, e1)"
  shows "decode_measure (sb_decoder (base s1)) (sb_recv (base s1)) < decode_measure (sb_decoder (base s)) (sb_recv (base s)) \<or>
    (\<exists>x x'. on_empty x = (r, x'))"
  using assms
proof (induction cr on_data on_empty s e rule: try_loop.induct)
  case (1 cr on_data on_empty s e)
  from "1.prems" obtain fr s2 e2 where p: "on_base (process_frame cr) s e = (IoOk fr, s2, e2)"
    by (auto simp: try_loop.simps [of cr on_data on_empty s e] aio_bind_IoOk)
  note pr = on_base_progress(1) [OF p]
  show ?case
  proof (cases fr)
    case (FData mo q)
    obtain y x where yx: "on_data (sb_options (base s2)) mo q (own s2) = (y, x)" by fastforce
    then show ?thesis
      using "1.prems" "1.IH"(1) [OF p FData yx [symmetric]] p FData pr
      by (cases y) (auto simp: try_loop.simps [of cr on_data on_empty s e] aio_bind_def)
  next
    case FCommandHandled
    then show ?thesis
      using "1.prems" "1.IH"(2) [OF p FCommandHandled] p pr
      by (auto simp: try_loop.simps [of cr on_data on_empty s e] aio_bind_def)
  next
    case FNeedMore
    then show ?thesis
      using "1.prems" p by (auto simp: try_loop.simps [of cr on_data on_empty s e] aio_bind_def split: prod.splits)
  qed
qed

lemma pull_try_recv_progress:
  "pull_try_recv cr s e = (IoOk (Some msg), s1, e1) \<Longrightarrow>
   decode_measure (sb_decoder (base s1)) (sb_recv (base s1)) < decode_measure (sb_decoder (base s)) (sb_recv (base s))"
  using try_loop_progress [of cr pull_frames eof_none s e "Some msg" s1 e1] by (simp add: pull_try_recv_def eof_none_def)

function drain_batch :: "curve_crypto \<Rightarrow> bytes list list \<Rightarrow> (pull_socket, bytes list list) aio" where
  "drain_batch cr batch s e =
     (case pull_try_recv cr s e of
        (IoOk (Some msg), s1, e1) \<Rightarrow> drain_batch cr (batch @ [msg]) s1 e1
      | (IoOk None, s1, e1) \<Rightarrow> (IoOk batch, s1, e1)
      | (IoErr k, s1, e1) \<Rightarrow> (IoErr k, s1, e1)
      | (IoDropped, s1, e1) \<Rightarrow> (IoDropped, s1, e1)
      | (IoPanic, s1, e1) \<Rightarrow> (IoPanic, s1, e1))"
  by pat_completeness auto
termination
  by (relation "measure (\<lambda>(cr, batch, s, e). decode_measure (sb_decoder (base s)) (sb_recv (base s)))")
    (auto dest: pull_try_recv_progress [OF sym])

declare drain_batch.simps [simp del]

definition pull_recv_batch :: "curve_crypto \<Rightarrow> (pull_socket, bytes list list option) aio" where
  "pull_recv_batch cr =
     aio_bind (pull_recv cr) (\<lambda>first.
       case first of
         None \<Rightarrow> aio_return None
       | Some msg \<Rightarrow>
           aio_bind (drain_batch cr [msg]) (\<lambda>batch.
           aio_bind (on_base flush_replies) (\<lambda>_. aio_return (Some batch))))"

definition pull_close :: "(pull_socket, unit) aio" where
  "pull_close = on_base base_close"

definition pull_recv_with_reconnect :: "curve_crypto \<Rightarrow> reconnect_io list \<Rightarrow> (pull_socket, bytes list option) aio" where
  "pull_recv_with_reconnect cr ios s =
     recv_reconnecting id (\<lambda>io. on_base (base_try_reconnect cr io StPull)) (pull_recv cr)
       (opt_max_reconnect_attempts (sb_options (base s))) 0 ios s"

section \<open>ROUTER\<close>

record router_fields =
  rt_frames :: "bytes list"
  rt_peer_identity :: bytes
  rt_router_mandatory :: bool

type_synonym router_socket = "router_fields sock"

text \<open>\<open>format!("{}", n)\<close>\<close>

fun decimal :: "nat \<Rightarrow> str" where
  "decimal n = (if n < 10 then [48 + n] else decimal (n div 10) @ [48 + n mod 10])"

declare decimal.simps [simp del]

text \<open>\<open>peer_id\<close> is the value of \<open>PEER_ID_COUNTER\<close> before the call.\<close>

definition router_with_options ::
  "curve_crypto \<Rightarrow> curve_entropy \<Rightarrow> zap_environment \<Rightarrow> nat \<Rightarrow> hs_stream \<Rightarrow> socket_options \<Rightarrow> router_socket io_out" where
  "router_with_options cr ent zap peer_id conn opts =
     io_map (\<lambda>(hr, b).
         let ident = (case opt_connect_routing_id opts of
               Some i \<Rightarrow> i
             | None \<Rightarrow> (case peer_identity hr of
                 Some i \<Rightarrow> i
               | None \<Rightarrow> 0 # utf8_encode (lit ''peer-'' @ decimal peer_id)))
         in \<lparr>base = b, own = \<lparr>rt_frames = [], rt_peer_identity = ident, rt_router_mandatory = opt_router_mandatory opts\<rparr>\<rparr>)
       (with_handshake cr ent zap StRouter (opt_routing_id opts) opts
          (\<lambda>opts. base_new (opts\<lparr>opt_connect_routing_id := None\<rparr>)) conn)"

definition router_data :: "(router_fields, bytes list option) data_handler" where
  "router_data opts mo p x =
     (let frames1 = rt_frames x @ [p] in
      if \<not> mo then (Some (IoOk (Some (rt_peer_identity x # frames1))), x\<lparr>rt_frames := []\<rparr>)
      else (None, x\<lparr>rt_frames := frames1\<rparr>))"

definition zmtp_router_recv :: "curve_crypto \<Rightarrow> (router_socket, bytes list option) aio" where
  "zmtp_router_recv cr = recv_loop cr router_data eof_none"

text \<open>The checks of \<open>send\<close> and \<open>send_buffered\<close>: an error, a silent drop, or the frames to send.\<close>

definition router_route :: "router_fields \<Rightarrow> bytes list \<Rightarrow> io_error_kind + bytes list option" where
  "router_route x msg =
     (case msg of
        [] \<Rightarrow> Inl InvalidInput
      | identity # frames \<Rightarrow>
          if identity \<noteq> rt_peer_identity x
          then (if rt_router_mandatory x then Inl NotFound else Inr None)
          else Inr (Some frames))"

definition zmtp_router_send :: "curve_crypto \<Rightarrow> bytes list \<Rightarrow> (router_socket, unit) aio" where
  "zmtp_router_send cr msg s =
     (case router_route (own s) msg of
        Inl k \<Rightarrow> aio_fail k s
      | Inr None \<Rightarrow> aio_return () s
      | Inr (Some frames) \<Rightarrow> on_base (write_message cr frames) s)"

definition zmtp_router_send_buffered :: "curve_crypto \<Rightarrow> bytes list \<Rightarrow> (router_socket, unit) aio" where
  "zmtp_router_send_buffered cr msg s =
     (case router_route (own s) msg of
        Inl k \<Rightarrow> aio_fail k s
      | Inr None \<Rightarrow> aio_return () s
      | Inr (Some frames) \<Rightarrow>
          if hwm_reached (base s) then aio_fail WouldBlock s
          else on_base (encode_message_to_send_buf cr frames) s)"

fun router_batch :: "curve_crypto \<Rightarrow> bytes list list \<Rightarrow> (router_socket, unit) aio" where
  "router_batch cr [] s = aio_return () s"
| "router_batch cr (msg # msgs) s =
     (if msg = [] then router_batch cr msgs s
      else case router_route (own s) msg of
        Inl k \<Rightarrow> aio_fail k s
      | Inr None \<Rightarrow> router_batch cr msgs s
      | Inr (Some frames) \<Rightarrow> aio_bind (on_base (encode_message_to_send_buf cr frames)) (\<lambda>_. router_batch cr msgs) s)"

definition zmtp_router_flush :: "(router_socket, unit) aio" where
  "zmtp_router_flush = on_base flush_send_buffer"

definition zmtp_router_send_batch :: "curve_crypto \<Rightarrow> bytes list list \<Rightarrow> (router_socket, unit) aio" where
  "zmtp_router_send_batch cr msgs = aio_bind (router_batch cr msgs) (\<lambda>_. zmtp_router_flush)"

definition set_router_mandatory :: "bool \<Rightarrow> router_socket \<Rightarrow> router_socket" where
  "set_router_mandatory m s =
     s\<lparr>own := (own s)\<lparr>rt_router_mandatory := m\<rparr>,
       base := (base s)\<lparr>sb_options := (sb_options (base s))\<lparr>opt_router_mandatory := m\<rparr>\<rparr>\<rparr>"

definition zmtp_router_close :: "(router_socket, unit) aio" where
  "zmtp_router_close =
     on_base (\<lambda>b. if sb_send_buffer b = [] then aio_return () b
                  else flush_lingering (opt_linger (sb_options b)) (aio_return ()) b)"

section \<open>No operation tears a frame\<close>

lemma keeps_on_base_cond:
  "(\<And>b. keeps P (m b)) \<Longrightarrow> keeps (\<lambda>s. P (base s)) (on_base (\<lambda>b. m b b))"
  by (simp add: keeps_def on_base_def state_after_def case_prod_beta)

context connection_invariant
begin

lemma write_message_inv: "ok msg \<Longrightarrow> keeps inv (write_message cr msg)"
  unfolding write_message_def by (intro base_intros)

lemma buffer_all_inv: "\<forall>msg \<in> set msgs. ok msg \<Longrightarrow> keeps inv (buffer_all cr msgs)"
  by (induction msgs) (auto intro!: base_intros)

lemma dealer_inv:
  "ok msg \<Longrightarrow> keeps (\<lambda>s. inv (base s)) (dealer_send cr msg)"
  "ok msg \<Longrightarrow> keeps (\<lambda>s. inv (base s)) (dealer_send_buffered cr msg)"
  "\<forall>msg \<in> set msgs. ok msg \<Longrightarrow> keeps (\<lambda>s. inv (base s)) (dealer_send_batch cr msgs)"
  "keeps (\<lambda>s. inv (base s)) dealer_flush"
  "keeps (\<lambda>s. inv (base s)) (dealer_recv cr)"
  unfolding dealer_send_def dealer_send_buffered_def dealer_send_batch_def dealer_flush_def dealer_recv_def
  by (auto intro!: keeps_on_base base_intros write_message_inv buffer_all_inv recv_loop_keeps)

lemma push_write_inv: "ok msg \<Longrightarrow> keeps inv (push_write cr msg)"
  unfolding push_write_def by (intro base_intros write_message_inv)

lemma push_inv:
  "ok msg \<Longrightarrow> keeps (\<lambda>s. inv (base s)) (push_send cr msg)"
  "ok [p] \<Longrightarrow> keeps (\<lambda>s. inv (base s)) (push_send_one cr p)"
  "\<forall>msg \<in> set msgs. ok msg \<Longrightarrow> keeps (\<lambda>s. inv (base s)) (push_send_batch cr msgs)"
  "keeps (\<lambda>s. inv (base s)) push_close"
  unfolding push_send_def push_send_one_def push_send_batch_def push_close_def
  by (auto intro!: keeps_on_base base_intros push_write_inv buffer_all_inv heartbeat_flush_inv write_message_inv)

lemma pair_pull_inv:
  "ok msg \<Longrightarrow> keeps (\<lambda>s. inv (base s)) (pair_send cr msg)"
  "keeps (\<lambda>s. inv (base s)) (pair_recv cr)" "keeps (\<lambda>s. inv (base s)) pair_close"
  "keeps (\<lambda>s. inv (base s)) (pull_recv cr)" "keeps (\<lambda>s. inv (base s)) pull_close"
  unfolding pair_send_def pair_recv_def pair_close_def pull_recv_def pull_close_def
  by (auto intro!: keeps_on_base base_intros write_message_inv recv_loop_keeps)

lemma router_batch_inv:
  "\<forall>msg \<in> set msgs. \<forall>p. ok (drop 1 msg) \<Longrightarrow> inv (base s) \<Longrightarrow> inv (base (state_after (router_batch cr msgs s e)))"
proof (induction msgs arbitrary: s e)
  case (Cons msg msgs)
  have "keeps (\<lambda>s. inv (base s)) (on_base (encode_message_to_send_buf cr (drop 1 msg)))"
    using Cons.prems by (intro keeps_on_base encode_send_inv) simp
  from keepsD [OF this Cons.prems(2)] Cons show ?case
    by (auto simp: router_route_def aio_fail_def Let_def intro!: state_after_bind [where P = "\<lambda>s. inv (base s)"]
        split: list.splits)
qed (simp add: aio_return_def)

end

section \<open>From one socket to another\<close>

text \<open>A socket that can write: connected, not poisoned, blocking, with \<open>w\<close> on the wire and cipher \<open>c\<close>.\<close>

definition sending :: "bytes \<Rightarrow> message_cipher option \<Rightarrow> socket_base \<Rightarrow> bool" where
  "sending w c b \<longleftrightarrow> sb_stream b = Some w \<and> sb_curve_cipher b = c \<and> \<not> sb_is_poisoned b \<and>
     opt_send_timeout (sb_options b) \<noteq> Some 0"

fun send_all :: "(bytes list \<Rightarrow> ('s, unit) aio) \<Rightarrow> bytes list list \<Rightarrow> ('s, unit) aio" where
  "send_all send [] = aio_return ()"
| "send_all send (msg # msgs) = aio_bind (send msg) (\<lambda>_. send_all send msgs)"

text \<open>The results of \<open>n\<close> successive calls.\<close>

fun recv_all :: "('s, 'r) aio \<Rightarrow> nat \<Rightarrow> 's \<Rightarrow> io_env \<Rightarrow> 'r io_out list" where
  "recv_all rcv 0 s e = []"
| "recv_all rcv (Suc n) s e = (case rcv s e of (r, s1, e1) \<Rightarrow> r # recv_all rcv n s1 e1)"

fun carries_messages ::
  "curve_crypto \<Rightarrow> nat \<Rightarrow> message_cipher option \<Rightarrow> bytes \<Rightarrow> bytes list list \<Rightarrow> message_cipher option \<Rightarrow> bool" where
  "carries_messages cr m d out [] d' = (out = [] \<and> d' = d)"
| "carries_messages cr m d out (msg # msgs) d' =
     (\<exists>o1 o2 d1. out = o1 @ o2 \<and> carries cr m d o1 (message_parts msg) d1 \<and> carries_messages cr m d1 o2 msgs d')"

lemma guarded_write_ok:
  "sending w c b \<Longrightarrow> env_writes e = Written # ws \<Longrightarrow>
   guarded_write bs b e = (IoOk (), b\<lparr>sb_is_poisoned := False, sb_stream := Some (w @ bs)\<rparr>, e\<lparr>env_writes := ws\<rparr>)"
  by (simp add: guarded_write_def sending_def pop_write_def)

lemma write_message_ok:
  assumes "sending w c b" and "encode_message cr c msg [] = (True, c', out)" and "env_writes e = Written # ws"
  shows "\<exists>b'. write_message cr msg b e = (IoOk (), b', e\<lparr>env_writes := ws\<rparr>) \<and> sending (w @ out) c' b' \<and>
    sb_send_buffer b' = sb_send_buffer b \<and> sb_options b' = sb_options b"
proof -
  let ?b = "b\<lparr>sb_curve_cipher := c', sb_write_buf := []\<rparr>"
  have "sending w c' ?b" using assms(1) by (simp add: sending_def)
  from guarded_write_ok [OF this assms(3), of out] assms show ?thesis
    by (auto simp: write_message_def aio_bind_def encode_message_to_write_buf_def write_from_buf_def sending_def)
qed

lemma dealer_send_ok:
  assumes "sending w c (base s)" and "encode_message cr c msg [] = (True, c', out)" and "env_writes e = Written # ws"
  shows "\<exists>s'. dealer_send cr msg s e = (IoOk (), s', e\<lparr>env_writes := ws\<rparr>) \<and> sending (w @ out) c' (base s')"
  using write_message_ok [OF assms] by (auto simp: dealer_send_def on_base_def)

lemma dealer_send_all:
  assumes "crypto_laws cr"
  shows "sending w c (base s) \<Longrightarrow> matched c d \<Longrightarrow> budget c (length (concat msgs)) \<Longrightarrow> \<forall>msg \<in> set msgs. fits m msg \<Longrightarrow>
    env_writes e = replicate (length msgs) Written @ ws \<Longrightarrow>
    \<exists>s' c' d' out. send_all (dealer_send cr) msgs s e = (IoOk (), s', e\<lparr>env_writes := ws\<rparr>) \<and>
      sending (w @ out) c' (base s') \<and> carries_messages cr m d out msgs d'"
proof (induction msgs arbitrary: w c s d e)
  case Nil
  have "e\<lparr>env_writes := ws\<rparr> = e" using Nil.prems(5) by simp
  with Nil show ?case by (auto simp: aio_return_def)
next
  case (Cons msg msgs)
  obtain c1 d1 o1 where enc: "encode_message cr c msg [] = (True, c1, o1)"
    and car: "carries cr m d o1 (message_parts msg) d1" and mat: "matched c1 d1" and bud: "budget c1 (length (concat msgs))"
    using encode_message_carries [OF assms, of m msg c d "length (concat msgs)" "[]"] Cons.prems(2-4) by auto
  let ?e = "e\<lparr>env_writes := replicate (length msgs) Written @ ws\<rparr>"
  obtain s1 where s1: "dealer_send cr msg s e = (IoOk (), s1, ?e)" "sending (w @ o1) c1 (base s1)"
    using dealer_send_ok [OF Cons.prems(1) enc, of e "replicate (length msgs) Written @ ws"] Cons.prems(5) by auto
  obtain s' c' d' o2 where "send_all (dealer_send cr) msgs s1 ?e = (IoOk (), s', ?e\<lparr>env_writes := ws\<rparr>)"
    "sending ((w @ o1) @ o2) c' (base s')" "carries_messages cr m d1 o2 msgs d'"
    using Cons.IH [OF s1(2) mat bud, of ?e] Cons.prems(4) by auto
  with s1 car show ?case
    by (intro exI [of _ s'] exI [of _ c'] exI [of _ d'] exI [of _ "o1 @ o2"]) (auto simp: aio_bind_def)
qed

lemma collect_frames_simps [simp]:
  "collect_frames opts True p frames = (None, frames @ [p])"
  "collect_frames opts False p frames = (Some (IoOk (Some (frames @ [p]))), [])"
  by (simp_all add: collect_frames_def)

lemma feeds_collect:
  "msg \<noteq> [] \<Longrightarrow> feeds collect_frames opts (message_parts msg) frames (IoOk (Some (frames @ msg))) []"
proof (induction msg arbitrary: frames)
  case (Cons p ps)
  then show ?case using Cons.IH [of "frames @ [p]"] by (cases "ps = []") simp_all
qed simp

lemma dealer_recv_message:
  assumes "carries cr m d out (message_parts msg) d'" and "msg \<noteq> []" and "receiving m d v (base s)" and "own s = []"
    and "out @ rest = v @ concat chunks" and "[] \<notin> set chunks" and "env_reads e = map ReadBytes chunks @ rs"
  shows "\<exists>s' v' chunks'. dealer_recv cr s e = (IoOk (Some msg), s', e\<lparr>env_reads := map ReadBytes chunks' @ rs\<rparr>) \<and>
    receiving m d' v' (base s') \<and> own s' = [] \<and> rest = v' @ concat chunks' \<and> [] \<notin> set chunks'"
proof -
  have "feeds collect_frames (sb_options (base s)) (message_parts msg) (own s) (IoOk (Some msg)) []"
    using feeds_collect [OF assms(2), of _ "[]"] assms(4) by simp
  from recv_loop_carries [OF assms(1,3,5-7) this, of eof_none] obtain b v' chunks' where
    "dealer_recv cr s e = (IoOk (Some msg), s\<lparr>base := b, own := []\<rparr>, e\<lparr>env_reads := map ReadBytes chunks' @ rs\<rparr>)"
    "receiving m d' v' b" "rest = v' @ concat chunks'" "\<exists>pre. chunks = pre @ chunks'"
    unfolding dealer_recv_def by blast
  moreover from this(4) assms(6) have "[] \<notin> set chunks'" by auto
  ultimately show ?thesis by (intro exI [of _ "s\<lparr>base := b, own := []\<rparr>"] exI [of _ v'] exI [of _ chunks']) simp
qed

lemma dealer_recv_all:
  "carries_messages cr m d out msgs d' \<Longrightarrow> [] \<notin> set msgs \<Longrightarrow> receiving m d v (base s) \<Longrightarrow> own s = [] \<Longrightarrow>
   out = v @ concat chunks \<Longrightarrow> [] \<notin> set chunks \<Longrightarrow> env_reads e = map ReadBytes chunks @ rs \<Longrightarrow>
   recv_all (dealer_recv cr) (length msgs) s e = map (\<lambda>msg. IoOk (Some msg)) msgs"
proof (induction msgs arbitrary: d out v s chunks e)
  case (Cons msg msgs)
  from Cons.prems(1) obtain o1 o2 d1 where o: "out = o1 @ o2" "carries cr m d o1 (message_parts msg) d1"
    "carries_messages cr m d1 o2 msgs d'" by auto
  have "msg \<noteq> []" using Cons.prems(2) by auto
  obtain s1 v1 cs where s1: "dealer_recv cr s e = (IoOk (Some msg), s1, e\<lparr>env_reads := map ReadBytes cs @ rs\<rparr>)"
    "receiving m d1 v1 (base s1)" "own s1 = []" "o2 = v1 @ concat cs" "[] \<notin> set cs"
    using dealer_recv_message [OF o(2) \<open>msg \<noteq> []\<close> Cons.prems(3,4), of o2 chunks e rs] Cons.prems(5-7) o(1) by auto
  have "recv_all (dealer_recv cr) (length msgs) s1 (e\<lparr>env_reads := map ReadBytes cs @ rs\<rparr>) = map (\<lambda>msg. IoOk (Some msg)) msgs"
    using Cons.prems(2) by (intro Cons.IH [OF o(3) _ s1(2,3,4,5)]) simp_all
  with s1(1) show ?case by simp
qed simp

subsection \<open>Buffered and direct sends\<close>

lemma flush_ok:
  assumes "sending w c b" and "env_writes e = Written # ws" and "sb_send_buffer b = q" and "q \<noteq> []"
  shows "\<exists>b'. flush_send_buffer b e = (IoOk (), b', e\<lparr>env_writes := ws\<rparr>) \<and> sending (w @ q) c b' \<and> sb_send_buffer b' = [] \<and>
    sb_options b' = sb_options b"
proof -
  have "sending w c (b\<lparr>sb_send_buffer := []\<rparr>)" using assms(1) by (simp add: sending_def)
  from guarded_write_ok [OF this assms(2), of q] assms show ?thesis
    by (auto simp: flush_send_buffer_def aio_bind_def aio_return_def sending_def)
qed

lemma buffered_then_direct:
  assumes "encode_message cr c [p1] [] = (True, c1, o1)" and "encode_message cr c1 [p2] [] = (True, c2, o2)" and "o1 \<noteq> []"
    and "sending w c (base s)" and "sb_send_buffer (base s) = []" and "\<not> hwm_reached (base s)"
    and "env_writes e = [Written, Written]"
  shows "\<exists>s' e'. aio_bind (dealer_send_buffered cr [p1]) (\<lambda>_. aio_bind (dealer_send cr [p2]) (\<lambda>_. dealer_flush)) s e =
      (IoOk (), s', e') \<and> sb_stream (base s') = Some (w @ o2 @ o1)"
proof -
  let ?b1 = "(base s)\<lparr>sb_curve_cipher := c1, sb_send_buffer := o1, sb_buffered_messages := sb_buffered_messages (base s) + 1\<rparr>"
  have c: "sb_curve_cipher (base s) = c" using assms(4) by (simp add: sending_def)
  have e1: "dealer_send_buffered cr [p1] s e = (IoOk (), s\<lparr>base := ?b1\<rparr>, e)"
    using assms(1,5,6) c by (simp add: dealer_send_buffered_def on_base_def encode_message_to_send_buf_def)
  have "sending w c1 ?b1" using assms(4) by (simp add: sending_def)
  from write_message_ok [OF this assms(2), of e "[Written]"] assms(7)
  obtain b2 where b2: "write_message cr [p2] ?b1 e = (IoOk (), b2, e\<lparr>env_writes := [Written]\<rparr>)" "sending (w @ o2) c2 b2"
    "sb_send_buffer b2 = o1" by auto
  obtain b3 where b3: "flush_send_buffer b2 (e\<lparr>env_writes := [Written]\<rparr>) = (IoOk (), b3, e\<lparr>env_writes := [Written], env_writes := []\<rparr>)"
    "sending ((w @ o2) @ o1) c2 b3"
    using flush_ok [OF b2(2) _ b2(3) assms(3), of "e\<lparr>env_writes := [Written]\<rparr>" "[]"] by auto
  show ?thesis
    using e1 b2(1) b3 by (simp add: aio_bind_def dealer_send_def dealer_flush_def on_base_def sending_def)
qed

lemma encode_one_curve:
  assumes "crypto_laws cr" "send_nonce c < usize_max" "length p + 1 < 2 ^ 32"
  obtains ct where "encode_message cr (Some c) [p] [] =
      (True, Some (c\<lparr>send_nonce := send_nonce c + 1\<rparr>), append_zmtp_cmd_frame [] (CURVE_MESSAGE @ be_bytes 8 (send_nonce c) @ ct))"
    "xchacha_open cr (mc_key c) (nonce_prefix (is_client c) @ be_bytes 8 (send_nonce c)) ct = Some (0 # p)"
    "length (CURVE_MESSAGE @ be_bytes 8 (send_nonce c) @ ct) = length p + 33"
proof -
  obtain ct where "encrypt_frame cr c p False = (Inr (CURVE_MESSAGE @ be_bytes 8 (send_nonce c) @ ct), c\<lparr>send_nonce := send_nonce c + 1\<rparr>)"
    and o: "xchacha_open cr (mc_key c) (nonce_prefix (is_client c) @ be_bytes 8 (send_nonce c)) ct = Some ((if False then 1 else 0) # p)"
    and l: "length (CURVE_MESSAGE @ be_bytes 8 (send_nonce c) @ ct) = length p + 33"
    by (rule encrypt_frame_body [OF assms])
  then have "encode_message cr (Some c) [p] [] =
      (True, Some (c\<lparr>send_nonce := send_nonce c + 1\<rparr>), append_zmtp_cmd_frame [] (CURVE_MESSAGE @ be_bytes 8 (send_nonce c) @ ct))"
    by (simp add: encode_message_def del: be_bytes.simps)
  from that [OF this _ l] o show ?thesis by (simp del: be_bytes.simps)
qed

text \<open>A counter below the receiver's is refused.\<close>

lemma old_counter_refused:
  assumes "n < recv_nonce d" and "n < 2 ^ 64"
  shows "refused cr d \<lparr>flags = canon_flags 0x04 k, payload = CURVE_MESSAGE @ be_bytes 8 n @ ct\<rparr>"
proof -
  have "parse_curve_message (CURVE_MESSAGE @ be_bytes 8 n @ ct) = Some (Inr (be_bytes 8 n, ct))"
    by (simp add: parse_curve_message_Inr)
  moreover have "be_val (be_bytes 8 n) = n" using assms(2) by simp
  ultimately show ?thesis
    using assms(1) by (simp add: refused_def frame_more_canon is_curve_message_def starts_with_def decrypt_frame_def)
qed

lemma recv_second_refused:
  assumes "carries cr m (Some d) o2 (message_parts msg) (Some d2)" and "msg \<noteq> []" and "receiving m (Some d) [] (base t)" and "own t = []"
    and "refused cr d2 \<lparr>flags = canon_flags 0x04 (length body), payload = body\<rparr>" and "length body \<le> m" and "length body < 2 ^ 63"
    and "concat chunks = o2 @ append_zmtp_cmd_frame [] body" and "[] \<notin> set chunks" and "env_reads e2 = map ReadBytes chunks"
  shows "recv_all (dealer_recv cr) 2 t e2 = [IoOk (Some msg), IoErr InvalidData]"
proof -
  let ?o1 = "append_zmtp_cmd_frame [] body"
  obtain t1 v cs where t1: "dealer_recv cr t e2 = (IoOk (Some msg), t1, e2\<lparr>env_reads := map ReadBytes cs @ []\<rparr>)"
    "receiving m (Some d2) v (base t1)" "?o1 = v @ concat cs" "[] \<notin> set cs"
    using dealer_recv_message [OF assms(1-4), of ?o1 chunks e2 "[]"] assms(8-10) by auto
  have "parse_frame m (v @ concat cs) = Parsed \<lparr>flags = canon_flags 0x04 (length body), payload = body\<rparr> []"
    using curve_encode.parse_enc [of body m "[]"] assms(6,7) t1(3) by (simp add: valid_flags_def)
  from recv_loop_refuses [OF t1(2) this assms(5) t1(4), of "e2\<lparr>env_reads := map ReadBytes cs @ []\<rparr>" "[]"]
  have "fst (dealer_recv cr t1 (e2\<lparr>env_reads := map ReadBytes cs @ []\<rparr>)) = IoErr InvalidData"
    unfolding dealer_recv_def by simp
  with t1(1) show ?thesis by (simp add: numeral_2_eq_2 case_prod_beta)
qed

lemma overtaken_plain:
  assumes "fits m [p1]" "fits m [p2]" "receiving m None [] (base t)" "own t = []"
  shows "\<exists>o1 o2 c1 c2. encode_message cr None [p1] [] = (True, c1, o1) \<and> encode_message cr c1 [p2] [] = (True, c2, o2) \<and> o1 \<noteq> [] \<and>
    (\<forall>chunks e2. concat chunks = o2 @ o1 \<and> [] \<notin> set chunks \<and> env_reads e2 = map ReadBytes chunks \<longrightarrow>
       recv_all (dealer_recv cr) 2 t e2 = [IoOk (Some [p2]), IoOk (Some [p1])])"
proof -
  let ?o1 = "wire_message [p1]" and ?o2 = "wire_message [p2]"
  have enc: "encode_message cr None [p] [] = (True, None, wire_message [p])" for p
    by (simp add: encode_message_def encode_multipart_wire)
  have ne: "?o1 \<noteq> []" by (simp add: wire_def frame_header_def)
  have "carries cr m None ?o1 (message_parts [p1]) None" "carries cr m None ?o2 (message_parts [p2]) None"
    using assms(1,2) by (intro carries_wire_message; simp add: fits_def)+
  then have car: "carries_messages cr m None (?o2 @ ?o1) [[p2], [p1]] None" by auto
  have "recv_all (dealer_recv cr) 2 t e2 = [IoOk (Some [p2]), IoOk (Some [p1])]"
    if "concat chunks = ?o2 @ ?o1" "[] \<notin> set chunks" "env_reads e2 = map ReadBytes chunks" for chunks e2
    using dealer_recv_all [OF car _ assms(3,4), of chunks e2 "[]"] that by (simp del: recv_all.simps add: numeral_2_eq_2)
  then have r: "\<forall>chunks e2. concat chunks = ?o2 @ ?o1 \<and> [] \<notin> set chunks \<and> env_reads e2 = map ReadBytes chunks \<longrightarrow>
      recv_all (dealer_recv cr) 2 t e2 = [IoOk (Some [p2]), IoOk (Some [p1])]" by blast
  show ?thesis
    by (rule exI [of _ ?o1], rule exI [of _ ?o2], rule exI [of _ None], rule exI [of _ None]) (intro conjI enc ne r)
qed

lemma overtaken_curve:
  assumes "crypto_laws cr" "matched (Some c) (Some d)" "budget (Some c) 2" "fits m [p1]" "fits m [p2]"
    and "receiving m (Some d) [] (base t)" "own t = []"
  shows "\<exists>o1 o2 c1 c2. encode_message cr (Some c) [p1] [] = (True, c1, o1) \<and> encode_message cr c1 [p2] [] = (True, c2, o2) \<and> o1 \<noteq> [] \<and>
    (\<forall>chunks e2. concat chunks = o2 @ o1 \<and> [] \<notin> set chunks \<and> env_reads e2 = map ReadBytes chunks \<longrightarrow>
       recv_all (dealer_recv cr) 2 t e2 = [IoOk (Some [p2]), IoErr InvalidData])"
proof -
  let ?n = "send_nonce c" and ?c1 = "c\<lparr>send_nonce := send_nonce c + 1\<rparr>" and ?d2 = "d\<lparr>recv_nonce := send_nonce c + 2\<rparr>"
  have lt: "?n < usize_max" "send_nonce ?c1 < usize_max" using assms(3) by simp_all
  have p1: "length p1 + 1 < 2 ^ 32" "length p1 + 33 \<le> m" and p2: "length p2 + 1 < 2 ^ 32" "length p2 + 33 \<le> m"
    using assms(4,5) by (simp_all add: fits_def)
  obtain ct1 where enc1: "encode_message cr (Some c) [p1] [] = (True, Some ?c1, append_zmtp_cmd_frame [] (CURVE_MESSAGE @ be_bytes 8 ?n @ ct1))"
    and len1: "length (CURVE_MESSAGE @ be_bytes 8 ?n @ ct1) = length p1 + 33"
    using encode_one_curve [OF assms(1) lt(1) p1(1)] by metis
  let ?b1 = "CURVE_MESSAGE @ be_bytes 8 ?n @ ct1"
  obtain ct2 where "encode_message cr (Some ?c1) [p2] [] =
      (True, Some (?c1\<lparr>send_nonce := send_nonce ?c1 + 1\<rparr>), append_zmtp_cmd_frame [] (CURVE_MESSAGE @ be_bytes 8 (send_nonce ?c1) @ ct2))"
    and "xchacha_open cr (mc_key ?c1) (nonce_prefix (is_client ?c1) @ be_bytes 8 (send_nonce ?c1)) ct2 = Some (0 # p2)"
    and len2: "length (CURVE_MESSAGE @ be_bytes 8 (send_nonce ?c1) @ ct2) = length p2 + 33"
    by (rule encode_one_curve [OF assms(1) lt(2) p2(1)])
  then have enc2: "encode_message cr (Some ?c1) [p2] [] =
      (True, Some (c\<lparr>send_nonce := ?n + 2\<rparr>), append_zmtp_cmd_frame [] (CURVE_MESSAGE @ be_bytes 8 (?n + 1) @ ct2))"
    and op2: "xchacha_open cr (mc_key c) (nonce_prefix (is_client c) @ be_bytes 8 (?n + 1)) ct2 = Some (0 # p2)"
    by (simp_all add: numeral_2_eq_2 del: be_bytes.simps)
  let ?b2 = "CURVE_MESSAGE @ be_bytes 8 (?n + 1) @ ct2"
  have "decrypt_frame cr d ?b2 = Some (Inr (False, p2), d\<lparr>recv_nonce := ?n + 1 + 1\<rparr>)"
    using op2 lt(2) assms(2) by (intro decrypt_frame_ok) simp_all
  then have "decrypt_frame cr d ?b2 = Some (Inr (False, p2), ?d2)" by (simp add: numeral_2_eq_2)
  from carries_curve [OF this _ _ carries_Nil, of m] len2 p2
  have car: "carries cr m (Some d) (append_zmtp_cmd_frame [] ?b2) (message_parts [p2]) (Some ?d2)" by simp
  have ref: "refused cr ?d2 \<lparr>flags = canon_flags 0x04 (length ?b1), payload = ?b1\<rparr>"
    using lt(1) by (intro old_counter_refused) (simp_all add: usize_max_def)
  have ne: "append_zmtp_cmd_frame [] ?b1 \<noteq> []" by (simp add: append_zmtp_cmd_frame_def Let_def)
  have r: "\<forall>chunks e2. concat chunks = append_zmtp_cmd_frame [] ?b2 @ append_zmtp_cmd_frame [] ?b1 \<and> [] \<notin> set chunks \<and>
      env_reads e2 = map ReadBytes chunks \<longrightarrow> recv_all (dealer_recv cr) 2 t e2 = [IoOk (Some [p2]), IoErr InvalidData]"
    using len1 p1 by (intro allI impI recv_second_refused [OF car _ assms(6,7) ref]) simp_all
  show ?thesis
    by (rule exI [of _ "append_zmtp_cmd_frame [] ?b1"], rule exI [of _ "append_zmtp_cmd_frame [] ?b2"],
        rule exI [of _ "Some ?c1"], rule exI [of _ "Some (c\<lparr>send_nonce := ?n + 2\<rparr>)"]) (intro conjI enc1 enc2 ne r)
qed

subsection \<open>The write paths of PUSH\<close>

lemma send_vectored_ok:
  assumes "sending w None b" and "sb_send_buffer b = []" and "msg \<noteq> []" and "env_writes e = Written # ws"
  shows "\<exists>b'. send_vectored msg b e = (IoOk (), b', e\<lparr>env_writes := ws\<rparr>) \<and> sending (w @ wire_message msg) None b' \<and> sb_send_buffer b' = []"
proof -
  obtain iov where iov: "vectored_slices msg (vectored_headers (length msg - 1) 0 msg []) = Some iov" "concat iov = wire_message msg"
    using vectored_slices_wire [of "length msg - 1" 0 msg] assms(3) by auto
  have "sending w None (b\<lparr>sb_write_buf := []\<rparr>)" using assms(1) by (simp add: sending_def)
  from guarded_write_ok [OF this assms(4), of "wire_message msg"] iov assms(1-3) show ?thesis
    by (auto simp: send_vectored_def aio_bind_def aio_return_def sending_def)
qed

lemma send_coalesced_ok:
  assumes "sending w None b" and "sb_send_buffer b = []" and "env_writes e = Written # ws"
  shows "\<exists>b' w' q e'. send_coalesced cr msg b e = (IoOk (), b', e') \<and> sending w' None b' \<and> sb_send_buffer b' = q \<and>
    w' @ q = w @ wire_message msg \<and> (e' = e \<or> q = [])"
proof -
  let ?b = "b\<lparr>sb_curve_cipher := None, sb_send_buffer := wire_message msg\<rparr>"
  have c: "sb_curve_cipher b = None" and s: "sending w None ?b" using assms(1) by (simp_all add: sending_def)
  have e: "send_coalesced cr msg b e =
      (if opt_write_coalesce_threshold (sb_options b) \<le> length (wire_message msg) then flush_send_buffer ?b e else (IoOk (), ?b, e))"
    by (simp add: send_coalesced_def encode_message_def c encode_multipart_wire assms(2) Let_def)
  show ?thesis
  proof (cases "opt_write_coalesce_threshold (sb_options b) \<le> length (wire_message msg) \<and> wire_message msg \<noteq> []")
    case True
    with flush_ok [OF s assms(3)] obtain b' where
      "flush_send_buffer ?b e = (IoOk (), b', e\<lparr>env_writes := ws\<rparr>)" "sending (w @ wire_message msg) None b'" "sb_send_buffer b' = []"
      by fastforce
    with e True show ?thesis
      by (intro exI [of _ b'] exI [of _ "w @ wire_message msg"] exI [of _ "[]"] exI [of _ "e\<lparr>env_writes := ws\<rparr>"]) simp
  next
    case False
    then have "send_coalesced cr msg b e = (IoOk (), ?b, e)" unfolding e by (auto simp: flush_send_buffer_def)
    with s show ?thesis by (intro exI [of _ ?b] exI [of _ w] exI [of _ "wire_message msg"] exI [of _ e]) simp
  qed
qed

lemma flush_rest:
  assumes "sending w c b" and "env_writes e = Written # ws \<or> sb_send_buffer b = []"
  shows "\<exists>b' e'. flush_send_buffer b e = (IoOk (), b', e') \<and> sb_stream b' = Some (w @ sb_send_buffer b) \<and> sb_send_buffer b' = []"
  using flush_ok [OF assms(1), of e ws "sb_send_buffer b"] assms
  by (cases "sb_send_buffer b = []") (auto simp: flush_send_buffer_def sending_def)

lemma push_write_ok:
  assumes "sending w None b" and "sb_send_buffer b = []" and "env_writes e = [Written, Written]"
  shows "\<exists>b1 w1 q e1. push_write cr msg b e = (IoOk (), b1, e1) \<and> sending w1 None b1 \<and> sb_send_buffer b1 = q \<and>
    w1 @ q = w @ wire_message msg \<and> (e1 = e \<or> q = [])"
proof (cases "opt_write_coalescing (sb_options b)")
  case True
  then show ?thesis using send_coalesced_ok [OF assms(1-3), of cr msg] by (simp add: push_write_def)
next
  case False
  show ?thesis
  proof (cases "should_vectored_write b msg")
    case True
    then have "msg \<noteq> []" by (auto simp: should_vectored_write_def split: if_splits)
    from send_vectored_ok [OF assms(1,2) this assms(3)] obtain b1 where
      "send_vectored msg b e = (IoOk (), b1, e\<lparr>env_writes := [Written]\<rparr>)" "sending (w @ wire_message msg) None b1" "sb_send_buffer b1 = []"
      by blast
    with False True show ?thesis
      by (intro exI [of _ b1] exI [of _ "w @ wire_message msg"] exI [of _ "[]"] exI [of _ "e\<lparr>env_writes := [Written]\<rparr>"])
        (simp add: push_write_def)
  next
    case vec: False
    have "encode_message cr None msg [] = (True, None, wire_message msg)" by (simp add: encode_message_def encode_multipart_wire)
    from write_message_ok [OF assms(1) this assms(3)] obtain b1 where
      "write_message cr msg b e = (IoOk (), b1, e\<lparr>env_writes := [Written]\<rparr>)" "sending (w @ wire_message msg) None b1"
      "sb_send_buffer b1 = []" using assms(2) by auto
    with False vec show ?thesis
      by (intro exI [of _ b1] exI [of _ "w @ wire_message msg"] exI [of _ "[]"] exI [of _ "e\<lparr>env_writes := [Written]\<rparr>"])
        (simp add: push_write_def)
  qed
qed

subsection \<open>Heartbeats of PUSH\<close>

definition heartbeat_state :: "socket_base \<Rightarrow> socket_options \<times> int option \<times> int option \<times> bool" where
  "heartbeat_state b = (sb_options b, sb_last_recv_instant b, sb_ping_sent_at b, sb_awaiting_pong b)"

lemma push_write_direct:
  assumes "sending w None b" and "sb_send_buffer b = []" and "\<not> opt_write_coalescing (sb_options b)" and "env_writes e = Written # ws"
  shows "\<exists>b'. push_write cr msg b e = (IoOk (), b', e\<lparr>env_writes := ws\<rparr>) \<and> sending (w @ wire_message msg) None b' \<and>
    sb_send_buffer b' = [] \<and> heartbeat_state b' = heartbeat_state b"
proof (cases "should_vectored_write b msg")
  case True
  then have "msg \<noteq> []" by (auto simp: should_vectored_write_def split: if_splits)
  then obtain iov where "vectored_slices msg (vectored_headers (length msg - 1) 0 msg []) = Some iov" "concat iov = wire_message msg"
    using vectored_slices_wire [of "length msg - 1" 0 msg] by auto
  with True assms \<open>msg \<noteq> []\<close> show ?thesis
    by (auto simp: push_write_def send_vectored_def aio_bind_def aio_return_def sending_def guarded_write_def pop_write_def
        heartbeat_state_def Let_def)
next
  case False
  with assms show ?thesis
    by (auto simp: push_write_def write_message_def aio_bind_def sending_def encode_message_to_write_buf_def encode_message_def
        encode_multipart_wire write_from_buf_def guarded_write_def pop_write_def heartbeat_state_def Let_def)
qed

lemma first_ping:
  assumes "sending w None b" and "sb_send_buffer b = []" and "heartbeat_state b = (opts, None, p, False)"
    and "opt_heartbeat_ivl opts = Some ivl" and "ivl \<le> 2 ^ 62 * SEC" and "0 \<le> env_clock e (env_tick e)" and "env_writes e = [Written]"
  shows "\<exists>b' w' e'. heartbeat_flush b e = (IoOk (), b', e') \<and> sending w' None b' \<and> sb_send_buffer b' = [] \<and>
    heartbeat_state b' = (opts, None, Some (env_clock e (env_tick e)), True)"
proof -
  let ?t = "env_clock e (env_tick e)"
  have "idle_since b ?t ivl = Some (?t - int (ivl + ivl))"
    using assms(3,5,6) by (simp add: idle_since_def heartbeat_state_def duration_max_def SEC_def instant_checked_sub_def)
  moreover have "ivl \<le> duration_since ?t (?t - int (ivl + ivl))" by (simp add: duration_since_def)
  moreover have "build_ping_frame k \<noteq> []" for k by (simp add: build_ping_frame_def encode_frame_def Let_def)
  ultimately show ?thesis
    using assms
    by (auto simp: heartbeat_flush_def check_heartbeat_def heartbeat_state_def instant_now_def aio_bind_def aio_return_def
        flush_send_buffer_def sending_def guarded_write_def pop_write_def Let_def)
qed

lemma late_pong:
  assumes "heartbeat_state b = (opts, l, Some t, True)" and "opt_heartbeat_ivl opts = Some ivl"
    and "(case opt_heartbeat_timeout opts of Some x \<Rightarrow> x | None \<Rightarrow> ivl) < duration_since (env_clock e (env_tick e)) t"
  shows "\<exists>b' e'. heartbeat_flush b e = (IoErr TimedOut, b', e') \<and> sb_stream b' = None"
  using assms by (auto simp: heartbeat_flush_def check_heartbeat_def heartbeat_state_def instant_now_def aio_bind_def Let_def)

section \<open>Properties\<close>

text \<open>C2. What is sent is received. When the two ends of a connection hold matching ciphers, or none, and
  the transport accepts the writes, a DEALER puts any list of non-empty messages on the wire, and a peer that reads
  these bytes in pieces of any size gets from as many \<open>recv\<close> calls exactly these messages, part by
  part and in order.\<close>

theorem dealer_transfer:
  assumes "crypto_laws cr" and "matched c d" and "budget c (length (concat msgs))"
    and "\<forall>msg \<in> set msgs. msg \<noteq> [] \<and> fits m msg"
    and "sending w c (base s)" and "env_writes e = replicate (length msgs) Written"
    and "receiving m d [] (base t)" and "own t = []"
  shows "\<exists>s' e' out. send_all (dealer_send cr) msgs s e = (IoOk (), s', e') \<and> sb_stream (base s') = Some (w @ out) \<and>
    (\<forall>chunks e2. concat chunks = out \<and> [] \<notin> set chunks \<and> env_reads e2 = map ReadBytes chunks \<longrightarrow>
       recv_all (dealer_recv cr) (length msgs) t e2 = map (\<lambda>msg. IoOk (Some msg)) msgs)"
proof -
  obtain s' c' d' out where s': "send_all (dealer_send cr) msgs s e = (IoOk (), s', e\<lparr>env_writes := []\<rparr>)"
    "sending (w @ out) c' (base s')" "carries_messages cr m d out msgs d'"
    using dealer_send_all [OF assms(1,5,2,3), of m e "[]"] assms(4,6) by auto
  have "\<forall>chunks e2. concat chunks = out \<and> [] \<notin> set chunks \<and> env_reads e2 = map ReadBytes chunks \<longrightarrow>
      recv_all (dealer_recv cr) (length msgs) t e2 = map (\<lambda>msg. IoOk (Some msg)) msgs"
    using assms(4,7,8) by (intro allI impI dealer_recv_all [OF s'(3), of "[]" t _ _ "[]"]) auto
  with s' show ?thesis
    by (intro exI [of _ s'] exI [of _ "e\<lparr>env_writes := []\<rparr>"] exI [of _ out]) (simp add: sending_def)
qed

lemma sending_new: "opt_send_timeout opts \<noteq> Some 0 \<Longrightarrow> sending [] c ((base_new opts)\<lparr>sb_curve_cipher := c\<rparr>)"
  by (simp add: sending_def base_new_def)

lemma receiving_new:
  "opt_heartbeat_ivl opts = None \<Longrightarrow> opt_recv_timeout opts \<noteq> Some 0 \<Longrightarrow> opt_max_msg_size opts = Some m \<Longrightarrow>
   receiving m d [] ((base_new opts)\<lparr>sb_curve_cipher := d\<rparr>)"
  by (simp add: receiving_def base_new_def decoder_for_def decoder_with_max_frame_size_def dec_inv_def vstream_def)

definition demo_options :: socket_options where
  "demo_options = socket_options_default\<lparr>opt_max_msg_size := Some 1000\<rparr>"

definition demo_sender :: "'x \<Rightarrow> 'x sock" where
  "demo_sender x = \<lparr>base = (base_new demo_options)\<lparr>sb_curve_cipher := Some (new_client [5] 1 1)\<rparr>, own = x\<rparr>"

definition demo_receiver :: "'x \<Rightarrow> 'x sock" where
  "demo_receiver x = \<lparr>base = (base_new demo_options)\<lparr>sb_curve_cipher := Some (new_server [5] 1 1)\<rparr>, own = x\<rparr>"

lemma demo_states:
  "sending [] (Some (new_client [5] 1 1)) (base (demo_sender x))"
  "receiving 1000 (Some (new_server [5] 1 1)) [] (base (demo_receiver x))" "own (demo_receiver x) = x"
  by (simp_all add: demo_sender_def demo_receiver_def sending_new receiving_new demo_options_def socket_options_default_def)

theorem dealer_transfer_witness:
  "\<exists>s' e' out. send_all (dealer_send tag_crypto) [[[1], [2]], [[3]]] (demo_sender []) (quiet_env\<lparr>env_writes := [Written, Written]\<rparr>) =
      (IoOk (), s', e') \<and> sb_stream (base s') = Some ([] @ out) \<and>
    (\<forall>chunks e2. concat chunks = out \<and> [] \<notin> set chunks \<and> env_reads e2 = map ReadBytes chunks \<longrightarrow>
       recv_all (dealer_recv tag_crypto) (length [[[1 :: byte], [2]], [[3]]]) (demo_receiver []) e2 =
         map (\<lambda>msg. IoOk (Some msg)) [[[1], [2]], [[3]]])"
  by (rule dealer_transfer [OF tag_crypto_laws _ _ _ demo_states(1) _ demo_states(2,3)])
    (simp_all add: new_client_def new_server_def usize_max_def fits_def)

text \<open>A direct send overtakes buffered messages. \<open>send\<close> writes its message at once and leaves what
  \<open>send_buffered\<close> has queued in the buffer, so a message sent after a buffered one arrives before
  it. On an encrypted connection the buffered message then carries the smaller counter and the
  peer refuses it with an error: it is lost.\<close>

theorem direct_send_overtakes:
  assumes "crypto_laws cr" and "matched c d" and "budget c 2" and "fits m [p1]" and "fits m [p2]"
    and "sending w c (base s)" and "sb_send_buffer (base s) = []" and "\<not> hwm_reached (base s)"
    and "env_writes e = [Written, Written]" and "receiving m d [] (base t)" and "own t = []"
  shows "\<exists>s' e' out.
    aio_bind (dealer_send_buffered cr [p1]) (\<lambda>_. aio_bind (dealer_send cr [p2]) (\<lambda>_. dealer_flush)) s e = (IoOk (), s', e') \<and>
    sb_stream (base s') = Some (w @ out) \<and>
    (\<forall>chunks e2. concat chunks = out \<and> [] \<notin> set chunks \<and> env_reads e2 = map ReadBytes chunks \<longrightarrow>
       recv_all (dealer_recv cr) 2 t e2 =
         [IoOk (Some [p2]), if c = None then IoOk (Some [p1]) else IoErr InvalidData])"
proof -
  obtain o1 o2 c1 c2 where o: "encode_message cr c [p1] [] = (True, c1, o1)" "encode_message cr c1 [p2] [] = (True, c2, o2)" "o1 \<noteq> []"
    and r: "\<forall>chunks e2. concat chunks = o2 @ o1 \<and> [] \<notin> set chunks \<and> env_reads e2 = map ReadBytes chunks \<longrightarrow>
       recv_all (dealer_recv cr) 2 t e2 = [IoOk (Some [p2]), if c = None then IoOk (Some [p1]) else IoErr InvalidData]"
  proof (cases c)
    case None
    then have "d = None" using assms(2) by (cases d) simp_all
    with overtaken_plain [OF assms(4,5), of t cr] assms(10,11) None show ?thesis using that by auto
  next
    case (Some c0)
    then obtain d0 where d: "d = Some d0" using assms(2) by (cases d) simp_all
    with overtaken_curve [OF assms(1) _ _ assms(4,5), of c0 d0 t] assms(2,3,10,11) Some show ?thesis using that by auto
  qed
  obtain s' e' where
    "aio_bind (dealer_send_buffered cr [p1]) (\<lambda>_. aio_bind (dealer_send cr [p2]) (\<lambda>_. dealer_flush)) s e = (IoOk (), s', e')"
    "sb_stream (base s') = Some (w @ o2 @ o1)"
    using buffered_then_direct [OF o assms(6-9)] by blast
  with r show ?thesis by (intro exI [of _ s'] exI [of _ e'] exI [of _ "o2 @ o1"] conjI)
qed

theorem direct_send_overtakes_witness:
  "\<exists>s' e' out.
    aio_bind (dealer_send_buffered tag_crypto [[1]]) (\<lambda>_. aio_bind (dealer_send tag_crypto [[2]]) (\<lambda>_. dealer_flush))
      (demo_sender []) (quiet_env\<lparr>env_writes := [Written, Written]\<rparr>) = (IoOk (), s', e') \<and>
    sb_stream (base s') = Some ([] @ out) \<and>
    (\<forall>chunks e2. concat chunks = out \<and> [] \<notin> set chunks \<and> env_reads e2 = map ReadBytes chunks \<longrightarrow>
       recv_all (dealer_recv tag_crypto) 2 (demo_receiver []) e2 =
         [IoOk (Some [[2]]), if Some (new_client [5] 1 1) = None then IoOk (Some [[1]]) else IoErr InvalidData])"
  by (rule direct_send_overtakes [OF tag_crypto_laws _ _ _ _ demo_states(1) _ _ _ demo_states(2,3)])
    (simp_all add: new_client_def new_server_def usize_max_def fits_def demo_sender_def base_new_def hwm_reached_def
      demo_options_def socket_options_default_def)

text \<open>The three write paths of PUSH agree. Whether a message is coalesced in the send buffer, written as
  a vector of headers and bodies, or copied into one buffer, and whatever the thresholds, after a
  flush exactly the ZMTP encoding of the message has been added to the wire.\<close>

theorem push_paths_agree:
  assumes "sending w None b" and "sb_send_buffer b = []" and "env_writes e = [Written, Written]"
  shows "\<exists>b' e'. aio_bind (push_write cr msg) (\<lambda>_. flush_send_buffer) b e = (IoOk (), b', e') \<and>
    sb_stream b' = Some (w @ encode_multipart msg []) \<and> sb_send_buffer b' = []"
proof -
  obtain b1 w1 q e1 where p: "push_write cr msg b e = (IoOk (), b1, e1)" "sending w1 None b1" "sb_send_buffer b1 = q"
    "w1 @ q = w @ wire_message msg" "e1 = e \<or> q = []" using push_write_ok [OF assms] by blast
  obtain b' e' where "flush_send_buffer b1 e1 = (IoOk (), b', e')" "sb_stream b' = Some (w1 @ sb_send_buffer b1)" "sb_send_buffer b' = []"
    using flush_rest [OF p(2), of e1 "[Written]"] p(3,5) assms(3) by blast
  with p show ?thesis
    by (intro exI [of _ b'] exI [of _ e']) (simp add: aio_bind_def encode_multipart_wire)
qed

theorem push_paths_agree_witness:
  "\<exists>b' e'. aio_bind (push_write tag_crypto [[1], [2]]) (\<lambda>_. flush_send_buffer) (base_new socket_options_default)
      (quiet_env\<lparr>env_writes := [Written, Written]\<rparr>) = (IoOk (), b', e') \<and>
    sb_stream b' = Some ([] @ encode_multipart [[1], [2]] []) \<and> sb_send_buffer b' = []"
  by (rule push_paths_agree) (simp_all add: sending_def base_new_def socket_options_default_def)

text \<open>Repeated \<open>send_with_reconnect\<close> calls and their results.\<close>

fun resend_results :: "curve_crypto \<Rightarrow> (bytes list \<times> reconnect_io list \<times> io_env) list \<Rightarrow> dealer_socket \<Rightarrow> unit io_out list" where
  "resend_results cr [] s = []"
| "resend_results cr ((msg, ios, e) # calls) s =
     (case dealer_send_with_reconnect cr msg ios s e of (r, s1, _) \<Rightarrow> r # resend_results cr calls s1)"

text \<open>A plain connection that is poisoned and still open.\<close>

definition stuck :: "'x sock \<Rightarrow> bool" where
  "stuck s \<longleftrightarrow> sb_is_poisoned (base s) \<and> sb_stream (base s) \<noteq> None \<and> sb_curve_cipher (base s) = None"

lemma stuck_send:
  assumes "stuck s" and "ios \<noteq> []"
  shows "\<exists>s1 e1. dealer_send_with_reconnect cr msg ios s e = (IoErr BrokenPipe, s1, e1) \<and> stuck s1"
  using assms
  by (cases ios)
    (auto simp: dealer_send_with_reconnect_def lost_def stuck_def aio_bind_def aio_return_def dealer_send_def on_base_def
      write_message_def encode_message_to_write_buf_def encode_message_def write_from_buf_def)

lemma stuck_results:
  "stuck s \<Longrightarrow> \<forall>(msg, ios, e) \<in> set calls. ios \<noteq> [] \<Longrightarrow> resend_results cr calls s = replicate (length calls) (IoErr BrokenPipe)"
proof (induction calls arbitrary: s)
  case (Cons c calls)
  obtain msg ios e where c: "c = (msg, ios, e)" by (metis prod_cases3)
  then have "ios \<noteq> []" using Cons.prems(2) by simp
  from stuck_send [OF Cons.prems(1) this, of cr msg e] Cons c show ?case by auto
qed simp

text \<open>C37. A timed-out send is never repaired. A write that exceeds the send timeout leaves the connection
  open and poisoned. \<open>send_with_reconnect\<close> reconnects only when the stream is gone, so from then on
  every call fails with a broken pipe, whatever the network does.\<close>

theorem timed_out_send_stuck:
  assumes "sending w None (base s)" and "opt_send_timeout (sb_options (base s)) \<noteq> None"
    and "env_writes e = WriteStalls n # ws" and "\<forall>(msg, ios, e) \<in> set calls. ios \<noteq> []"
  shows "\<exists>s1 e1. dealer_send cr msg s e = (IoErr TimedOut, s1, e1) \<and> \<not> lost s1 \<and>
    resend_results cr calls s1 = replicate (length calls) (IoErr BrokenPipe)"
proof -
  obtain s1 e1 where "dealer_send cr msg s e = (IoErr TimedOut, s1, e1)" "stuck s1"
    using assms(1-3)
    by (auto simp: sending_def stuck_def dealer_send_def on_base_def write_message_def aio_bind_def
        encode_message_to_write_buf_def encode_message_def write_from_buf_def guarded_write_def pop_write_def Let_def)
  with stuck_results [OF this(2) assms(4), of cr] show ?thesis
    by (intro exI [of _ s1] exI [of _ e1]) (simp add: lost_def stuck_def)
qed

theorem timed_out_send_stuck_witness:
  "\<exists>s1 e1. dealer_send tag_crypto [[1]]
      \<lparr>base = base_new (socket_options_default\<lparr>opt_send_timeout := Some 1\<rparr>), own = []\<rparr>
      (quiet_env\<lparr>env_writes := [WriteStalls 1]\<rparr>) = (IoErr TimedOut, s1, e1) \<and> \<not> lost s1 \<and>
    resend_results tag_crypto [([[2]], [honest_reconnect], quiet_env), ([[3]], [honest_reconnect], quiet_env)] s1 =
      replicate (length [([[2 :: byte]], [honest_reconnect], quiet_env), ([[3]], [honest_reconnect], quiet_env)]) (IoErr BrokenPipe)"
  by (rule timed_out_send_stuck [where w = "[]" and n = 1 and ws = "[]"]) (simp_all add: sending_def base_new_def)

text \<open>Heartbeats disconnect a live PUSH socket. PUSH never reads, so the first send on an idle
  connection sends a PING whose PONG is never seen; a later send that finds the heartbeat timeout
  exceeded reports a dead peer and drops the connection, although both messages were written and
  whatever the peer has answered.\<close>

theorem push_heartbeat_disconnects:
  assumes "sending w None (base s)" and "sb_send_buffer (base s) = []" and "\<not> opt_write_coalescing opts"
    and "heartbeat_state (base s) = (opts, None, None, False)" and "opt_heartbeat_ivl opts = Some ivl" and "ivl \<le> 2 ^ 62 * SEC"
    and "env_writes e1 = [Written, Written]" and "env_writes e2 = [Written]" and "0 \<le> env_clock e1 (env_tick e1)"
    and "(case opt_heartbeat_timeout opts of Some t \<Rightarrow> t | None \<Rightarrow> ivl)
      < duration_since (env_clock e2 (env_tick e2)) (env_clock e1 (env_tick e1))"
  shows "\<exists>s1 e1' s2 e2'. push_send cr m1 s e1 = (IoOk (), s1, e1') \<and> \<not> lost s1 \<and>
    push_send cr m2 s1 e2 = (IoErr TimedOut, s2, e2') \<and> lost s2"
proof -
  let ?t = "env_clock e1 (env_tick e1)"
  have o: "sb_options (base s) = opts" using assms(4) by (simp add: heartbeat_state_def)
  obtain b1 where b1: "push_write cr m1 (base s) e1 = (IoOk (), b1, e1\<lparr>env_writes := [Written]\<rparr>)" "sending (w @ wire_message m1) None b1"
    "sb_send_buffer b1 = []" "heartbeat_state b1 = (opts, None, None, False)"
    using push_write_direct [OF assms(1,2) _ assms(7)] assms(3,4) o by fastforce
  obtain b2 w2 e2' where b2: "heartbeat_flush b1 (e1\<lparr>env_writes := [Written]\<rparr>) = (IoOk (), b2, e2')" "sending w2 None b2"
    "sb_send_buffer b2 = []" "heartbeat_state b2 = (opts, None, Some ?t, True)"
    using first_ping [OF b1(2-4) assms(5,6), of "e1\<lparr>env_writes := [Written]\<rparr>"] assms(9) by auto
  have o2: "sb_options b2 = opts" using b2(4) by (simp add: heartbeat_state_def)
  obtain b3 where b3: "push_write cr m2 b2 e2 = (IoOk (), b3, e2\<lparr>env_writes := []\<rparr>)" "heartbeat_state b3 = (opts, None, Some ?t, True)"
    using push_write_direct [OF b2(2,3) _ assms(8)] assms(3) b2(4) o2 by fastforce
  obtain b4 e4 where b4: "heartbeat_flush b3 (e2\<lparr>env_writes := []\<rparr>) = (IoErr TimedOut, b4, e4)" "sb_stream b4 = None"
    using late_pong [OF b3(2) assms(5), of "e2\<lparr>env_writes := []\<rparr>"] assms(10) by auto
  have "push_send cr m1 s e1 = (IoOk (), s\<lparr>base := b2\<rparr>, e2')" "push_send cr m2 (s\<lparr>base := b2\<rparr>) e2 = (IoErr TimedOut, s\<lparr>base := b4\<rparr>, e4)"
    using b1(1) b2(1) b3(1) b4(1) by (simp_all add: push_send_def on_base_def aio_bind_def)
  moreover have "\<not> lost (s\<lparr>base := b2\<rparr>)" "lost (s\<lparr>base := b4\<rparr>)" using b2(2) b4(2) by (simp_all add: lost_def sending_def)
  ultimately show ?thesis by blast
qed

theorem push_heartbeat_disconnects_witness:
  "\<exists>s1 e1' s2 e2'. push_send tag_crypto [[1]]
      \<lparr>base = base_new (socket_options_default\<lparr>opt_heartbeat_ivl := Some SEC\<rparr>), own = ()\<rparr>
      (quiet_env\<lparr>env_writes := [Written, Written]\<rparr>) = (IoOk (), s1, e1') \<and> \<not> lost s1 \<and>
    push_send tag_crypto [[2]] s1 (quiet_env\<lparr>env_writes := [Written], env_clock := (\<lambda>_. 2000000000)\<rparr>) = (IoErr TimedOut, s2, e2') \<and> lost s2"
  by (rule push_heartbeat_disconnects [where ivl = SEC and w = "[]"
        and opts = "socket_options_default\<lparr>opt_heartbeat_ivl := Some SEC\<rparr>"])
    (simp_all add: sending_def base_new_def heartbeat_state_def quiet_env_def duration_since_def SEC_def
      socket_options_default_def)

end
