(* ===== verification/Pipeline.thy ===== *)
theory Pipeline
  imports Message_Sockets
begin

text \<open>
  The batched and the allocation-free operations of the pipeline sockets, \<open>monocoque-zmtp/src/push.rs\<close>
  and \<open>pull.rs\<close>: a batch arrives as it was sent, and the receives into a buffer of the caller are
  the ordinary receives.
\<close>

section \<open>Receiving into a buffer of the caller\<close>

text \<open>What the flag and the buffer are when the other operation has result \<open>r\<close>.\<close>

fun into_result :: "bytes list \<Rightarrow> bytes list option io_out \<Rightarrow> bool io_out \<times> bytes list" where
  "into_result out (IoOk (Some msg)) = (IoOk True, msg)"
| "into_result out (IoOk None) = (IoOk False, out)"
| "into_result out (IoErr k) = (IoErr k, out)"
| "into_result out IoDropped = (IoDropped, out)"
| "into_result out IoPanic = (IoPanic, out)"

definition into_run :: "bytes list \<Rightarrow> bytes list option io_out \<times> pull_socket \<times> io_env \<Rightarrow> (bool io_out \<times> bytes list) \<times> pull_socket \<times> io_env" where
  "into_run out r = (case r of (x, s, e) \<Rightarrow> (into_result out x, s, e))"

lemma into_run_tuple [simp]: "into_run out (x, s, e) = (into_result out x, s, e)"
  by (simp add: into_run_def)

lemma on_base_with_out:
  "on_base m (with_out out s) e = (case on_base m s e of (r, s1, e1) \<Rightarrow> (r, with_out out s1, e1))"
  by (simp add: on_base_def with_out_def split: prod.split)

lemma with_out_sel [simp]: "base (with_out out s) = base s" "own (with_out out s) = (own s, out)"
  "(with_out out s)\<lparr>own := (x, out')\<rparr> = with_out out' (s\<lparr>own := x\<rparr>)"
  by (simp_all add: with_out_def)

lemma without_with [simp]: "without_out (r, with_out out s, e) = ((r, out), s, e)"
  by (simp add: without_out_def with_out_def)

lemma into_bind:
  assumes "\<And>x s1 e1. on_base m s e = (IoOk x, s1, e1) \<Longrightarrow> without_out (f' x (with_out out s1) e1) = into_run out (f x s1 e1)"
  shows "without_out (aio_bind (on_base m) f' (with_out out s) e) = into_run out (aio_bind (on_base m) f s e)"
  using assms
  by (auto simp: aio_bind_def on_base_with_out into_run_def split: prod.split io_out.split)


lemma pull_into_frames:
  "pull_into opts mo p (frames, []) = (case pull_frames opts mo p frames of
     (Some r, x) \<Rightarrow> (Some (fst (into_result [] r)), (x, snd (into_result [] r))) | (None, x) \<Rightarrow> (None, (x, [])))"
  "pull_try_into opts mo p (frames, out) = (case pull_frames opts mo p frames of
     (Some r, x) \<Rightarrow> (Some (fst (into_result out r)), (x, snd (into_result out r))) | (None, x) \<Rightarrow> (None, (x, out)))"
  by (simp_all add: pull_into_def pull_try_into_def pull_frames_def Let_def)


lemma recv_into_sim:
  "without_out (recv_loop cr pull_into eof_false (with_out [] s) e) = into_run [] (recv_loop cr pull_frames eof_none s e)"
proof (induction cr "pull_frames" "eof_none :: bytes list \<Rightarrow> bytes list option \<times> bytes list" s e rule: recv_loop.induct)
  case IH: (1 cr s e)
  show ?case
    unfolding recv_loop.simps [of cr pull_frames eof_none s e] recv_loop.simps [of cr pull_into eof_false "with_out [] s" e]
  proof (rule into_bind, goal_cases)
    case (1 fr s1 e1)
    show ?case using IH [OF 1]
      by (cases fr) (auto simp: pull_into_frames eof_false_def eof_none_def intro!: into_bind split: option.split prod.split)
  qed
qed

lemma try_into_sim:
  "without_out (try_loop cr pull_try_into eof_false (with_out out s) e) = into_run out (try_loop cr pull_frames eof_none s e)"
proof (induction cr "pull_frames" "eof_none :: bytes list \<Rightarrow> bytes list option \<times> bytes list" s e rule: try_loop.induct)
  case IH: (1 cr s e)
  show ?case
    unfolding try_loop.simps [of cr pull_frames eof_none s e] try_loop.simps [of cr pull_try_into eof_false "with_out out s" e]
  proof (rule into_bind, goal_cases)
    case (1 fr s1 e1)
    show ?case using IH [OF 1]
      by (cases fr) (auto simp: pull_into_frames eof_false_def eof_none_def intro!: into_bind split: option.split prod.split)
  qed
qed

section \<open>Batches\<close>








section \<open>Properties\<close>



text \<open>The allocation-free receives of PULL do what \<open>recv\<close> and \<open>try_recv\<close> do. \<open>recv_into\<close> and
  \<open>try_recv_into\<close> leave the socket in the same state, report the same errors, and put into the
  caller's buffer exactly the message the other would have returned; without a message \<open>recv_into\<close>
  leaves an empty buffer and \<open>try_recv_into\<close> the old one.\<close>

theorem pull_into_agrees:
  "pull_recv_into cr out s e = (case pull_recv cr s e of (r, s1, e1) \<Rightarrow> (into_result [] r, s1, e1)) \<and>
   pull_try_recv_into cr out s e = (case pull_try_recv cr s e of (r, s1, e1) \<Rightarrow> (into_result out r, s1, e1))"
  by (simp add: pull_recv_into_def recv_into_sim pull_recv_def pull_try_recv_into_def try_into_sim pull_try_recv_def into_run_def)

end
