(* ===== verification/Fan_Sockets.thy ===== *)
theory Fan_Sockets
  imports Pipeline
begin

text \<open>
  The fan-out and fan-in helpers of the public crate (\<open>monocoque/src/zmq/push_fanout.rs\<close>, \<open>pull_fanin.rs\<close>). A
  fan-out is a list of PUSH sockets that take turns, without the ones that have failed. A fan-in has a task for every
  PULL socket, which puts what it reads into a channel in pieces; the model is the system of the tasks, the channel and the
  application, over any type of messages. The theorems say that the turns are fair, and that the application gets
  the messages of every worker completely and in order in every interleaving.
\<close>

section \<open>PushFanOut\<close>

record push_fan_out =
  fo_workers :: "push_socket list"
  fo_next :: nat

text \<open>Accepting the workers: the sockets made from the accepted streams, in order; the first failure ends it.\<close>

fun accept_workers :: "push_socket io_out list \<Rightarrow> push_fan_out \<Rightarrow> push_fan_out io_out" where
  "accept_workers [] f = IoOk f"
| "accept_workers (IoOk w # ws) f = accept_workers ws (f\<lparr>fo_workers := fo_workers f @ [w]\<rparr>)"
| "accept_workers (IoErr k # ws) f = IoErr k"
| "accept_workers (IoDropped # ws) f = IoDropped"
| "accept_workers (IoPanic # ws) f = IoPanic"

definition fan_out_new :: "push_socket io_out list \<Rightarrow> push_fan_out io_out" where
  "fan_out_new ws = accept_workers ws \<lparr>fo_workers = [], fo_next = 0\<rparr>"

text \<open>One more worker; its socket is made with the default options.\<close>

definition fan_out_accept :: "push_socket io_out \<Rightarrow> push_fan_out \<Rightarrow> unit io_out \<times> push_fan_out" where
  "fan_out_accept w f =
     (case w of
        IoOk s \<Rightarrow> (IoOk (), f\<lparr>fo_workers := fo_workers f @ [s]\<rparr>)
      | IoErr k \<Rightarrow> (IoErr k, f) | IoDropped \<Rightarrow> (IoDropped, f) | IoPanic \<Rightarrow> (IoPanic, f))"

definition without :: "nat \<Rightarrow> 'a list \<Rightarrow> 'a list" where
  "without i xs = take i xs @ drop (Suc i) xs"

lemma length_without [simp]: "i < length xs \<Longrightarrow> length (without i xs) = length xs - 1"
  by (simp add: without_def)

text \<open>The loop of \<open>send\<close> and \<open>send_one\<close>, for the send \<open>op\<close> of one socket.\<close>

function fan_out_with :: "(push_socket, unit) aio \<Rightarrow> (push_fan_out, unit) aio" where
  "fan_out_with op f e =
     (if fo_workers f = [] then (IoErr NotConnected, f, e)
      else
        let i = fo_next f mod length (fo_workers f); w = fo_workers f ! i in
        if \<not> is_connected (base w) then fan_out_with op \<lparr>fo_workers = without i (fo_workers f), fo_next = i\<rparr> e
        else case op w e of
          (IoOk _, w1, e1) \<Rightarrow> (IoOk (), \<lparr>fo_workers = (fo_workers f)[i := w1], fo_next = i + 1\<rparr>, e1)
        | (IoErr k, w1, e1) \<Rightarrow> (IoErr k, \<lparr>fo_workers = without i (fo_workers f), fo_next = i\<rparr>, e1)
        | (IoDropped, w1, e1) \<Rightarrow> (IoDropped, f\<lparr>fo_workers := (fo_workers f)[i := w1]\<rparr>, e1)
        | (IoPanic, w1, e1) \<Rightarrow> (IoPanic, f\<lparr>fo_workers := (fo_workers f)[i := w1]\<rparr>, e1))"
  by pat_completeness auto
termination
  by (relation "measure (\<lambda>(op, f, e). length (fo_workers f))") simp_all

declare fan_out_with.simps [simp del]

definition fan_out_send :: "curve_crypto \<Rightarrow> bytes list \<Rightarrow> (push_fan_out, unit) aio" where
  "fan_out_send cr msg = fan_out_with (push_send cr msg)"

definition fan_out_send_one :: "curve_crypto \<Rightarrow> bytes \<Rightarrow> (push_fan_out, unit) aio" where
  "fan_out_send_one cr frame = fan_out_with (push_send_one cr frame)"

fun flush_workers :: "push_socket list \<Rightarrow> push_socket list \<Rightarrow> io_env \<Rightarrow> unit io_out \<times> push_socket list \<times> io_env" where
  "flush_workers before [] e = (IoOk (), before, e)"
| "flush_workers before (w # ws) e =
     (case push_flush w e of
        (IoOk _, w1, e1) \<Rightarrow> flush_workers (before @ [w1]) ws e1
      | (r, w1, e1) \<Rightarrow> (r, before @ w1 # ws, e1))"

definition fan_out_flush :: "(push_fan_out, unit) aio" where
  "fan_out_flush f e = (case flush_workers [] (fo_workers f) e of (r, ws, e1) \<Rightarrow> (r, f\<lparr>fo_workers := ws\<rparr>, e1))"

section \<open>PullFanIn\<close>

definition MAX_ITEM_MESSAGES :: nat where
  "MAX_ITEM_MESSAGES = 128"

definition CHANNEL_CAPACITY :: nat where
  "CHANNEL_CAPACITY = 64"

text \<open>\<open>read_into_channel\<close>: waiting for \<open>recv_batch\<close>, sending what is left of a batch, returned.\<close>

datatype 'm fan_reader = Receiving | Forwarding "'m list" | Finished

record 'm pull_fan_in =
  fi_rx :: "'m list list"
  fi_buf :: "'m list"
  fi_readers :: "'m fan_reader list"

definition fan_in_new :: "nat \<Rightarrow> 'm pull_fan_in" where
  "fan_in_new n = \<lparr>fi_rx = [], fi_buf = [], fi_readers = replicate n Receiving\<rparr>"

text \<open>\<open>recv_batch\<close> of the PULL socket returns a batch, or the end of the stream or an error (\<open>None\<close>).\<close>

definition reader_batch :: "nat \<Rightarrow> 'm list option \<Rightarrow> 'm pull_fan_in \<Rightarrow> 'm pull_fan_in option" where
  "reader_batch i batch f =
     (if length (fi_readers f) \<le> i \<or> fi_readers f ! i \<noteq> Receiving then None
      else Some (f\<lparr>fi_readers := (fi_readers f)[i :=
        case batch of None \<Rightarrow> Finished | Some ms \<Rightarrow> if ms = [] then Receiving else Forwarding ms]\<rparr>))"

text \<open>The reader has room in the channel for its next piece.\<close>

definition reader_forward :: "nat \<Rightarrow> 'm pull_fan_in \<Rightarrow> 'm pull_fan_in option" where
  "reader_forward i f =
     (if length (fi_readers f) \<le> i then None
      else case fi_readers f ! i of
        Forwarding ms \<Rightarrow>
          if CHANNEL_CAPACITY \<le> length (fi_rx f) then None
          else
            let left = drop MAX_ITEM_MESSAGES ms
            in Some (f\<lparr>fi_rx := fi_rx f @ [take MAX_ITEM_MESSAGES ms],
                       fi_readers := (fi_readers f)[i := if left = [] then Receiving else Forwarding left]\<rparr>)
      | _ \<Rightarrow> None)"

text \<open>The receives of the application. A message is \<open>Some (Some m)\<close>; with an empty channel, \<open>recv\<close> waits (\<open>None\<close>) unless
  all readers have returned.\<close>

definition all_finished :: "'m pull_fan_in \<Rightarrow> bool" where
  "all_finished f \<longleftrightarrow> list_all (\<lambda>r. r = Finished) (fi_readers f)"

definition fan_in_take :: "'m pull_fan_in \<Rightarrow> ('m option \<times> 'm pull_fan_in) option" where
  "fan_in_take f =
     (case fi_buf f of
        m # ms \<Rightarrow> Some (Some m, f\<lparr>fi_buf := ms\<rparr>)
      | [] \<Rightarrow>
          (case fi_rx f of
             [] \<Rightarrow> None
           | batch # rest \<Rightarrow>
               (case batch of
                  [] \<Rightarrow> Some (None, f\<lparr>fi_rx := rest\<rparr>)
                | m # ms \<Rightarrow> Some (Some m, f\<lparr>fi_rx := rest, fi_buf := ms\<rparr>))))"

definition fan_in_recv :: "'m pull_fan_in \<Rightarrow> ('m option \<times> 'm pull_fan_in) option" where
  "fan_in_recv f = (case fan_in_take f of Some r \<Rightarrow> Some r | None \<Rightarrow> if all_finished f then Some (None, f) else None)"

definition fan_in_try_recv :: "'m pull_fan_in \<Rightarrow> 'm option \<times> 'm pull_fan_in" where
  "fan_in_try_recv f = (case fan_in_take f of Some r \<Rightarrow> r | None \<Rightarrow> (None, f))"

definition fan_in_recv_batch :: "'m pull_fan_in \<Rightarrow> ('m list option \<times> 'm pull_fan_in) option" where
  "fan_in_recv_batch f =
     (if fi_buf f \<noteq> [] \<or> fi_rx f \<noteq> [] then Some (Some (fi_buf f @ concat (fi_rx f)), f\<lparr>fi_buf := [], fi_rx := []\<rparr>)
      else if all_finished f then Some (None, f) else None)"

datatype 'm fan_action = ReaderGets nat "'m list option" | ReaderPuts nat | AppRecv | AppTryRecv | AppRecvBatch

text \<open>An action, and what it gives the application.\<close>

definition fan_in_act :: "'m fan_action \<Rightarrow> 'm pull_fan_in \<Rightarrow> ('m list option \<times> 'm pull_fan_in) option" where
  "fan_in_act a f =
     (case a of
        ReaderGets i batch \<Rightarrow> map_option (Pair (Some [])) (reader_batch i batch f)
      | ReaderPuts i \<Rightarrow> map_option (Pair (Some [])) (reader_forward i f)
      | AppRecv \<Rightarrow> map_option (apfst (map_option (\<lambda>m. [m]))) (fan_in_recv f)
      | AppTryRecv \<Rightarrow> Some (apfst (\<lambda>m. Some (case m of None \<Rightarrow> [] | Some x \<Rightarrow> [x])) (fan_in_try_recv f))
      | AppRecvBatch \<Rightarrow> fan_in_recv_batch f)"

inductive fan_in_trace :: "'m pull_fan_in \<Rightarrow> ('m fan_action \<times> 'm list option) list \<Rightarrow> 'm pull_fan_in \<Rightarrow> bool" for f0 where
  fan_start: "fan_in_trace f0 [] f0"
| fan_act: "fan_in_trace f0 h f \<Longrightarrow> fan_in_act a f = Some (out, f1) \<Longrightarrow> fan_in_trace f0 (h @ [(a, out)]) f1"

section \<open>The turns of the fan-out\<close>

text \<open>A worker that writes directly and has sent \<open>w\<close>.\<close>

definition steady :: "bytes \<Rightarrow> push_socket \<Rightarrow> bool" where
  "steady w s \<longleftrightarrow> sending w None (base s) \<and> sb_send_buffer (base s) = [] \<and> \<not> opt_write_coalescing (sb_options (base s)) \<and>
     opt_heartbeat_ivl (sb_options (base s)) = None"

lemma steady_send:
  assumes "steady w s" and "env_writes e = Written # ws"
  shows "\<exists>s'. push_send cr msg s e = (IoOk (), s', e\<lparr>env_writes := ws\<rparr>) \<and> steady (w @ wire_message msg) s'"
proof -
  obtain b where b: "push_write cr msg (base s) e = (IoOk (), b, e\<lparr>env_writes := ws\<rparr>)" "sending (w @ wire_message msg) None b"
    "sb_send_buffer b = []" "heartbeat_state b = heartbeat_state (base s)"
    using push_write_direct [of w "base s" e ws cr msg] assms by (auto simp: steady_def)
  have "heartbeat_flush b e' = (IoOk (), b, e')" for e'
    using b(4) assms(1) by (simp add: steady_def heartbeat_state_def heartbeat_flush_def check_heartbeat_def aio_bind_def aio_return_def)
  with b assms(1) show ?thesis
    by (intro exI [of _ "s\<lparr>base := b\<rparr>"]) (simp add: push_send_def on_base_def aio_bind_def steady_def heartbeat_state_def)
qed

fun fan_out_send_all :: "curve_crypto \<Rightarrow> bytes list list \<Rightarrow> (push_fan_out, unit) aio" where
  "fan_out_send_all cr [] f e = (IoOk (), f, e)"
| "fan_out_send_all cr (msg # msgs) f e =
     (case fan_out_send cr msg f e of (IoOk _, f1, e1) \<Rightarrow> fan_out_send_all cr msgs f1 e1 | r \<Rightarrow> r)"

text \<open>What falls to worker \<open>j\<close> of \<open>n\<close>, when it is the turn of \<open>next\<close>.\<close>

fun turns :: "nat \<Rightarrow> nat \<Rightarrow> nat \<Rightarrow> 'a list \<Rightarrow> 'a list" where
  "turns n next j [] = []"
| "turns n next j (x # xs) = (if next mod n = j then [x] else []) @ turns n (next mod n + 1) j xs"

lemma fan_out_steady:
  "\<forall>j < length (fo_workers f). steady (w j) (fo_workers f ! j) \<Longrightarrow> fo_workers f \<noteq> [] \<Longrightarrow>
   env_writes e = replicate (length msgs) Written @ ws \<Longrightarrow>
   \<exists>f'. fan_out_send_all cr msgs f e = (IoOk (), f', e\<lparr>env_writes := ws\<rparr>) \<and> length (fo_workers f') = length (fo_workers f) \<and>
     (\<forall>j < length (fo_workers f). steady (w j @ concat (map wire_message (turns (length (fo_workers f)) (fo_next f) j msgs))) (fo_workers f' ! j))"
proof (induction msgs arbitrary: f e w)
  case Nil
  have "e\<lparr>env_writes := ws\<rparr> = e" using Nil.prems(3) by simp
  with Nil show ?case by simp
next
  case (Cons msg msgs)
  let ?n = "length (fo_workers f)" and ?i = "fo_next f mod length (fo_workers f)"
  have i: "?i < ?n" using Cons.prems(2) by simp
  obtain s' where s': "push_send cr msg (fo_workers f ! ?i) e = (IoOk (), s', e\<lparr>env_writes := replicate (length msgs) Written @ ws\<rparr>)"
    "steady (w ?i @ wire_message msg) s'" using steady_send Cons.prems(1,3) i by (metis append_Cons length_Cons replicate_Suc)
  have "is_connected (base (fo_workers f ! ?i))" using Cons.prems(1) i by (auto simp: steady_def sending_def is_connected_def)
  then have f1: "fan_out_send cr msg f e = (IoOk (), \<lparr>fo_workers = (fo_workers f)[?i := s'], fo_next = ?i + 1\<rparr>,
      e\<lparr>env_writes := replicate (length msgs) Written @ ws\<rparr>)"
    using Cons.prems(2) s'(1) by (simp add: fan_out_send_def fan_out_with.simps [of _ f e] Let_def)
  let ?f = "\<lparr>fo_workers = (fo_workers f)[?i := s'], fo_next = ?i + 1\<rparr>" and ?e = "e\<lparr>env_writes := replicate (length msgs) Written @ ws\<rparr>"
  let ?w = "w(?i := w ?i @ wire_message msg)"
  have "\<forall>j < length (fo_workers ?f). steady (?w j) (fo_workers ?f ! j)" using Cons.prems(1) s'(2) by (simp add: nth_list_update)
  from Cons.IH [OF this, of ?e] Cons.prems(2) obtain f' where f': "fan_out_send_all cr msgs ?f ?e = (IoOk (), f', e\<lparr>env_writes := ws\<rparr>)"
    "length (fo_workers f') = ?n" "\<forall>j < ?n. steady (?w j @ concat (map wire_message (turns ?n (?i + 1) j msgs))) (fo_workers f' ! j)" by auto
  have "steady (w j @ concat (map wire_message (turns ?n (fo_next f) j (msg # msgs)))) (fo_workers f' ! j)" if "j < ?n" for j
    using f'(3) that by (cases "j = ?i") auto
  with f1 f' show ?case by simp
qed

text \<open>How many turns there are before that of worker \<open>j\<close>.\<close>

definition turns_before :: "nat \<Rightarrow> nat \<Rightarrow> nat \<Rightarrow> nat" where
  "turns_before n k j = (if k mod n \<le> j then j - k mod n else j + n - k mod n)"

lemma turns_before_step:
  assumes "j < n"
  shows "turns_before n (k mod n + 1) j = (if k mod n = j then n - 1 else turns_before n k j - 1)"
    and "k mod n \<noteq> j \<Longrightarrow> 0 < turns_before n k j" and "k mod n = j \<Longrightarrow> turns_before n k j = 0" and "turns_before n k j < n"
proof -
  obtain q where q: "k mod n = q" "q < n" using assms by simp
  show "turns_before n (k mod n + 1) j = (if k mod n = j then n - 1 else turns_before n k j - 1)"
    "k mod n \<noteq> j \<Longrightarrow> 0 < turns_before n k j" "k mod n = j \<Longrightarrow> turns_before n k j = 0" "turns_before n k j < n"
    using q(2) assms unfolding turns_before_def q(1) by (auto simp: mod_Suc)
qed

lemma length_turns: "j < n \<Longrightarrow> length (turns n k j xs) = (length xs + (n - 1 - turns_before n k j)) div n"
proof (induction xs arbitrary: k)
  case (Cons x xs)
  note step = turns_before_step [OF Cons.prems, of k]
  show ?case
  proof (cases "k mod n = j")
    case True
    have e: "length (x # xs) + (n - 1 - turns_before n k j) = length xs + n" using step(3) [OF True] Cons.prems by simp
    have "(length xs + n) div n = Suc (length xs div n)" using div_add_self2 [of n "length xs"] Cons.prems by simp
    moreover have "length (turns n (k mod n + 1) j xs) = length xs div n"
      using Cons.IH [OF Cons.prems, of "k mod n + 1"] step(1) True by simp
    ultimately show ?thesis unfolding e using True by simp
  next
    case False
    then have e: "length (x # xs) + (n - 1 - turns_before n k j) = length xs + (n - 1 - (turns_before n k j - 1))"
      using step(2,4) by simp
    show ?thesis unfolding e using Cons.IH [OF Cons.prems, of "k mod n + 1"] step(1) False by simp
  qed
qed simp

lemma length_turns_bounds:
  assumes "j < n"
  shows "length xs div n \<le> length (turns n k j xs) \<and> length (turns n k j xs) \<le> length xs div n + 1"
proof -
  have "(length xs + (n - 1 - turns_before n k j)) div n \<le> (length xs + n) div n" by (rule div_le_mono) simp
  moreover have "length xs div n \<le> (length xs + (n - 1 - turns_before n k j)) div n" by (rule div_le_mono) simp
  moreover have "(length xs + n) div n = length xs div n + 1" using div_add_self2 [of n "length xs"] assms by simp
  ultimately show ?thesis unfolding length_turns [OF assms, of k xs] by linarith
qed

text \<open>C25. A fan-out is fair. While its workers are healthy, the messages go to them in turn: each worker is sent exactly the messages
  of its turns, in order, and of any number of messages no worker gets more than one more than another.\<close>

theorem fan_out_fair:
  assumes "\<forall>j < length (fo_workers f). steady (w j) (fo_workers f ! j)" and "fo_workers f \<noteq> []"
    and "env_writes e = replicate (length msgs) Written @ ws"
  shows "\<exists>f'. fan_out_send_all cr msgs f e = (IoOk (), f', e\<lparr>env_writes := ws\<rparr>) \<and>
    (\<forall>j < length (fo_workers f). let share = turns (length (fo_workers f)) (fo_next f) j msgs
       in sb_stream (base (fo_workers f' ! j)) = Some (w j @ concat (map wire_message share)) \<and>
          length msgs div length (fo_workers f) \<le> length share \<and> length share \<le> length msgs div length (fo_workers f) + 1)"
  using fan_out_steady [OF assms, of cr] length_turns_bounds by (fastforce simp: steady_def sending_def Let_def)

theorem fan_out_fair_witness:
  "let f = \<lparr>fo_workers = [\<lparr>base = base_new demo_options, own = ()\<rparr>, \<lparr>base = base_new demo_options, own = ()\<rparr>], fo_next = 0\<rparr>;
       msgs = [[[1]], [[2]], [[3]]]
   in \<exists>f'. fan_out_send_all tag_crypto msgs f (quiet_env\<lparr>env_writes := replicate (length msgs) Written @ []\<rparr>) =
      (IoOk (), f', quiet_env\<lparr>env_writes := replicate (length msgs) Written @ []\<rparr>\<lparr>env_writes := []\<rparr>) \<and>
    (\<forall>j < length (fo_workers f). let share = turns (length (fo_workers f)) (fo_next f) j msgs
       in sb_stream (base (fo_workers f' ! j)) = Some ([] @ concat (map wire_message share)) \<and>
          length msgs div length (fo_workers f) \<le> length share \<and> length share \<le> length msgs div length (fo_workers f) + 1)"
proof -
  have "steady [] \<lparr>base = base_new demo_options, own = ()\<rparr>"
    using sending_new [of demo_options None]
    by (simp add: steady_def demo_options_def socket_options_default_def base_new_def)
  then show ?thesis
    unfolding Let_def [of "\<lparr>fo_workers = _, fo_next = _\<rparr>"] Let_def [of "[[[1]], [[2]], [[3]]]"]
    by (intro fan_out_fair) (simp_all add: less_Suc_eq nth_Cons')
qed

section \<open>What the fan-in delivers\<close>

text \<open>Messages with the number of their worker: what the application got, and what reader \<open>i\<close> was given by its socket.\<close>

definition fan_got :: "('m fan_action \<times> 'm list option) list \<Rightarrow> 'm list" where
  "fan_got h = concat (map (\<lambda>(a, out). case out of None \<Rightarrow> [] | Some ms \<Rightarrow> ms) h)"

definition fan_given :: "nat \<Rightarrow> ('m fan_action \<times> 'm list option) list \<Rightarrow> 'm list" where
  "fan_given i h = concat (map (\<lambda>(a, out). case a of ReaderGets j (Some ms) \<Rightarrow> if j = i then ms else [] | _ \<Rightarrow> []) h)"

definition of_worker :: "nat \<Rightarrow> (nat \<times> 'a) list \<Rightarrow> (nat \<times> 'a) list" where
  "of_worker i ms = filter (\<lambda>m. fst m = i) ms"

fun marked :: "(nat \<times> 'a) fan_action \<Rightarrow> bool" where
  "marked (ReaderGets i (Some ms)) = (\<forall>m \<in> set ms. fst m = i)"
| "marked _ = True"

fun in_reader :: "'m fan_reader \<Rightarrow> 'm list" where
  "in_reader (Forwarding ms) = ms"
| "in_reader _ = []"

definition reader_left :: "nat \<Rightarrow> 'm pull_fan_in \<Rightarrow> 'm list" where
  "reader_left i f = (if i < length (fi_readers f) then in_reader (fi_readers f ! i) else [])"

definition fan_in_ok :: "((nat \<times> 'a) fan_action \<times> (nat \<times> 'a) list option) list \<Rightarrow> (nat \<times> 'a) pull_fan_in \<Rightarrow> bool" where
  "fan_in_ok h f \<longleftrightarrow> [] \<notin> set (fi_rx f) \<and> Forwarding [] \<notin> set (fi_readers f) \<and>
     (\<forall>i. of_worker i (fan_got h @ fi_buf f @ concat (fi_rx f)) @ reader_left i f = fan_given i h \<and>
       (\<forall>m \<in> set (reader_left i f). fst m = i))"

lemma fan_logs_snoc [simp]:
  "fan_got (h @ [(a, out)]) = fan_got h @ (case out of None \<Rightarrow> [] | Some ms \<Rightarrow> ms)"
  "fan_given i (h @ [x]) = fan_given i h @ fan_given i [x]"
  by (simp_all add: fan_got_def fan_given_def)

lemma of_worker_append [simp]: "of_worker i (xs @ ys) = of_worker i xs @ of_worker i ys"
  by (simp add: of_worker_def)

lemma of_worker_own: "\<forall>m \<in> set ms. fst m = i \<Longrightarrow> of_worker j ms = (if j = i then ms else [])"
  by (auto simp: of_worker_def filter_empty_conv)

lemma fan_in_okD:
  assumes "fan_in_ok h f"
  shows "of_worker i (fan_got h) @ of_worker i (fi_buf f) @ of_worker i (concat (fi_rx f)) @ reader_left i f = fan_given i h"
    and "m \<in> set (reader_left i f) \<Longrightarrow> fst m = i"
  using assms by (simp_all add: fan_in_ok_def)

lemma reader_batch_ok:
  assumes "fan_in_ok h f" and "reader_batch i batch f = Some f1" and "marked (ReaderGets i batch)"
  shows "fan_in_ok (h @ [(ReaderGets i batch, Some [])]) f1"
proof -
  let ?r = "case batch of None \<Rightarrow> Finished | Some ms \<Rightarrow> if ms = [] then Receiving else Forwarding ms"
  from assms(2) have i: "i < length (fi_readers f)" "fi_readers f ! i = Receiving" "f1 = f\<lparr>fi_readers := (fi_readers f)[i := ?r]\<rparr>"
    by (auto simp: reader_batch_def split: if_splits)
  have "reader_left i f = []" using i by (simp add: reader_left_def)
  moreover have "reader_left j f1 = (if j = i then fan_given i [(ReaderGets i batch, Some [])] else reader_left j f)" for j
    using i by (auto simp: reader_left_def fan_given_def split: option.splits)
  moreover have "fan_given j [(ReaderGets i batch, Some [])] = []" if "j \<noteq> i" for j using that by (auto simp: fan_given_def split: option.split)
  moreover have "\<forall>m \<in> set (fan_given i [(ReaderGets i batch, Some [])]). fst m = i"
    using assms(3) by (cases batch) (auto simp: fan_given_def)
  moreover have "Forwarding [] \<notin> set ((fi_readers f)[i := ?r])"
    using assms(1) set_update_subset_insert [of "fi_readers f" i ?r] by (auto simp: fan_in_ok_def split: option.splits if_splits)
  ultimately show ?thesis using assms(1) i(3) fan_in_okD(1) [OF assms(1), of i] unfolding fan_in_ok_def by auto
qed

lemma reader_forward_ok:
  assumes "fan_in_ok h f" and "reader_forward i f = Some f1"
  shows "fan_in_ok (h @ [(ReaderPuts i, Some [])]) f1"
proof -
  from assms(2) obtain ms where i: "i < length (fi_readers f)" "fi_readers f ! i = Forwarding ms"
    and f1: "f1 = f\<lparr>fi_rx := fi_rx f @ [take MAX_ITEM_MESSAGES ms],
      fi_readers := (fi_readers f)[i := if drop MAX_ITEM_MESSAGES ms = [] then Receiving else Forwarding (drop MAX_ITEM_MESSAGES ms)]\<rparr>"
    by (auto simp: reader_forward_def Let_def split: if_splits fan_reader.splits)
  let ?r = "if drop MAX_ITEM_MESSAGES ms = [] then Receiving else Forwarding (drop MAX_ITEM_MESSAGES ms)"
  have ms: "reader_left i f = ms" using i by (simp add: reader_left_def)
  then have own: "\<forall>m \<in> set ms. fst m = i" using fan_in_okD(2) [OF assms(1)] by blast
  have ne: "ms \<noteq> []" using assms(1) i nth_mem [OF i(1)] by (auto simp: fan_in_ok_def)
  then have piece: "take MAX_ITEM_MESSAGES ms \<noteq> []" by (simp add: MAX_ITEM_MESSAGES_def)
  have left: "reader_left j f1 = (if j = i then drop MAX_ITEM_MESSAGES ms else reader_left j f)" for j
    using i f1 by (simp add: reader_left_def nth_list_update)
  have piece_own: "of_worker j (take MAX_ITEM_MESSAGES ms) = (if j = i then take MAX_ITEM_MESSAGES ms else [])" for j
    using own by (intro of_worker_own) (meson in_set_takeD)
  have "Forwarding [] \<notin> set ((fi_readers f)[i := ?r])"
    using assms(1) set_update_subset_insert [of "fi_readers f" i ?r] by (auto simp: fan_in_ok_def split: if_splits)
  moreover have "\<forall>m \<in> set (drop MAX_ITEM_MESSAGES ms). fst m = i" using own by (meson in_set_dropD)
  moreover have "fan_given j [(ReaderPuts i, Some [])] = []" for j by (simp add: fan_given_def)
  ultimately show ?thesis
    using assms(1) f1 left piece piece_own fan_in_okD(1) [OF assms(1), of i, unfolded ms] unfolding fan_in_ok_def
    by (auto simp flip: append_assoc) (simp add: append_assoc)
qed

lemma fan_in_takes_ok:
  assumes "fan_in_ok h f" and "fi_readers f1 = fi_readers f" and "set (fi_rx f1) \<subseteq> set (fi_rx f)"
    and "fi_buf f @ concat (fi_rx f) = (case out of None \<Rightarrow> [] | Some ms \<Rightarrow> ms) @ fi_buf f1 @ concat (fi_rx f1)" and "\<And>i. fan_given i [(a, out)] = []"
  shows "fan_in_ok (h @ [(a, out)]) f1"
proof -
  have "reader_left i f1 = reader_left i f" for i using assms(2) by (simp add: reader_left_def)
  moreover have "of_worker i (fi_buf f) @ of_worker i (concat (fi_rx f)) @ zs =
      of_worker i (case out of None \<Rightarrow> [] | Some ms \<Rightarrow> ms) @ of_worker i (fi_buf f1) @ of_worker i (concat (fi_rx f1)) @ zs" for i zs
    using arg_cong [OF assms(4), of "of_worker i"] by (simp flip: append_assoc)
  ultimately show ?thesis using assms(1-3,5) unfolding fan_in_ok_def by auto
qed

lemma fan_in_take_eq:
  assumes "fan_in_take f = Some (r, f1)" and "[] \<notin> set (fi_rx f)"
  shows "fi_readers f1 = fi_readers f \<and> set (fi_rx f1) \<subseteq> set (fi_rx f) \<and>
    (\<exists>m. r = Some m \<and> fi_buf f @ concat (fi_rx f) = m # fi_buf f1 @ concat (fi_rx f1))"
  using assms by (auto simp: fan_in_take_def split: list.splits)

lemma fan_in_act_ok:
  assumes "fan_in_ok h f" and "fan_in_act a f = Some (out, f1)" and "marked a"
  shows "fan_in_ok (h @ [(a, out)]) f1"
proof -
  have ne: "[] \<notin> set (fi_rx f)" using assms(1) by (simp add: fan_in_ok_def)
  have app: "fan_in_ok (h @ [(b, o1)]) f2"
    if "fi_readers f2 = fi_readers f" "set (fi_rx f2) \<subseteq> set (fi_rx f)"
      "fi_buf f @ concat (fi_rx f) = (case o1 of None \<Rightarrow> [] | Some ms \<Rightarrow> ms) @ fi_buf f2 @ concat (fi_rx f2)"
      "b = AppRecv \<or> b = AppTryRecv \<or> b = AppRecvBatch" for b o1 f2
    using that by (intro fan_in_takes_ok [OF assms(1)]) (auto simp: fan_given_def)
  show ?thesis
  proof (cases a)
    case (ReaderGets i batch)
    with assms reader_batch_ok [OF assms(1)] show ?thesis by (auto simp: fan_in_act_def)
  next
    case (ReaderPuts i)
    with assms reader_forward_ok [OF assms(1)] show ?thesis by (auto simp: fan_in_act_def)
  next
    case AppRecv
    with assms(2) fan_in_take_eq [OF _ ne] show ?thesis
      by (intro app) (auto simp: fan_in_act_def fan_in_recv_def split: option.splits if_splits)
  next
    case AppTryRecv
    with assms(2) fan_in_take_eq [OF _ ne] show ?thesis
      by (intro app) (auto simp: fan_in_act_def fan_in_try_recv_def split: option.splits if_splits)
  next
    case AppRecvBatch
    with assms(2) show ?thesis
      by (intro app) (auto simp: fan_in_act_def fan_in_recv_batch_def split: option.splits if_splits)
  qed
qed

lemma fan_in_trace_ok: "fan_in_trace (fan_in_new n) h f \<Longrightarrow> \<forall>x \<in> set h. marked (fst x) \<Longrightarrow> fan_in_ok h f"
proof (induction rule: fan_in_trace.induct)
  case fan_start
  then show ?case by (auto simp: fan_in_ok_def of_worker_def fan_got_def fan_given_def reader_left_def fan_in_new_def)
next
  case (fan_act h f a out f1)
  then show ?case using fan_in_act_ok [of h f a out f1] by simp
qed

text \<open>C24. A fan-in loses nothing. In every interleaving of its readers and the application, the messages the application has got from a
  worker are a prefix of those the worker's socket has returned, in the same order; and when a receive reports the end, they are all of
  them.\<close>

theorem fan_in_complete:
  assumes "fan_in_trace (fan_in_new n) h f" and "\<forall>x \<in> set h. marked (fst x)"
  shows "prefix (of_worker i (fan_got h)) (fan_given i h) \<and>
    (fan_in_recv f = Some (None, f1) \<longrightarrow> of_worker i (fan_got h) = fan_given i h)"
proof -
  have ok: "fan_in_ok h f" using fan_in_trace_ok [OF assms] .
  have "of_worker i (fan_got h) = fan_given i h" if r: "fan_in_recv f = Some (None, f1)"
  proof -
    have "[] \<notin> set (fi_rx f)" using ok by (simp add: fan_in_ok_def)
    with r have e: "fi_buf f = []" "fi_rx f = []" "all_finished f"
      by (auto simp: fan_in_recv_def fan_in_take_def split: option.splits list.splits if_splits)
    have "reader_left i f = []" using e(3) by (auto simp: all_finished_def list_all_length reader_left_def)
    with fan_in_okD(1) [OF ok, of i] e show ?thesis by (simp add: of_worker_def)
  qed
  moreover have "prefix (of_worker i (fan_got h)) (fan_given i h)" using fan_in_okD(1) [OF ok, of i] by (metis prefixI)
  ultimately show ?thesis by blast
qed

fun fan_in_run :: "'m fan_action list \<Rightarrow> 'm pull_fan_in \<Rightarrow> (('m fan_action \<times> 'm list option) list \<times> 'm pull_fan_in) option" where
  "fan_in_run [] f = Some ([], f)"
| "fan_in_run (a # as) f =
     (case fan_in_act a f of None \<Rightarrow> None | Some (out, f1) \<Rightarrow> map_option (apfst ((#) (a, out))) (fan_in_run as f1))"

lemma fan_in_run_trace: "fan_in_run as f = Some (h, f1) \<Longrightarrow> fan_in_trace f0 g f \<Longrightarrow> fan_in_trace f0 (g @ h) f1"
proof (induction as arbitrary: f g h)
  case (Cons a as)
  from Cons.prems(1) obtain out f2 h2 where f2: "fan_in_act a f = Some (out, f2)" "fan_in_run as f2 = Some (h2, f1)" "h = (a, out) # h2"
    by (auto split: option.splits)
  from Cons.IH [OF f2(2) fan_act [OF Cons.prems(2) f2(1)]] f2(3) show ?case by simp
qed simp

theorem fan_in_complete_witness:
  "\<exists>h f. fan_in_run [ReaderGets 0 (Some [(0, ''a''), (0, ''c'')]), ReaderGets 1 (Some [(1, ''b'')]), ReaderPuts 1, ReaderPuts 0, AppRecv,
      AppRecvBatch, ReaderGets 0 None, ReaderGets 1 None] (fan_in_new 2) = Some (h, f) \<and>
    fan_got h = [(1, ''b''), (0, ''a''), (0, ''c'')] \<and> fan_in_recv f = Some (None, f) \<and> (\<forall>i. of_worker i (fan_got h) = fan_given i h)"
proof -
  let ?as = "[ReaderGets 0 (Some [(0, ''a''), (0, ''c'')]), ReaderGets 1 (Some [(1, ''b'')]), ReaderPuts 1, ReaderPuts 0, AppRecv,
      AppRecvBatch, ReaderGets 0 None, ReaderGets 1 None]"
  obtain h f where r: "fan_in_run ?as (fan_in_new 2) = Some (h, f)" and e: "fan_in_recv f = Some (None, f)" "\<forall>x \<in> set h. marked (fst x)"
    "fan_got h = [(1, ''b''), (0, ''a''), (0, ''c'')]"
    by (simp add: fan_in_act_def reader_batch_def reader_forward_def fan_in_recv_def fan_in_take_def fan_in_recv_batch_def all_finished_def
        MAX_ITEM_MESSAGES_def CHANNEL_CAPACITY_def fan_in_new_def numeral_2_eq_2 fan_got_def)
  have "fan_in_trace (fan_in_new 2) h f" using fan_in_run_trace [OF r fan_start] by simp
  with fan_in_complete [OF _ e(2)] e(1) have "of_worker i (fan_got h) = fan_given i h" for i by blast
  with r e show ?thesis by blast
qed

end
