(* ===== verification/Stream_Socket.thy ===== *)
theory Stream_Socket
  imports Socket_Base "HOL-Library.AList"
begin

text \<open>
  The STREAM socket (\<open>monocoque-zmtp/src/stream.rs\<close>), which bridges plain TCP connections. Each accepted
  connection has a reader and a writer task that share channels with the socket. A task is modelled by the point
  where it waits; \<open>stream_act\<close> runs one operation of the socket, or one task from a point where it waits to the
  next, and a trace is any interleaving of them. What the sockets of the connections deliver and accept is part
  of the action. The theorems say what the application receives from a connection and what a connection is sent,
  in every interleaving.
\<close>

section \<open>The tasks of a connection\<close>

text \<open>\<open>peer_reader\<close>: sending the connection notification, waiting for the read, sending what was read, ended.\<close>

datatype peer_reader_phase = Announcing | Reading | Holding bytes | ReaderEnded

text \<open>\<open>peer_writer\<close>: waiting for the channel, writing, ended (its end of the channel is gone).\<close>

datatype writer_phase = Waiting | Writing bytes | WriterEnded

text \<open>\<open>sc_open\<close> is whether the \<open>PeerHandle\<close> is in the table; \<open>sc_wire\<close> is what the connection has been sent. The
  capacities of the channels are fixed when they are made.\<close>

record stream_conn =
  sc_open :: bool
  sc_capacity :: nat
  sc_reader :: peer_reader_phase
  sc_out :: "bytes list"
  sc_writer :: writer_phase
  sc_wire :: bytes

record stream_socket =
  ss_inbound :: "bytes list list"
  ss_capacity :: nat
  ss_conns :: "(bytes \<times> stream_conn) list"
  ss_next_id :: nat
  ss_options :: socket_options

definition stream_bind :: stream_socket where
  "stream_bind =
     \<lparr>ss_inbound = [], ss_capacity = opt_recv_hwm socket_options_default, ss_conns = [], ss_next_id = 1,
      ss_options = socket_options_default\<rparr>"

text \<open>A channel with a high water mark, where 0 is no limit.\<close>

definition has_room :: "nat \<Rightarrow> 'a list \<Rightarrow> bool" where
  "has_room hwm queue \<longleftrightarrow> hwm = 0 \<or> length queue < hwm"

definition conn_of :: "stream_socket \<Rightarrow> bytes \<Rightarrow> stream_conn option" where
  "conn_of s rid = map_of (ss_conns s) rid"

definition put_conn :: "bytes \<Rightarrow> stream_conn \<Rightarrow> stream_socket \<Rightarrow> stream_socket" where
  "put_conn rid c s = s\<lparr>ss_conns := AList.update rid c (ss_conns s)\<rparr>"

definition inbound_room :: "stream_socket \<Rightarrow> bool" where
  "inbound_room s \<longleftrightarrow> has_room (ss_capacity s) (ss_inbound s)"

definition push_inbound :: "bytes \<Rightarrow> bytes \<Rightarrow> stream_socket \<Rightarrow> stream_socket" where
  "push_inbound rid d s = s\<lparr>ss_inbound := ss_inbound s @ [[rid, [], d]]\<rparr>"

text \<open>The end of \<open>peer_reader\<close>: the disconnection is reported if the channel has room.\<close>

definition end_reader :: "bytes \<Rightarrow> stream_conn \<Rightarrow> stream_socket \<Rightarrow> stream_socket" where
  "end_reader rid c s =
     (let s1 = put_conn rid (c\<lparr>sc_reader := ReaderEnded\<rparr>) s
      in if inbound_room s then push_inbound rid [] s1 else s1)"

text \<open>
  The three ways in which the reader goes on: a send that waited for room in the channel, a read that completes, and
  the shutdown branch of \<open>select_biased!\<close>. It is first, so that a closed connection is not read.
\<close>

definition reader_sends :: "bytes \<Rightarrow> stream_conn \<Rightarrow> stream_socket \<Rightarrow> stream_socket option" where
  "reader_sends rid c s =
     (if \<not> inbound_room s then None
      else case sc_reader c of
        Announcing \<Rightarrow> Some (push_inbound rid [] (put_conn rid (c\<lparr>sc_reader := Reading\<rparr>) s))
      | Holding bs \<Rightarrow> Some (push_inbound rid bs (put_conn rid (c\<lparr>sc_reader := Reading\<rparr>) s))
      | _ \<Rightarrow> None)"

definition reader_reads :: "bytes \<Rightarrow> read_outcome \<Rightarrow> stream_conn \<Rightarrow> stream_socket \<Rightarrow> stream_socket option" where
  "reader_reads rid io c s =
     (if sc_reader c \<noteq> Reading \<or> \<not> sc_open c then None
      else case io of
        ReadBytes bs \<Rightarrow>
          if bs = [] then Some (end_reader rid c s) else Some (put_conn rid (c\<lparr>sc_reader := Holding bs\<rparr>) s)
      | ReadFails _ \<Rightarrow> Some (end_reader rid c s)
      | _ \<Rightarrow> None)"

definition reader_cancelled :: "bytes \<Rightarrow> stream_conn \<Rightarrow> stream_socket \<Rightarrow> stream_socket option" where
  "reader_cancelled rid c s = (if sc_reader c = Reading \<and> \<not> sc_open c then Some (end_reader rid c s) else None)"

text \<open>The writer goes on: it takes the next piece of the channel, or ends a write with its outcome.\<close>

definition writer_advance :: "write_outcome \<Rightarrow> stream_conn \<Rightarrow> stream_conn option" where
  "writer_advance io c =
     (case sc_writer c of
        Waiting \<Rightarrow>
          (case sc_out c of
             d # ds \<Rightarrow> Some (c\<lparr>sc_out := ds, sc_writer := Writing d\<rparr>)
           | [] \<Rightarrow> if sc_open c then None else Some (c\<lparr>sc_writer := WriterEnded\<rparr>))
      | Writing d \<Rightarrow>
          (case io of
             Written \<Rightarrow> Some (c\<lparr>sc_wire := sc_wire c @ d, sc_writer := Waiting\<rparr>)
           | WriteFails _ n \<Rightarrow> Some (c\<lparr>sc_wire := sc_wire c @ take n d, sc_out := [], sc_writer := WriterEnded\<rparr>)
           | _ \<Rightarrow> None)
      | WriterEnded \<Rightarrow> None)"

section \<open>The socket\<close>

definition routing_id :: "nat \<Rightarrow> bytes" where
  "routing_id n = be_bytes 8 n"

definition stream_conn_new :: "nat \<Rightarrow> stream_conn" where
  "stream_conn_new capacity =
     \<lparr>sc_open = True, sc_capacity = capacity, sc_reader = Announcing, sc_out = [], sc_writer = Waiting, sc_wire = []\<rparr>"

text \<open>Accepting a connection, which may fail; \<open>fetch_add\<close> wraps around.\<close>

definition accept_raw :: "io_error_kind option \<Rightarrow> stream_socket \<Rightarrow> bytes io_out \<times> stream_socket" where
  "accept_raw failure s =
     (case failure of
        Some k \<Rightarrow> (IoErr k, s)
      | None \<Rightarrow>
          let rid = routing_id (ss_next_id s)
          in (IoOk rid, (put_conn rid (stream_conn_new (opt_send_hwm (ss_options s))) s)\<lparr>ss_next_id := (ss_next_id s + 1) mod 2 ^ 64\<rparr>))"

definition stream_recv :: "stream_socket \<Rightarrow> (bytes list \<times> stream_socket) option" where
  "stream_recv s = (case ss_inbound s of [] \<Rightarrow> None | m # ms \<Rightarrow> Some (m, s\<lparr>ss_inbound := ms\<rparr>))"

definition close_peer :: "bytes \<Rightarrow> stream_socket \<Rightarrow> bool \<times> stream_socket" where
  "close_peer rid s =
     (case conn_of s rid of
        Some c \<Rightarrow> if sc_open c then (True, put_conn rid (c\<lparr>sc_open := False\<rparr>) s) else (False, s)
      | None \<Rightarrow> (False, s))"

definition stream_payload :: "bytes list \<Rightarrow> bytes" where
  "stream_payload msg = (case find (\<lambda>f. f \<noteq> []) (tl msg) of Some f \<Rightarrow> f | None \<Rightarrow> [])"

definition stream_send :: "bytes list \<Rightarrow> stream_socket \<Rightarrow> unit io_out \<times> stream_socket" where
  "stream_send msg s =
     (if msg = [] then (IoErr InvalidInput, s)
      else let rid = hd msg; data = stream_payload msg in
        if data = [] then (IoOk (), snd (close_peer rid s))
        else case conn_of s rid of
          None \<Rightarrow> (IoOk (), s)
        | Some c \<Rightarrow>
            if \<not> sc_open c then (IoOk (), s)
            else if sc_writer c = WriterEnded then (IoErr BrokenPipe, s)
            else if has_room (sc_capacity c) (sc_out c)
            then (IoOk (), put_conn rid (c\<lparr>sc_out := sc_out c @ [data]\<rparr>) s)
            else (IoErr WouldBlock, s))"

definition peer_count :: "stream_socket \<Rightarrow> nat" where
  "peer_count s = length (filter (\<lambda>(rid, c). sc_open c) (ss_conns s))"

section \<open>Interleavings\<close>

datatype stream_action =
    Accept "io_error_kind option"
  | Receive
  | Send "bytes list"
  | ClosePeer bytes
  | Configure socket_options
  | ReaderSends bytes
  | ReaderReads bytes read_outcome
  | ReaderCancelled bytes
  | WriterRuns bytes write_outcome

datatype stream_output = OutId "bytes io_out" | OutMessage "bytes list" | OutResult "unit io_out" | OutClosed bool | OutNone

definition conn_act :: "stream_socket \<Rightarrow> bytes \<Rightarrow> (stream_conn \<Rightarrow> stream_socket option) \<Rightarrow> (stream_output \<times> stream_socket) option" where
  "conn_act s rid f = (case conn_of s rid of None \<Rightarrow> None | Some c \<Rightarrow> map_option (Pair OutNone) (f c))"

definition stream_act :: "stream_action \<Rightarrow> stream_socket \<Rightarrow> (stream_output \<times> stream_socket) option" where
  "stream_act a s =
     (case a of
        Accept failure \<Rightarrow> Some (apfst OutId (accept_raw failure s))
      | Receive \<Rightarrow> map_option (apfst OutMessage) (stream_recv s)
      | Send msg \<Rightarrow> Some (apfst OutResult (stream_send msg s))
      | ClosePeer rid \<Rightarrow> Some (apfst OutClosed (close_peer rid s))
      | Configure opts \<Rightarrow> Some (OutNone, s\<lparr>ss_options := opts\<rparr>)
      | ReaderSends rid \<Rightarrow> conn_act s rid (\<lambda>c. reader_sends rid c s)
      | ReaderReads rid io \<Rightarrow> conn_act s rid (\<lambda>c. reader_reads rid io c s)
      | ReaderCancelled rid \<Rightarrow> conn_act s rid (\<lambda>c. reader_cancelled rid c s)
      | WriterRuns rid io \<Rightarrow> conn_act s rid (\<lambda>c. map_option (\<lambda>c1. put_conn rid c1 s) (writer_advance io c)))"

inductive stream_trace :: "stream_socket \<Rightarrow> (stream_action \<times> stream_output) list \<Rightarrow> stream_socket \<Rightarrow> bool" for s0 where
  trace_start: "stream_trace s0 [] s0"
| trace_act: "stream_trace s0 h s \<Longrightarrow> stream_act a s = Some (out, s1) \<Longrightarrow> stream_trace s0 (h @ [(a, out)]) s1"

section \<open>What a trace shows\<close>

text \<open>The data the application has received from a connection, what the connection's reader has read, and what the
  socket has accepted for it since the connection was made.\<close>

definition received_from :: "bytes \<Rightarrow> (stream_action \<times> stream_output) list \<Rightarrow> bytes list" where
  "received_from rid h = concat (map (\<lambda>(a, out). case out of OutMessage m \<Rightarrow> if m ! 0 = rid then [m ! 2] else [] | _ \<Rightarrow> []) h)"

definition read_by :: "bytes \<Rightarrow> (stream_action \<times> stream_output) list \<Rightarrow> bytes list" where
  "read_by rid h = concat (map (\<lambda>(a, out). case a of ReaderReads r (ReadBytes bs) \<Rightarrow> if r = rid \<and> bs \<noteq> [] then [bs] else [] | _ \<Rightarrow> []) h)"

fun sent_step :: "bytes \<Rightarrow> stream_action \<times> stream_output \<Rightarrow> bytes list \<Rightarrow> bytes list" where
  "sent_step rid (Accept _, OutId (IoOk r)) acc = (if r = rid then [] else acc)"
| "sent_step rid (Send msg, OutResult (IoOk _)) acc = (if hd msg = rid \<and> stream_payload msg \<noteq> [] then acc @ [stream_payload msg] else acc)"
| "sent_step rid _ acc = acc"

definition stream_sent_to :: "bytes \<Rightarrow> (stream_action \<times> stream_output) list \<Rightarrow> bytes list" where
  "stream_sent_to rid h = fold (sent_step rid) h []"

definition accepts :: "(stream_action \<times> stream_output) list \<Rightarrow> nat" where
  "accepts h = length (filter (\<lambda>(a, out). case out of OutId (IoOk r) \<Rightarrow> True | _ \<Rightarrow> False) h)"

lemma trace_logs_snoc [simp]:
  "received_from rid (h @ [x]) = received_from rid h @ received_from rid [x]"
  "read_by rid (h @ [x]) = read_by rid h @ read_by rid [x]"
  "stream_sent_to rid (h @ [x]) = sent_step rid x (stream_sent_to rid h)"
  "accepts (h @ [x]) = accepts h + accepts [x]"
  by (simp_all add: received_from_def read_by_def stream_sent_to_def accepts_def)

definition queued :: "bytes \<Rightarrow> stream_socket \<Rightarrow> bytes list" where
  "queued rid s = map (\<lambda>m. m ! 2) (filter (\<lambda>m. m ! 0 = rid) (ss_inbound s))"



fun underway :: "writer_phase \<Rightarrow> bytes" where
  "underway (Writing d) = d"
| "underway _ = []"

text \<open>What a connection has been sent, and will be, of the data accepted for it; data accepted after it was closed is lost.\<close>

definition outgoing :: "stream_conn \<Rightarrow> bytes list \<Rightarrow> bool" where
  "outgoing c sent \<longleftrightarrow>
     (if sc_writer c = WriterEnded then prefix (sc_wire c) (concat sent)
      else \<exists>late. sc_wire c @ underway (sc_writer c) @ concat (sc_out c) @ concat late = concat sent \<and> (sc_open c \<longrightarrow> late = []))"


lemma conn_of_simps [simp]:
  "conn_of (put_conn rid c s) = (conn_of s)(rid \<mapsto> c)"
  "conn_of (push_inbound rid d s) = conn_of s" "conn_of (s\<lparr>ss_inbound := q\<rparr>) = conn_of s"
  "conn_of (s\<lparr>ss_next_id := n\<rparr>) = conn_of s" "conn_of (s\<lparr>ss_options := opts\<rparr>) = conn_of s"
  by (auto simp: conn_of_def put_conn_def push_inbound_def update_conv)

lemma put_conn_fields [simp]:
  "ss_inbound (put_conn rid c s) = ss_inbound s" "ss_next_id (put_conn rid c s) = ss_next_id s" "ss_options (put_conn rid c s) = ss_options s"
  "ss_next_id (push_inbound rid d s) = ss_next_id s" "ss_inbound (push_inbound rid d s) = ss_inbound s @ [[rid, [], d]]"
  by (simp_all add: put_conn_def push_inbound_def)



lemma log_simps [simp]:
  "received_from r [(a, OutNone)] = []" "received_from r [(a, OutResult x)] = []" "received_from r [(a, OutClosed y)] = []"
  "received_from r [(a, OutId z)] = []" "received_from r [(a, OutMessage m)] = (if m ! 0 = r then [m ! 2] else [])"
  "accepts [(a, OutNone)] = 0" "accepts [(a, OutResult x)] = 0" "accepts [(a, OutClosed y)] = 0" "accepts [(a, OutMessage m)] = 0"
  "accepts [(a, OutId (IoOk i))] = 1" "accepts [(a, OutId (IoErr k))] = 0"
  by (simp_all add: received_from_def accepts_def)

lemma outgoing_reader [simp]: "outgoing (c\<lparr>sc_reader := p\<rparr>) sent = outgoing c sent"
  by (simp add: outgoing_def)








section \<open>The operations of the socket\<close>

lemma close_peer_eq:
  "(\<exists>c. conn_of s rid = Some c \<and> snd (close_peer rid s) = put_conn rid (c\<lparr>sc_open := False\<rparr>) s) \<or> snd (close_peer rid s) = s"
  by (auto simp: close_peer_def split: option.split)






lemma routing_id_inject: "m < 2 ^ 64 \<Longrightarrow> n < 2 ^ 64 \<Longrightarrow> routing_id m = routing_id n \<longleftrightarrow> m = n"
  by (simp add: routing_id_def be_bytes_inject)






fun stream_run :: "stream_action list \<Rightarrow> stream_socket \<Rightarrow> ((stream_action \<times> stream_output) list \<times> stream_socket) option" where
  "stream_run [] s = Some ([], s)"
| "stream_run (a # as) s =
     (case stream_act a s of None \<Rightarrow> None | Some (out, s1) \<Rightarrow> map_option (apfst ((#) (a, out))) (stream_run as s1))"

lemma stream_run_trace: "stream_run as s = Some (h, s1) \<Longrightarrow> stream_trace s0 g s \<Longrightarrow> stream_trace s0 (g @ h) s1"
proof (induction as arbitrary: s g h)
  case (Cons a as)
  from Cons.prems(1) obtain out s2 h2 where s2: "stream_act a s = Some (out, s2)" "stream_run as s2 = Some (h2, s1)" "h = (a, out) # h2"
    by (auto split: option.splits)
  from Cons.IH [OF s2(2) trace_act [OF Cons.prems(2) s2(1)]] s2(3) show ?case by simp
qed simp


text \<open>Only the first data frame of a STREAM message is sent: the frames after the routing id are documented to be written
  one after the other, and the ones behind the first that is not empty are dropped, with success.\<close>

theorem stream_send_truncates:
  assumes "conn_of s rid = Some c" and "sc_open c" and "sc_writer c \<noteq> WriterEnded" and "has_room (sc_capacity c) (sc_out c)" and "d \<noteq> []"
  shows "\<exists>s1. stream_send (rid # [] # d # more_frames) s = (IoOk (), s1) \<and> conn_of s1 rid = Some (c\<lparr>sc_out := sc_out c @ [d]\<rparr>)"
  using assms by (simp add: stream_send_def stream_payload_def)

theorem stream_send_truncates_witness:
  "let s = snd (accept_raw None stream_bind)
   in \<exists>s1. stream_send (routing_id 1 # [] # [8] # [[9]]) s = (IoOk (), s1) \<and> conn_of s1 (routing_id 1) = Some ((stream_conn_new 1000)\<lparr>sc_out := [] @ [[8]]\<rparr>)"
  using stream_send_truncates [of "snd (accept_raw None stream_bind)" "routing_id 1" "stream_conn_new 1000" "[8]" "[[9]]"]
  by (simp add: accept_raw_def stream_bind_def conn_of_def put_conn_def stream_conn_new_def socket_options_default_def has_room_def Let_def)

fun closes :: "bytes \<Rightarrow> stream_action \<Rightarrow> bool" where
  "closes rid (ClosePeer r) = (r = rid)"
| "closes rid (Send msg) = (msg \<noteq> [] \<and> hd msg = rid \<and> stream_payload msg = [])"
| "closes rid _ = False"

definition deaf :: "bytes \<Rightarrow> stream_socket \<Rightarrow> bool" where
  "deaf rid s \<longleftrightarrow> (\<exists>c. conn_of s rid = Some c \<and> sc_reader c = ReaderEnded \<and> sc_open c) \<and> queued rid s = []"

lemma queued_simps [simp]:
  "queued rid (put_conn r c s) = queued rid s" "queued rid (s\<lparr>ss_next_id := n\<rparr>) = queued rid s" "queued rid (s\<lparr>ss_options := opts\<rparr>) = queued rid s"
  "queued rid (push_inbound r d s) = queued rid s @ (if r = rid then [d] else [])"
  by (simp_all add: queued_def put_conn_def push_inbound_def)

lemma deaf_other:
  "deaf rid s \<Longrightarrow> r \<noteq> rid \<Longrightarrow> deaf rid (put_conn r c s)" "deaf rid s \<Longrightarrow> r \<noteq> rid \<Longrightarrow> deaf rid (push_inbound r d s)"
  "deaf rid s \<Longrightarrow> r \<noteq> rid \<Longrightarrow> deaf rid (end_reader r c s)"
  "deaf rid s \<Longrightarrow> deaf rid (s\<lparr>ss_next_id := n\<rparr>)" "deaf rid s \<Longrightarrow> deaf rid (s\<lparr>ss_options := opts\<rparr>)"
  by (auto simp: deaf_def end_reader_def Let_def)

lemma deaf_same:
  "deaf rid s \<Longrightarrow> conn_of s rid = Some c \<Longrightarrow> sc_reader c' = sc_reader c \<Longrightarrow> sc_open c' = sc_open c \<Longrightarrow> deaf rid (put_conn rid c' s)"
  by (auto simp: deaf_def)

lemma deaf_tasks:
  assumes "deaf rid s" and "conn_of s r = Some c"
  shows "reader_sends r c s = Some s1 \<Longrightarrow> deaf rid s1" "reader_reads r rio c s = Some s1 \<Longrightarrow> deaf rid s1"
    "reader_cancelled r c s = Some s1 \<Longrightarrow> deaf rid s1" "writer_advance wio c = Some c1 \<Longrightarrow> deaf rid (put_conn r c1 s)"
proof -
  have e: "r = rid \<Longrightarrow> sc_reader c = ReaderEnded" using assms by (auto simp: deaf_def)
  show "reader_sends r c s = Some s1 \<Longrightarrow> deaf rid s1"
    using assms(1) e by (auto simp: reader_sends_def intro!: deaf_other split: if_splits peer_reader_phase.splits)
  show "reader_reads r rio c s = Some s1 \<Longrightarrow> deaf rid s1"
    using assms(1) e by (auto simp: reader_reads_def intro!: deaf_other split: if_splits read_outcome.splits)
  show "reader_cancelled r c s = Some s1 \<Longrightarrow> deaf rid s1"
    using assms(1) e by (auto simp: reader_cancelled_def intro!: deaf_other split: if_splits)
  assume w: "writer_advance wio c = Some c1"
  then have "sc_reader c1 = sc_reader c" "sc_open c1 = sc_open c"
    by (auto simp: writer_advance_def split: writer_phase.splits list.splits if_splits write_outcome.splits)
  with assms show "deaf rid (put_conn r c1 s)" by (cases "r = rid") (auto intro: deaf_other deaf_same)
qed

lemma deaf_close: "deaf rid s \<Longrightarrow> r \<noteq> rid \<Longrightarrow> deaf rid (snd (close_peer r s))"
  using close_peer_eq [of s r] by (auto intro: deaf_other)

lemma deaf_send:
  assumes "deaf rid s" and "\<not> closes rid (Send msg)" and "stream_send msg s = (r, s1)"
  shows "deaf rid s1"
proof (cases "msg = [] \<or> stream_payload msg = []")
  case True
  with assms show ?thesis using deaf_close [OF assms(1), of "hd msg"] by (cases "msg = []") (auto simp: stream_send_def Let_def)
next
  case False
  then have "s1 = s \<or> (\<exists>c. conn_of s (hd msg) = Some c \<and> s1 = put_conn (hd msg) (c\<lparr>sc_out := sc_out c @ [stream_payload msg]\<rparr>) s)"
    using assms(3) by (auto simp: stream_send_def Let_def split: option.splits if_splits)
  with assms(1) show ?thesis by (cases "hd msg = rid") (auto intro: deaf_other deaf_same)
qed

lemma deaf_act:
  assumes "deaf rid s" and "stream_act a s = Some (out, s1)" and "out \<noteq> OutId (IoOk rid)" and "\<not> closes rid a"
  shows "deaf rid s1 \<and> received_from rid [(a, out)] = []"
proof (cases a)
  case (Accept failure)
  with assms show ?thesis by (auto simp: stream_act_def accept_raw_def Let_def intro!: deaf_other split: option.splits)
next
  case Receive
  with assms obtain m ms where "ss_inbound s = m # ms" "s1 = s\<lparr>ss_inbound := ms\<rparr>" "out = OutMessage m"
    by (auto simp: stream_act_def stream_recv_def split: list.splits)
  with assms(1) show ?thesis by (auto simp: deaf_def queued_def split: if_splits)
next
  case (Send msg)
  with assms deaf_send [OF assms(1), of msg] show ?thesis by (cases "stream_send msg s") (auto simp: stream_act_def)
next
  case (ClosePeer r)
  with assms deaf_close [OF assms(1), of r] show ?thesis by (cases "close_peer r s") (auto simp: stream_act_def)
next
  case (Configure opts)
  with assms show ?thesis by (auto simp: stream_act_def deaf_other)
qed (use assms in \<open>auto simp: stream_act_def conn_act_def split: option.splits intro: deaf_tasks\<close>)

text \<open>The end of a connection can go unnoticed. When the remote end closes a connection while the channel to the application is
  full, the notification is dropped: whatever the application does afterwards, it never receives a message of this connection again,
  and the connection stays in the table until the application closes it.\<close>

theorem stream_end_unnoticed:
  assumes "conn_of s rid = Some c" and "sc_reader c = Reading" and "sc_open c" and "\<not> inbound_room s" and "queued rid s = []"
    and "stream_act (ReaderReads rid (ReadBytes [])) s = Some (out, s1)" and "stream_trace s1 h s2"
    and "\<forall>x \<in> set h. snd x \<noteq> OutId (IoOk rid) \<and> \<not> closes rid (fst x)"
  shows "received_from rid h = [] \<and> (\<exists>c2. conn_of s2 rid = Some c2 \<and> sc_open c2)"
proof -
  have "deaf rid s1"
    using assms(1-6) by (auto simp: stream_act_def conn_act_def reader_reads_def end_reader_def deaf_def Let_def)
  with assms(7,8) have "received_from rid h = [] \<and> deaf rid s2"
  proof (induction rule: stream_trace.induct)
    case (trace_act h s a out s')
    then show ?case using deaf_act [of rid s a out s'] by simp
  qed (simp add: received_from_def)
  then show ?thesis by (auto simp: deaf_def)
qed

definition demo_stream :: stream_socket where
  "demo_stream =
     \<lparr>ss_inbound = [[routing_id 2, [], [7]]], ss_capacity = 1,
      ss_conns = [(routing_id 1, (stream_conn_new 0)\<lparr>sc_reader := Reading\<rparr>), (routing_id 2, (stream_conn_new 0)\<lparr>sc_reader := Reading\<rparr>)],
      ss_next_id = 3, ss_options = socket_options_default\<rparr>"

theorem stream_end_unnoticed_witness:
  "\<exists>out s1 h s2. stream_act (ReaderReads (routing_id 1) (ReadBytes [])) demo_stream = Some (out, s1) \<and>
     stream_run [Receive, Send [routing_id 1, [], [9]]] s1 = Some (h, s2) \<and>
     received_from (routing_id 1) h = [] \<and> (\<exists>c2. conn_of s2 (routing_id 1) = Some c2 \<and> sc_open c2)"
proof -
  have ne: "routing_id 2 \<noteq> routing_id 1" by (simp add: routing_id_inject)
  obtain s1 where s1: "stream_act (ReaderReads (routing_id 1) (ReadBytes [])) demo_stream = Some (OutNone, s1)"
    and f: "s1 = put_conn (routing_id 1) ((stream_conn_new 0)\<lparr>sc_reader := ReaderEnded\<rparr>) demo_stream"
    by (simp add: demo_stream_def stream_act_def conn_act_def conn_of_def reader_reads_def end_reader_def inbound_room_def has_room_def
        stream_conn_new_def Let_def)
  obtain h s2 where h: "stream_run [Receive, Send [routing_id 1, [], [9]]] s1 = Some (h, s2)"
    "\<forall>x \<in> set h. snd x \<noteq> OutId (IoOk (routing_id 1)) \<and> \<not> closes (routing_id 1) (fst x)"
    unfolding f by (simp add: demo_stream_def stream_act_def stream_recv_def put_conn_def stream_payload_def stream_send_def conn_of_def
        stream_conn_new_def has_room_def Let_def)
  have "stream_trace s1 h s2" using stream_run_trace [OF h(1) trace_start] by simp
  moreover have "conn_of demo_stream (routing_id 1) = Some ((stream_conn_new 0)\<lparr>sc_reader := Reading\<rparr>)" "\<not> inbound_room demo_stream"
    "queued (routing_id 1) demo_stream = []"
    using ne by (simp_all add: demo_stream_def conn_of_def inbound_room_def has_room_def queued_def)
  ultimately have "received_from (routing_id 1) h = [] \<and> (\<exists>c2. conn_of s2 (routing_id 1) = Some c2 \<and> sc_open c2)"
    using stream_end_unnoticed [OF _ _ _ _ _ s1 _ h(2)] by (simp add: stream_conn_new_def)
  with s1 h(1) show ?thesis by blast
qed

end
