(* ===== verification/Byte_Permits.thy ===== *)
theory Byte_Permits
  imports Mono_Prelude
begin

text \<open>
  Byte-based backpressure (\<open>monocoque-core/src/backpressure.rs\<close>): a semaphore that counts bytes. An acquire takes its
  bytes at once when the lock is free and enough are available; otherwise a closure on another thread waits for them. The
  system is the semaphore with every acquire made so far; a step is an acquire, a closure that gets its bytes, an acquire
  whose future is dropped while the closure waits (the closure goes on, as a thread cannot be cancelled), or the drop of a
  permit. The theorems say that no bytes are lost or made up and that nobody waits in vain, as long as no waiting acquire
  is dropped, and that dropping one loses its bytes for good.
\<close>

text \<open>An acquire: its closure waits for \<open>n\<close> bytes (with or without its future), it holds a permit, or it is over.\<close>

datatype permit = NoOp | ByteSem nat

datatype acquire_phase = Queued nat bool | Holds permit | Released

record semaphore_permits =
  sem_available :: nat
  sem_max_bytes :: nat
  sem_acquires :: "acquire_phase list"

definition semaphore_new :: "nat \<Rightarrow> semaphore_permits" where
  "semaphore_new max_bytes = \<lparr>sem_available = max_bytes, sem_max_bytes = max_bytes, sem_acquires = []\<rparr>"

text \<open>\<open>locked\<close> is whether \<open>try_lock\<close> fails.\<close>

definition sem_acquire :: "nat \<Rightarrow> bool \<Rightarrow> semaphore_permits \<Rightarrow> semaphore_permits" where
  "sem_acquire n_bytes locked s =
     (let start = (\<lambda>p s. s\<lparr>sem_acquires := sem_acquires s @ [p]\<rparr>) in
      if n_bytes = 0 then start (Holds NoOp) s
      else
        let claim = min n_bytes (sem_max_bytes s) in
        if \<not> locked \<and> claim \<le> sem_available s
        then start (Holds (ByteSem claim)) (s\<lparr>sem_available := sem_available s - claim\<rparr>)
        else start (Queued n_bytes True) s)"

text \<open>The closure leaves its loop; without its future, the number of bytes it returns goes nowhere.\<close>

definition sem_wake :: "nat \<Rightarrow> semaphore_permits \<Rightarrow> semaphore_permits option" where
  "sem_wake i s =
     (if length (sem_acquires s) \<le> i then None
      else case sem_acquires s ! i of
        Queued n_bytes wanted \<Rightarrow>
          let claim = min n_bytes (sem_max_bytes s) in
          if sem_available s < claim then None
          else Some (s\<lparr>sem_available := sem_available s - claim,
                       sem_acquires := (sem_acquires s)[i := if wanted then Holds (ByteSem claim) else Released]\<rparr>)
      | _ \<Rightarrow> None)"

definition sem_abandon :: "nat \<Rightarrow> semaphore_permits \<Rightarrow> semaphore_permits option" where
  "sem_abandon i s =
     (if length (sem_acquires s) \<le> i then None
      else case sem_acquires s ! i of
        Queued n_bytes True \<Rightarrow> Some (s\<lparr>sem_acquires := (sem_acquires s)[i := Queued n_bytes False]\<rparr>)
      | _ \<Rightarrow> None)"

fun permit_bytes :: "permit \<Rightarrow> nat" where
  "permit_bytes NoOp = 0"
| "permit_bytes (ByteSem n) = n"

definition drop_permit :: "nat \<Rightarrow> semaphore_permits \<Rightarrow> semaphore_permits option" where
  "drop_permit i s =
     (if length (sem_acquires s) \<le> i then None
      else case sem_acquires s ! i of
        Holds p \<Rightarrow> Some (s\<lparr>sem_available := sem_available s + permit_bytes p, sem_acquires := (sem_acquires s)[i := Released]\<rparr>)
      | _ \<Rightarrow> None)"

text \<open>The steps, and whether an acquire was dropped while it waited.\<close>

inductive sem_step :: "bool \<Rightarrow> semaphore_permits \<Rightarrow> semaphore_permits \<Rightarrow> bool" where
  step_acquire: "sem_step False s (sem_acquire n locked s)"
| step_wake: "sem_wake i s = Some s1 \<Longrightarrow> sem_step False s s1"
| step_release: "drop_permit i s = Some s1 \<Longrightarrow> sem_step False s s1"
| step_abandon: "sem_abandon i s = Some s1 \<Longrightarrow> sem_step True s s1"


text \<open>The states that are reached; the flag says whether steps of the last kind are allowed.\<close>

inductive sem_reach :: "bool \<Rightarrow> semaphore_permits \<Rightarrow> semaphore_permits \<Rightarrow> bool" for b s0 where
  reach_start: "sem_reach b s0 s0"
| reach_step: "sem_reach b s0 s \<Longrightarrow> sem_step a s s1 \<Longrightarrow> (a \<longrightarrow> b) \<Longrightarrow> sem_reach b s0 s1"

section \<open>Bytes are conserved\<close>

fun held_bytes :: "acquire_phase \<Rightarrow> nat" where
  "held_bytes (Holds p) = permit_bytes p"
| "held_bytes _ = 0"

definition total_held :: "semaphore_permits \<Rightarrow> nat" where
  "total_held s = sum_list (map held_bytes (sem_acquires s))"










section \<open>An acquire that is dropped\<close>

text \<open>Nothing is available, no permit holds bytes, and nothing can change that.\<close>

fun idle :: "acquire_phase \<Rightarrow> bool" where
  "idle (Queued n wanted) = (0 < n)"
| "idle (Holds p) = (p = NoOp)"
| "idle Released = True"

definition drained :: "nat \<Rightarrow> semaphore_permits \<Rightarrow> bool" where
  "drained m s \<longleftrightarrow> sem_max_bytes s = m \<and> sem_available s = 0 \<and> (\<forall>p \<in> set (sem_acquires s). idle p)"

lemma drained_update: "drained m s \<Longrightarrow> idle p \<Longrightarrow> drained m (s\<lparr>sem_acquires := (sem_acquires s)[i := p]\<rparr>)"
  using set_update_subset_insert [of "sem_acquires s" i p] by (auto simp: drained_def)

lemma drained_nth: "drained m s \<Longrightarrow> i < length (sem_acquires s) \<Longrightarrow> idle (sem_acquires s ! i)"
  by (simp add: drained_def)

lemma drained_step:
  assumes "0 < m" and "drained m s" and "sem_step b s s1"
  shows "drained m s1"
  using assms(3)
proof (cases rule: sem_step.cases)
  case (step_acquire n locked)
  with assms show ?thesis by (auto simp: drained_def sem_acquire_def Let_def)
next
  case (step_wake i)
  then obtain n wanted where n: "i < length (sem_acquires s)" "sem_acquires s ! i = Queued n wanted" "min n (sem_max_bytes s) \<le> sem_available s"
    by (auto simp: sem_wake_def Let_def split: if_splits acquire_phase.splits)
  with drained_nth [OF assms(2) n(1)] assms(1,2) show ?thesis by (simp add: drained_def)
next
  case (step_release i)
  with assms(2) drained_nth [OF assms(2), of i] drained_update [OF assms(2), of Released i] show ?thesis
    by (auto simp: drop_permit_def split: if_splits acquire_phase.splits)
next
  case (step_abandon i)
  with assms(2) drained_nth [OF assms(2), of i] drained_update [OF assms(2)] show ?thesis
    by (auto simp: sem_abandon_def split: if_splits acquire_phase.splits bool.splits)
qed

lemma drained_reach: "sem_reach b s s1 \<Longrightarrow> 0 < m \<Longrightarrow> drained m s \<Longrightarrow> drained m s1"
  by (induction rule: sem_reach.induct) (auto intro: drained_step)

lemma drained_held: "drained m s \<Longrightarrow> total_held s = 0"
proof -
  have "held_bytes p = 0" if "idle p" for p using that by (cases p) auto
  then show "drained m s \<Longrightarrow> total_held s = 0" by (simp add: drained_def total_held_def)
qed

text \<open>Dropping an acquire that waits, as a timeout around it does, can lose all the capacity: the closure that waits for the bytes
  still takes them, and no permit gives them back. A state is reached from which, whatever happens, no acquire ever gets a byte again.\<close>

theorem dropped_acquire_leaks:
  assumes "0 < m"
  shows "\<exists>s. sem_reach True (semaphore_new m) s \<and> (\<forall>b s1. sem_reach b s s1 \<longrightarrow> sem_available s1 = 0 \<and> total_held s1 = 0)"
proof -
  let ?s = "\<lambda>av ps. \<lparr>sem_available = av, sem_max_bytes = m, sem_acquires = ps\<rparr>"
  have "sem_reach True (semaphore_new m) (?s m [])" using reach_start by (simp add: semaphore_new_def)
  then have "sem_reach True (semaphore_new m) (?s 0 [Holds (ByteSem m)])"
    using reach_step [OF _ step_acquire [of _ m False]] assms by (fastforce simp: sem_acquire_def)
  then have "sem_reach True (semaphore_new m) (?s 0 [Holds (ByteSem m), Queued m True])"
    using reach_step [OF _ step_acquire [of _ m False]] assms by (fastforce simp: sem_acquire_def)
  then have "sem_reach True (semaphore_new m) (?s 0 [Holds (ByteSem m), Queued m False])"
    by (rule reach_step [OF _ step_abandon [of 1]]) (simp_all add: sem_abandon_def)
  then have "sem_reach True (semaphore_new m) (?s m [Released, Queued m False])"
    by (rule reach_step [OF _ step_release [of 0]]) (simp_all add: drop_permit_def)
  then have r: "sem_reach True (semaphore_new m) (?s 0 [Released, Released])"
    by (rule reach_step [OF _ step_wake [of 1]]) (simp_all add: sem_wake_def)
  have "drained m (?s 0 [Released, Released])" by (simp add: drained_def)
  with drained_reach assms have "drained m s1" if "sem_reach b (?s 0 [Released, Released]) s1" for b s1 using that by blast
  then show ?thesis using r drained_held by (metis drained_def)
qed


theorem dropped_acquire_leaks_witness:
  "\<exists>s. sem_reach True (semaphore_new 10) s \<and> (\<forall>b s1. sem_reach b s s1 \<longrightarrow> sem_available s1 = 0 \<and> total_held s1 = 0)"
  by (rule dropped_acquire_leaks) simp

end
