(* ===== verification/Command_Protocol.thy ===== *)
theory Command_Protocol
  imports Zmtp_Handshake
begin

text \<open>
  The helpers for command frames of \<open>monocoque-zmtp/src/security/protocol.rs\<close>: reading an expected prefix, and a second
  parser of READY commands beside the one of \<open>handshake.rs\<close>. The two parsers are shown to agree on every body.
\<close>

definition read_command_prefix :: "bytes \<Rightarrow> duration option \<Rightarrow> unit hs" where
  "read_command_prefix expected timeout =
     hs_bind (hs_read (length expected) timeout) (\<lambda>header.
     if header \<noteq> expected then hs_error Protocol else hs_return ())"

definition proto_socket_type :: "bytes \<Rightarrow> zmtp_error + socket_type" where
  "proto_socket_type bs =
     (case utf8_decode bs of
        None \<Rightarrow> Inl Protocol
      | Some v \<Rightarrow>
          if v = lit ''PAIR'' then Inr StPair
          else if v = lit ''DEALER'' then Inr StDealer
          else if v = lit ''ROUTER'' then Inr StRouter
          else if v = lit ''PUB'' then Inr StPub
          else if v = lit ''SUB'' then Inr StSub
          else if v = lit ''REQ'' then Inr StReq
          else if v = lit ''REP'' then Inr StRep
          else if v = lit ''PUSH'' then Inr StPush
          else if v = lit ''PULL'' then Inr StPull
          else if v = lit ''XPUB'' then Inr StXpub
          else if v = lit ''XSUB'' then Inr StXsub
          else Inl Protocol)"

text \<open>The value of one property, by its key.\<close>

definition proto_match ::
  "bytes \<Rightarrow> bytes \<Rightarrow> nat \<Rightarrow> nat \<Rightarrow> ready_acc \<Rightarrow> (zmtp_error + ready_acc) option" where
  "proto_match body key value_start value_len acc =
     (case acc of (st, ident) \<Rightarrow>
      if key = blit ''Socket-Type'' then
        (if st \<noteq> None then Some (Inl Protocol)
         else do {
           v \<leftarrow> slice body value_start (value_start + value_len);
           Some (case proto_socket_type v of Inl e \<Rightarrow> Inl e | Inr t \<Rightarrow> Inr (Some t, ident)) })
      else if key = blit ''Identity'' then
        (if ident \<noteq> None then Some (Inl Protocol)
         else if 255 < value_len then Some (Inl Protocol)
         else do { v \<leftarrow> slice body value_start (value_start + value_len); Some (Inr (st, Some v)) })
      else Some (Inr (st, ident)))"

text \<open>The loop over the properties; \<open>None\<close> is an index out of range.\<close>

function proto_loop :: "bytes \<Rightarrow> nat \<Rightarrow> ready_acc \<Rightarrow> (zmtp_error + ready_acc) option" where
  "proto_loop body offset acc =
     (if offset < length body then do {
        kb \<leftarrow> idx body offset;
        let key_len = unat kb; off1 = offset + 1 in
        if length body < off1 + key_len then Some (Inl Protocol)
        else do {
          key \<leftarrow> slice body off1 (off1 + key_len);
          let off2 = off1 + key_len in
          if length body < off2 + 4 then Some (Inl Protocol)
          else do {
            b0 \<leftarrow> idx body off2; b1 \<leftarrow> idx body (off2 + 1); b2 \<leftarrow> idx body (off2 + 2); b3 \<leftarrow> idx body (off2 + 3);
            let value_len = be_val [b0, b1, b2, b3]; off3 = off2 + 4 in
            if length body < off3 + value_len then Some (Inl Protocol)
            else do {
              m \<leftarrow> proto_match body key off3 value_len acc;
              case m of Inl e \<Rightarrow> Some (Inl e) | Inr acc' \<Rightarrow> proto_loop body (off3 + value_len) acc' }}}}
      else Some (Inr acc))"
  by pat_completeness auto
termination
  by (relation "measure (\<lambda>(body, offset, _). length body - offset)") auto

declare proto_loop.simps [simp del]

definition proto_parse_ready :: "bytes \<Rightarrow> (zmtp_error + socket_type \<times> bytes option) option" where
  "proto_parse_ready body =
     (if length body < 6 then Some (Inl Protocol)
      else do {
        nl \<leftarrow> idx body 0;
        name \<leftarrow> slice body 1 6;
        if unat nl \<noteq> 5 \<or> name \<noteq> blit ''READY'' then Some (Inl Protocol)
        else do {
          r \<leftarrow> proto_loop body 6 (None, None);
          Some (case r of
                  Inl e \<Rightarrow> Inl e
                | Inr (None, _) \<Rightarrow> Inl Protocol
                | Inr (Some t, ident) \<Rightarrow> Inr (t, ident)) }})"

section \<open>The parsers agree\<close>

lemma utf8_head_ascii:
  assumes "utf8_head bs = Some (c, k)" and "c < 0x80"
  shows "\<exists>r. bs = word_of_nat c # r \<and> k = 1"
proof (cases bs)
  case (Cons b r)
  have "unat b < 0x80"
  proof (rule ccontr)
    assume "\<not> unat b < 0x80"
    with assms(1) Cons have "0x80 \<le> c" by (auto simp: utf8_head_def Let_def split: if_splits)
    with assms(2) show False by simp
  qed
  with assms(1) Cons show ?thesis by (auto simp: utf8_head_def)
qed (use assms in \<open>simp add: utf8_head_def\<close>)

lemma utf8_decode_ascii_inverse: "utf8_decode bs = Some s \<Longrightarrow> \<forall>c \<in> set s. c < 0x80 \<Longrightarrow> bs = map word_of_nat s"
proof (induction s arbitrary: bs)
  case Nil
  then show ?case by (auto simp: utf8_decode.simps [of bs] split: if_splits option.splits)
next
  case (Cons c s)
  from Cons.prems(1) obtain k where k: "utf8_head bs = Some (c, k)" "utf8_decode (drop k bs) = Some s"
    by (auto simp: utf8_decode.simps [of bs] split: if_splits option.splits)
  then obtain r where "bs = word_of_nat c # r" "k = 1" using utf8_head_ascii Cons.prems(2) by force
  with Cons.IH [OF k(2)] Cons.prems(2) show ?case by simp
qed

lemma utf8_decode_literal: "\<forall>c \<in> set s. c < 0x80 \<Longrightarrow> utf8_decode bs = Some s \<longleftrightarrow> bs = map word_of_nat s"
  using utf8_decode_ascii_inverse [of bs s] utf8_decode_encode [of s] utf8_encode_ascii [of s]
  by (force simp: list_all_iff scalar_value_def)

lemma proto_socket_type_eq: "proto_socket_type bs = parse_socket_type bs"
proof (cases "utf8_decode bs")
  case None
  have "parse_socket_type bs = Inl Protocol"
  proof (rule ccontr)
    assume "parse_socket_type bs \<noteq> Inl Protocol"
    then have "\<forall>b \<in> set bs. unat b < 0x80" by (auto simp: parse_socket_type_def split: if_splits)
    from utf8_decode_ascii [OF this] None show False by simp
  qed
  with None show ?thesis by (simp add: proto_socket_type_def)
next
  case (Some v)
  have l: "v = s \<longleftrightarrow> bs = map word_of_nat s" if "\<forall>c \<in> set s. c < 0x80" for s
    using utf8_decode_literal [OF that, of bs] Some by simp
  show ?thesis unfolding proto_socket_type_def Some option.case parse_socket_type_def by (simp add: l)
qed

lemma proto_match_eq: "proto_match body key v0 n acc = ready_match body key v0 (v0 + n) acc"
  by (simp add: proto_match_def ready_match_def proto_socket_type_eq split: prod.split)

lemma proto_loop_step:
  "proto_loop body off acc =
     (if off < length body then do {
        p \<leftarrow> ready_property body off;
        case p of
          Inl e \<Rightarrow> Some (Inl e)
        | Inr (key, v0, v1, off') \<Rightarrow> do {
            m \<leftarrow> ready_match body key v0 v1 acc;
            case m of Inl e \<Rightarrow> Some (Inl e) | Inr acc' \<Rightarrow> proto_loop body off' acc' }}
      else Some (Inr acc))"
  by (subst proto_loop.simps) (auto simp: ready_property_def Let_def proto_match_eq split: bind_split)

lemma proto_loop_eq: "proto_loop body off acc = ready_loop body off acc"
proof (induction body off acc rule: ready_loop.induct)
  case (1 body off acc)
  show ?case unfolding proto_loop_step [of body off acc] ready_loop.simps [of body off acc]
    by (auto simp: "1.IH" split: bind_split sum.split prod.split)
qed

text \<open>C33. The two parsers of READY commands agree: the one of the security module and the one of the handshake give the same result,
  the same error included, for every body, and neither of them ever panics.\<close>

theorem ready_parsers_agree: "proto_parse_ready body = parse_ready_command body \<and> proto_parse_ready body \<noteq> None"
proof -
  have "proto_parse_ready body = parse_ready_command body"
    unfolding proto_parse_ready_def parse_ready_command_def proto_loop_eq by (rule refl)
  then show ?thesis using parse_ready_not_None by simp
qed

end
