(* ===== verification/Core_Types.thy ===== *)
theory Core_Types
  imports Curve_Handshake
begin

text \<open>
  Small types of \<open>monocoque-core\<close>: the socket types and their compatibility (\<open>socket_type.rs\<close>), the error type with its
  classification and context (\<open>error.rs\<close>), and the message builder (\<open>message_builder.rs\<close>).
\<close>

section \<open>Socket types\<close>

datatype core_socket_type =
  CPair | CPub | CSub | CReq | CRep | CDealer | CRouter | CPull | CPush | CXPub | CXSub | CStream

definition core_as_str :: "core_socket_type \<Rightarrow> str" where
  "core_as_str t =
     (case t of CPair \<Rightarrow> lit ''PAIR'' | CPub \<Rightarrow> lit ''PUB'' | CSub \<Rightarrow> lit ''SUB'' | CReq \<Rightarrow> lit ''REQ'' | CRep \<Rightarrow> lit ''REP''
      | CDealer \<Rightarrow> lit ''DEALER'' | CRouter \<Rightarrow> lit ''ROUTER'' | CPull \<Rightarrow> lit ''PULL'' | CPush \<Rightarrow> lit ''PUSH'' | CXPub \<Rightarrow> lit ''XPUB''
      | CXSub \<Rightarrow> lit ''XSUB'' | CStream \<Rightarrow> lit ''STREAM'')"

definition is_compatible :: "core_socket_type \<Rightarrow> core_socket_type \<Rightarrow> bool" where
  "is_compatible t peer \<longleftrightarrow>
     (t = CPair \<and> peer = CPair) \<or> (t = CPub \<and> peer = CSub) \<or> (t = CSub \<and> peer = CPub) \<or>
     (t \<in> {CReq, CDealer} \<and> peer = CRep) \<or> (t \<in> {CRep, CRouter} \<and> peer = CReq) \<or>
     (t \<in> {CReq, CDealer, CRouter} \<and> peer = CRouter) \<or> (t \<in> {CRep, CRouter, CDealer} \<and> peer = CDealer) \<or>
     (t = CPush \<and> peer = CPull) \<or> (t = CPull \<and> peer = CPush) \<or> (t = CXPub \<and> peer = CXSub) \<or> (t = CXSub \<and> peer = CXPub)"

text \<open>Compatibility does not depend on the side that asks, and only STREAM has no partner.\<close>

lemma is_compatible_sym: "is_compatible t peer = is_compatible peer t"
  by (cases t; cases peer) (simp_all add: is_compatible_def)

lemma is_compatible_total: "(\<exists>peer. is_compatible t peer) \<longleftrightarrow> t \<noteq> CStream"
  by (cases t) (auto simp: is_compatible_def)

lemma core_as_str_inject: "core_as_str t = core_as_str u \<longleftrightarrow> t = u"
  by (cases t; cases u) (simp_all add: core_as_str_def)

text \<open>The handshake accepts a peer of any socket type. Whatever two types the ends have (REQ and SUB, say), also those that
  \<open>is_compatible\<close> rejects, a NULL handshake with a peer that follows the protocol succeeds and reports the peer's type; nothing asks
  \<open>is_compatible\<close>.\<close>

theorem incompatible_peer_accepted:
  assumes "core_as_str ct = socket_type_as_str t" and "core_as_str cp = socket_type_as_str pt" and "\<not> is_compatible ct cp"
    and "from_options opts = NullMechanism" and "from_options popts = NullMechanism" and "timeout \<noteq> Some 0"
    and "hs_all st = build_greeting_with_mechanism NullMechanism popts
      @ encode_frame FLAG_COMMAND (build_ready (socket_type_as_str pt) (Some pid)) @ rest"
    and "length pid + length (socket_type_as_str pt) \<le> 220"
    and "64 + length (encode_frame FLAG_COMMAND (build_ready (socket_type_as_str t) ident)) \<le> hs_quota st"
  shows "\<exists>st'. perform_handshake_with_options cr ent zap t ident timeout opts st =
      (HOk \<lparr>peer_identity = Some pid, peer_socket_type = pt, curve_cipher = None\<rparr>, st')"
proof -
  have "\<exists>st'. perform_handshake run zap t ident timeout opts st = (HOk \<lparr>peer_identity = Some pid, peer_socket_type = pt, curve_cipher = None\<rparr>, st')" for run
    using null_handshake_completes [OF assms(4-9), of run zap] by (elim exE conjE) (rule exI)
  then show ?thesis unfolding perform_handshake_with_options_def .
qed

theorem incompatible_peer_accepted_witness:
  "\<not> is_compatible CReq CSub \<and>
   (\<exists>st'. perform_handshake_with_options tag_crypto
      \<lparr>ce_short_secret = [], ce_cookie_key = [], ce_cookie_nonce = [], ce_welcome_nonce = [], ce_vouch_nonce = []\<rparr> None StReq None None socket_options_default
      \<lparr>hs_in = build_greeting_with_mechanism NullMechanism socket_options_default,
       hs_later = [encode_frame FLAG_COMMAND (build_ready (socket_type_as_str StSub) (Some [7]))], hs_out = [], hs_quota = 1000\<rparr> =
      (HOk \<lparr>peer_identity = Some [7], peer_socket_type = StSub, curve_cipher = None\<rparr>, st'))"
proof
  show n: "\<not> is_compatible CReq CSub" by (simp add: is_compatible_def)
  show "\<exists>st'. perform_handshake_with_options tag_crypto
      \<lparr>ce_short_secret = [], ce_cookie_key = [], ce_cookie_nonce = [], ce_welcome_nonce = [], ce_vouch_nonce = []\<rparr> None StReq None None socket_options_default
      \<lparr>hs_in = build_greeting_with_mechanism NullMechanism socket_options_default,
       hs_later = [encode_frame FLAG_COMMAND (build_ready (socket_type_as_str StSub) (Some [7]))], hs_out = [], hs_quota = 1000\<rparr> =
      (HOk \<lparr>peer_identity = Some [7], peer_socket_type = StSub, curve_cipher = None\<rparr>, st')"
  proof (rule incompatible_peer_accepted [where ct = CReq and cp = CSub and popts = socket_options_default and rest = "[]", OF _ _ n])
    show "64 + length (encode_frame FLAG_COMMAND (build_ready (socket_type_as_str StReq) None)) \<le>
        hs_quota \<lparr>hs_in = build_greeting_with_mechanism NullMechanism socket_options_default,
          hs_later = [encode_frame FLAG_COMMAND (build_ready (socket_type_as_str StSub) (Some [7]))], hs_out = [], hs_quota = 1000\<rparr>"
      using length_ready_frame [of StReq] by simp
  qed (simp_all add: core_as_str_def socket_type_as_str_def hs_all_def)
qed

section \<open>Errors\<close>

datatype monocoque_error =
    EIo io_error_kind str | EProtocol str | EHandshakeTimeout duration | EInvalidGreeting str | EInvalidFrame str | ESocketClosed
  | EChannelSend | EChannelRecv | EPeerDisconnected str | EInvalidRoutingId | EMessageTooLarge nat nat | ESubscription str

definition with_context :: "str \<Rightarrow> monocoque_error + 'a \<Rightarrow> monocoque_error + 'a" where
  "with_context ctx = map_sum (\<lambda>e. case e of
       EIo k msg \<Rightarrow> EIo k (ctx @ lit '': '' @ msg)
     | EProtocol msg \<Rightarrow> EProtocol (ctx @ lit '': '' @ msg)
     | other \<Rightarrow> other) id"

definition is_recoverable :: "monocoque_error \<Rightarrow> bool" where
  "is_recoverable e = (case e of EIo k _ \<Rightarrow> k = Interrupted \<or> k = WouldBlock \<or> k = TimedOut | _ \<Rightarrow> False)"

definition is_connection_error :: "monocoque_error \<Rightarrow> bool" where
  "is_connection_error e = (case e of ESocketClosed \<Rightarrow> True | EPeerDisconnected _ \<Rightarrow> True | EHandshakeTimeout _ \<Rightarrow> True | _ \<Rightarrow> False)"

text \<open>Adding context changes neither success nor the class of an error, and no error is both recoverable and a connection error.\<close>

lemma with_context_class:
  "with_context ctx r = Inl e \<Longrightarrow> \<exists>e0. r = Inl e0 \<and> is_recoverable e = is_recoverable e0 \<and> is_connection_error e = is_connection_error e0"
  by (cases r) (auto simp: with_context_def is_recoverable_def is_connection_error_def split: monocoque_error.splits)

lemma with_context_ok: "with_context ctx r = Inr x \<longleftrightarrow> r = Inr x"
  by (cases r) (auto simp: with_context_def)

lemma error_classes_disjoint: "\<not> (is_recoverable e \<and> is_connection_error e)"
  by (cases e) (simp_all add: is_recoverable_def is_connection_error_def)

section \<open>The message builder\<close>

datatype message_part = PushFrame bytes | PushStr str | PushEmpty | PushU32 "32 word" | PushU64 "64 word"

fun push_part :: "message_part \<Rightarrow> bytes list \<Rightarrow> bytes list" where
  "push_part (PushFrame f) frames = frames @ [f]"
| "push_part (PushStr s) frames = frames @ [utf8_encode s]"
| "push_part PushEmpty frames = frames @ [[]]"
| "push_part (PushU32 v) frames = frames @ [be_bytes 4 (unat v)]"
| "push_part (PushU64 v) frames = frames @ [be_bytes 8 (unat v)]"

definition build_message :: "message_part list \<Rightarrow> bytes list" where
  "build_message parts = fold push_part parts []"

text \<open>What a receiver reads back from a frame of the builder.\<close>

fun reads_as :: "message_part \<Rightarrow> bytes \<Rightarrow> bool" where
  "reads_as (PushFrame f) frame = (frame = f)"
| "reads_as (PushStr s) frame = (utf8_decode frame = Some s)"
| "reads_as PushEmpty frame = (frame = [])"
| "reads_as (PushU32 v) frame = (length frame = 4 \<and> word_of_nat (be_val frame) = v)"
| "reads_as (PushU64 v) frame = (length frame = 8 \<and> word_of_nat (be_val frame) = v)"

lemma push_part_reads: "(\<And>s. p = PushStr s \<Longrightarrow> wf_str s) \<Longrightarrow> \<exists>f. push_part p frames = frames @ [f] \<and> reads_as p f"
proof (cases p)
  case (PushU32 v)
  have "unat v < 256 ^ 4" using unsigned_less [of v] by simp
  then show ?thesis using PushU32 be_val_be_bytes [of "unat v" 4] by simp
next
  case (PushU64 v)
  have "unat v < 256 ^ 8" using unsigned_less [of v] by simp
  then show ?thesis using PushU64 be_val_be_bytes [of "unat v" 8] by simp
qed (auto simp: wf_str_def utf8_decode_encode)

text \<open>A message that is put together with the builder has one frame per part, in order, from which the receiver reads back exactly
  the strings, the numbers and the bytes that were pushed.\<close>

theorem built_message_reads_back:
  assumes "\<forall>s. PushStr s \<in> set parts \<longrightarrow> wf_str s"
  shows "list_all2 reads_as parts (build_message parts)"
proof -
  have "\<exists>fs. fold push_part parts frames = frames @ fs \<and> list_all2 reads_as parts fs" for frames
    using assms
  proof (induction parts arbitrary: frames)
    case (Cons p parts)
    obtain f where f: "push_part p frames = frames @ [f]" "reads_as p f" using push_part_reads [of p frames] Cons.prems by auto
    obtain fs where "fold push_part parts (frames @ [f]) = (frames @ [f]) @ fs" "list_all2 reads_as parts fs"
      using Cons.IH [of "frames @ [f]"] Cons.prems by auto
    with f show ?case by (intro exI [of _ "f # fs"]) simp
  qed simp
  from this [of "[]"] show ?thesis by (auto simp: build_message_def)
qed

theorem built_message_reads_back_witness:
  "list_all2 reads_as [PushStr (lit ''t''), PushU32 258] (build_message [PushStr (lit ''t''), PushU32 258]) \<and>
   build_message [PushStr (lit ''t''), PushU32 258] = [[116], [0, 0, 1, 2]]"
proof
  show "list_all2 reads_as [PushStr (lit ''t''), PushU32 258] (build_message [PushStr (lit ''t''), PushU32 258])"
    by (rule built_message_reads_back) (simp add: wf_str_def scalar_value_def)
  show "build_message [PushStr (lit ''t''), PushU32 258] = [[116], [0, 0, 1, 2]]"
  proof -
    have "be_bytes 4 258 = [0, 0, 1, 2]" by code_simp
    then show ?thesis by (simp add: build_message_def utf8_encode_ascii)
  qed
qed

end
