(* ===== verification/Req_Rep.thy ===== *)
theory Req_Rep
  imports Message_Sockets
begin

text \<open>
  \<open>monocoque-zmtp/src/req.rs\<close> and \<open>rep.rs\<close>: the request and reply sockets with their strict
  alternation of \<open>send\<close> and \<open>recv\<close>, request correlation and reconnection. The theorems: the
  alternation is enforced whatever the network does; requests and their replies travel to the
  other side and back; a correlated request accepts only the reply that carries its number; and
  a reply can never be received through a reconnection.
\<close>

section \<open>REQ\<close>

datatype req_state = ReqIdle | ReqAwaitingReply

record req_fields =
  rq_frames :: "bytes list"
  rq_state :: req_state
  rq_id :: "32 word"
  rq_expected :: "32 word option"

type_synonym req_socket = "req_fields sock"

definition req_new_fields :: req_fields where
  "req_new_fields = \<lparr>rq_frames = [], rq_state = ReqIdle, rq_id = 0, rq_expected = None\<rparr>"

definition req_with_options ::
  "curve_crypto \<Rightarrow> curve_entropy \<Rightarrow> zap_environment \<Rightarrow> hs_stream \<Rightarrow> socket_options \<Rightarrow> req_socket io_out" where
  "req_with_options cr ent zap conn opts =
     io_map (\<lambda>(_, b). \<lparr>base = b, own = req_new_fields\<rparr>)
       (with_handshake cr ent zap StReq (opt_routing_id opts) opts base_new conn)"

definition req_connect_with_options ::
  "curve_crypto \<Rightarrow> curve_entropy \<Rightarrow> zap_environment \<Rightarrow> str \<Rightarrow> io_error_kind option \<Rightarrow> hs_stream \<Rightarrow> socket_options \<Rightarrow> req_socket io_out" where
  "req_connect_with_options cr ent zap addr configure conn opts =
     io_map (\<lambda>(_, b). \<lparr>base = b, own = req_new_fields\<rparr>) (connect_handshake cr ent zap StReq addr configure conn opts)"

text \<open>The request number is a wrapping \<open>u32\<close>, sent in network order before the message.\<close>

definition request_envelope :: "32 word \<Rightarrow> bytes" where
  "request_envelope i = be_bytes 4 (unat i)"

definition req_prepare :: "bytes list \<Rightarrow> req_socket \<Rightarrow> req_socket \<times> bytes list" where
  "req_prepare msg s =
     (if opt_req_correlate (sb_options (base s))
      then (let i = rq_id (own s) + 1 in
            (s\<lparr>own := (own s)\<lparr>rq_id := i, rq_expected := Some i\<rparr>\<rparr>, request_envelope i # msg))
      else (s, msg))"

definition req_send :: "curve_crypto \<Rightarrow> bytes list \<Rightarrow> (req_socket, unit) aio" where
  "req_send cr msg s e =
     (if \<not> opt_req_relaxed (sb_options (base s)) \<and> rq_state (own s) \<noteq> ReqIdle then (IoErr InvalidInput, s, e)
      else let (s1, frames) = req_prepare msg s in
        aio_bind (on_base (write_message cr frames))
          (\<lambda>_ s2. aio_return () (s2\<lparr>own := (own s2)\<lparr>rq_state := ReqAwaitingReply\<rparr>\<rparr>)) s1 e)"

definition req_accept :: "bytes list \<Rightarrow> req_fields \<Rightarrow> bytes list option io_out \<times> req_fields" where
  "req_accept msg x = (IoOk (Some msg), x\<lparr>rq_state := ReqIdle, rq_expected := None\<rparr>)"

text \<open>What \<open>recv\<close> does with a complete message.\<close>

definition req_complete :: "socket_options \<Rightarrow> bytes list \<Rightarrow> req_fields \<Rightarrow> bytes list option io_out \<times> req_fields" where
  "req_complete opts msg x =
     (if opt_req_correlate opts
      then (case msg of
              [] \<Rightarrow> (IoErr InvalidData, x)
            | id_frame # rest \<Rightarrow>
                if length id_frame \<noteq> 4 then (IoErr InvalidData, x)
                else (case rq_expected x of
                        Some expected \<Rightarrow>
                          if word_of_nat (be_val id_frame) \<noteq> expected then (IoErr InvalidData, x) else req_accept rest x
                      | None \<Rightarrow> req_accept rest x))
      else req_accept msg x)"

definition req_data :: "(req_fields, bytes list option) data_handler" where
  "req_data opts mo p x =
     (let frames = rq_frames x @ [p] in
      if mo then (None, x\<lparr>rq_frames := frames\<rparr>)
      else case req_complete opts frames (x\<lparr>rq_frames := []\<rparr>) of (r, x1) \<Rightarrow> (Some r, x1))"

definition req_eof :: "req_fields \<Rightarrow> bytes list option \<times> req_fields" where
  "req_eof x = (None, x\<lparr>rq_state := ReqIdle\<rparr>)"

definition req_recv :: "curve_crypto \<Rightarrow> (req_socket, bytes list option) aio" where
  "req_recv cr s e =
     (if rq_state (own s) \<noteq> ReqAwaitingReply then (IoErr InvalidInput, s, e)
      else recv_loop cr req_data req_eof s e)"

definition req_reset :: "req_fields \<Rightarrow> req_fields" where
  "req_reset x = x\<lparr>rq_state := ReqIdle, rq_expected := None\<rparr>"

definition req_recv_with_reconnect :: "curve_crypto \<Rightarrow> reconnect_io list \<Rightarrow> (req_socket, bytes list option) aio" where
  "req_recv_with_reconnect cr ios s =
     recv_reconnecting req_reset (\<lambda>io. on_base (base_try_reconnect cr io StReq)) (req_recv cr)
       (opt_max_reconnect_attempts (sb_options (base s))) 0 ios s"

definition req_send_with_reconnect :: "curve_crypto \<Rightarrow> bytes list \<Rightarrow> reconnect_io list \<Rightarrow> (req_socket, unit) aio" where
  "req_send_with_reconnect cr msg ios s =
     send_reconnecting req_reset (\<lambda>io. on_base (base_try_reconnect cr io StReq)) (req_send cr msg)
       (opt_max_reconnect_attempts (sb_options (base s))) 0 ios s"

section \<open>REP\<close>

datatype rep_state = RepAwaitingRequest | RepReadyToReply

record rep_fields =
  rp_frames :: "bytes list"
  rp_state :: rep_state

type_synonym rep_socket = "rep_fields sock"

definition rep_with_options ::
  "curve_crypto \<Rightarrow> curve_entropy \<Rightarrow> zap_environment \<Rightarrow> hs_stream \<Rightarrow> socket_options \<Rightarrow> rep_socket io_out" where
  "rep_with_options cr ent zap conn opts =
     io_map (\<lambda>(_, b). \<lparr>base = b, own = \<lparr>rp_frames = [], rp_state = RepAwaitingRequest\<rparr>\<rparr>)
       (with_handshake cr ent zap StRep None opts base_new conn)"

definition rep_data :: "(rep_fields, bytes list option) data_handler" where
  "rep_data opts mo p x =
     (let frames = rp_frames x @ [p] in
      if \<not> mo then (Some (IoOk (Some frames)), x\<lparr>rp_frames := [], rp_state := RepReadyToReply\<rparr>)
      else (None, x\<lparr>rp_frames := frames\<rparr>))"

definition rep_recv :: "curve_crypto \<Rightarrow> (rep_socket, bytes list option) aio" where
  "rep_recv cr s e =
     (if rp_state (own s) \<noteq> RepAwaitingRequest then (IoErr InvalidInput, s, e)
      else recv_loop cr rep_data eof_none s e)"

definition rep_send :: "curve_crypto \<Rightarrow> bytes list \<Rightarrow> (rep_socket, unit) aio" where
  "rep_send cr msg s e =
     (if rp_state (own s) \<noteq> RepReadyToReply then (IoErr InvalidInput, s, e)
      else aio_bind (on_base (write_message cr msg))
        (\<lambda>_ s1. aio_return () (s1\<lparr>own := (own s1)\<lparr>rp_state := RepAwaitingRequest\<rparr>\<rparr>)) s e)"

section \<open>What a receive leaves behind\<close>

text \<open>A statement about the result of a call and the own fields after it.\<close>

definition post :: "('r io_out \<Rightarrow> 'x \<Rightarrow> bool) \<Rightarrow> 'r io_out \<times> 'x sock \<times> io_env \<Rightarrow> bool" where
  "post Q res = Q (fst res) (own (state_after res))"

lemma post_tuple [simp]: "post Q (r, s, e) = Q r (own s)"
  by (simp add: post_def)

text \<open>Every failure leaves the own fields \<open>x\<close> in a state with \<open>Q\<close>.\<close>

definition on_failure :: "('r io_out \<Rightarrow> 'x \<Rightarrow> bool) \<Rightarrow> 'x \<Rightarrow> bool" where
  "on_failure Q x \<longleftrightarrow> (\<forall>k. Q (IoErr k) x) \<and> Q IoDropped x \<and> Q IoPanic x"

lemma post_on_base:
  assumes "on_failure Q (own s)" and "\<And>x s1 e1. on_base m s e = (IoOk x, s1, e1) \<Longrightarrow> own s1 = own s \<Longrightarrow> post Q (f x s1 e1)"
  shows "post Q (aio_bind (on_base m) f s e)"
  using assms by (auto simp: aio_bind_def on_base_def on_failure_def split: prod.split io_out.split)

text \<open>
  A rule for the receive loop: if the data handler keeps \<open>I\<close> while it continues and establishes
  \<open>Q\<close> of the result when it ends, and \<open>I\<close> is enough for \<open>Q\<close> at the end of the stream and on every
  failure, then \<open>Q\<close> holds of the result and the fields after the call.
\<close>

definition handles :: "('x \<Rightarrow> bool) \<Rightarrow> ('r io_out \<Rightarrow> 'x \<Rightarrow> bool) \<Rightarrow> ('x, 'r) data_handler \<Rightarrow> ('x \<Rightarrow> 'r \<times> 'x) \<Rightarrow> bool" where
  "handles I Q on_data on_eof \<longleftrightarrow>
     (\<forall>x. I x \<longrightarrow> on_failure Q x \<and> Q (IoOk (fst (on_eof x))) (snd (on_eof x)) \<and>
        (\<forall>opts mo p. case on_data opts mo p x of (None, x') \<Rightarrow> I x' | (Some r, x') \<Rightarrow> Q r x'))"

lemma recv_loop_rule: "handles I Q on_data on_eof \<Longrightarrow> I (own s) \<Longrightarrow> post Q (recv_loop cr on_data on_eof s e)"
proof (induction cr on_data on_eof s e rule: recv_loop.induct)
  case IH: (1 cr on_data on_eof s e)
  then have h: "on_failure Q x" "Q (IoOk (fst (on_eof x))) (snd (on_eof x))"
    "case on_data opts mo p x of (None, x') \<Rightarrow> I x' | (Some r, x') \<Rightarrow> Q r x'" if "I x" for x opts mo p
    using that by (simp_all add: handles_def)
  show ?case
    unfolding recv_loop.simps [of cr on_data on_eof s e]
  proof (rule post_on_base [OF h(1) [OF IH(5)]], goal_cases)
    case (1 fr s1 e1)
    with IH(5) have I: "I (own s1)" by simp
    show ?case
    proof (cases fr)
      case (FData mo p)
      obtain y x where "on_data (sb_options (base s1)) mo p (own s1) = (y, x)" by fastforce
      with FData IH(1) [OF 1(1) FData this [symmetric]] IH(4) h(3) [OF I, of "sb_options (base s1)" mo p] show ?thesis
        by (cases y) auto
    qed (use IH(2,3) [OF 1(1)] IH(4) I h(1) [OF I] h(2) [OF I] in \<open>auto intro!: post_on_base split: prod.splits\<close>)
  qed
qed

lemma fixed_options:
  "write_message cr msg b e = (r, b1, e1) \<Longrightarrow> sb_options b1 = sb_options b"
  "recv_loop cr on_data on_eof s e2 = (r2, s2, e3) \<Longrightarrow> sb_options (base s2) = sb_options (base s)"
  using keepsD [OF fixed.write_message_inv [where msg = msg and opts = "sb_options b" and cr = cr], of b e]
    keepsD [OF fixed.recv_loop_keeps [where opts = "sb_options (base s)" and cr = cr and on_data = on_data and on_eof = on_eof], of s e2]
  by (simp_all add: state_after_def)

section \<open>Alternation\<close>

text \<open>The completed calls of a sequence of \<open>send\<close> (with a message) and \<open>recv\<close> calls, each in its own environment.\<close>

datatype lock_event = Sent | Received | Closed

fun lock_trace ::
  "(bytes list \<Rightarrow> ('s, unit) aio) \<Rightarrow> ('s, bytes list option) aio \<Rightarrow> (bytes list option \<times> io_env) list \<Rightarrow> 's \<Rightarrow> lock_event list" where
  "lock_trace sends recvs [] s = []"
| "lock_trace sends recvs ((Some msg, e) # calls) s =
     (case sends msg s e of
        (IoOk _, s1, _) \<Rightarrow> Sent # lock_trace sends recvs calls s1
      | (_, s1, _) \<Rightarrow> lock_trace sends recvs calls s1)"
| "lock_trace sends recvs ((None, e) # calls) s =
     (case recvs s e of
        (IoOk (Some _), s1, _) \<Rightarrow> Received # lock_trace sends recvs calls s1
      | (IoOk None, s1, _) \<Rightarrow> Closed # lock_trace sends recvs calls s1
      | (_, s1, _) \<Rightarrow> lock_trace sends recvs calls s1)"

text \<open>Sends and receives in turn, starting with a send if \<open>t\<close>. A receive may find the connection closed;
  whose turn it is then is \<open>c\<close>.\<close>

fun alternates :: "bool \<Rightarrow> bool \<Rightarrow> lock_event list \<Rightarrow> bool" where
  "alternates c t [] = True"
| "alternates c t (Sent # es) = (t \<and> alternates c False es)"
| "alternates c t (Received # es) = (\<not> t \<and> alternates c True es)"
| "alternates c t (Closed # es) = (\<not> t \<and> alternates c c es)"

text \<open>A socket with turns: a completed send passes the turn, a completed receive returns it, and a call that fails leaves it.\<close>

locale lock_step =
  fixes sends :: "bytes list \<Rightarrow> ('s, unit) aio" and recvs :: "('s, bytes list option) aio"
    and turn :: "'s \<Rightarrow> bool" and strict :: "'s \<Rightarrow> bool" and after_close :: bool
  assumes send_turn: "strict s \<Longrightarrow> sends msg s e = (r, s1, e1) \<Longrightarrow>
      strict s1 \<and> (case r of IoOk _ \<Rightarrow> turn s \<and> \<not> turn s1 | _ \<Rightarrow> turn s1 = turn s)"
    and recv_turn: "strict s \<Longrightarrow> recvs s e = (r2, s1, e1) \<Longrightarrow>
      strict s1 \<and> (case r2 of IoOk (Some _) \<Rightarrow> \<not> turn s \<and> turn s1 | IoOk None \<Rightarrow> \<not> turn s \<and> turn s1 = after_close | _ \<Rightarrow> turn s1 = turn s)"
begin

lemma alternation: "strict s \<Longrightarrow> alternates after_close (turn s) (lock_trace sends recvs calls s)"
proof (induction calls arbitrary: s)
  case (Cons c calls)
  obtain m e where c: "c = (m, e)" by fastforce
  show ?case
  proof (cases m)
    case None
    obtain r s1 e1 where r: "recvs s e = (r, s1, e1)" by (metis prod_cases3)
    from recv_turn [OF Cons.prems r] Cons.IH [of s1] r c None show ?thesis
      by (auto split: io_out.splits option.splits)
  next
    case (Some msg)
    obtain r s1 e1 where r: "sends msg s e = (r, s1, e1)" by (metis prod_cases3)
    from send_turn [OF Cons.prems r] Cons.IH [of s1] r c Some show ?thesis
      by (auto split: io_out.splits)
  qed
qed simp

end

definition req_turn :: "req_socket \<Rightarrow> bool" where
  "req_turn s \<longleftrightarrow> rq_state (own s) = ReqIdle"

definition req_strict :: "req_socket \<Rightarrow> bool" where
  "req_strict s \<longleftrightarrow> \<not> opt_req_relaxed (sb_options (base s))"

lemma req_prepare_keeps:
  "req_prepare msg s = (s1, frames) \<Longrightarrow> base s1 = base s \<and> rq_state (own s1) = rq_state (own s) \<and> rq_frames (own s1) = rq_frames (own s)"
  by (auto simp: req_prepare_def Let_def split: if_splits)

lemma req_handles:
  "handles (\<lambda>x. rq_state x = ReqAwaitingReply)
     (\<lambda>r x. rq_state x = (case r of IoOk _ \<Rightarrow> ReqIdle | _ \<Rightarrow> ReqAwaitingReply)) req_data req_eof"
  by (auto simp: handles_def on_failure_def req_data_def req_eof_def req_complete_def req_accept_def Let_def split: list.splits option.splits)

interpretation req_lock: lock_step "req_send cr" "req_recv cr" req_turn req_strict True for cr
proof (unfold_locales, goal_cases)
  case (1 s msg e r s1 e1)
  obtain s0 frames where "req_prepare msg s = (s0, frames)" by fastforce
  with 1 show ?case
    by (auto simp: req_send_def req_turn_def req_strict_def aio_bind_def on_base_def aio_return_def
        dest!: req_prepare_keeps fixed_options(1) split: if_splits prod.splits io_out.splits)
next
  case (2 s e r s1 e1)
  show ?case
  proof (cases "rq_state (own s) = ReqAwaitingReply")
    case True
    with 2 have r: "recv_loop cr req_data req_eof s e = (r, s1, e1)" by (simp add: req_recv_def)
    with recv_loop_rule [OF req_handles True, of cr e] fixed_options(2) [OF r] 2(1) True show ?thesis
      by (auto simp: req_turn_def req_strict_def split: io_out.splits option.splits)
  next
    case False
    with 2 show ?thesis by (auto simp: req_recv_def)
  qed
qed

definition rep_turn :: "rep_socket \<Rightarrow> bool" where
  "rep_turn s \<longleftrightarrow> rp_state (own s) = RepReadyToReply"

lemma rep_handles:
  "handles (\<lambda>x. rp_state x = RepAwaitingRequest)
     (\<lambda>r x. rp_state x = (case r of IoOk (Some _) \<Rightarrow> RepReadyToReply | _ \<Rightarrow> RepAwaitingRequest)) rep_data eof_none"
  by (auto simp: handles_def on_failure_def rep_data_def eof_none_def Let_def)

interpretation rep_lock: lock_step "rep_send cr" "rep_recv cr" rep_turn "\<lambda>_. True" False for cr
proof (unfold_locales, goal_cases)
  case (1 s msg e r s1 e1)
  then show ?case
    by (auto simp: rep_send_def rep_turn_def aio_bind_def on_base_def aio_return_def
        split: if_splits prod.splits io_out.splits)
next
  case (2 s e r s1 e1)
  show ?case
  proof (cases "rp_state (own s) = RepAwaitingRequest")
    case True
    with 2 have r: "recv_loop cr rep_data eof_none s e = (r, s1, e1)" by (simp add: rep_recv_def)
    with recv_loop_rule [OF rep_handles True, of cr e] True show ?thesis
      by (auto simp: rep_turn_def split: io_out.splits option.splits)
  next
    case False
    with 2 show ?thesis by (auto simp: rep_recv_def)
  qed
qed

section \<open>A connection in both directions\<close>

fun unsealing :: "message_cipher option \<Rightarrow> (bytes \<times> bool \<times> nat) option" where
  "unsealing None = None"
| "unsealing (Some c) = Some (mc_key c, is_client c, recv_nonce c)"

lemma matched_cong: "sealing c = sealing c' \<Longrightarrow> unsealing d = unsealing d' \<Longrightarrow> matched c d \<longleftrightarrow> matched c' d'"
  by (cases c; cases c'; cases d; cases d') auto

lemma budget_cong: "sealing c = sealing c' \<Longrightarrow> budget c n \<longleftrightarrow> budget c' n"
  by (cases c; cases c') auto

lemma encrypt_parts_unsealing: "encrypt_parts cr c l i msg buf = (ok, c', out) \<Longrightarrow> unsealing (Some c') = unsealing (Some c)"
proof (induction msg arbitrary: c i buf)
  case (Cons p ps)
  have "unsealing (Some c1) = unsealing (Some c)" if "encrypt_frame cr c p mo = (r, c1)" for mo r c1
    using that by (auto simp: encrypt_frame_def Let_def split: if_splits option.splits sum.splits)
  with Cons show ?case by (auto split: prod.splits sum.splits)
qed simp

lemma encode_message_unsealing: "encode_message cr c msg buf = (ok, c', out) \<Longrightarrow> unsealing c' = unsealing c"
  by (auto simp: encode_message_def dest: encrypt_parts_unsealing split: option.splits prod.splits)

text \<open>One end of a connection: \<open>w\<close> is on the wire, \<open>c\<close> is the cipher, and nothing is left to read.\<close>

definition ready :: "nat \<Rightarrow> bytes \<Rightarrow> message_cipher option \<Rightarrow> socket_base \<Rightarrow> bool" where
  "ready m w c b \<longleftrightarrow> sending w c b \<and> receiving m c [] b"

lemma ready_write:
  assumes "crypto_laws cr" and "ready m w c b" and "matched c d" and "budget c (length msg + k)" and "fits m' msg"
    and "env_writes e = Written # ws"
  shows "\<exists>b' c' d' out. write_message cr msg b e = (IoOk (), b', e\<lparr>env_writes := ws\<rparr>) \<and> ready m (w @ out) c' b' \<and>
    carries cr m' d out (message_parts msg) d' \<and> matched c' d' \<and> budget c' k \<and> unsealing c' = unsealing c \<and> sb_options b' = sb_options b"
proof -
  obtain c' d' out where enc: "encode_message cr c msg [] = (True, c', out)" and x: "carries cr m' d out (message_parts msg) d'"
    "matched c' d'" "budget c' k"
    using encode_message_carries [OF assms(1,5,3,4), of "[]"] by auto
  have s: "sb_stream b = Some w" "sb_curve_cipher b = c" "\<not> sb_is_poisoned b" "opt_send_timeout (sb_options b) \<noteq> Some 0"
    using assms(2) by (simp_all add: ready_def sending_def)
  let ?b = "b\<lparr>sb_curve_cipher := c', sb_write_buf := [], sb_is_poisoned := False, sb_stream := Some (w @ out)\<rparr>"
  have "write_message cr msg b e = (IoOk (), ?b, e\<lparr>env_writes := ws\<rparr>)"
    using s enc assms(6)
    by (simp add: write_message_def aio_bind_def encode_message_to_write_buf_def write_from_buf_def guarded_write_def pop_write_def)
  moreover have "ready m (w @ out) c' ?b"
    using assms(2) by (simp add: ready_def sending_def receiving_def)
  ultimately show ?thesis
    using x encode_message_unsealing [OF enc]
    by (intro exI [of _ ?b] exI [of _ c'] exI [of _ d'] exI [of _ out]) simp
qed

lemma ready_read:
  assumes "ready m w d (base s)" and "carries cr m d out ds d'" and "concat chunks = out" and "[] \<notin> set chunks"
    and "env_reads e = map ReadBytes chunks" and "feeds on_data (sb_options (base s)) ds (own s) r x"
  shows "\<exists>b e'. recv_loop cr on_data on_eof s e = (r, s\<lparr>base := b, own := x\<rparr>, e') \<and> ready m w d' b \<and> sealing d' = sealing d \<and>
    sb_options b = sb_options (base s)"
proof -
  have rd: "receiving m d [] (base s)" "sending w d (base s)" using assms(1) by (simp_all add: ready_def)
  obtain b v' chunks' where b: "recv_loop cr on_data on_eof s e = (r, s\<lparr>base := b, own := x\<rparr>, e\<lparr>env_reads := map ReadBytes chunks' @ []\<rparr>)"
    "receiving m d' v' b" "[] = v' @ concat chunks'" "send_side b = send_side (base s)"
    using recv_loop_carries [OF assms(2) rd(1), of "[]" chunks e "[]" on_data r x on_eof] assms(3-6) by auto
  have c: "sb_curve_cipher b = d'" "sb_curve_cipher (base s) = d" using b(2) rd(1) by (simp_all add: receiving_def)
  with b(4) have "sealing d' = sealing d" by (simp add: send_side_def)
  moreover have "ready m w d' b" using b(2-4) rd(2) c by (simp add: ready_def sending_def send_side_def)
  ultimately show ?thesis using b(1,4) send_side_options by blast
qed

section \<open>A request and its reply\<close>

text \<open>What has been put on the wire between two states, and the environments in which a write succeeds
  and in which pieces arrive.\<close>

definition delivered :: "socket_base \<Rightarrow> socket_base \<Rightarrow> bytes" where
  "delivered b b1 = (case (sb_stream b, sb_stream b1) of (Some w, Some w1) \<Rightarrow> drop (length w) w1 | _ \<Rightarrow> [])"

definition accepting :: io_env where
  "accepting = quiet_env\<lparr>env_writes := [Written]\<rparr>"

definition arriving :: "bytes list \<Rightarrow> io_env" where
  "arriving chunks = quiet_env\<lparr>env_reads := map ReadBytes chunks\<rparr>"

text \<open>A request to a server that answers with \<open>serve\<close>, over a transport that cuts the bytes into pieces with \<open>pieces\<close>.\<close>

definition request_reply ::
  "curve_crypto \<Rightarrow> (bytes \<Rightarrow> bytes list) \<Rightarrow> (bytes list \<Rightarrow> bytes list) \<Rightarrow> bytes list \<Rightarrow> req_socket \<times> rep_socket \<Rightarrow>
   (bytes list \<times> req_socket \<times> rep_socket) option" where
  "request_reply cr pieces serve msg st =
     (case st of (s, t) \<Rightarrow>
      (case req_send cr msg s accepting of
        (IoOk _, s1, _) \<Rightarrow>
          (case rep_recv cr t (arriving (pieces (delivered (base s) (base s1)))) of
             (IoOk (Some request), t1, _) \<Rightarrow>
               (case rep_send cr (serve request) t1 accepting of
                  (IoOk _, t2, _) \<Rightarrow>
                    (case req_recv cr s1 (arriving (pieces (delivered (base t1) (base t2)))) of
                       (IoOk (Some reply), s2, _) \<Rightarrow> Some (reply, s2, t2)
                     | _ \<Rightarrow> None)
                | _ \<Rightarrow> None)
           | _ \<Rightarrow> None)
      | _ \<Rightarrow> None))"

fun exchanges ::
  "curve_crypto \<Rightarrow> (bytes \<Rightarrow> bytes list) \<Rightarrow> (bytes list \<Rightarrow> bytes list) \<Rightarrow> bytes list list \<Rightarrow> req_socket \<times> rep_socket \<Rightarrow>
   bytes list list option" where
  "exchanges cr pieces serve [] st = Some []"
| "exchanges cr pieces serve (msg # msgs) st =
     do { (reply, st1) \<leftarrow> request_reply cr pieces serve msg st;
          replies \<leftarrow> exchanges cr pieces serve msgs st1;
          Some (reply # replies) }"

text \<open>The message as it travels: with correlation the request number comes first.\<close>

definition wrap :: "bool \<Rightarrow> 32 word \<Rightarrow> bytes list \<Rightarrow> bytes list" where
  "wrap correlate i msg = (if correlate then request_envelope i # msg else msg)"

lemma envelope [simp]: "length (request_envelope i) = 4" "word_of_nat (be_val (request_envelope i)) = i"
proof -
  have "unat i < 256 ^ 4" using unsigned_less [of i, where ?'a = nat] by simp
  then have "be_val (be_bytes 4 (unat i)) = unat i" using be_val_be_bytes [of 4 "unat i"] by simp
  then show "length (request_envelope i) = 4" "word_of_nat (be_val (request_envelope i)) = i"
    by (simp_all add: request_envelope_def)
qed

lemma feeds_req:
  "msg \<noteq> [] \<Longrightarrow> req_complete opts (rq_frames x @ msg) (x\<lparr>rq_frames := []\<rparr>) = (r, x') \<Longrightarrow> feeds req_data opts (message_parts msg) x r x'"
proof (induction msg arbitrary: x)
  case (Cons p ps)
  then show ?case using Cons.IH [of "x\<lparr>rq_frames := rq_frames x @ [p]\<rparr>"]
    by (cases "ps = []") (simp_all add: req_data_def)
qed simp

lemma feeds_rep:
  "msg \<noteq> [] \<Longrightarrow> feeds rep_data opts (message_parts msg) x (IoOk (Some (rp_frames x @ msg))) (x\<lparr>rp_frames := [], rp_state := RepReadyToReply\<rparr>)"
proof (induction msg arbitrary: x)
  case (Cons p ps)
  then show ?case using Cons.IH [of "x\<lparr>rp_frames := rp_frames x @ [p]\<rparr>"]
    by (cases "ps = []") (simp_all add: rep_data_def)
qed simp

text \<open>An idle request socket and a waiting reply socket at the two ends of a connection that can carry
  \<open>n\<close> more frames one way and \<open>n'\<close> the other.\<close>

definition linked :: "nat \<Rightarrow> nat \<Rightarrow> bool \<Rightarrow> nat \<Rightarrow> nat \<Rightarrow> req_socket \<Rightarrow> rep_socket \<Rightarrow> bool" where
  "linked m m' k n n' s t \<longleftrightarrow>
     (\<exists>w w' c d. ready m w c (base s) \<and> ready m' w' d (base t) \<and> matched c d \<and> matched d c \<and> budget c n \<and> budget d n') \<and>
     rq_state (own s) = ReqIdle \<and> rq_frames (own s) = [] \<and> opt_req_correlate (sb_options (base s)) = k \<and>
     rp_state (own t) = RepAwaitingRequest \<and> rp_frames (own t) = []"

lemma req_prepare_wrap:
  "\<exists>i x. req_prepare msg s = (s\<lparr>own := x\<rparr>, wrap (opt_req_correlate (sb_options (base s))) i msg) \<and>
     rq_state x = rq_state (own s) \<and> rq_frames x = rq_frames (own s) \<and>
     (opt_req_correlate (sb_options (base s)) \<longrightarrow> rq_expected x = Some i)"
proof (cases "opt_req_correlate (sb_options (base s))")
  case True
  let ?i = "rq_id (own s) + 1"
  from True show ?thesis
    by (intro exI [of _ ?i] exI [of _ "(own s)\<lparr>rq_id := ?i, rq_expected := Some ?i\<rparr>"]) (simp add: req_prepare_def wrap_def Let_def)
qed (auto simp: req_prepare_def wrap_def intro: exI [of _ "own s"])

lemma delivered_out: "ready m w c b \<Longrightarrow> ready m' (w @ out) c' b1 \<Longrightarrow> delivered b b1 = out"
  by (simp add: ready_def sending_def delivered_def)

lemma req_complete_wrap:
  "opt_req_correlate opts = k \<Longrightarrow> (k \<Longrightarrow> rq_expected x = Some i) \<Longrightarrow> req_complete opts (wrap k i reply) x = req_accept reply x"
  by (auto simp: req_complete_def wrap_def)

lemma req_send_ready:
  assumes "crypto_laws cr" and "ready m w c (base s)" and "rq_state (own s) = ReqIdle" and "matched c d"
    and "budget c (length (wrap k 0 msg) + n)" and "\<And>i. fits m' (wrap k i msg)" and "opt_req_correlate (sb_options (base s)) = k"
  shows "\<exists>i s1 e1 c1 d1 out. req_send cr msg s accepting = (IoOk (), s1, e1) \<and> ready m (w @ out) c1 (base s1) \<and>
    carries cr m' d out (message_parts (wrap k i msg)) d1 \<and> matched c1 d1 \<and> budget c1 n \<and> unsealing c1 = unsealing c \<and>
    rq_state (own s1) = ReqAwaitingReply \<and> rq_frames (own s1) = rq_frames (own s) \<and>
    opt_req_correlate (sb_options (base s1)) = k \<and> (k \<longrightarrow> rq_expected (own s1) = Some i)"
proof -
  obtain i x where p: "req_prepare msg s = (s\<lparr>own := x\<rparr>, wrap k i msg)" "rq_frames x = rq_frames (own s)" "k \<longrightarrow> rq_expected x = Some i"
    using req_prepare_wrap [of msg s] assms(7) by auto
  have "length (wrap k i msg) = length (wrap k 0 msg)" by (simp add: wrap_def)
  then obtain b1 c1 d1 out where w: "write_message cr (wrap k i msg) (base s) accepting = (IoOk (), b1, accepting\<lparr>env_writes := []\<rparr>)"
    "ready m (w @ out) c1 b1" "carries cr m' d out (message_parts (wrap k i msg)) d1" "matched c1 d1" "budget c1 n"
    "unsealing c1 = unsealing c" "sb_options b1 = sb_options (base s)"
    using ready_write [OF assms(1,2,4), of "wrap k i msg" n m' accepting "[]"] assms(5,6) by (auto simp: accepting_def)
  let ?s = "s\<lparr>base := b1, own := x\<lparr>rq_state := ReqAwaitingReply\<rparr>\<rparr>"
  have "req_send cr msg s accepting = (IoOk (), ?s, accepting\<lparr>env_writes := []\<rparr>)"
    using p(1) w(1) assms(3) by (simp add: req_send_def aio_bind_def on_base_def aio_return_def)
  then show ?thesis using w p(2,3) assms(7)
    by (intro exI [of _ i] exI [of _ ?s] exI [of _ "accepting\<lparr>env_writes := []\<rparr>"] exI [of _ c1] exI [of _ d1] exI [of _ out]) simp
qed

lemma rep_recv_ready:
  assumes "ready m' w' d (base t)" and "carries cr m' d out (message_parts msg) d1" and "msg \<noteq> []"
    and "concat chunks = out" and "[] \<notin> set chunks" and "rp_state (own t) = RepAwaitingRequest" and "rp_frames (own t) = []"
  shows "\<exists>t1 e1. rep_recv cr t (arriving chunks) = (IoOk (Some msg), t1, e1) \<and> ready m' w' d1 (base t1) \<and> sealing d1 = sealing d \<and>
    rp_state (own t1) = RepReadyToReply \<and> rp_frames (own t1) = []"
proof -
  have "env_reads (arriving chunks) = map ReadBytes chunks" by (simp add: arriving_def)
  from ready_read [OF assms(1,2,4,5) this feeds_rep [OF assms(3)], of eof_none] assms(6,7) show ?thesis
    by (auto simp: rep_recv_def)
qed

lemma rep_send_ready:
  assumes "crypto_laws cr" and "ready m' w' d (base t)" and "rp_state (own t) = RepReadyToReply" and "matched d c"
    and "budget d (length msg + n)" and "fits m msg"
  shows "\<exists>t1 e1 d1 c1 out. rep_send cr msg t accepting = (IoOk (), t1, e1) \<and> ready m' (w' @ out) d1 (base t1) \<and>
    carries cr m c out (message_parts msg) c1 \<and> matched d1 c1 \<and> budget d1 n \<and> unsealing d1 = unsealing d \<and>
    rp_state (own t1) = RepAwaitingRequest \<and> rp_frames (own t1) = rp_frames (own t)"
proof -
  obtain b1 d1 c1 out where w: "write_message cr msg (base t) accepting = (IoOk (), b1, accepting\<lparr>env_writes := []\<rparr>)"
    "ready m' (w' @ out) d1 b1" "carries cr m c out (message_parts msg) c1" "matched d1 c1" "budget d1 n" "unsealing d1 = unsealing d"
    using ready_write [OF assms(1,2,4,5,6), of accepting "[]"] by (auto simp: accepting_def)
  let ?t = "t\<lparr>base := b1, own := (own t)\<lparr>rp_state := RepAwaitingRequest\<rparr>\<rparr>"
  have "rep_send cr msg t accepting = (IoOk (), ?t, accepting\<lparr>env_writes := []\<rparr>)"
    using w(1) assms(3) by (simp add: rep_send_def aio_bind_def on_base_def aio_return_def)
  then show ?thesis using w
    by (intro exI [of _ ?t] exI [of _ "accepting\<lparr>env_writes := []\<rparr>"] exI [of _ d1] exI [of _ c1] exI [of _ out]) simp
qed

lemma req_recv_ready:
  assumes "ready m w c (base s)" and "carries cr m c out (message_parts (wrap k i reply)) c1" and "wrap k i reply \<noteq> []"
    and "concat chunks = out" and "[] \<notin> set chunks" and "rq_state (own s) = ReqAwaitingReply" and "rq_frames (own s) = []"
    and "opt_req_correlate (sb_options (base s)) = k" and "k \<longrightarrow> rq_expected (own s) = Some i"
  shows "\<exists>s1 e1. req_recv cr s (arriving chunks) = (IoOk (Some reply), s1, e1) \<and> ready m w c1 (base s1) \<and> sealing c1 = sealing c \<and>
    rq_state (own s1) = ReqIdle \<and> rq_frames (own s1) = [] \<and> opt_req_correlate (sb_options (base s1)) = k"
proof -
  let ?x = "(own s)\<lparr>rq_frames := []\<rparr>"
  have "req_complete (sb_options (base s)) (rq_frames (own s) @ wrap k i reply) ?x =
      (IoOk (Some reply), ?x\<lparr>rq_state := ReqIdle, rq_expected := None\<rparr>)"
    using req_complete_wrap [of "sb_options (base s)" k ?x i reply] assms(7-9) by (simp add: req_accept_def)
  note f = feeds_req [OF assms(3) this]
  have "env_reads (arriving chunks) = map ReadBytes chunks" by (simp add: arriving_def)
  from ready_read [OF assms(1,2,4,5) this f, of req_eof] assms(6,8) show ?thesis
    by (auto simp: req_recv_def)
qed

lemma request_reply_step:
  assumes "crypto_laws cr" and "\<And>bs. concat (pieces bs) = bs \<and> [] \<notin> set (pieces bs)"
    and "linked m m' k (length (wrap k 0 msg) + n) (length (wrap k 0 reply) + n') s t"
    and "\<And>i. fits m' (wrap k i msg)" and "\<And>i. fits m (wrap k i reply)" and "msg \<noteq> []" and "reply \<noteq> []"
    and "\<And>i. serve (wrap k i msg) = wrap k i reply"
  shows "\<exists>s' t'. request_reply cr pieces serve msg (s, t) = Some (reply, s', t') \<and> linked m m' k n n' s' t'"
proof -
  obtain w w' c d where l: "ready m w c (base s)" "ready m' w' d (base t)" "matched c d" "matched d c"
      "budget c (length (wrap k 0 msg) + n)" "budget d (length (wrap k 0 reply) + n')"
    and own: "rq_state (own s) = ReqIdle" "rq_frames (own s) = []" "opt_req_correlate (sb_options (base s)) = k"
      "rp_state (own t) = RepAwaitingRequest" "rp_frames (own t) = []"
    using assms(3) unfolding linked_def by blast
  have ne: "wrap k i msg \<noteq> []" "wrap k i reply \<noteq> []" "length (wrap k i reply) = length (wrap k 0 reply)" for i
    using assms(6,7) by (simp_all add: wrap_def)
  obtain i s1 e1 c1 d1 out where s1: "req_send cr msg s accepting = (IoOk (), s1, e1)" "ready m (w @ out) c1 (base s1)"
    "carries cr m' d out (message_parts (wrap k i msg)) d1" "matched c1 d1" "budget c1 n" "unsealing c1 = unsealing c"
    "rq_state (own s1) = ReqAwaitingReply" "rq_frames (own s1) = rq_frames (own s)"
    "opt_req_correlate (sb_options (base s1)) = k" "k \<longrightarrow> rq_expected (own s1) = Some i"
    using req_send_ready [OF assms(1) l(1) own(1) l(3,5) assms(4) own(3)] by blast
  obtain t1 e2 where t1: "rep_recv cr t (arriving (pieces out)) = (IoOk (Some (wrap k i msg)), t1, e2)" "ready m' w' d1 (base t1)"
    "sealing d1 = sealing d" "rp_state (own t1) = RepReadyToReply" "rp_frames (own t1) = []"
    using rep_recv_ready [OF l(2) s1(3) ne(1), of "pieces out"] assms(2) own(4,5) by blast
  have m1: "matched d1 c1" "budget d1 (length (wrap k i reply) + n')"
    using matched_cong [OF t1(3) s1(6)] budget_cong [OF t1(3)] l(4,6) ne(3) [of i] by simp_all
  obtain t2 e3 d2 c2 out2 where t2: "rep_send cr (wrap k i reply) t1 accepting = (IoOk (), t2, e3)" "ready m' (w' @ out2) d2 (base t2)"
    "carries cr m c1 out2 (message_parts (wrap k i reply)) c2" "matched d2 c2" "budget d2 n'" "unsealing d2 = unsealing d1"
    "rp_state (own t2) = RepAwaitingRequest" "rp_frames (own t2) = rp_frames (own t1)"
    using rep_send_ready [OF assms(1) t1(2,4) m1 assms(5)] by blast
  obtain s2 e4 where s2: "req_recv cr s1 (arriving (pieces out2)) = (IoOk (Some reply), s2, e4)" "ready m (w @ out) c2 (base s2)"
    "sealing c2 = sealing c1" "rq_state (own s2) = ReqIdle" "rq_frames (own s2) = []" "opt_req_correlate (sb_options (base s2)) = k"
    using req_recv_ready [OF s1(2) t2(3) ne(2), of "pieces out2"] assms(2) s1(7-10) own(2) by auto
  have "request_reply cr pieces serve msg (s, t) = Some (reply, s2, t2)"
    using s1(1) t1(1) t2(1) s2(1) delivered_out [OF l(1) s1(2)] delivered_out [OF t1(2) t2(2)] assms(8)
    by (simp add: request_reply_def)
  moreover have "matched c2 d2" "budget c2 n" using matched_cong [OF s2(3) t2(6)] budget_cong [OF s2(3)] s1(4,5) by simp_all
  then have "linked m m' k n n' s2 t2"
    unfolding linked_def using s2 t1(5) t2 by auto
  ultimately show ?thesis by blast
qed

lemma exchanges_all:
  assumes "crypto_laws cr" and "\<And>bs. concat (pieces bs) = bs \<and> [] \<notin> set (pieces bs)"
  shows "\<forall>msg \<in> set msgs. msg \<noteq> [] \<and> answer msg \<noteq> [] \<and>
      (\<forall>i. fits m' (wrap k i msg) \<and> fits m (wrap k i (answer msg)) \<and> serve (wrap k i msg) = wrap k i (answer msg)) \<Longrightarrow>
    linked m m' k (length (concat (map (wrap k 0) msgs))) (length (concat (map (\<lambda>msg. wrap k 0 (answer msg)) msgs))) s t \<Longrightarrow>
    exchanges cr pieces serve msgs (s, t) = Some (map answer msgs)"
proof (induction msgs arbitrary: s t)
  case (Cons msg msgs)
  have l: "linked m m' k (length (wrap k 0 msg) + length (concat (map (wrap k 0) msgs)))
      (length (wrap k 0 (answer msg)) + length (concat (map (\<lambda>msg. wrap k 0 (answer msg)) msgs))) s t"
    using Cons.prems(2) by simp
  have "\<exists>s' t'. request_reply cr pieces serve msg (s, t) = Some (answer msg, s', t') \<and>
      linked m m' k (length (concat (map (wrap k 0) msgs))) (length (concat (map (\<lambda>msg. wrap k 0 (answer msg)) msgs))) s' t'"
    using Cons.prems(1) by (intro request_reply_step [OF assms l]) simp_all
  with Cons show ?case by auto
qed simp

text \<open>A message whose first part is not the expected request number.\<close>

lemma envelope_unique: "length h = 4 \<Longrightarrow> word_of_nat (be_val h) = (i :: 32 word) \<Longrightarrow> h = request_envelope i"
proof -
  assume h: "length h = 4" "word_of_nat (be_val h) = i"
  have "be_val h < 256 ^ 4" using be_val_less [of h] h(1) by simp
  then have "unat i = be_val h" using h(2) by (auto simp: unat_of_nat)
  then show "h = request_envelope i" using be_bytes_be_val [of h] h(1) by (simp add: request_envelope_def)
qed

lemma req_complete_stale:
  assumes "opt_req_correlate opts" and "rq_expected x = Some i" and "msg \<noteq> []" and "hd msg \<noteq> request_envelope i"
  shows "req_complete opts msg x = (IoErr InvalidData, x)"
  using assms envelope_unique [of "hd msg" i] by (cases msg) (auto simp: req_complete_def)

lemma req_recv_carries:
  assumes "receiving m d v (base s)" and "carries cr m d o1 (message_parts msg) d1" and "msg \<noteq> []" and "o1 @ rest = v @ concat chunks"
    and "[] \<notin> set chunks" and "env_reads e = map ReadBytes chunks @ rs" and "rq_state (own s) = ReqAwaitingReply" and "rq_frames (own s) = []"
    and "req_complete (sb_options (base s)) msg (own s) = (r, x)"
  shows "\<exists>s1 v1 cs. req_recv cr s e = (r, s1, e\<lparr>env_reads := map ReadBytes cs @ rs\<rparr>) \<and> own s1 = x \<and> receiving m d1 v1 (base s1) \<and>
    rest = v1 @ concat cs \<and> [] \<notin> set cs \<and> sb_options (base s1) = sb_options (base s)"
proof -
  have same: "(own s)\<lparr>rq_frames := []\<rparr> = own s" using assms(8) by simp
  have f: "feeds req_data (sb_options (base s)) (message_parts msg) (own s) r x"
    by (rule feeds_req [OF assms(3)]) (simp only: assms(8) same append_Nil assms(9))
  from recv_loop_carries [OF assms(2,1,4-6) f, of req_eof] obtain b v1 cs where
    "recv_loop cr req_data req_eof s e = (r, s\<lparr>base := b, own := x\<rparr>, e\<lparr>env_reads := map ReadBytes cs @ rs\<rparr>)"
    "receiving m d1 v1 b" "rest = v1 @ concat cs" "\<exists>pre. chunks = pre @ cs" "send_side b = send_side (base s)" by blast
  moreover from this(4) assms(5) have "[] \<notin> set cs" by auto
  ultimately show ?thesis using assms(7) send_side_options [of b "base s"]
    by (intro exI [of _ "s\<lparr>base := b, own := x\<rparr>"] exI [of _ v1] exI [of _ cs]) (simp add: req_recv_def)
qed

subsection \<open>Reconnection\<close>

lemma lost_reset:
  "lost (s\<lparr>own := x\<rparr>) = lost s"
  by (simp add: lost_def)

lemma reconnected_idle:
  assumes "on_base (base_try_reconnect cr io StReq) s e = (IoOk u, s1, e1)" and "rq_state (own s) = ReqIdle"
  shows "req_recv cr s1 e1 = (IoErr InvalidInput, s1, e1) \<and> \<not> lost s1"
proof -
  obtain b where b: "base_try_reconnect cr io StReq (base s) e = (IoOk (), b, e1)" "s1 = s\<lparr>base := b\<rparr>"
    using assms(1) by (auto simp: on_base_def split: prod.splits)
  from try_reconnect_IoOk [OF b(1)] have "sb_stream b \<noteq> None" by (auto simp: fresh_connection_def)
  with b(2) assms(2) show ?thesis by (simp add: req_recv_def lost_def)
qed

definition returned :: "'a io_out \<Rightarrow> bool" where
  "returned r \<longleftrightarrow> (case r of IoOk _ \<Rightarrow> True | _ \<Rightarrow> False)"

lemma returned_simps [simp]: "returned (IoOk x)" "\<not> returned (IoErr k)" "\<not> returned IoDropped" "\<not> returned IoPanic"
  by (simp_all add: returned_def)

text \<open>\<open>recv\<close> reports the end of the stream only when it has given the stream up.\<close>

lemma read_raw_eof: "read_raw b e = (IoOk 0, b1, e1) \<Longrightarrow> sb_stream b1 = None"
  by (auto simp: read_raw_def note_recv_def instant_now_def aio_bind_def aio_return_def
      split: if_splits prod.splits read_outcome.splits option.splits)

lemma recv_loop_eof:
  "\<forall>opts mo p x. fst (on_data opts mo p x) \<noteq> Some (IoOk None) \<Longrightarrow> recv_loop cr on_data on_eof s e = (IoOk None, s1, e1) \<Longrightarrow> lost s1"
proof (induction cr on_data on_eof s e rule: recv_loop.induct)
  case IH: (1 cr on_data on_eof s e)
  from IH(5) obtain fr s2 e2 where p: "on_base (process_frame cr) s e = (IoOk fr, s2, e2)"
    by (auto simp: recv_loop.simps [of cr on_data on_eof s e] aio_bind_IoOk)
  show ?case
  proof (cases fr)
    case (FData mo q)
    obtain y x where yx: "on_data (sb_options (base s2)) mo q (own s2) = (y, x)" by fastforce
    with IH(4) have "y \<noteq> Some (IoOk None)" by (metis fst_conv)
    with IH(1) [OF p FData yx [symmetric]] IH(4,5) p FData yx show ?thesis
      by (cases y) (auto simp: recv_loop.simps [of cr on_data on_eof s e] aio_bind_def)
  next
    case FCommandHandled
    with IH(2) [OF p FCommandHandled] IH(4,5) p show ?thesis
      by (auto simp: recv_loop.simps [of cr on_data on_eof s e] aio_bind_IoOk)
  next
    case FNeedMore
    with IH(5) p obtain n s3 e3 where n: "on_base read_raw s2 e2 = (IoOk n, s3, e3)"
      by (auto simp: recv_loop.simps [of cr on_data on_eof s e] aio_bind_IoOk)
    show ?thesis
    proof (cases "n = 0")
      case True
      with n have "lost s3" by (auto simp: lost_def on_base_def split: prod.splits dest!: read_raw_eof)
      with IH(5) p n FNeedMore True show ?thesis
        by (auto simp: recv_loop.simps [of cr on_data on_eof s e] aio_bind_def lost_def split: prod.splits)
    next
      case False
      with IH(3) [OF p FNeedMore n False] IH(4,5) p n FNeedMore show ?thesis
        by (auto simp: recv_loop.simps [of cr on_data on_eof s e] aio_bind_IoOk)
    qed
  qed
qed

lemma req_recv_eof: "req_recv cr s e = (IoOk None, s1, e1) \<Longrightarrow> lost s1"
  by (auto simp: req_recv_def req_data_def req_complete_def req_accept_def Let_def split: if_splits list.splits option.splits
      intro!: recv_loop_eof [of req_data cr req_eof s e s1 e1])

lemma lost_recv_fails:
  "lost s \<Longrightarrow> \<not> returned (fst (recv_reconnecting req_reset (\<lambda>io. on_base (base_try_reconnect cr io StReq)) (req_recv cr) limit n ios s e))"
proof (cases ios)
  case (Cons io ios')
  assume l: "lost s"
  let ?s = "s\<lparr>own := req_reset (own s)\<rparr>"
  obtain r s1 e1 where t: "on_base (base_try_reconnect cr io StReq) ?s e = (r, s1, e1)" by (metis prod_cases3)
  show ?thesis
  proof (cases r)
    case (IoOk u)
    have "rq_state (own ?s) = ReqIdle" by (simp add: req_reset_def)
    from reconnected_idle [OF t [unfolded IoOk] this] l Cons t IoOk show ?thesis
      by (simp add: aio_bind_def reconnectable_def)
  qed (use l Cons t in \<open>simp_all add: aio_bind_def\<close>)
qed simp

section \<open>Properties\<close>

text \<open>C7. Requests are answered. Over a connection whose ends hold matching ciphers, or none, and whatever the
  pieces in which the transport delivers the bytes, any sequence of requests gets, one by one,
  the replies of the server. With \<open>req_correlate\<close> the request number travels first, wraps around as
  a 32-bit number, and a server that returns it with its reply is understood.\<close>

theorem requests_answered:
  assumes "crypto_laws cr" and "\<forall>bs. concat (pieces bs) = bs \<and> [] \<notin> set (pieces bs)"
    and "\<forall>msg \<in> set msgs. msg \<noteq> [] \<and> answer msg \<noteq> [] \<and>
      (\<forall>i. fits m' (wrap k i msg) \<and> fits m (wrap k i (answer msg)) \<and> serve (wrap k i msg) = wrap k i (answer msg))"
    and "matched c d" and "matched d c" and "budget c (length (concat (map (wrap k 0) msgs)))"
    and "budget d (length (concat (map (\<lambda>msg. wrap k 0 (answer msg)) msgs)))"
    and "ready m w c (base s)" and "rq_state (own s) = ReqIdle" and "rq_frames (own s) = []"
    and "opt_req_correlate (sb_options (base s)) = k"
    and "ready m' w' d (base t)" and "rp_state (own t) = RepAwaitingRequest" and "rp_frames (own t) = []"
  shows "exchanges cr pieces serve msgs (s, t) = Some (map answer msgs)"
proof (rule exchanges_all [OF assms(1) _ assms(3)])
  show "linked m m' k (length (concat (map (wrap k 0) msgs))) (length (concat (map (\<lambda>msg. wrap k 0 (answer msg)) msgs))) s t"
    unfolding linked_def using assms(4-14) by blast
qed (use assms(2) in blast)

lemma ready_new:
  "opt_heartbeat_ivl opts = None \<Longrightarrow> opt_recv_timeout opts \<noteq> Some 0 \<Longrightarrow> opt_send_timeout opts \<noteq> Some 0 \<Longrightarrow>
   opt_max_msg_size opts = Some m \<Longrightarrow> ready m [] c ((base_new opts)\<lparr>sb_curve_cipher := c\<rparr>)"
  by (simp add: ready_def sending_new receiving_new)

definition demo_req :: req_socket where
  "demo_req = \<lparr>base = (base_new (demo_options\<lparr>opt_req_correlate := True\<rparr>))\<lparr>sb_curve_cipher := Some (new_client [5] 1 1)\<rparr>,
     own = req_new_fields\<rparr>"

definition demo_rep :: rep_socket where
  "demo_rep = \<lparr>base = (base_new demo_options)\<lparr>sb_curve_cipher := Some (new_server [5] 1 1)\<rparr>,
     own = \<lparr>rp_frames = [], rp_state = RepAwaitingRequest\<rparr>\<rparr>"

lemma demo_ready:
  "ready 1000 [] (Some (new_client [5] 1 1)) (base demo_req)" "ready 1000 [] (Some (new_server [5] 1 1)) (base demo_rep)"
  by (simp_all add: demo_req_def demo_rep_def ready_new demo_options_def socket_options_default_def)

theorem requests_answered_witness:
  "exchanges tag_crypto (map (\<lambda>b. [b])) (\<lambda>q. take 1 q @ rev (drop 1 q)) [[[1], [2]], [[3]]] (demo_req, demo_rep) =
     Some (map rev [[[1], [2]], [[3]]])"
  by (rule requests_answered [OF tag_crypto_laws _ _ _ _ _ _ demo_ready(1) _ _ _ demo_ready(2), where k = True])
    (auto simp: new_client_def new_server_def usize_max_def fits_def wrap_def demo_req_def demo_rep_def req_new_fields_def
      base_new_def concat_map_singleton)

text \<open>A stale reply is refused and skipped. While a correlated request waits for the reply with its number, a message that
  starts with anything else, such as the late reply to an earlier request, makes \<open>recv\<close> fail with
  \<open>InvalidData\<close>; it is dropped, the socket still waits, and the next \<open>recv\<close> returns the right reply.\<close>

theorem stale_reply_refused:
  assumes "crypto_laws cr" and "matched d c" and "budget d (length stale + (length reply + 1))"
    and "fits m stale" and "fits m (request_envelope i # reply)" and "stale \<noteq> []" and "hd stale \<noteq> request_envelope i"
    and "encode_message cr d stale [] = (True, d1, o1)" and "encode_message cr d1 (request_envelope i # reply) [] = (True, d2, o2)"
    and "receiving m c [] (base s)" and "opt_req_correlate (sb_options (base s))" and "rq_state (own s) = ReqAwaitingReply"
    and "rq_expected (own s) = Some i" and "rq_frames (own s) = []"
    and "concat chunks = o1 @ o2" and "[] \<notin> set chunks" and "env_reads e = map ReadBytes chunks"
  shows "recv_all (req_recv cr) 2 s e = [IoErr InvalidData, IoOk (Some reply)]"
proof -
  obtain c1 where c1: "carries cr m c o1 (message_parts stale) c1" "matched d1 c1" "budget d1 (length reply + 1)"
    using encode_message_carries [OF assms(1,4,2,3), of "[]"] assms(8) by auto
  obtain c2 where c2: "carries cr m c1 o2 (message_parts (request_envelope i # reply)) c2"
    using encode_message_carries [OF assms(1,5) c1(2), of 0 "[]"] c1(3) assms(9) by auto
  obtain s1 v1 cs where s1: "req_recv cr s e = (IoErr InvalidData, s1, e\<lparr>env_reads := map ReadBytes cs @ []\<rparr>)" "own s1 = own s"
    "receiving m c1 v1 (base s1)" "o2 = v1 @ concat cs" "[] \<notin> set cs" "sb_options (base s1) = sb_options (base s)"
    using req_recv_carries [OF assms(10) c1(1) assms(6) _ assms(16) _ assms(12,14) req_complete_stale [OF assms(11,13,6,7)], of o2 e "[]"]
      assms(15,17) by auto
  have "req_complete (sb_options (base s1)) (request_envelope i # reply) (own s1) = req_accept reply (own s1)"
    using req_complete_wrap [of _ True "own s1" i reply] s1(2,6) assms(11,13) by (simp add: wrap_def)
  from req_recv_carries [OF s1(3) c2 _ _ s1(5) _ _ _ this [unfolded req_accept_def], of "[]" "e\<lparr>env_reads := map ReadBytes cs\<rparr>" "[]"]
  obtain s2 e2 where "req_recv cr s1 (e\<lparr>env_reads := map ReadBytes cs\<rparr>) = (IoOk (Some reply), s2, e2)"
    using s1(2,4) assms(12,14) by auto
  with s1(1) show ?thesis by (simp add: numeral_2_eq_2)
qed

definition waiting_req :: "32 word \<Rightarrow> req_socket" where
  "waiting_req i = \<lparr>base = base demo_req, own = req_new_fields\<lparr>rq_state := ReqAwaitingReply, rq_id := i, rq_expected := Some i\<rparr>\<rparr>"

theorem stale_reply_refused_witness:
  "\<exists>d1 o1 d2 o2. encode_message tag_crypto (Some (new_server [5] 1 1)) (request_envelope 1 # [[7]]) [] = (True, d1, o1) \<and>
     encode_message tag_crypto d1 (request_envelope 2 # [[8]]) [] = (True, d2, o2) \<and>
     recv_all (req_recv tag_crypto) 2 (waiting_req 2) (arriving (map (\<lambda>b. [b]) (o1 @ o2))) = [IoErr InvalidData, IoOk (Some [[8]])]"
proof -
  let ?d = "Some (new_server [5] 1 1)" and ?stale = "request_envelope 1 # [[7 :: byte]]"
  have f: "fits 1000 ?stale" "fits 1000 (request_envelope 2 # [[8]])" by (simp_all add: fits_def)
  have m: "matched ?d (Some (new_client [5] 1 1))" by (simp add: new_client_def new_server_def)
  have b: "budget ?d (length ?stale + (length [[8 :: byte]] + 1))" by (simp add: new_server_def usize_max_def)
  obtain d1 o1 c1 where e1: "encode_message tag_crypto ?d ?stale [] = (True, d1, o1)" "matched d1 c1" "budget d1 (length [[8 :: byte]] + 1)"
    using encode_message_carries [OF tag_crypto_laws f(1) m b, of "[]"] by auto
  obtain d2 o2 where e2: "encode_message tag_crypto d1 (request_envelope 2 # [[8]]) [] = (True, d2, o2)"
    using encode_message_carries [OF tag_crypto_laws f(2) e1(2), of 0 "[]"] e1(3) by auto
  have h: "request_envelope 1 \<noteq> request_envelope 2"
  proof
    assume "request_envelope 1 = request_envelope 2"
    then have "(1 :: 32 word) = 2" using envelope(2) [of 1] envelope(2) [of 2] by simp
    then show False by simp
  qed
  have "recv_all (req_recv tag_crypto) 2 (waiting_req 2) (arriving (map (\<lambda>b. [b]) (o1 @ o2))) = [IoErr InvalidData, IoOk (Some [[8]])]"
    using demo_ready(1) h
    by (intro stale_reply_refused [OF tag_crypto_laws m b f _ _ e1(1) e2, where chunks = "map (\<lambda>b. [b]) (o1 @ o2)"])
      (auto simp: waiting_req_def ready_def demo_req_def base_new_def req_new_fields_def arriving_def concat_map_singleton)
  with e1(1) e2 show ?thesis by blast
qed

text \<open>C8. Requests and replies alternate. In any sequence of \<open>send\<close> and \<open>recv\<close> calls on a REQ socket that is not
  relaxed, and on any REP socket, whatever the network does to each call and wherever calls are
  dropped, the calls that complete are a send and a receive in turn; a connection found closed
  gives the turn back to the request socket, and leaves the reply socket waiting.\<close>

theorem request_reply_alternate:
  assumes "\<not> opt_req_relaxed (sb_options (base s))"
  shows "alternates True (rq_state (own s) = ReqIdle) (lock_trace (req_send cr) (req_recv cr) calls s) \<and>
    alternates False (rp_state (own t) = RepReadyToReply) (lock_trace (rep_send cr) (rep_recv cr) calls t)"
  using req_lock.alternation [of s cr calls] rep_lock.alternation [of t cr calls] assms
  by (simp add: req_strict_def req_turn_def rep_turn_def)

theorem request_reply_alternate_witness:
  "alternates True (rq_state (own demo_req) = ReqIdle)
     (lock_trace (req_send tag_crypto) (req_recv tag_crypto) [(Some [[1]], accepting), (Some [[2]], accepting), (None, quiet_env)] demo_req) \<and>
   alternates False (rp_state (own demo_rep) = RepReadyToReply)
     (lock_trace (rep_send tag_crypto) (rep_recv tag_crypto) [(Some [[1]], accepting), (Some [[2]], accepting), (None, quiet_env)] demo_rep)"
  by (rule request_reply_alternate) (simp add: demo_req_def base_new_def demo_options_def socket_options_default_def)

text \<open>C38. No reply arrives through a reconnection. \<open>recv_with_reconnect\<close> of REQ returns a reply only if the
  first \<open>recv\<close> does: once the connection is lost the socket is set back to idle, so after a successful
  reconnection its \<open>recv\<close> refuses to wait for a reply.\<close>

theorem req_reconnect_never_returns:
  "(if lost s then \<not> returned (fst (req_recv_with_reconnect cr ios s e))
    else case req_recv cr s e of
      (IoOk (Some reply), s1, e1) \<Rightarrow> ios = [] \<or> req_recv_with_reconnect cr ios s e = (IoOk (Some reply), s1, e1)
    | _ \<Rightarrow> \<not> returned (fst (req_recv_with_reconnect cr ios s e)))"
proof (cases ios)
  case (Cons io ios')
  show ?thesis
  proof (cases "lost s")
    case False
    obtain r s1 e1 where r: "req_recv cr s e = (r, s1, e1)" by (metis prod_cases3)
    show ?thesis
    proof (cases r)
      case (IoOk msg)
      show ?thesis
      proof (cases msg)
        case None
        with req_recv_eof r IoOk have "lost s1" by blast
        then show ?thesis using None IoOk r False Cons lost_recv_fails [of "s1\<lparr>own := req_reset (own s1)\<rparr>"]
          by (simp add: req_recv_with_reconnect_def aio_bind_def aio_return_def lost_reset)
      qed (use IoOk r False Cons in \<open>simp add: req_recv_with_reconnect_def aio_bind_def aio_return_def\<close>)
    next
      case (IoErr k)
      have "lost (drop_stream (s1\<lparr>own := req_reset (own s1)\<rparr>))" by (simp add: lost_def drop_stream_def)
      from lost_recv_fails [OF this] show ?thesis using IoErr r False Cons
        by (simp add: req_recv_with_reconnect_def aio_bind_def aio_return_def)
    qed (use r False Cons in \<open>simp_all add: req_recv_with_reconnect_def aio_bind_def aio_return_def\<close>)
  qed (simp add: req_recv_with_reconnect_def lost_recv_fails)
qed (simp add: req_recv_with_reconnect_def split: prod.split io_out.split option.split)

end
