(* ===== verification/Sub_Sockets.thy ===== *)
theory Sub_Sockets
  imports Req_Rep Subscription_Index
begin

text \<open>
  \<open>monocoque-zmtp/src/subscriber.rs\<close> and \<open>xsub.rs\<close>: the subscribing sockets. Both announce their
  subscriptions to the publisher as messages; SUB also filters what it receives. The theorems: a
  SUB socket returns exactly the messages its subscriptions select; its list of subscriptions
  stays sorted and free of repetitions; and three places where the code does not do what it means
  to, the unguarded writes of subscription messages among them.
\<close>

section \<open>Subscription messages\<close>

text \<open>\<open>stream.write_all(wire)\<close> without a poison guard, a timeout or a check of the poison flag.\<close>

definition unguarded_write :: "bytes \<Rightarrow> unit base_op" where
  "unguarded_write bs b e =
     (case sb_stream b of
        None \<Rightarrow> (IoErr NotConnected, b, e)
      | Some w \<Rightarrow>
          (case pop_write e of
             (Written, e1) \<Rightarrow> (IoOk (), b\<lparr>sb_stream := Some (w @ bs)\<rparr>, e1)
           | (WriteFails k n, e1) \<Rightarrow> (IoErr k, b\<lparr>sb_stream := Some (w @ take n bs)\<rparr>, e1)
           | (WriteStalls n, e1) \<Rightarrow> (IoDropped, b\<lparr>sb_stream := Some (w @ take n bs)\<rparr>, e1)
           | (WriteDropped n, e1) \<Rightarrow> (IoDropped, b\<lparr>sb_stream := Some (w @ take n bs)\<rparr>, e1)))"

definition send_sub_event :: "curve_crypto \<Rightarrow> byte \<Rightarrow> bytes \<Rightarrow> unit base_op" where
  "send_sub_event cr cmd topic b e =
     (let payload = [cmd] @ topic in
      case sb_curve_cipher b of
        Some c \<Rightarrow>
          (case encrypt_frame cr c payload False of
             (Inl _, c1) \<Rightarrow> (IoErr InvalidData, b\<lparr>sb_curve_cipher := Some c1\<rparr>, e)
           | (Inr body, c1) \<Rightarrow> unguarded_write (append_zmtp_cmd_frame [] body) (b\<lparr>sb_curve_cipher := Some c1\<rparr>) e)
      | None \<Rightarrow> unguarded_write (encode_multipart [payload] []) b e)"

section \<open>SUB\<close>

record sub_fields =
  sf_frames :: "bytes list"
  sf_subscriptions :: "bytes list"

type_synonym sub_socket = "sub_fields sock"

definition set_subscriptions :: "bytes list \<Rightarrow> sub_socket \<Rightarrow> sub_socket" where
  "set_subscriptions subs s = s\<lparr>own := (own s)\<lparr>sf_subscriptions := subs\<rparr>\<rparr>"

definition sub_subscribe :: "curve_crypto \<Rightarrow> bytes \<Rightarrow> (sub_socket, unit) aio" where
  "sub_subscribe cr topic s =
     (if topic \<notin> set (sf_subscriptions (own s))
      then aio_bind (on_base (send_sub_event cr 0x01 topic))
             (\<lambda>_ s1. aio_return () (set_subscriptions (sort (sf_subscriptions (own s1) @ [topic])) s1)) s
      else on_base (send_sub_event cr 0x01 topic) s)"

definition sub_unsubscribe :: "curve_crypto \<Rightarrow> bytes \<Rightarrow> (sub_socket, unit) aio" where
  "sub_unsubscribe cr topic s =
     on_base (send_sub_event cr 0x00 topic) (set_subscriptions (filter (\<lambda>p. p \<noteq> topic) (sf_subscriptions (own s))) s)"

fun for_each :: "('a \<Rightarrow> ('s, unit) aio) \<Rightarrow> 'a list \<Rightarrow> ('s, unit) aio" where
  "for_each f [] = aio_return ()"
| "for_each f (x # xs) = aio_bind (f x) (\<lambda>_. for_each f xs)"

definition sub_fields_new :: sub_fields where
  "sub_fields_new = \<lparr>sf_frames = [], sf_subscriptions = []\<rparr>"

definition sub_with_options ::
  "curve_crypto \<Rightarrow> curve_entropy \<Rightarrow> zap_environment \<Rightarrow> hs_stream \<Rightarrow> socket_options \<Rightarrow> io_env \<Rightarrow> sub_socket io_out \<times> io_env" where
  "sub_with_options cr ent zap conn opts e =
     (case with_handshake cr ent zap StSub (opt_routing_id opts) opts
             (\<lambda>opts. base_new (opts\<lparr>opt_subscriptions := [], opt_unsubscriptions := []\<rparr>)) conn of
        IoOk (_, b) \<Rightarrow>
          (case aio_bind (for_each (sub_subscribe cr) (opt_subscriptions opts))
                  (\<lambda>_. for_each (sub_unsubscribe cr) (opt_unsubscriptions opts)) \<lparr>base = b, own = sub_fields_new\<rparr> e of
             (r, s, e1) \<Rightarrow> (io_map (\<lambda>_. s) r, e1))
      | IoErr k \<Rightarrow> (IoErr k, e)
      | IoDropped \<Rightarrow> (IoDropped, e)
      | IoPanic \<Rightarrow> (IoPanic, e))"

definition sub_connect_with_options ::
  "curve_crypto \<Rightarrow> curve_entropy \<Rightarrow> zap_environment \<Rightarrow> str \<Rightarrow> io_error_kind option \<Rightarrow> hs_stream \<Rightarrow> socket_options \<Rightarrow> sub_socket io_out" where
  "sub_connect_with_options cr ent zap addr configure conn opts =
     io_map (\<lambda>(_, b). \<lparr>base = b, own = sub_fields_new\<rparr>) (connect_handshake cr ent zap StSub addr configure conn opts)"

text \<open>The test of \<open>recv\<close>: \<open>msg.first()\<close> exists and starts with a subscription, or there is none.\<close>

definition sub_matches :: "bytes list \<Rightarrow> bytes list \<Rightarrow> bool" where
  "sub_matches subs msg \<longleftrightarrow>
     (case msg of
        [] \<Rightarrow> False
      | first_frame # _ \<Rightarrow> subs = [] \<or> list_ex (\<lambda>sub. starts_with first_frame sub) subs)"

definition sub_data :: "(sub_fields, bytes list option) data_handler" where
  "sub_data opts mo p x =
     (let frames = sf_frames x @ [p] in
      if \<not> mo
      then (if sub_matches (sf_subscriptions x) frames then Some (IoOk (Some frames)) else None, x\<lparr>sf_frames := []\<rparr>)
      else (None, x\<lparr>sf_frames := frames\<rparr>))"

definition sub_recv :: "curve_crypto \<Rightarrow> (sub_socket, bytes list option) aio" where
  "sub_recv cr = recv_loop cr sub_data eof_none"

definition sub_try_reconnect :: "curve_crypto \<Rightarrow> reconnect_io \<Rightarrow> (sub_socket, unit) aio" where
  "sub_try_reconnect cr io =
     aio_bind (on_base (base_try_reconnect cr io StSub)) (\<lambda>_ s.
       let subs = sf_subscriptions (own s) in
       aio_bind (for_each (\<lambda>topic. on_base (send_sub_event cr 0x01 topic)) subs)
         (\<lambda>_ s1. aio_return () (set_subscriptions subs s1)) (set_subscriptions [] s))"

definition sub_recv_with_reconnect :: "curve_crypto \<Rightarrow> reconnect_io list \<Rightarrow> (sub_socket, bytes list option) aio" where
  "sub_recv_with_reconnect cr ios s =
     recv_reconnecting id (sub_try_reconnect cr) (sub_recv cr) (opt_max_reconnect_attempts (sb_options (base s))) 0 ios s"

section \<open>XSUB\<close>

type_synonym xsub_socket = "subscription_trie sock"

definition xsub_with_options ::
  "curve_crypto \<Rightarrow> curve_entropy \<Rightarrow> zap_environment \<Rightarrow> hs_stream \<Rightarrow> socket_options \<Rightarrow> xsub_socket io_out" where
  "xsub_with_options cr ent zap conn opts =
     io_map (\<lambda>(_, b). \<lparr>base = b, own = trie_new\<rparr>) (with_handshake cr ent zap StXsub (opt_routing_id opts) opts base_new conn)"

definition xsub_connect_with_options ::
  "curve_crypto \<Rightarrow> curve_entropy \<Rightarrow> zap_environment \<Rightarrow> str \<Rightarrow> io_error_kind option \<Rightarrow> hs_stream \<Rightarrow> socket_options \<Rightarrow> xsub_socket io_out" where
  "xsub_connect_with_options cr ent zap addr configure conn opts =
     io_map (\<lambda>(_, b). \<lparr>base = b, own = trie_new\<rparr>) (connect_handshake cr ent zap StXsub addr configure conn opts)"

definition send_subscription_event_prefix :: "curve_crypto \<Rightarrow> byte \<Rightarrow> bytes \<Rightarrow> (xsub_socket, unit) aio" where
  "send_subscription_event_prefix cr cmd topic = on_base (send_sub_event cr cmd topic)"

definition send_subscription_event :: "curve_crypto \<Rightarrow> subscription_event \<Rightarrow> (xsub_socket, unit) aio" where
  "send_subscription_event cr event =
     (case event of
        Subscribe topic \<Rightarrow> send_subscription_event_prefix cr 0x01 topic
      | Unsubscribe topic \<Rightarrow> send_subscription_event_prefix cr 0x00 topic)"

definition xsub_subscribe :: "curve_crypto \<Rightarrow> bytes \<Rightarrow> (xsub_socket, unit) aio" where
  "xsub_subscribe cr topic =
     aio_bind (send_subscription_event_prefix cr 0x01 topic) (\<lambda>_ s. aio_return () (s\<lparr>own := trie_subscribe topic (own s)\<rparr>))"

definition xsub_unsubscribe :: "curve_crypto \<Rightarrow> bytes \<Rightarrow> (xsub_socket, unit) aio" where
  "xsub_unsubscribe cr topic s =
     (let s1 = s\<lparr>own := trie_unsubscribe topic (own s)\<rparr> in
      if opt_xsub_verbose_unsubs (sb_options (base s1)) then send_subscription_event_prefix cr 0x00 topic s1
      else aio_return () s1)"

text \<open>The frames of a message are local to one call of \<open>recv\<close>.\<close>

definition xsub_recv :: "curve_crypto \<Rightarrow> (xsub_socket, bytes list option) aio" where
  "xsub_recv cr s e =
     (case recv_loop cr collect_frames eof_none \<lparr>base = base s, own = []\<rparr> e of (r, s1, e1) \<Rightarrow> (r, s\<lparr>base := base s1\<rparr>, e1))"

definition xsub_try_reconnect :: "curve_crypto \<Rightarrow> reconnect_io \<Rightarrow> (xsub_socket, unit) aio" where
  "xsub_try_reconnect cr io =
     aio_bind (on_base (base_try_reconnect cr io StXsub)) (\<lambda>_ s.
       for_each (\<lambda>topic. send_subscription_event cr (Subscribe topic)) (trie_subscriptions (own s)) s)"

definition xsub_recv_with_reconnect :: "curve_crypto \<Rightarrow> reconnect_io list \<Rightarrow> (xsub_socket, bytes list option) aio" where
  "xsub_recv_with_reconnect cr ios s =
     recv_reconnecting id (xsub_try_reconnect cr) (xsub_recv cr) (opt_max_reconnect_attempts (sb_options (base s))) 0 ios s"

definition is_subscribed :: "xsub_socket \<Rightarrow> bytes \<Rightarrow> bool" where
  "is_subscribed s topic = trie_matches (own s) topic"

section \<open>What a subscriber delivers\<close>

text \<open>The frames of messages that are not wanted lead nowhere, those of a wanted one to its delivery.\<close>

lemma feeds_sub_wanted:
  "msg \<noteq> [] \<Longrightarrow> sub_matches (sf_subscriptions x) (sf_frames x @ msg) \<Longrightarrow>
   feeds sub_data opts (message_parts msg) x (IoOk (Some (sf_frames x @ msg))) (x\<lparr>sf_frames := []\<rparr>)"
proof (induction msg arbitrary: x)
  case (Cons p ps)
  then show ?case using Cons.IH [of "x\<lparr>sf_frames := sf_frames x @ [p]\<rparr>"]
    by (cases "ps = []") (simp_all add: sub_data_def)
qed simp

lemma feeds_sub_unwanted:
  "msg \<noteq> [] \<Longrightarrow> \<not> sub_matches (sf_subscriptions x) (sf_frames x @ msg) \<Longrightarrow>
   feeds sub_data opts (message_parts msg @ ds) x r x' = feeds sub_data opts ds (x\<lparr>sf_frames := []\<rparr>) r x'"
proof (induction msg arbitrary: x)
  case (Cons p ps)
  then show ?case using Cons.IH [of "x\<lparr>sf_frames := sf_frames x @ [p]\<rparr>"]
    by (cases "ps = []") (simp_all add: sub_data_def)
qed simp

fun encode_messages :: "curve_crypto \<Rightarrow> message_cipher option \<Rightarrow> bytes list list \<Rightarrow> bytes \<Rightarrow> bool \<times> message_cipher option \<times> bytes" where
  "encode_messages cr c [] buf = (True, c, buf)"
| "encode_messages cr c (msg # msgs) buf =
     (case encode_message cr c msg buf of
        (True, c1, buf1) \<Rightarrow> encode_messages cr c1 msgs buf1
      | (False, c1, buf1) \<Rightarrow> (False, c1, buf1))"

lemma encode_messages_carries:
  assumes "crypto_laws cr"
  shows "matched c d \<Longrightarrow> budget c (length (concat msgs) + k) \<Longrightarrow> \<forall>msg \<in> set msgs. fits m msg \<Longrightarrow>
    \<exists>c' d' out. encode_messages cr c msgs buf = (True, c', buf @ out) \<and> carries_messages cr m d out msgs d' \<and> matched c' d' \<and> budget c' k"
proof (induction msgs arbitrary: c d buf)
  case (Cons msg msgs)
  have "budget c (length msg + (length (concat msgs) + k))" using Cons.prems(2) by (simp add: add.assoc)
  with encode_message_carries [OF assms, of m msg c d _ buf] Cons.prems obtain c1 d1 o1 where
    enc: "encode_message cr c msg buf = (True, c1, buf @ o1)" "carries cr m d o1 (message_parts msg) d1" "matched c1 d1"
      "budget c1 (length (concat msgs) + k)" by (metis list.set_intros(1))
  obtain c' d' o2 where "encode_messages cr c1 msgs (buf @ o1) = (True, c', (buf @ o1) @ o2)" "carries_messages cr m d1 o2 msgs d'"
    "matched c' d'" "budget c' k"
    using Cons.IH [OF enc(3,4), of "buf @ o1"] Cons.prems(3) by auto
  with enc show ?case by (intro exI [of _ c'] exI [of _ d'] exI [of _ "o1 @ o2"]) auto
qed simp

lemma carries_messages_append:
  "carries_messages cr m d out (xs @ ys) d' \<longleftrightarrow>
   (\<exists>o1 o2 d1. out = o1 @ o2 \<and> carries_messages cr m d o1 xs d1 \<and> carries_messages cr m d1 o2 ys d')"
proof (induction xs arbitrary: d out)
  case (Cons x xs)
  show ?case
    by (simp add: Cons.IH) (metis append_assoc)
qed simp

lemma carries_messages_parts:
  "carries_messages cr m d out msgs d' \<Longrightarrow> carries cr m d out (concat (map message_parts msgs)) d'"
proof (induction msgs arbitrary: d out)
  case Nil
  then show ?case by (simp add: carries_Nil)
next
  case (Cons msg msgs)
  then show ?case by (auto intro: carries_append)
qed

lemma feeds_sub_skip:
  "\<forall>msg \<in> set skipped. msg \<noteq> [] \<and> \<not> sub_matches (sf_subscriptions x) msg \<Longrightarrow> sf_frames x = [] \<Longrightarrow>
   feeds sub_data opts (concat (map message_parts skipped) @ ds) x r x' = feeds sub_data opts ds x r x'"
proof (induction skipped)
  case (Cons msg skipped)
  have "x\<lparr>sf_frames := []\<rparr> = x" using Cons.prems(2) by simp
  with feeds_sub_unwanted [of msg x opts "concat (map message_parts skipped) @ ds" r x'] Cons show ?case by simp
qed simp

lemma sub_recv_next:
  assumes "carries_messages cr m d out (skipped @ msg # rest) d'"
    and "\<forall>x \<in> set skipped. x \<noteq> [] \<and> \<not> sub_matches subs x" and "msg \<noteq> []" and "sub_matches subs msg"
    and "receiving m d v (base s)" and "own s = \<lparr>sf_frames = [], sf_subscriptions = subs\<rparr>"
    and "out = v @ concat chunks" and "[] \<notin> set chunks" and "env_reads e = map ReadBytes chunks @ rs"
  shows "\<exists>s1 v1 cs d1 o2. sub_recv cr s e = (IoOk (Some msg), s1, e\<lparr>env_reads := map ReadBytes cs @ rs\<rparr>) \<and>
    receiving m d1 v1 (base s1) \<and> own s1 = own s \<and> carries_messages cr m d1 o2 rest d' \<and> o2 = v1 @ concat cs \<and> [] \<notin> set cs"
proof -
  have "carries_messages cr m d out ((skipped @ [msg]) @ rest) d'" using assms(1) by simp
  then obtain o1 o2 d1 where o: "out = o1 @ o2" "carries_messages cr m d o1 (skipped @ [msg]) d1" "carries_messages cr m d1 o2 rest d'"
    unfolding carries_messages_append by blast
  have c: "carries cr m d o1 (concat (map message_parts skipped) @ message_parts msg) d1"
    using carries_messages_parts [OF o(2)] by simp
  have f: "feeds sub_data (sb_options (base s)) (concat (map message_parts skipped) @ message_parts msg) (own s) (IoOk (Some msg)) (own s)"
    using assms(2,4,6) feeds_sub_wanted [OF assms(3), of "own s"] by (simp add: feeds_sub_skip)
  from recv_loop_carries [OF c assms(5) _ assms(8,9) f, of o2 eof_none] o(1) assms(7) obtain b v1 cs where
    "recv_loop cr sub_data eof_none s e = (IoOk (Some msg), s\<lparr>base := b, own := own s\<rparr>, e\<lparr>env_reads := map ReadBytes cs @ rs\<rparr>)"
    "receiving m d1 v1 b" "o2 = v1 @ concat cs" "\<exists>pre. chunks = pre @ cs" by auto
  moreover from this(4) assms(8) have "[] \<notin> set cs" by auto
  ultimately show ?thesis using o(3)
    by (intro exI [of _ "s\<lparr>base := b, own := own s\<rparr>"] exI [of _ v1] exI [of _ cs] exI [of _ d1] exI [of _ o2]) (simp add: sub_recv_def)
qed

lemma sub_recv_all:
  "filter (sub_matches subs) msgs = wanted \<Longrightarrow> carries_messages cr m d out msgs d' \<Longrightarrow> [] \<notin> set msgs \<Longrightarrow> receiving m d v (base s) \<Longrightarrow>
   own s = \<lparr>sf_frames = [], sf_subscriptions = subs\<rparr> \<Longrightarrow> out = v @ concat chunks \<Longrightarrow> [] \<notin> set chunks \<Longrightarrow>
   env_reads e = map ReadBytes chunks @ rs \<Longrightarrow>
   recv_all (sub_recv cr) (length wanted) s e = map (\<lambda>msg. IoOk (Some msg)) wanted"
proof (induction wanted arbitrary: msgs d out v s chunks e)
  case (Cons msg wanted)
  from Cons.prems(1) obtain skipped rest where msgs: "msgs = skipped @ msg # rest" "\<forall>x \<in> set skipped. \<not> sub_matches subs x"
    "sub_matches subs msg" "filter (sub_matches subs) rest = wanted"
    by (auto simp: filter_eq_Cons_iff)
  have ne: "\<forall>x \<in> set skipped. x \<noteq> [] \<and> \<not> sub_matches subs x" "msg \<noteq> []" "[] \<notin> set rest" using Cons.prems(3) msgs(1,2) by auto
  obtain s1 v1 cs d1 o2 where s1: "sub_recv cr s e = (IoOk (Some msg), s1, e\<lparr>env_reads := map ReadBytes cs @ rs\<rparr>)"
    "receiving m d1 v1 (base s1)" "own s1 = own s" "carries_messages cr m d1 o2 rest d'" "o2 = v1 @ concat cs" "[] \<notin> set cs"
    using sub_recv_next [OF Cons.prems(2) [unfolded msgs(1)] ne(1,2) msgs(3) Cons.prems(4-8)] by blast
  have "recv_all (sub_recv cr) (length wanted) s1 (e\<lparr>env_reads := map ReadBytes cs @ rs\<rparr>) = map (\<lambda>msg. IoOk (Some msg)) wanted"
    using s1(3) Cons.prems(5) by (intro Cons.IH [OF msgs(4) s1(4) ne(3) s1(2) _ s1(5,6)]) simp_all
  with s1(1) show ?case by simp
qed simp

lemma sub_matches_prefix:
  "subs \<noteq> [] \<Longrightarrow> msg \<noteq> [] \<Longrightarrow> sub_matches subs msg \<longleftrightarrow> (\<exists>p \<in> set subs. prefix p (hd msg))"
  by (cases msg) (auto simp: sub_matches_def starts_with_prefix list_ex_iff)

section \<open>Subscriptions under failure\<close>

lemma send_sub_event_plain:
  assumes "sb_curve_cipher b = None" and "sb_stream b = Some w"
  shows "env_writes e = Written # ws \<Longrightarrow> send_sub_event cr cmd topic b e =
      (IoOk (), b\<lparr>sb_stream := Some (w @ wire 0 (cmd # topic))\<rparr>, e\<lparr>env_writes := ws\<rparr>)"
    and "env_writes e = WriteDropped n # ws \<Longrightarrow> send_sub_event cr cmd topic b e =
      (IoDropped, b\<lparr>sb_stream := Some (w @ take n (wire 0 (cmd # topic)))\<rparr>, e\<lparr>env_writes := ws\<rparr>)"
    and "env_writes e = WriteFails k n # ws \<Longrightarrow> send_sub_event cr cmd topic b e =
      (IoErr k, b\<lparr>sb_stream := Some (w @ take n (wire 0 (cmd # topic)))\<rparr>, e\<lparr>env_writes := ws\<rparr>)"
  using assms
  by (simp_all add: send_sub_event_def unguarded_write_def pop_write_def encode_multipart_wire wire_message_Cons Let_def)

lemma wire_nonempty: "wire fl p \<noteq> []" "[] \<noteq> wire fl p"
  by (simp_all add: wire_def frame_header_def)

lemma wire_short: "length p < 256 \<Longrightarrow> wire 0 p = 0 # word_of_nat (length p) # p"
  by (simp add: wire_def frame_header_def canon_flags_def header_size_def numeral_2_eq_2)

text \<open>A frame cut off after its header swallows the bytes that follow.\<close>

lemma torn_frame:
  assumes "length p < 256" and "2 \<le> n" and "n \<le> length p + 2" and "length p \<le> n - 2 + length tail" and "length p \<le> m"
  shows "parse_frame m (take n (wire 0 p) @ tail) =
    Parsed \<lparr>flags = 0, payload = take (length p) (take (n - 2) p @ tail)\<rparr> (drop (length p - (n - 2)) tail)"
proof -
  let ?q = "take (length p) (take (n - 2) p @ tail)"
  have len: "length ?q = length p" using assms(3,4) by simp
  have "take n (wire 0 p) = 0 # word_of_nat (length p) # take (n - 2) p"
    using assms(1,2) by (simp add: wire_short take_Cons' numeral_2_eq_2)
  moreover have "take (n - 2) p @ tail = ?q @ drop (length p - (n - 2)) tail"
    using assms(3) by (simp add: append_take_drop_id)
  ultimately have "take n (wire 0 p) @ tail = wire 0 ?q @ drop (length p - (n - 2)) tail"
    using wire_short [of ?q] len assms(1) by simp
  with wire_encode.parse_enc [of "(0, ?q)" m "drop (length p - (n - 2)) tail"] len assms(1,5) show ?thesis
    by (simp add: valid_flags_def canon_flags_def)
qed

text \<open>The calls of a subscriber.\<close>

datatype sub_call = SubSubscribe bytes | SubUnsubscribe bytes | SubRecv | SubReconnect reconnect_io

fun perform_sub :: "curve_crypto \<Rightarrow> sub_call \<Rightarrow> (sub_socket, unit) aio" where
  "perform_sub cr (SubSubscribe topic) = sub_subscribe cr topic"
| "perform_sub cr (SubUnsubscribe topic) = sub_unsubscribe cr topic"
| "perform_sub cr SubRecv = aio_bind (sub_recv cr) (\<lambda>_. aio_return ())"
| "perform_sub cr (SubReconnect io) = sub_try_reconnect cr io"

fun run_sub :: "curve_crypto \<Rightarrow> (sub_call \<times> io_env) list \<Rightarrow> sub_socket \<Rightarrow> sub_socket" where
  "run_sub cr [] s = s"
| "run_sub cr ((c, e) # calls) s = run_sub cr calls (state_after (perform_sub cr c s e))"

definition subs_ok :: "sub_socket \<Rightarrow> bool" where
  "subs_ok s \<longleftrightarrow> sorted_wrt (<) (sf_subscriptions (own s))"

lemma keeps_own: "keeps (\<lambda>s. P (own s)) (on_base m)"
  by (simp add: keeps_def on_base_def state_after_def case_prod_beta)

lemma keeps_for_each: "(\<And>x. keeps P (f x)) \<Longrightarrow> keeps P (for_each f xs)"
  by (induction xs) (auto intro!: keeps_return keeps_bind)

lemma strictly_sorted_insort: "sorted_wrt (<) xs \<Longrightarrow> x \<notin> set xs \<Longrightarrow> sorted_wrt (<) (sort (xs @ [x :: bytes]))"
  by (simp add: strict_sorted_iff)

lemma subs_ok_calls:
  "keeps subs_ok (sub_subscribe cr topic)" "keeps subs_ok (sub_unsubscribe cr topic)" "keeps subs_ok (sub_recv cr)"
  "keeps subs_ok (sub_try_reconnect cr io)"
proof -
  show "keeps subs_ok (sub_subscribe cr topic)"
  proof (rule keepsI)
    fix s e
    assume s: "subs_ok s"
    have "own (state_after (on_base (send_sub_event cr 1 topic) s e)) = own s"
      using keepsD [OF keeps_own, of "\<lambda>x. x = own s" s] by blast
    then show "subs_ok (state_after (sub_subscribe cr topic s e))"
      using s by (auto simp: sub_subscribe_def subs_ok_def set_subscriptions_def aio_bind_def aio_return_def strictly_sorted_insort
          split: prod.split io_out.split)
  qed
  show "keeps subs_ok (sub_unsubscribe cr topic)"
    by (rule keepsI) (simp add: sub_unsubscribe_def subs_ok_def set_subscriptions_def sorted_wrt_filter on_base_def split: prod.split)
  show "keeps subs_ok (sub_recv cr)"
  proof (rule keepsI)
    fix s e
    assume s: "subs_ok s"
    have "handles (\<lambda>x. sorted_wrt (<) (sf_subscriptions x)) (\<lambda>r x. sorted_wrt (<) (sf_subscriptions x)) sub_data
        (eof_none :: sub_fields \<Rightarrow> bytes list option \<times> sub_fields)"
      by (auto simp: handles_def on_failure_def sub_data_def eof_none_def Let_def)
    from recv_loop_rule [OF this, of s cr e] s show "subs_ok (state_after (sub_recv cr s e))"
      by (simp add: sub_recv_def subs_ok_def post_def)
  qed
  show "keeps subs_ok (sub_try_reconnect cr io)"
    unfolding sub_try_reconnect_def
  proof (intro keeps_bind)
    show "keeps subs_ok (on_base (base_try_reconnect cr io StSub))"
      using keeps_own [of "\<lambda>x. sorted_wrt (<) (sf_subscriptions x)"] by (simp add: keeps_def subs_ok_def)
    fix u
    show "keeps subs_ok (\<lambda>s. let subs = sf_subscriptions (own s) in
       aio_bind (for_each (\<lambda>topic. on_base (send_sub_event cr 0x01 topic)) subs)
         (\<lambda>_ s1. aio_return () (set_subscriptions subs s1)) (set_subscriptions [] s))"
    proof (rule keepsI)
      fix s e
      assume s: "subs_ok s"
      have "keeps (\<lambda>s. sf_subscriptions (own s) = []) (for_each (\<lambda>topic. on_base (send_sub_event cr 0x01 topic)) (sf_subscriptions (own s)))"
        by (intro keeps_for_each keeps_own)
      from keepsD [OF this, of "set_subscriptions [] s" e] s
      show "subs_ok (state_after ((let subs = sf_subscriptions (own s) in
         aio_bind (for_each (\<lambda>topic. on_base (send_sub_event cr 0x01 topic)) subs)
           (\<lambda>_ s1. aio_return () (set_subscriptions subs s1)) (set_subscriptions [] s)) e))"
        by (auto simp: Let_def aio_bind_def aio_return_def subs_ok_def set_subscriptions_def split: prod.split io_out.split)
    qed
  qed
qed

lemma run_sub_ok: "subs_ok s \<Longrightarrow> subs_ok (run_sub cr calls s)"
proof (induction cr calls s rule: run_sub.induct)
  case (2 cr c e calls s)
  have "keeps subs_ok (perform_sub cr c)"
    by (cases c) (auto intro!: subs_ok_calls keeps_bind keeps_return)
  from 2(1) [OF keepsD [OF this 2(2)]] show ?case by simp
qed simp

section \<open>Properties\<close>

text \<open>A subscriber gets exactly what it has subscribed to. Of the messages a publisher encodes for it,
  plain or encrypted, a SUB socket with subscriptions returns from as many \<open>recv\<close> calls those whose
  first part starts with one of them, all of them, in order, in any fragmentation of the stream.\<close>

theorem sub_delivers:
  assumes "crypto_laws cr" and "matched c d" and "budget c (length (concat msgs))" and "\<forall>msg \<in> set msgs. msg \<noteq> [] \<and> fits m msg"
    and "encode_messages cr c msgs [] = (True, c', concat chunks)" and "[] \<notin> set chunks" and "env_reads e = map ReadBytes chunks @ rs"
    and "receiving m d [] (base s)" and "own s = \<lparr>sf_frames = [], sf_subscriptions = subs\<rparr>" and "subs \<noteq> []"
  shows "let wanted = filter (\<lambda>msg. \<exists>p \<in> set subs. prefix p (hd msg)) msgs
    in recv_all (sub_recv cr) (length wanted) s e = map (\<lambda>msg. IoOk (Some msg)) wanted"
proof -
  obtain d' where car: "carries_messages cr m d (concat chunks) msgs d'"
    using encode_messages_carries [OF assms(1,2), of msgs 0 m "[]"] assms(3-5) by auto
  have "filter (\<lambda>msg. \<exists>p \<in> set subs. prefix p (hd msg)) msgs = filter (sub_matches subs) msgs"
    using assms(4,10) sub_matches_prefix by (intro filter_cong) auto
  moreover have "[] \<notin> set msgs" using assms(4) by auto
  ultimately show ?thesis using sub_recv_all [OF refl car _ assms(8,9) _ assms(6,7)] by (simp add: Let_def)
qed

definition demo_sub :: "bytes list \<Rightarrow> sub_socket" where
  "demo_sub subs = \<lparr>base = base_new demo_options, own = \<lparr>sf_frames = [], sf_subscriptions = subs\<rparr>\<rparr>"

lemma demo_sub_receiving: "receiving 1000 None [] (base (demo_sub subs))"
  using receiving_new [of demo_options 1000 None]
  by (simp add: demo_sub_def demo_options_def socket_options_default_def base_new_def)

theorem sub_delivers_witness:
  "let wanted = filter (\<lambda>msg. \<exists>p \<in> set [[1 :: byte]]. prefix p (hd msg)) [[[1, 2]], [[3]], [[1], [4]]]
   in recv_all (sub_recv tag_crypto) (length wanted) (demo_sub [[1]])
        (quiet_env\<lparr>env_reads := map ReadBytes [encode_multipart [[1, 2]] [] @ encode_multipart [[3]] [], encode_multipart [[1], [4]] []] @ []\<rparr>) =
      map (\<lambda>msg. IoOk (Some msg)) wanted"
  by (rule sub_delivers [OF tag_crypto_laws, where c = None and d = None and m = 1000 and c' = None and rs = "[]"
        and chunks = "[encode_multipart [[1, 2]] [] @ encode_multipart [[3]] [], encode_multipart [[1], [4]] []]"])
    (simp_all add: fits_def demo_sub_receiving encode_message_def encode_multipart_wire wire_nonempty, simp add: demo_sub_def)

text \<open>C35. The list of subscriptions of a SUB socket is strictly ascending, so it holds no prefix twice, after any
  sequence of subscriptions, receives and reconnections, however each of them ends.\<close>

theorem subscriptions_ascending:
  "sorted_wrt (<) (sf_subscriptions (own (run_sub cr calls \<lparr>base = b, own = sub_fields_new\<rparr>)))"
  using run_sub_ok [of "\<lparr>base = b, own = sub_fields_new\<rparr>" cr calls] by (simp add: subs_ok_def sub_fields_new_def)

text \<open>Without subscriptions a SUB socket receives everything. Unsubscribing from the last topic does not stop the
  delivery: the filter of \<open>recv\<close> then accepts every message the publisher sends.\<close>

theorem unsubscribed_receives_all:
  assumes "crypto_laws cr" and "\<forall>msg \<in> set msgs. msg \<noteq> [] \<and> fits m msg"
    and "encode_messages cr None msgs [] = (True, None, concat chunks)" and "[] \<notin> set chunks" and "env_reads e = map ReadBytes chunks @ rs"
    and "ready m w None (base s)" and "own s = \<lparr>sf_frames = [], sf_subscriptions = [topic]\<rparr>" and "env_writes e0 = [Written]"
  shows "\<exists>s1 e1. sub_unsubscribe cr topic s e0 = (IoOk (), s1, e1) \<and>
    recv_all (sub_recv cr) (length msgs) s1 e = map (\<lambda>msg. IoOk (Some msg)) msgs"
proof -
  obtain d' where car: "carries_messages cr m None (concat chunks) msgs d'"
    using encode_messages_carries [OF assms(1), of None None msgs 0 m "[]"] assms(2,3) by auto
  have b: "sb_curve_cipher (base s) = None" "sb_stream (base s) = Some w" using assms(6) by (simp_all add: ready_def sending_def)
  let ?b = "(base s)\<lparr>sb_stream := Some (w @ wire 0 (0 # topic))\<rparr>" and ?x = "\<lparr>sf_frames = [], sf_subscriptions = []\<rparr>"
  have u: "sub_unsubscribe cr topic s e0 = (IoOk (), s\<lparr>own := ?x, base := ?b\<rparr>, e0\<lparr>env_writes := []\<rparr>)"
    using send_sub_event_plain(1) [OF b assms(8), of cr 0 topic] assms(7)
    by (simp add: sub_unsubscribe_def set_subscriptions_def on_base_def)
  have "receiving m None [] ?b" using assms(6) by (simp add: ready_def receiving_def)
  moreover have "filter (sub_matches []) msgs = msgs" using assms(2) by (auto simp: filter_id_conv sub_matches_def split: list.split)
  moreover have "[] \<notin> set msgs" using assms(2) by auto
  ultimately have "recv_all (sub_recv cr) (length msgs) (s\<lparr>own := ?x, base := ?b\<rparr>) e = map (\<lambda>msg. IoOk (Some msg)) msgs"
    using sub_recv_all [of "[]" msgs msgs cr m None "concat chunks" d' "[]" "s\<lparr>own := ?x, base := ?b\<rparr>" chunks e rs] car assms(4,5) by simp
  with u show ?thesis by blast
qed

theorem unsubscribed_receives_all_witness:
  "\<exists>s1 e1. sub_unsubscribe tag_crypto [1] (demo_sub [[1]]) accepting = (IoOk (), s1, e1) \<and>
    recv_all (sub_recv tag_crypto) (length [[[1 :: byte, 2]], [[3]]]) s1
      (quiet_env\<lparr>env_reads := map ReadBytes [encode_multipart [[1, 2]] [], encode_multipart [[3]] []] @ []\<rparr>) =
      map (\<lambda>msg. IoOk (Some msg)) [[[1, 2]], [[3]]]"
  by (rule unsubscribed_receives_all [OF tag_crypto_laws, where m = 1000 and w = "[]" and rs = "[]"
        and chunks = "[encode_multipart [[1, 2]] [], encode_multipart [[3]] []]"])
    (simp_all add: fits_def ready_def demo_sub_receiving encode_message_def encode_multipart_wire wire_nonempty,
      simp_all add: demo_sub_def sending_def base_new_def demo_options_def socket_options_default_def accepting_def)

text \<open>A dropped subscription message tears the stream. Subscription messages are written without the guard of the
  other writes: a \<open>subscribe\<close> dropped after \<open>n\<close> bytes leaves part of a frame on the wire and a socket that
  looks healthy, so the next subscription follows the torn frame and the publisher reads, in place of
  the two subscriptions, one to a prefix nobody asked for.\<close>

theorem dropped_subscribe_tears:
  assumes "sb_curve_cipher (base s) = None" and "sb_stream (base s) = Some []" and "\<not> sb_is_poisoned (base s)"
    and "t1 \<notin> set (sf_subscriptions (own s))" and "length t1 < 255" and "length t1 < m" and "3 \<le> n" and "n \<le> length t1 + 3"
    and "length t1 \<le> n + length t2" and "env_writes e1 = WriteDropped n # ws" and "env_writes e2 = [Written]"
  shows "\<exists>s1 e1' s2 e2' w. sub_subscribe cr t1 s e1 = (IoDropped, s1, e1') \<and> \<not> sb_is_poisoned (base s1) \<and>
    sub_subscribe cr t2 s1 e2 = (IoOk (), s2, e2') \<and> sb_stream (base s2) = Some w \<and>
    (\<exists>f rest. parse_frame m w = Parsed f rest \<and>
       from_bytes (payload f) = Some (Subscribe (take (length t1) (take (n - 3) t1 @ encode_multipart [0x01 # t2] []))))"
proof -
  let ?f1 = "wire 0 (0x01 # t1)" and ?f2 = "wire 0 (0x01 # t2)"
  let ?b1 = "(base s)\<lparr>sb_stream := Some (take n ?f1)\<rparr>" and ?w = "take n ?f1 @ ?f2"
  have d: "sub_subscribe cr t1 s e1 = (IoDropped, s\<lparr>base := ?b1\<rparr>, e1\<lparr>env_writes := ws\<rparr>)"
    using send_sub_event_plain(2) [OF assms(1,2,10), of cr 1 t1] assms(4)
    by (simp add: sub_subscribe_def on_base_def aio_bind_def)
  have e: "send_sub_event cr 0x01 t2 ?b1 e2 = (IoOk (), ?b1\<lparr>sb_stream := Some ?w\<rparr>, e2\<lparr>env_writes := []\<rparr>)"
    using send_sub_event_plain(1) [of ?b1 "take n ?f1" e2 "[]" cr 1 t2] assms(1,11) by simp
  then obtain s2 e2' where s2: "sub_subscribe cr t2 (s\<lparr>base := ?b1\<rparr>) e2 = (IoOk (), s2, e2')" "sb_stream (base s2) = Some ?w"
    by (cases "t2 \<in> set (sf_subscriptions (own s))")
      (auto simp: sub_subscribe_def on_base_def aio_bind_def aio_return_def set_subscriptions_def)
  have "3 + length t2 \<le> length ?f2" by (simp add: wire_def frame_header_def canon_flags_long)
  then have l: "length (0x01 # t1) \<le> n - 2 + length ?f2" using assms(7,9) by simp
  obtain j where "n = 3 + j" using assms(7) le_Suc_ex by blast
  then have "take (n - 2) (0x01 # t1) = 0x01 # take (n - 3) t1" by simp
  moreover have "parse_frame m ?w = Parsed \<lparr>flags = 0, payload = take (length (0x01 # t1)) (take (n - 2) (0x01 # t1) @ ?f2)\<rparr>
      (drop (length (0x01 # t1) - (n - 2)) ?f2)"
    using assms(5-8) by (intro torn_frame l) simp_all
  ultimately have "\<exists>f rest. parse_frame m ?w = Parsed f rest \<and>
       from_bytes (payload f) = Some (Subscribe (take (length t1) (take (n - 3) t1 @ encode_multipart [0x01 # t2] [])))"
    by (simp add: from_bytes_def encode_multipart_wire)
  with d s2 assms(3) show ?thesis
    by (intro exI [of _ "s\<lparr>base := ?b1\<rparr>"] exI [of _ "e1\<lparr>env_writes := ws\<rparr>"] exI [of _ s2] exI [of _ e2'] exI [of _ ?w]) simp
qed

theorem dropped_subscribe_tears_witness:
  "\<exists>s1 e1' s2 e2' w. sub_subscribe tag_crypto [7, 7, 7] (demo_sub []) (quiet_env\<lparr>env_writes := [WriteDropped 4]\<rparr>) = (IoDropped, s1, e1') \<and>
    \<not> sb_is_poisoned (base s1) \<and> sub_subscribe tag_crypto [8] s1 (quiet_env\<lparr>env_writes := [Written]\<rparr>) = (IoOk (), s2, e2') \<and>
    sb_stream (base s2) = Some w \<and>
    (\<exists>f rest. parse_frame 1000 w = Parsed f rest \<and>
       from_bytes (payload f) =
         Some (Subscribe (take (length [7 :: byte, 7, 7]) (take (4 - 3) [7, 7, 7] @ encode_multipart [0x01 # [8]] []))))"
  by (rule dropped_subscribe_tears [where ws = "[]"]) (simp_all add: demo_sub_def base_new_def)

text \<open>A failed resend loses the subscriptions. After a reconnection \<open>try_reconnect\<close> takes the list of
  subscriptions away while it sends them again; if one of the writes fails the list stays empty, so
  no later reconnection announces them, and the socket accepts every message.\<close>

theorem failed_resend_loses_subscriptions:
  assumes "base_try_reconnect cr io StSub (base s) e = (IoOk (), b, e0)" and "sb_curve_cipher b = None"
    and "sf_subscriptions (own s) \<noteq> []" and "env_writes e0 = WriteFails k n # ws"
  shows "\<exists>s1 e1. sub_try_reconnect cr io s e = (IoErr k, s1, e1) \<and> sf_subscriptions (own s1) = [] \<and>
    (\<forall>io2 e2 s2 e3. sub_try_reconnect cr io2 s1 e2 = (IoOk (), s2, e3) \<longrightarrow>
       sb_stream (base s2) = Some [] \<and> sf_subscriptions (own s2) = [] \<and> (\<forall>msg. sub_matches (sf_subscriptions (own s2)) msg \<longleftrightarrow> msg \<noteq> []))"
proof -
  obtain p ps where subs: "sf_subscriptions (own s) = p # ps" using assms(3) by (cases "sf_subscriptions (own s)") auto
  have st: "sb_stream b = Some []" using try_reconnect_IoOk [OF assms(1)] by (auto simp: fresh_connection_def)
  note w = send_sub_event_plain(3) [OF assms(2) st assms(4), of cr 1 p]
  have r: "\<exists>s1 e1. sub_try_reconnect cr io s e = (IoErr k, s1, e1) \<and> sf_subscriptions (own s1) = []"
    using assms(1) w subs by (simp add: sub_try_reconnect_def on_base_def aio_bind_def set_subscriptions_def)
  have "sb_stream (base s2) = Some [] \<and> sf_subscriptions (own s2) = [] \<and> (\<forall>msg. sub_matches (sf_subscriptions (own s2)) msg \<longleftrightarrow> msg \<noteq> [])"
    if "sf_subscriptions (own s1) = []" "sub_try_reconnect cr io2 s1 e2 = (IoOk (), s2, e3)" for s1 io2 e2 s2 e3
  proof -
    from that obtain b2 where "base_try_reconnect cr io2 StSub (base s1) e2 = (IoOk (), b2, e3)" "s2 = set_subscriptions [] (s1\<lparr>base := b2\<rparr>)"
      by (auto simp: sub_try_reconnect_def on_base_def aio_bind_def aio_return_def set_subscriptions_def split: prod.splits io_out.splits)
    with try_reconnect_IoOk [OF this(1)] show ?thesis
      by (auto simp: fresh_connection_def set_subscriptions_def sub_matches_def split: list.splits)
  qed
  with r show ?thesis by blast
qed

definition announced :: sub_socket where
  "announced = \<lparr>base = (base_new socket_options_default)\<lparr>sb_endpoint := Some (TcpEndpoint [])\<rparr>,
     own = \<lparr>sf_frames = [], sf_subscriptions = [[1]]\<rparr>\<rparr>"

theorem failed_resend_loses_subscriptions_witness:
  "\<exists>s1 e1. sub_try_reconnect tag_crypto honest_reconnect announced (quiet_env\<lparr>env_writes := [WriteFails BrokenPipe 0]\<rparr>) =
      (IoErr BrokenPipe, s1, e1) \<and> sf_subscriptions (own s1) = [] \<and>
    (\<forall>io2 e2 s2 e3. sub_try_reconnect tag_crypto io2 s1 e2 = (IoOk (), s2, e3) \<longrightarrow>
       sb_stream (base s2) = Some [] \<and> sf_subscriptions (own s2) = [] \<and> (\<forall>msg. sub_matches (sf_subscriptions (own s2)) msg \<longleftrightarrow> msg \<noteq> []))"
  by (rule failed_resend_loses_subscriptions [OF honest_reconnect_ok [where a = "[]"], where n = 0 and ws = "[]"])
    (simp_all add: announced_def base_new_def fresh_connection_def)

end
