(* ===== verification/Reconnect_Loops.thy ===== *)
theory Reconnect_Loops
  imports Sub_Sockets
begin

text \<open>
  The loops of \<open>recv_with_reconnect\<close> and \<open>send_with_reconnect\<close> end: with a limit on the attempts they return after a bounded
  number of iterations, whatever the network and the peers do. In the model of \<open>Message_Sockets\<close> an iteration consumes one possible
  reconnection; a loop that has ended does not depend on those behind.
\<close>

section \<open>Receivers\<close>

text \<open>What the loop relies on: a receiver that reports the end of the connection has dropped it.\<close>

locale ending_receiver =
  fixes rcv :: "('x sock, 'r option) aio"
  assumes none_lost: "rcv s e = (IoOk None, s1, e1) \<Longrightarrow> lost s1"
begin

lemma lost_loop_ends:
  assumes "lost s" and "a \<le> n" and "n < a + length ios"
  shows "recv_reconnecting reset try rcv (Some n) a (ios @ extra) s e = recv_reconnecting reset try rcv (Some n) a ios s e"
  using assms
proof (induction ios arbitrary: a s e)
  case (Cons io ios)
  show ?case
  proof (cases "a = n")
    case False
    have again: "recv_reconnecting reset try rcv (Some n) (Suc a) (ios @ extra) s' e' = recv_reconnecting reset try rcv (Some n) (Suc a) ios s' e'"
      if "lost s'" for s' e'
      using Cons.IH [OF that, of "Suc a"] Cons.prems(2,3) False by simp
    have l: "lost (s'\<lparr>own := x\<rparr>) = lost s'" "lost (drop_stream s')" for s' :: "'x sock" and x by (simp_all add: lost_def drop_stream_def)
    show ?thesis
      using Cons.prems(1) none_lost again l
      by (auto simp: aio_bind_def split: prod.split io_out.split option.split)
  qed (simp add: Cons.prems(1) attempts_exhausted_def)
qed simp

lemma loop_ends:
  assumes "n + 2 \<le> length ios"
  shows "recv_reconnecting reset try rcv (Some n) 0 (ios @ extra) s e = recv_reconnecting reset try rcv (Some n) 0 ios s e"
proof (cases "lost s")
  case True
  then show ?thesis using lost_loop_ends [of s 0 n ios] assms by simp
next
  case False
  from assms obtain io ios' where ios: "ios = io # ios'" "n < length ios'" by (cases ios) auto
  have again: "recv_reconnecting reset try rcv (Some n) 0 (ios' @ extra) s' e' = recv_reconnecting reset try rcv (Some n) 0 ios' s' e'"
    if "lost s'" for s' e' using lost_loop_ends [OF that, of 0] ios(2) by simp
  have l: "lost (s'\<lparr>own := x\<rparr>) = lost s'" "lost (drop_stream s')" for s' :: "'x sock" and x by (simp_all add: lost_def drop_stream_def)
  show ?thesis
    using False none_lost again l ios(1)
    by (auto simp: aio_bind_def aio_return_def split: prod.split io_out.split option.split)
qed

end

interpretation dealer: ending_receiver "dealer_recv cr" for cr
  by unfold_locales (unfold dealer_recv_def, erule recv_loop_eof [rotated], simp add: collect_frames_def Let_def)

interpretation pair: ending_receiver "pair_recv cr" for cr
  by unfold_locales (unfold pair_recv_def, erule recv_loop_eof [rotated], simp add: collect_frames_def Let_def)

interpretation pull: ending_receiver "pull_recv cr" for cr
  by unfold_locales (unfold pull_recv_def, erule recv_loop_eof [rotated], simp add: pull_frames_def Let_def)

interpretation sub: ending_receiver "sub_recv cr" for cr
  by unfold_locales (unfold sub_recv_def, erule recv_loop_eof [rotated], simp add: sub_data_def Let_def)

section \<open>Senders\<close>

lemma lost_send_ends:
  assumes "lost s" and "a \<le> n" and "n < a + length ios"
  shows "send_reconnecting reset try sender (Some n) a (ios @ extra) s e = send_reconnecting reset try sender (Some n) a ios s e"
  using assms
proof (induction ios arbitrary: a s e)
  case (Cons io ios)
  show ?case
  proof (cases "a = n")
    case False
    have again: "send_reconnecting reset try sender (Some n) (Suc a) (ios @ extra) (s'\<lparr>own := x\<rparr>) e' =
        send_reconnecting reset try sender (Some n) (Suc a) ios (s'\<lparr>own := x\<rparr>) e'" if "lost s'" for s' x e'
      using Cons.IH [of "s'\<lparr>own := x\<rparr>" "Suc a"] that Cons.prems(2,3) False by (simp add: lost_def)
    show ?thesis
      using Cons.prems(1) again by (auto simp: aio_bind_def split: prod.split io_out.split)
  qed (simp add: Cons.prems(1) attempts_exhausted_def)
qed simp

lemma send_ends:
  assumes "n + 2 \<le> length ios"
  shows "send_reconnecting reset try sender (Some n) 0 (ios @ extra) s e = send_reconnecting reset try sender (Some n) 0 ios s e"
proof (cases "lost s")
  case True
  then show ?thesis using lost_send_ends [of s 0 n ios] assms by simp
next
  case False
  from assms obtain io ios' where ios: "ios = io # ios'" "n < length ios'" by (cases ios) auto
  have again: "send_reconnecting reset try sender (Some n) 0 (ios' @ extra) (s'\<lparr>own := x\<rparr>) e' =
      send_reconnecting reset try sender (Some n) 0 ios' (s'\<lparr>own := x\<rparr>) e'" if "lost s'" for s' x e'
    using lost_send_ends [of "s'\<lparr>own := x\<rparr>" 0] that ios(2) by (simp add: lost_def)
  show ?thesis
    using False again ios(1) by (auto simp: aio_bind_def aio_return_def split: prod.split io_out.split)
qed

section \<open>Termination\<close>

text \<open>C28. Receiving and sending with automatic reconnection ends. With a limit of \<open>n\<close> attempts, a call of
  \<open>recv_with_reconnect\<close> of DEALER, PAIR, PULL and SUB and of \<open>send_with_reconnect\<close> of DEALER, PAIR and PUSH runs through its loop at
  most \<open>n + 2\<close> times, even when every connection breaks at once: further chances to reconnect make no difference to it.\<close>

theorem reconnect_loops_end:
  assumes "n + 2 \<le> length ios" and "opt_max_reconnect_attempts (sb_options (base d)) = Some n"
    and "opt_max_reconnect_attempts (sb_options (base s)) = Some n" and "opt_max_reconnect_attempts (sb_options (base p)) = Some n"
  shows "dealer_recv_with_reconnect cr (ios @ extra) d e = dealer_recv_with_reconnect cr ios d e \<and>
    pair_recv_with_reconnect cr (ios @ extra) d e = pair_recv_with_reconnect cr ios d e \<and>
    pull_recv_with_reconnect cr (ios @ extra) d e = pull_recv_with_reconnect cr ios d e \<and>
    sub_recv_with_reconnect cr (ios @ extra) s e = sub_recv_with_reconnect cr ios s e \<and>
    dealer_send_with_reconnect cr msg (ios @ extra) d e = dealer_send_with_reconnect cr msg ios d e \<and>
    pair_send_with_reconnect cr msg (ios @ extra) d e = pair_send_with_reconnect cr msg ios d e \<and>
    push_send_with_reconnect cr msg (ios @ extra) p e = push_send_with_reconnect cr msg ios p e"
  using assms
  by (simp add: dealer_recv_with_reconnect_def pair_recv_with_reconnect_def pull_recv_with_reconnect_def sub_recv_with_reconnect_def
      dealer_send_with_reconnect_def pair_send_with_reconnect_def push_send_with_reconnect_def
      dealer.loop_ends pair.loop_ends pull.loop_ends sub.loop_ends send_ends)

definition broken_chance :: reconnect_io where
  "broken_chance = \<lparr>rc_random = 0, rc_connect = IoErr ConnectionReset, rc_configure = None,
     rc_entropy = \<lparr>ce_short_secret = [], ce_cookie_key = [], ce_cookie_nonce = [], ce_welcome_nonce = [], ce_vouch_nonce = []\<rparr>, rc_zap = None\<rparr>"

theorem reconnect_loops_end_witness:
  "let b = base_new (demo_options\<lparr>opt_max_reconnect_attempts := Some 1\<rparr>); d = \<lparr>base = b, own = []\<rparr>; s = \<lparr>base = b, own = sub_fields_new\<rparr>;
      p = \<lparr>base = b, own = ()\<rparr>; ios = [broken_chance, broken_chance, broken_chance]
   in dealer_recv_with_reconnect tag_crypto (ios @ [broken_chance]) d quiet_env = dealer_recv_with_reconnect tag_crypto ios d quiet_env \<and>
    pair_recv_with_reconnect tag_crypto (ios @ [broken_chance]) d quiet_env = pair_recv_with_reconnect tag_crypto ios d quiet_env \<and>
    pull_recv_with_reconnect tag_crypto (ios @ [broken_chance]) d quiet_env = pull_recv_with_reconnect tag_crypto ios d quiet_env \<and>
    sub_recv_with_reconnect tag_crypto (ios @ [broken_chance]) s quiet_env = sub_recv_with_reconnect tag_crypto ios s quiet_env \<and>
    dealer_send_with_reconnect tag_crypto [[7]] (ios @ [broken_chance]) d quiet_env = dealer_send_with_reconnect tag_crypto [[7]] ios d quiet_env \<and>
    pair_send_with_reconnect tag_crypto [[7]] (ios @ [broken_chance]) d quiet_env = pair_send_with_reconnect tag_crypto [[7]] ios d quiet_env \<and>
    push_send_with_reconnect tag_crypto [[7]] (ios @ [broken_chance]) p quiet_env = push_send_with_reconnect tag_crypto [[7]] ios p quiet_env"
  unfolding Let_def by (rule reconnect_loops_end [where n = 1]) (simp_all add: base_new_def)

end
