(* ===== verification/Socket_Adapters.thy ===== *)
theory Socket_Adapters
  imports Mono_Prelude
begin

text \<open>
  The adapters from sockets to the traits \<open>Stream\<close> and \<open>Sink\<close> (\<open>monocoque-zmtp/src/adapters.rs\<close> and
  \<open>stream_sink.rs\<close>). The sockets behind them implement the traits \<open>SendSocket\<close> and \<open>RecvSocket\<close>, which nothing in the
  repository does: their operations are the parameters collected in \<open>socket_ops\<close>. The theorems say that a sink which is used in the
  way of \<open>SinkExt::send\<close> hands each item to its socket once and in order, and that one that is fed twice loses an item.
\<close>

datatype 'a poll = Pending | Ready 'a

record 's socket_ops =
  op_poll_ready :: "'s \<Rightarrow> (io_error_kind + unit) poll \<times> 's"
  op_poll_send :: "bytes list \<Rightarrow> 's \<Rightarrow> (io_error_kind + unit) poll \<times> 's"
  op_poll_flush :: "'s \<Rightarrow> (io_error_kind + unit) poll \<times> 's"
  op_poll_recv :: "'s \<Rightarrow> (io_error_kind + bytes list) option poll \<times> 's"

text \<open>\<open>SocketSink\<close> and \<open>SocketStreamSink\<close>, which have the same fields and the same methods.\<close>

record 's socket_sink =
  sk_socket :: 's
  sk_pending :: "bytes list option"

definition sink_new :: "'s \<Rightarrow> 's socket_sink" where
  "sink_new s = \<lparr>sk_socket = s, sk_pending = None\<rparr>"

definition on_socket :: "('s \<Rightarrow> 'a \<times> 's) \<Rightarrow> 's socket_sink \<Rightarrow> 'a \<times> 's socket_sink" where
  "on_socket f k = apsnd (\<lambda>s. k\<lparr>sk_socket := s\<rparr>) (f (sk_socket k))"

definition stream_poll_next :: "'s socket_ops \<Rightarrow> 's socket_sink \<Rightarrow> (io_error_kind + bytes list) option poll \<times> 's socket_sink" where
  "stream_poll_next ops = on_socket (op_poll_recv ops)"

definition sink_poll_ready :: "'s socket_ops \<Rightarrow> 's socket_sink \<Rightarrow> (io_error_kind + unit) poll \<times> 's socket_sink" where
  "sink_poll_ready ops = on_socket (op_poll_ready ops)"

definition sink_start_send :: "bytes list \<Rightarrow> 's socket_sink \<Rightarrow> (io_error_kind + unit) \<times> 's socket_sink" where
  "sink_start_send item k = (Inr (), k\<lparr>sk_pending := Some item\<rparr>)"

definition sink_poll_flush :: "'s socket_ops \<Rightarrow> 's socket_sink \<Rightarrow> (io_error_kind + unit) poll \<times> 's socket_sink" where
  "sink_poll_flush ops k =
     (case sk_pending k of
        None \<Rightarrow> on_socket (op_poll_flush ops) k
      | Some msg \<Rightarrow>
          (case on_socket (op_poll_send ops msg) (k\<lparr>sk_pending := None\<rparr>) of
             (Ready (Inr _), k1) \<Rightarrow> on_socket (op_poll_flush ops) k1
           | (Ready (Inl err), k1) \<Rightarrow> (Ready (Inl err), k1)
           | (Pending, k1) \<Rightarrow> (Pending, k1\<lparr>sk_pending := Some msg\<rparr>)))"

definition sink_poll_close :: "'s socket_ops \<Rightarrow> 's socket_sink \<Rightarrow> (io_error_kind + unit) poll \<times> 's socket_sink" where
  "sink_poll_close ops = sink_poll_flush ops"

text \<open>The adapters of \<open>stream_sink.rs\<close>: they cannot poll the futures of a socket and refuse.\<close>

definition refusing_poll_next :: "(io_error_kind + bytes list) option poll" where
  "refusing_poll_next = Ready (Some (Inl Unsupported))"

definition refusing_start_send :: "bytes list \<Rightarrow> io_error_kind + unit" where
  "refusing_start_send item = Inl Unsupported"

definition storing_poll_flush :: "'s socket_sink \<Rightarrow> (io_error_kind + unit) poll \<times> 's socket_sink" where
  "storing_poll_flush k = (Ready (if sk_pending k \<noteq> None then Inl Unsupported else Inr ()), k)"

section \<open>Sending one item after the other\<close>

text \<open>A socket with a record of the items it has accepted.\<close>

definition logging :: "'s socket_ops \<Rightarrow> ('s \<times> bytes list list) socket_ops" where
  "logging ops = \<lparr>op_poll_ready = (\<lambda>(s, l). case op_poll_ready ops s of (r, s1) \<Rightarrow> (r, s1, l)),
     op_poll_send = (\<lambda>msg (s, l). case op_poll_send ops msg s of (r, s1) \<Rightarrow> (r, s1, if r = Ready (Inr ()) then l @ [msg] else l)),
     op_poll_flush = (\<lambda>(s, l). case op_poll_flush ops s of (r, s1) \<Rightarrow> (r, s1, l)),
     op_poll_recv = (\<lambda>(s, l). case op_poll_recv ops s of (r, s1) \<Rightarrow> (r, s1, l))\<rparr>"

text \<open>\<open>SinkExt::send\<close>: \<open>start_send\<close>, then \<open>poll_flush\<close> until it is ready, \<open>n\<close> times at most; \<open>None\<close> is a send that is still pending.\<close>

fun flush_polls :: "nat \<Rightarrow> 's socket_ops \<Rightarrow> 's socket_sink \<Rightarrow> (io_error_kind + unit) option \<times> 's socket_sink" where
  "flush_polls 0 ops k = (None, k)"
| "flush_polls (Suc n) ops k = (case sink_poll_flush ops k of (Ready r, k1) \<Rightarrow> (Some r, k1) | (Pending, k1) \<Rightarrow> flush_polls n ops k1)"

fun send_items :: "nat \<Rightarrow> 's socket_ops \<Rightarrow> bytes list list \<Rightarrow> 's socket_sink \<Rightarrow> (io_error_kind + unit) option \<times> 's socket_sink" where
  "send_items n ops [] k = (Some (Inr ()), k)"
| "send_items n ops (item # items) k =
     (case flush_polls n ops (snd (sink_start_send item k)) of
        (Some (Inr _), k1) \<Rightarrow> send_items n ops items k1
      | (r, k1) \<Rightarrow> (r, k1))"

abbreviation accepted_items :: "('s \<times> bytes list list) socket_sink \<Rightarrow> bytes list list" where
  "accepted_items k \<equiv> snd (sk_socket k)"

lemma poll_flush_log:
  assumes "sink_poll_flush (logging ops) k = (r, k1)" and "sk_pending k = None"
  shows "accepted_items k1 = accepted_items k \<and> sk_pending k1 = None"
  using assms by (auto simp: sink_poll_flush_def logging_def on_socket_def split: prod.splits)

lemma poll_flush_item:
  assumes "sink_poll_flush (logging ops) k = (r, k1)" and "sk_pending k = Some item"
  shows "(accepted_items k1 = accepted_items k \<and> (sk_pending k1 = Some item \<and> r = Pending \<or> sk_pending k1 = None \<and> (\<exists>e. r = Ready (Inl e)))) \<or>
    (accepted_items k1 = accepted_items k @ [item] \<and> sk_pending k1 = None)"
  using assms by (auto simp: sink_poll_flush_def logging_def on_socket_def split: prod.splits poll.splits sum.splits if_splits)

lemma flush_polls_log: "flush_polls n (logging ops) k = (r, k1) \<Longrightarrow> sk_pending k = None \<Longrightarrow> accepted_items k1 = accepted_items k \<and> sk_pending k1 = None"
proof (induction n arbitrary: k)
  case (Suc n)
  obtain p k2 where p: "sink_poll_flush (logging ops) k = (p, k2)" by fastforce
  from poll_flush_log [OF this Suc.prems(2)] Suc p show ?case by (cases p) auto
qed simp

lemma flush_polls_item:
  "flush_polls n (logging ops) k = (r, k1) \<Longrightarrow> sk_pending k = Some item \<Longrightarrow>
   accepted_items k1 = accepted_items k @ [item] \<or> accepted_items k1 = accepted_items k \<and> r \<noteq> Some (Inr ())"
proof (induction n arbitrary: k)
  case (Suc n)
  obtain p k2 where p: "sink_poll_flush (logging ops) k = (p, k2)" by fastforce
  from poll_flush_item [OF this Suc.prems(2)] show ?case
  proof (elim disjE conjE)
    assume "accepted_items k2 = accepted_items k" "sk_pending k2 = Some item" "p = Pending"
    with Suc.IH [of k2] Suc.prems(1) p show ?thesis by simp
  next
    assume k2: "accepted_items k2 = accepted_items k @ [item]" "sk_pending k2 = None"
    show ?thesis
    proof (cases p)
      case Pending
      with Suc.prems(1) p flush_polls_log [of n ops k2 r k1] k2 show ?thesis by simp
    qed (use Suc.prems(1) p k2 in simp)
  qed (use Suc.prems(1) p in auto)
qed simp

text \<open>Used in the way of \<open>SinkExt::send\<close>, a sink is reliable: whatever its socket answers and however often it is not ready, the
  socket has accepted exactly a prefix of the items, in order and each once, and all of them when every send has succeeded.\<close>

theorem sink_sends_in_order:
  assumes "send_items n (logging ops) items k = (r, k1)"
  shows "\<exists>sent rest. items = sent @ rest \<and> accepted_items k1 = accepted_items k @ sent \<and> (r = Some (Inr ()) \<longrightarrow> rest = [])"
  using assms
proof (induction items arbitrary: k)
  case (Cons item items)
  obtain p k2 where p: "flush_polls n (logging ops) (k\<lparr>sk_pending := Some item\<rparr>) = (p, k2)" by fastforce
  from flush_polls_item [OF p] have k2: "accepted_items k2 = accepted_items k @ [item] \<or> accepted_items k2 = accepted_items k \<and> p \<noteq> Some (Inr ())" by simp
  show ?case
  proof (cases "p = Some (Inr ())")
    case True
    with Cons.prems p have "send_items n (logging ops) items k2 = (r, k1)" by (simp add: sink_start_send_def)
    from Cons.IH [OF this] obtain sent rest where
      "items = sent @ rest" "accepted_items k1 = accepted_items k2 @ sent" "r = Some (Inr ()) \<longrightarrow> rest = []" by blast
    with k2 True show ?thesis by (intro exI [of _ "item # sent"] exI [of _ rest]) simp
  next
    case False
    with Cons.prems p have "r = p" "k1 = k2" by (auto simp: sink_start_send_def split: option.splits sum.splits)
    with k2 False show ?thesis by (auto intro: exI [of _ "[item]"])
  qed
qed auto

text \<open>A sink that is fed two items loses the first. After \<open>poll_ready\<close> has answered that it is ready, \<open>start_send\<close> accepts a
  second item and drops the one that was waiting: the flush behaves as if the first had never been sent, and succeeds.\<close>

theorem fed_sink_loses:
  assumes "sink_poll_ready ops (snd (sink_start_send item k)) = (Ready (Inr ()), k1)"
  shows "fst (sink_start_send item' k1) = Inr () \<and>
    sink_poll_flush ops (snd (sink_start_send item' k1)) = sink_poll_flush ops (snd (sink_start_send item' (k\<lparr>sk_socket := sk_socket k1\<rparr>)))"
  using assms by (cases "op_poll_ready ops (sk_socket k)") (auto simp: sink_start_send_def sink_poll_ready_def on_socket_def)

definition eager_ops :: "nat socket_ops" where
  "eager_ops = \<lparr>op_poll_ready = (\<lambda>s. (Ready (Inr ()), s)), op_poll_send = (\<lambda>_ s. if s = 0 then (Ready (Inr ()), 1) else (Pending, 0)),
     op_poll_flush = (\<lambda>s. (Ready (Inr ()), s)), op_poll_recv = (\<lambda>s. (Ready None, s))\<rparr>"

theorem sink_sends_in_order_witness:
  "let out = send_items 3 (logging eager_ops) [[[1]], [[2]]] (sink_new (0, []))
   in fst out = Some (Inr ()) \<and> accepted_items (snd out) = [[[1]], [[2]]]"
proof -
  obtain r k1 where out: "send_items 3 (logging eager_ops) [[[1]], [[2]]] (sink_new (0, [])) = (r, k1)" by fastforce
  then have r: "r = Some (Inr ())"
    by (simp add: eval_nat_numeral sink_new_def sink_start_send_def sink_poll_flush_def logging_def on_socket_def eager_ops_def)
  have "accepted_items k1 = [[[1]], [[2]]]" using sink_sends_in_order [OF out] r by (auto simp: sink_new_def)
  with out r show ?thesis by simp
qed

theorem fed_sink_loses_witness:
  "let k = sink_new 0; k1 = snd (sink_poll_ready eager_ops (snd (sink_start_send [[1]] k)))
   in fst (sink_start_send [[2]] k1) = Inr () \<and>
    sink_poll_flush eager_ops (snd (sink_start_send [[2]] k1)) = sink_poll_flush eager_ops (snd (sink_start_send [[2]] (k\<lparr>sk_socket := sk_socket k1\<rparr>)))"
  unfolding Let_def
  by (rule fed_sink_loses [where item = "[[1]]"]) (simp add: sink_start_send_def sink_poll_ready_def on_socket_def eager_ops_def sink_new_def)

end
