(* ===== verification/Pub_Delivery.thy ===== *)
theory Pub_Delivery
  imports Publisher
begin

text \<open>
  What the workers of a PUB socket deliver. A worker may coalesce the messages that wait in its channel
  into one write, adds subscribers between batches and removes those whose write fails. None of this
  shows to a subscriber whose own writes succeed: its stream is the encoding, in order, of the messages
  that its subscriptions select, so that the SUB socket at the other end receives exactly these.
\<close>

lemma encrypt_parts_buf:
  "encrypt_parts cr c l i msg (pre @ buf) = (case encrypt_parts cr c l i msg buf of (ok, c1, b) \<Rightarrow> (ok, c1, pre @ b))"
proof (induction msg arbitrary: c i buf)
  case (Cons p ps)
  have "append_zmtp_cmd_frame (pre @ buf) body = pre @ append_zmtp_cmd_frame buf body" for body
    by (simp add: append_zmtp_cmd_frame_def Let_def)
  with Cons show ?case by (simp split: prod.split sum.split)
qed simp

lemma encode_message_buf:
  "encode_message cr c msg (pre @ buf) = (case encode_message cr c msg buf of (ok, c1, b) \<Rightarrow> (ok, c1, pre @ b))"
  by (simp add: encode_message_def encrypt_parts_buf encode_multipart_wire split: option.split prod.split)

lemma encode_messages_buf:
  "encode_messages cr c msgs (pre @ buf) = (case encode_messages cr c msgs buf of (ok, c1, b) \<Rightarrow> (ok, c1, pre @ b))"
proof (induction msgs arbitrary: c buf)
  case (Cons msg msgs)
  then show ?case by (simp add: encode_message_buf split: prod.split bool.split)
qed simp

lemma encode_messages_append:
  "encode_messages cr c (xs @ ys) buf =
     (case encode_messages cr c xs buf of (ok, c1, b) \<Rightarrow> if ok then encode_messages cr c1 ys b else (False, c1, b))"
  by (induction xs arbitrary: c buf) (simp_all split: prod.split bool.split)

lemma encode_messages_split:
  assumes "encode_messages cr c (xs @ ys) [] = (True, c', out)"
  obtains c1 o1 o2 where "encode_messages cr c xs [] = (True, c1, o1)" "encode_messages cr c1 ys [] = (True, c', o2)" "out = o1 @ o2"
proof -
  obtain ok c1 o1 where 1: "encode_messages cr c xs [] = (ok, c1, o1)" by (metis prod_cases3)
  with assms have ok and 2: "encode_messages cr c1 ys (o1 @ []) = (True, c', out)"
    by (auto simp: encode_messages_append split: if_splits)
  obtain ok2 c2 o2 where 3: "encode_messages cr c1 ys [] = (ok2, c2, o2)" by (metis prod_cases3)
  with 2 have "ok2" "c2 = c'" "out = o1 @ o2" unfolding encode_messages_buf by auto
  with 1 3 \<open>ok\<close> show ?thesis by (intro that [of c1 o1 o2]) simp_all
qed

lemma encode_matching_messages:
  "encode_matching cr subs c batch buf =
     (case encode_messages cr c (filter (worker_matches subs) batch) buf of (ok, c1, b) \<Rightarrow> (if ok then Some b else None, c1))"
proof (induction batch arbitrary: c buf)
  case (Cons msg batch)
  have "encrypt_parts cr c0 l 0 msg buf = (case encrypt_parts cr c0 l 0 msg [] of (ok, c1, b) \<Rightarrow> (ok, c1, buf @ b))" for c0 l
    using encrypt_parts_buf [of cr c0 l 0 msg buf "[]"] by simp
  moreover have "encode_multipart msg buf = buf @ encode_multipart msg []" by (simp add: encode_multipart_wire)
  ultimately show ?case
    by (cases c) (simp_all add: Cons encode_message_def encode_curve_wire_def encode_plain_wire_def split: prod.split bool.split)
qed simp

lemma encode_messages_plain: "encode_messages cr None msgs buf = (True, None, buf @ concat (map (\<lambda>msg. encode_multipart msg []) msgs))"
  by (induction msgs arbitrary: buf) (simp_all add: encode_message_def encode_multipart_wire)

lemma subscriber_out_messages:
  "subscriber_out cr batch sub =
     (case encode_messages cr (ws_cipher sub) (filter (worker_matches (ws_subscriptions sub)) batch) [] of
        (ok, c1, b) \<Rightarrow> (if ok then Some b else None, c1))"
  by (simp add: subscriber_out_def encode_matching_messages encode_messages_plain worker_matches_def)

text \<open>What a subscriber has after it has been sent some messages.\<close>

definition sent_to :: "bytes \<Rightarrow> message_cipher option \<Rightarrow> worker_subscriber \<Rightarrow> worker_subscriber" where
  "sent_to out c sub = sub\<lparr>ws_cipher := c, ws_stream := ws_stream sub @ out\<rparr>"

lemma sent_to_simps [simp]:
  "ws_id (sent_to out c sub) = ws_id sub" "ws_subscriptions (sent_to out c sub) = ws_subscriptions sub"
  "ws_cipher (sent_to out c sub) = c" "sent_to o2 c2 (sent_to o1 c1 sub) = sent_to (o1 @ o2) c2 sub"
  "sent_to [] (ws_cipher sub) sub = sub"
  by (simp_all add: sent_to_def)

lemma broadcast_one_written:
  assumes "\<forall>n. net n (ws_id sub) = Written"
    and "encode_messages cr (ws_cipher sub) (filter (worker_matches (ws_subscriptions sub)) batch) [] = (True, c, out)"
  shows "fst (broadcast_one cr net batch n sub) = Some (sent_to out c sub)"
  using assms by (simp add: broadcast_one_def subscriber_out_messages sent_to_def)

lemma broadcast_all_written:
  assumes "sub \<in> set subs" "\<forall>n. net n (ws_id sub) = Written"
    and "encode_messages cr (ws_cipher sub) (filter (worker_matches (ws_subscriptions sub)) batch) [] = (True, c, out)"
  shows "sent_to out c sub \<in> set (fst (broadcast_all cr net batch n subs))"
  using assms(1)
proof (induction subs arbitrary: n)
  case (Cons x xs)
  obtain r n1 where r: "broadcast_one cr net batch n x = (r, n1)" by fastforce
  obtain subs1 n2 where s: "broadcast_all cr net batch n1 xs = (subs1, n2)" by fastforce
  show ?case
  proof (cases "x = sub")
    case True
    with broadcast_one_written [where net = net, OF assms(2,3), of n] r s show ?thesis by simp
  next
    case False
    with Cons.prems Cons.IH [of n1] r s show ?thesis by (auto split: option.split)
  qed
qed simp

lemma collect_batch_split:
  "collect_batch avail batch n queue = (batch', deferred, queue') \<Longrightarrow>
   \<exists>ms. batch' = batch @ ms \<and> queue = map Broadcast ms @ (case deferred of Some c \<Rightarrow> [c] | None \<Rightarrow> []) @ queue' \<and>
     (\<forall>m. deferred \<noteq> Some (Broadcast m))"
proof (induction avail batch n queue rule: collect_batch.induct)
  case (1 avail batch n queue)
  show ?case
  proof (cases "length batch < MAX_COALESCE_MSGS \<and> n < COALESCE_BYTE_LIMIT \<and> (\<exists>k msg q. avail = Suc k \<and> queue = Broadcast msg # q)")
    case True
    then obtain k msg q where c: "length batch < MAX_COALESCE_MSGS" "n < COALESCE_BYTE_LIMIT" "avail = Suc k" "queue = Broadcast msg # q" by blast
    with 1(2) have "collect_batch k (batch @ [msg]) (n + approx_wire_len msg) q = (batch', deferred, queue')"
      by (subst (asm) collect_batch.simps) simp
    from 1(1) [OF _ _ c(3) _ _ this] c obtain ms where "batch' = (batch @ [msg]) @ ms"
      "q = map Broadcast ms @ (case deferred of Some c \<Rightarrow> [c] | None \<Rightarrow> []) @ queue'" "\<forall>m. deferred \<noteq> Some (Broadcast m)" by blast
    with c show ?thesis by (intro exI [of _ "msg # ms"]) simp
  next
    case False
    with 1(2) show ?thesis
      by (subst (asm) collect_batch.simps) (auto split: if_splits nat.splits list.splits worker_command.splits)
  qed
qed

text \<open>The messages published before a shutdown.\<close>

fun published :: "worker_command list \<Rightarrow> bytes list list" where
  "published [] = []"
| "published (Broadcast msg # queue) = msg # published queue"
| "published (AddSubscriber _ _ _ _ # queue) = published queue"
| "published (Shutdown # queue) = []"

lemma published_broadcasts: "published (map Broadcast ms @ queue) = ms @ published queue"
  by (induction ms) simp_all

fun adds :: "nat \<Rightarrow> worker_command \<Rightarrow> bool" where
  "adds i (AddSubscriber j _ _ _) = (i = j)"
| "adds i _ = False"

lemma worker_add_other: "sub \<in> set (wk_subs st) \<Longrightarrow> ws_id sub \<noteq> i \<Longrightarrow> sub \<in> set (wk_subs (worker_add i a subs c st))"
  by (simp add: worker_add_def)

lemma worker_broadcast_written:
  assumes "sub \<in> set (wk_subs st)" "\<forall>n. net n (ws_id sub) = Written"
    and "encode_messages cr (ws_cipher sub) (filter (worker_matches (ws_subscriptions sub)) batch) [] = (True, c, out)"
  shows "sent_to out c sub \<in> set (wk_subs (worker_broadcast cr net batch st))"
  using broadcast_all_written [where net = net, OF assms, of "wk_writes st"]
  by (auto simp: worker_broadcast_def split: prod.split)

lemma worker_matches_prefix:
  "subs \<noteq> [] \<Longrightarrow> msg \<noteq> [] \<Longrightarrow> worker_matches subs msg \<longleftrightarrow> (\<exists>p\<in>set subs. prefix p (hd msg))"
  by (cases msg) (simp_all add: worker_matches_Cons starts_with_prefix)

lemma length_concat_filter_le: "length (concat (filter P xs)) \<le> length (concat xs)"
  by (induction xs) auto

text \<open>The effect of the command that ends a batch: the new state, or the end of the thread.\<close>

fun after_batch :: "worker_command option \<Rightarrow> worker_state \<Rightarrow> worker_state option" where
  "after_batch (Some (AddSubscriber i attach subs cipher)) st = Some (worker_add i attach subs cipher st)"
| "after_batch (Some Shutdown) st = None"
| "after_batch (Some (Broadcast _)) st = Some st"
| "after_batch None st = Some st"

lemma worker_loop_batch:
  assumes "collect_batch (case avails of [] \<Rightarrow> 0 | a # _ \<Rightarrow> a) [msg] (approx_wire_len msg) queue = (batch, deferred, queue1)"
  shows "worker_loop cr net avails (Broadcast msg # queue) st =
    (case after_batch deferred (worker_broadcast cr net batch st) of
       Some st1 \<Rightarrow> worker_loop cr net (drop 1 avails) queue1 st1 | None \<Rightarrow> (worker_broadcast cr net batch st, False))"
  by (simp add: assms Let_def split: option.split worker_command.split)

lemma after_batch_None: "after_batch deferred st = None \<Longrightarrow> deferred = Some Shutdown"
  by (cases "(deferred, st)" rule: after_batch.cases) simp_all

lemma after_batch_Some:
  assumes "after_batch deferred st = Some st1" "\<forall>m. deferred \<noteq> Some (Broadcast m)"
  shows "published ((case deferred of Some c \<Rightarrow> [c] | None \<Rightarrow> []) @ queue) = published queue"
    and "sub \<in> set (wk_subs st) \<Longrightarrow> \<forall>cmd. deferred = Some cmd \<longrightarrow> \<not> adds (ws_id sub) cmd \<Longrightarrow> sub \<in> set (wk_subs st1)"
  using assms by (cases "(deferred, st)" rule: after_batch.cases; auto intro: worker_add_other)+

lemma worker_loop_written:
  "sub \<in> set (wk_subs st) \<Longrightarrow> \<forall>n. net n (ws_id sub) = Written \<Longrightarrow> \<not> list_ex (adds (ws_id sub)) queue \<Longrightarrow>
   encode_messages cr (ws_cipher sub) (filter (worker_matches (ws_subscriptions sub)) (published queue)) [] = (True, c, out) \<Longrightarrow>
   sent_to out c sub \<in> set (wk_subs (fst (worker_loop cr net avails queue st)))"
proof (induction "length queue" arbitrary: queue avails st sub out rule: less_induct)
  case less
  note IH = less.hyps and sub = less.prems(1) and net = less.prems(2) and adds = less.prems(3) and enc = less.prems(4)
  show ?case
  proof (cases queue)
    case Nil
    with sub enc show ?thesis by (auto simp: sent_to_def)
  next
    case (Cons cmd q)
    show ?thesis
    proof (cases cmd)
      case (AddSubscriber i a subs cipher)
      with Cons sub net adds enc IH [of q sub "worker_add i a subs cipher st" out avails] show ?thesis
        by (simp add: worker_add_other)
    next
      case Shutdown
      with Cons sub enc show ?thesis by (auto simp: sent_to_def)
    next
      case (Broadcast msg)
      obtain batch deferred queue1 where
        b: "collect_batch (case avails of [] \<Rightarrow> 0 | a # _ \<Rightarrow> a) [msg] (approx_wire_len msg) q = (batch, deferred, queue1)"
        by (metis prod_cases3)
      from collect_batch_split [OF this] obtain ms where ms: "batch = msg # ms"
        "q = map Broadcast ms @ (case deferred of Some c \<Rightarrow> [c] | None \<Rightarrow> []) @ queue1"
        "\<forall>m. deferred \<noteq> Some (Broadcast m)" by auto
      let ?W = "filter (worker_matches (ws_subscriptions sub))"
      let ?rest = "published ((case deferred of Some c \<Rightarrow> [c] | None \<Rightarrow> []) @ queue1)"
      from ms have "published queue = batch @ ?rest" by (simp add: Cons Broadcast published_broadcasts)
      with enc have "encode_messages cr (ws_cipher sub) (?W batch @ ?W ?rest) [] = (True, c, out)" by simp
      then obtain c1 o1 o2 where e: "encode_messages cr (ws_cipher sub) (?W batch) [] = (True, c1, o1)"
        "encode_messages cr c1 (?W ?rest) [] = (True, c, o2)" "out = o1 @ o2" by (rule encode_messages_split)
      let ?st = "worker_broadcast cr net batch st" and ?sub = "sent_to o1 c1 sub"
      have s1: "?sub \<in> set (wk_subs ?st)" by (rule worker_broadcast_written [where net = net, OF sub net e(1)])
      have q1: "\<not> list_ex (adds (ws_id sub)) queue1" "length queue1 < length queue"
        "\<forall>cmd. deferred = Some cmd \<longrightarrow> \<not> adds (ws_id sub) cmd" using adds ms(2) by (auto simp: Cons)
      show ?thesis
      proof (cases "after_batch deferred ?st")
        case None
        with after_batch_None [OF None] s1 e show ?thesis by (simp add: Cons Broadcast worker_loop_batch [OF b] del: worker_loop.simps)
      next
        case (Some st1)
        from after_batch_Some(1) [OF Some ms(3), of queue1] after_batch_Some(2) [OF Some ms(3) s1] q1(3) have "?sub \<in> set (wk_subs st1)" "?rest = published queue1" by auto
        with IH [OF q1(2), of ?sub st1 o2 "drop 1 avails"] net q1(1) e Some show ?thesis
          by (simp add: Cons Broadcast worker_loop_batch [OF b] del: worker_loop.simps)
      qed
    qed
  qed
qed

text \<open>C3. Publish and subscribe end to end. Whatever is queued for a worker, however it coalesces the queue
  into batches and whichever other subscribers it adds or loses on the way, a subscriber whose writes
  succeed receives from its SUB socket exactly the published messages that its subscriptions select, in
  order, plain or encrypted and in any fragmentation of the stream.
\<close>

theorem pub_sub_end_to_end:
  assumes "crypto_laws cr" and "sub \<in> set (wk_subs st)" and "\<forall>n. net n (ws_id sub) = Written"
    and "\<not> list_ex (adds (ws_id sub)) queue" and "matched (ws_cipher sub) d"
    and "budget (ws_cipher sub) (length (concat (published queue)))"
    and "\<forall>msg \<in> set (published queue). msg \<noteq> [] \<and> fits m msg" and "ws_stream sub = []"
    and "receiving m d [] (base s)" and "own s = \<lparr>sf_frames = [], sf_subscriptions = ws_subscriptions sub\<rparr>"
    and "ws_subscriptions sub \<noteq> []"
  shows "let wanted = filter (\<lambda>msg. \<exists>p \<in> set (ws_subscriptions sub). prefix p (hd msg)) (published queue)
    in \<exists>sub' \<in> set (wk_subs (fst (worker_loop cr net avails queue st))). ws_id sub' = ws_id sub \<and>
      (\<forall>chunks e rs. concat chunks = ws_stream sub' \<longrightarrow> [] \<notin> set chunks \<longrightarrow> env_reads e = map ReadBytes chunks @ rs \<longrightarrow>
        recv_all (sub_recv cr) (length wanted) s e = map (\<lambda>msg. IoOk (Some msg)) wanted)"
proof -
  let ?all = "published queue" and ?subs = "ws_subscriptions sub"
  let ?wanted = "filter (\<lambda>msg. \<exists>p \<in> set ?subs. prefix p (hd msg)) ?all"
  have w: "filter (worker_matches ?subs) ?all = ?wanted"
    using assms(7) worker_matches_prefix [OF assms(11)] by (intro filter_cong refl) auto
  obtain k where "length (concat ?all) = length (concat ?wanted) + k"
    using le_Suc_ex [OF length_concat_filter_le [of "\<lambda>msg. \<exists>p \<in> set ?subs. prefix p (hd msg)" ?all]] by blast
  with assms(6) have "budget (ws_cipher sub) (length (concat ?wanted) + k)" by simp
  moreover have "\<forall>msg \<in> set ?wanted. fits m msg" using assms(7) by simp
  ultimately obtain c d' out where enc: "encode_messages cr (ws_cipher sub) ?wanted [] = (True, c, out)"
    "carries_messages cr m d out ?wanted d'"
    using encode_messages_carries [OF assms(1,5), of ?wanted k m "[]"] unfolding append_Nil by blast
  have "sent_to out c sub \<in> set (wk_subs (fst (worker_loop cr net avails queue st)))"
    using worker_loop_written [where net = net, OF assms(2-4), of cr c out avails] enc(1) by (simp add: w)
  moreover have "recv_all (sub_recv cr) (length ?wanted) s e = map (\<lambda>msg. IoOk (Some msg)) ?wanted"
    if "concat chunks = out" "[] \<notin> set chunks" "env_reads e = map ReadBytes chunks @ rs" for chunks e rs
  proof -
    have f: "filter (sub_matches ?subs) ?wanted = ?wanted"
      unfolding filter_filter using assms(7) sub_matches_prefix [OF assms(11)] by (intro filter_cong refl) auto
    have ne: "[] \<notin> set ?wanted" using assms(7) by auto
    have "out = [] @ concat chunks" using that(1) by simp
    from sub_recv_all [OF f enc(2) ne assms(9,10) this that(2,3)] show ?thesis .
  qed
  moreover have "ws_stream (sent_to out c sub) = out" using assms(8) by (simp add: sent_to_def)
  ultimately show ?thesis unfolding Let_def by (intro bexI [of _ "sent_to out c sub"]) simp_all
qed

definition demo_worker :: worker_state where
  "demo_worker = \<lparr>wk_subs = [\<lparr>ws_id = 7, ws_stream = [], ws_subscriptions = [[1]], ws_cipher = None\<rparr>,
     \<lparr>ws_id = 8, ws_stream = [], ws_subscriptions = [], ws_cipher = None\<rparr>], wk_count = 2, wk_writes = 0\<rparr>"

theorem pub_sub_end_to_end_witness:
  "let wanted = filter (\<lambda>msg. \<exists>p \<in> set [[1 :: byte]]. prefix p (hd msg)) [[[1, 2]], [[3]], [[1], [4]]]
    in \<exists>sub' \<in> set (wk_subs (fst (worker_loop tag_crypto (\<lambda>n i. if i = 7 then Written else WriteStalls 0) [2]
          [Broadcast [[1, 2]], Broadcast [[3]], AddSubscriber 9 True [] None, Broadcast [[1], [4]], Shutdown] demo_worker))).
      ws_id sub' = 7 \<and>
      (\<forall>chunks e rs. concat chunks = ws_stream sub' \<longrightarrow> [] \<notin> set chunks \<longrightarrow> env_reads e = map ReadBytes chunks @ rs \<longrightarrow>
        recv_all (sub_recv tag_crypto) (length wanted) (demo_sub [[1]]) e = map (\<lambda>msg. IoOk (Some msg)) wanted)"
  using pub_sub_end_to_end [OF tag_crypto_laws, of "\<lparr>ws_id = 7, ws_stream = [], ws_subscriptions = [[1]], ws_cipher = None\<rparr>" demo_worker
    "\<lambda>n i. if i = 7 then Written else WriteStalls 0"
    "[Broadcast [[1, 2]], Broadcast [[3]], AddSubscriber 9 True [] None, Broadcast [[1], [4]], Shutdown]" None 1000 "demo_sub [[1]]" "[2]"]
    demo_sub_receiving [of "[[1]]"]
  by (simp add: demo_worker_def fits_def demo_sub_def del: worker_loop.simps)

text \<open>A high water mark of 0, which elsewhere in the library means no limit, makes a PUB socket drop what
  it sends: the channel to a worker then has no room, and unless the worker is already waiting for
  the message, \<open>send\<close> reports success and queues nothing.
\<close>

theorem zero_hwm_drops:
  assumes "opt_send_hwm (pk_options k) = 0" and "\<forall>w \<in> set (pk_workers k). pw_open w" and "\<not> pk_is_poisoned k" and "msg \<noteq> []"
  shows "\<exists>k'. pub_send (\<lambda>_. False) msg k = (IoOk (), k') \<and> pk_workers k' = pk_workers k"
proof -
  have "\<exists>n. dispatch_from (\<lambda>_. False) 0 msg j ws = (IoOk (), ws, n)" if "\<forall>w \<in> set ws. pw_open w" for j ws
    using that
  proof (induction ws arbitrary: j)
    case (Cons w ws)
    then obtain n where "dispatch_from (\<lambda>_. False) 0 msg (j + 1) ws = (IoOk (), ws, n)" by (metis list.set_intros(2))
    with Cons.prems show ?case by (simp add: channel_full_def)
  qed simp
  from this [OF assms(2), of 0] obtain n where "dispatch_from (\<lambda>_. False) 0 msg 0 (pk_workers k) = (IoOk (), pk_workers k, n)" ..
  with assms show ?thesis
    by (auto simp: pub_send_def prefilter_allows_def pub_dispatch_def Let_def split: list.split bool.split)
qed

theorem zero_hwm_drops_witness:
  "\<exists>k'. pub_send (\<lambda>_. False) [[1]] (with_workers_opts 2 (demo_options\<lparr>opt_send_hwm := 0\<rparr>)) = (IoOk (), k') \<and>
     pk_workers k' = replicate 2 \<lparr>pw_queue = [], pw_open = True, pw_sub_count = 0\<rparr>"
  using zero_hwm_drops [of "with_workers_opts 2 (demo_options\<lparr>opt_send_hwm := 0\<rparr>)" "[[1]]"]
  by (simp add: with_workers_opts_def)

end
