(* ===== verification/Xpub_Socket.thy ===== *)
theory Xpub_Socket
  imports Pub_Delivery
begin

text \<open>
  \<open>monocoque-zmtp/src/xpub.rs\<close>: the XPUB socket. It accepts subscribers, polls them for subscription
  messages, reports to its user which topics gain a first and lose a last subscriber, and writes
  each message to the subscribers whose subscriptions match. The subscribers are a list, in the
  order in which the map is iterated; a subscriber's stream is what has been written to it.

  The theorems: with subscribers that subscribe to a topic once and unsubscribe from what they have
  subscribed to, the events reported keep an upstream copy equal to the union of all
  subscriptions, and \<open>send\<close> writes to exactly the matching subscribers; a subscriber that repeats a
  subscription breaks the copy, and encrypted connections take subscriptions in plain text.
\<close>

section \<open>Topics\<close>

record topic_table =
  tt_seen :: "bytes set"
  tt_refcount :: "bytes \<rightharpoonup> nat"
  tt_pending :: "subscription_event list"

definition topic_table_new :: topic_table where
  "topic_table_new = \<lparr>tt_seen = {}, tt_refcount = Map.empty, tt_pending = []\<rparr>"

definition refs :: "topic_table \<Rightarrow> bytes \<Rightarrow> nat" where
  "refs tt key = (case tt_refcount tt key of Some n \<Rightarrow> n | None \<Rightarrow> 0)"

definition count_subscribe :: "bool \<Rightarrow> bytes \<Rightarrow> topic_table \<Rightarrow> bool \<times> topic_table" where
  "count_subscribe verbose key tt =
     (let count = refs tt key + 1; tt1 = tt\<lparr>tt_refcount := (tt_refcount tt)(key \<mapsto> count)\<rparr> in
      if verbose \<or> count = 1 then (True, tt1\<lparr>tt_seen := insert key (tt_seen tt1)\<rparr>) else (False, tt1))"

definition count_unsubscribe :: "bool \<Rightarrow> bytes \<Rightarrow> topic_table \<Rightarrow> bool \<times> topic_table" where
  "count_unsubscribe verbose key tt =
     (let count = (if 0 < refs tt key then refs tt key - 1 else refs tt key) in
      if count = 0
      then (True, tt\<lparr>tt_seen := tt_seen tt - {key}, tt_refcount := (tt_refcount tt)(key := None)\<rparr>)
      else (verbose, tt\<lparr>tt_refcount := (tt_refcount tt)(key \<mapsto> count)\<rparr>))"

definition xpub_event :: "bool \<Rightarrow> subscription_event \<Rightarrow> subscription_trie \<times> topic_table \<Rightarrow> subscription_trie \<times> topic_table" where
  "xpub_event verbose event st =
     (case st of (subs, tt) \<Rightarrow>
        let (subs1, should_deliver, tt1) =
          (case event of
             Subscribe p \<Rightarrow> (trie_subscribe p subs, count_subscribe verbose p tt)
           | Unsubscribe p \<Rightarrow> (trie_unsubscribe p subs, count_unsubscribe verbose p tt))
        in (subs1, if should_deliver then tt1\<lparr>tt_pending := tt_pending tt1 @ [event]\<rparr> else tt1))"

section \<open>The socket\<close>

record xpub_subscriber =
  xs_id :: nat
  xs_stream :: bytes
  xs_subscriptions :: subscription_trie
  xs_recv :: segbuf
  xs_decoder :: zmtp_decoder
  xs_cipher :: "message_cipher option"

definition xpub_matches :: "xpub_subscriber \<Rightarrow> bytes list \<Rightarrow> bool" where
  "xpub_matches sub msg = (case msg of first_frame # _ \<Rightarrow> trie_matches (xs_subscriptions sub) first_frame | [] \<Rightarrow> False)"

record xpub_socket =
  xk_subscribers :: "xpub_subscriber list"
  xk_next_id :: nat
  xk_options :: socket_options
  xk_topics :: topic_table
  xk_upstream :: "xsub_socket option"

definition xpub_bind_with_options :: "socket_options \<Rightarrow> xpub_socket" where
  "xpub_bind_with_options opts =
     \<lparr>xk_subscribers = [], xk_next_id = 1, xk_options = opts, xk_topics = topic_table_new, xk_upstream = None\<rparr>"

text \<open>\<open>stream.write_all\<close>, with neither a poison guard nor a timeout.\<close>

definition xpub_write :: "bytes \<Rightarrow> (xpub_subscriber, unit) aio" where
  "xpub_write bs sub e =
     (case pop_write e of
        (Written, e1) \<Rightarrow> (IoOk (), sub\<lparr>xs_stream := xs_stream sub @ bs\<rparr>, e1)
      | (WriteFails k n, e1) \<Rightarrow> (IoErr k, sub\<lparr>xs_stream := xs_stream sub @ take n bs\<rparr>, e1)
      | (WriteStalls n, e1) \<Rightarrow> (IoDropped, sub\<lparr>xs_stream := xs_stream sub @ take n bs\<rparr>, e1)
      | (WriteDropped n, e1) \<Rightarrow> (IoDropped, sub\<lparr>xs_stream := xs_stream sub @ take n bs\<rparr>, e1))"

text \<open>A write whose error is ignored; only a dropped future ends the caller.\<close>

definition xpub_write_ignored :: "bytes \<Rightarrow> (xpub_subscriber, unit) aio" where
  "xpub_write_ignored bs sub e =
     (case xpub_write bs sub e of (IoErr _, sub1, e1) \<Rightarrow> (IoOk (), sub1, e1) | r \<Rightarrow> r)"

text \<open>\<open>accept\<close>: the accepted connection or an error; a welcome message may go out before the subscriber is added.\<close>

definition xpub_accept ::
  "curve_crypto \<Rightarrow> curve_entropy \<Rightarrow> zap_environment \<Rightarrow> (io_error_kind + io_error_kind option \<times> hs_stream) \<Rightarrow> (xpub_socket, unit) aio" where
  "xpub_accept cr ent zap incoming k e =
     (case incoming of
        Inl err \<Rightarrow> (if err = WouldBlock then IoOk () else IoErr err, k, e)
      | Inr (Some err, _) \<Rightarrow> (IoErr err, k, e)
      | Inr (None, conn) \<Rightarrow>
          (case perform_handshake_with_options cr ent zap StXpub (opt_routing_id (xk_options k))
                  (Some (opt_handshake_timeout (xk_options k))) (xk_options k) conn of
             (HErr _, _) \<Rightarrow> (IoErr InvalidData, k, e)
           | (HPanic, _) \<Rightarrow> (IoPanic, k, e)
           | (HOk hr, _) \<Rightarrow>
               (let i = xk_next_id k; k1 = k\<lparr>xk_next_id := i + 1\<rparr>;
                    sub = \<lparr>xs_id = i, xs_stream = [], xs_subscriptions = trie_new, xs_recv = seg_new,
                           xs_decoder = decoder_for (xk_options k), xs_cipher = curve_cipher hr\<rparr>;
                    add = (\<lambda>sub. k1\<lparr>xk_subscribers := xk_subscribers k1 @ [sub]\<rparr>)
                in case opt_xpub_welcome_msg (xk_options k) of
                     None \<Rightarrow> (IoOk (), add sub, e)
                   | Some welcome_msg \<Rightarrow>
                       (case encode_message cr (xs_cipher sub) [welcome_msg] [] of
                          (False, _, _) \<Rightarrow> (IoErr InvalidData, k1, e)
                        | (True, c1, encoded) \<Rightarrow>
                            (case xpub_write_ignored encoded (sub\<lparr>xs_cipher := c1\<rparr>) e of
                               (IoOk _, sub1, e1) \<Rightarrow> (IoOk (), add sub1, e1)
                             | (r, _, e1) \<Rightarrow> (r, k1, e1))))))"

section \<open>Subscription messages\<close>

datatype xpub_payload = XpSkip | XpPong | XpData bytes

definition xpub_resolve ::
  "curve_crypto \<Rightarrow> message_cipher option \<Rightarrow> zmtp_frame \<Rightarrow> (xpub_payload \<times> message_cipher option) option" where
  "xpub_resolve cr cipher frame =
     (if frame_is_command frame
      then (case cipher of
              Some c \<Rightarrow>
                if is_curve_message (payload frame)
                then (case decrypt_frame cr c (payload frame) of
                        None \<Rightarrow> None
                      | Some (Inr (_, data), c1) \<Rightarrow> Some (XpData data, Some c1)
                      | Some (Inl _, c1) \<Rightarrow> Some (XpSkip, Some c1))
                else Some (if is_ping_payload (payload frame) then XpPong else XpSkip, cipher)
            | None \<Rightarrow> Some (if is_ping_payload (payload frame) then XpPong else XpSkip, cipher))
      else Some (XpData (payload frame), cipher))"

definition xpub_apply :: "bool \<Rightarrow> bytes \<Rightarrow> xpub_subscriber \<times> topic_table \<Rightarrow> xpub_subscriber \<times> topic_table" where
  "xpub_apply verbose data st =
     (case st of (sub, tt) \<Rightarrow>
        case from_bytes data of
          None \<Rightarrow> st
        | Some event \<Rightarrow>
            (case xpub_event verbose event (xs_subscriptions sub, tt) of (t, tt1) \<Rightarrow> (sub\<lparr>xs_subscriptions := t\<rparr>, tt1)))"

lemma xpub_write_frame:
  "xpub_write bs sub e = (r, sub1, e1) \<Longrightarrow> \<exists>out. sub1 = sub\<lparr>xs_stream := out\<rparr>"
  by (auto simp: xpub_write_def split: prod.splits write_outcome.splits)

lemma xpub_write_ignored_frame:
  "xpub_write_ignored bs sub e = (r, sub1, e1) \<Longrightarrow> \<exists>out. sub1 = sub\<lparr>xs_stream := out\<rparr>"
  by (auto simp: xpub_write_ignored_def dest: xpub_write_frame split: prod.splits io_out.splits)

text \<open>The loop over the frames in the buffer of a subscriber.\<close>

function xpub_drain :: "curve_crypto \<Rightarrow> bool \<Rightarrow> xpub_subscriber \<times> topic_table \<Rightarrow> io_env \<Rightarrow> unit io_out \<times> (xpub_subscriber \<times> topic_table) \<times> io_env" where
  "xpub_drain cr verbose (sub, tt) e =
     (case decode (xs_decoder sub) (xs_recv sub) of
        None \<Rightarrow> (IoPanic, (sub, tt), e)
      | Some (Inl _, d, src) \<Rightarrow> (IoOk (), (sub\<lparr>xs_decoder := d, xs_recv := src\<rparr>, tt), e)
      | Some (Inr None, d, src) \<Rightarrow> (IoOk (), (sub\<lparr>xs_decoder := d, xs_recv := src\<rparr>, tt), e)
      | Some (Inr (Some frame), d, src) \<Rightarrow>
          (case xpub_resolve cr (xs_cipher sub) frame of
             None \<Rightarrow> (IoPanic, (sub, tt), e)
           | Some (XpSkip, c) \<Rightarrow> xpub_drain cr verbose (sub\<lparr>xs_decoder := d, xs_recv := src, xs_cipher := c\<rparr>, tt) e
           | Some (XpPong, c) \<Rightarrow>
               (case xpub_write_ignored build_pong_frame (sub\<lparr>xs_decoder := d, xs_recv := src, xs_cipher := c\<rparr>) e of
                  (IoOk _, sub1, e1) \<Rightarrow> xpub_drain cr verbose (sub1, tt) e1
                | (r, sub1, e1) \<Rightarrow> (r, (sub1, tt), e1))
           | Some (XpData data, c) \<Rightarrow>
               xpub_drain cr verbose (xpub_apply verbose data (sub\<lparr>xs_decoder := d, xs_recv := src, xs_cipher := c\<rparr>, tt)) e))"
  by pat_completeness auto
termination
proof (relation "measure (\<lambda>(cr, verbose, (sub, tt), e). decode_measure (xs_decoder sub) (xs_recv sub))")
qed (auto simp: xpub_apply_def dest!: xpub_write_ignored_frame [OF sym] dest: decode_progress split: option.split prod.split)

declare xpub_drain.simps [simp del]

text \<open>One subscriber of a poll: a read with a timeout of one millisecond; only data is looked at.\<close>

definition xpub_poll_one :: "curve_crypto \<Rightarrow> bool \<Rightarrow> (xpub_subscriber \<times> topic_table, unit) aio" where
  "xpub_poll_one cr verbose st e =
     (case pop_read e of
        (ReadBytes bs, e1) \<Rightarrow>
          if bs = [] then (IoOk (), st, e1)
          else xpub_drain cr verbose ((fst st)\<lparr>xs_recv := seg_push (xs_recv (fst st)) bs\<rparr>, snd st) e1
      | (ReadFails _, e1) \<Rightarrow> (IoOk (), st, e1)
      | (ReadStalls, e1) \<Rightarrow> (IoOk (), st, e1)
      | (ReadDropped, e1) \<Rightarrow> (IoDropped, st, e1))"

fun xpub_poll ::
  "curve_crypto \<Rightarrow> bool \<Rightarrow> xpub_subscriber list \<Rightarrow> topic_table \<Rightarrow> io_env \<Rightarrow> unit io_out \<times> xpub_subscriber list \<times> topic_table \<times> io_env" where
  "xpub_poll cr verbose [] tt e = (IoOk (), [], tt, e)"
| "xpub_poll cr verbose (sub # subs) tt e =
     (case xpub_poll_one cr verbose (sub, tt) e of
        (IoOk _, (sub1, tt1), e1) \<Rightarrow>
          (case xpub_poll cr verbose subs tt1 e1 of (r, subs1, tt2, e2) \<Rightarrow> (r, sub1 # subs1, tt2, e2))
      | (r, (sub1, tt1), e1) \<Rightarrow> (r, sub1 # subs, tt1, e1))"

definition take_event :: "xpub_socket \<Rightarrow> subscription_event option \<times> xpub_socket" where
  "take_event k =
     (case tt_pending (xk_topics k) of
        [] \<Rightarrow> (None, k)
      | event # events \<Rightarrow> (Some event, k\<lparr>xk_topics := (xk_topics k)\<lparr>tt_pending := events\<rparr>\<rparr>))"

definition recv_subscription :: "curve_crypto \<Rightarrow> (xpub_socket, subscription_event option) aio" where
  "recv_subscription cr k e =
     (if tt_pending (xk_topics k) \<noteq> [] then (case take_event k of (ev, k1) \<Rightarrow> (IoOk ev, k1, e))
      else case xpub_poll cr (opt_xpub_verbose (xk_options k)) (xk_subscribers k) (xk_topics k) e of
        (r, subs, tt, e1) \<Rightarrow>
          (let k1 = k\<lparr>xk_subscribers := subs, xk_topics := tt\<rparr> in
           case r of
             IoOk _ \<Rightarrow> (case take_event k1 of (ev, k2) \<Rightarrow> (IoOk ev, k2, e1))
           | IoErr err \<Rightarrow> (IoErr err, k1, e1)
           | IoDropped \<Rightarrow> (IoDropped, k1, e1)
           | IoPanic \<Rightarrow> (IoPanic, k1, e1)))"

section \<open>Sending\<close>

text \<open>The loop of \<open>send\<close>, with the list of subscribers to remove; a dropped call removes nobody.\<close>

fun xpub_send_loop ::
  "curve_crypto \<Rightarrow> bytes list \<Rightarrow> xpub_subscriber list \<Rightarrow> io_env \<Rightarrow> unit io_out \<times> xpub_subscriber list \<times> nat list \<times> io_env" where
  "xpub_send_loop cr msg [] e = (IoOk (), [], [], e)"
| "xpub_send_loop cr msg (sub # subs) e =
     (let rest = (\<lambda>sub1 dead e1. case xpub_send_loop cr msg subs e1 of (r, subs1, ds, e2) \<Rightarrow> (r, sub1 # subs1, dead @ ds, e2)) in
      if \<not> xpub_matches sub msg then rest sub [] e
      else case encode_message cr (xs_cipher sub) msg [] of
        (False, c1, _) \<Rightarrow> rest (sub\<lparr>xs_cipher := c1\<rparr>) [xs_id sub] e
      | (True, c1, encoded) \<Rightarrow>
          (case xpub_write encoded (sub\<lparr>xs_cipher := c1\<rparr>) e of
             (IoOk _, sub1, e1) \<Rightarrow> rest sub1 [] e1
           | (IoErr _, sub1, e1) \<Rightarrow> rest sub1 [xs_id sub] e1
           | (r, sub1, e1) \<Rightarrow> (r, sub1 # subs, [], e1)))"

definition xpub_send :: "curve_crypto \<Rightarrow> bytes list \<Rightarrow> (xpub_socket, unit) aio" where
  "xpub_send cr msg k e =
     (case xpub_send_loop cr msg (xk_subscribers k) e of
        (IoOk _, subs, dead, e1) \<Rightarrow> (IoOk (), k\<lparr>xk_subscribers := filter (\<lambda>s. xs_id s \<notin> set dead) subs\<rparr>, e1)
      | (r, subs, dead, e1) \<Rightarrow> (r, k\<lparr>xk_subscribers := subs\<rparr>, e1))"

section \<open>Control\<close>

definition xpub_has_more :: "xpub_socket \<Rightarrow> bool" where
  "xpub_has_more k \<longleftrightarrow> tt_pending (xk_topics k) \<noteq> []"

definition xpub_events :: "xpub_socket \<Rightarrow> nat" where
  "xpub_events k =
     (let events = 0; events = (if tt_pending (xk_topics k) \<noteq> [] then or events 1 else events)
      in if xk_subscribers k \<noteq> [] then or events 2 else events)"

definition set_verbose :: "bool \<Rightarrow> xpub_socket \<Rightarrow> xpub_socket" where
  "set_verbose verbose k = k\<lparr>xk_options := (xk_options k)\<lparr>opt_xpub_verbose := verbose\<rparr>\<rparr>"

definition set_manual :: "bool \<Rightarrow> xpub_socket \<Rightarrow> xpub_socket" where
  "set_manual manual k = k\<lparr>xk_options := (xk_options k)\<lparr>opt_xpub_manual := manual\<rparr>\<rparr>"

definition connect_upstream ::
  "curve_crypto \<Rightarrow> curve_entropy \<Rightarrow> zap_environment \<Rightarrow> str \<Rightarrow> io_error_kind option \<Rightarrow> hs_stream \<Rightarrow> xpub_socket \<Rightarrow> unit io_out \<times> xpub_socket" where
  "connect_upstream cr ent zap addr configure conn k =
     (case xsub_connect_with_options cr ent zap addr configure conn socket_options_default of
        IoOk xsub \<Rightarrow> (IoOk (), k\<lparr>xk_upstream := Some xsub\<rparr>)
      | IoErr err \<Rightarrow> (IoErr err, k)
      | IoDropped \<Rightarrow> (IoDropped, k)
      | IoPanic \<Rightarrow> (IoPanic, k))"

definition send_subscription :: "curve_crypto \<Rightarrow> subscription_event \<Rightarrow> (xpub_socket, unit) aio" where
  "send_subscription cr event k e =
     (if \<not> opt_xpub_manual (xk_options k) then (IoErr InvalidInput, k, e)
      else case xk_upstream k of
        None \<Rightarrow> (IoErr NotConnected, k, e)
      | Some upstream \<Rightarrow>
          (case send_subscription_event cr event upstream e of (r, upstream1, e1) \<Rightarrow> (r, k\<lparr>xk_upstream := Some upstream1\<rparr>, e1)))"

section \<open>Decoding subscription messages\<close>

text \<open>What a SUB or XSUB socket writes for a sequence of events on a plain connection.\<close>

definition event_wire :: "subscription_event list \<Rightarrow> bytes" where
  "event_wire evs = concat (map (\<lambda>ev. encode_multipart [to_message ev] []) evs)"

definition event_fits :: "nat \<Rightarrow> subscription_event \<Rightarrow> bool" where
  "event_fits m ev \<longleftrightarrow> length (to_message ev) \<le> m \<and> length (to_message ev) < 2 ^ 63"

lemma from_to_message [simp]: "from_bytes (to_message ev) = Some ev"
  by (cases ev) (simp_all add: from_bytes_def)

lemma event_wire_simps [simp]:
  "event_wire [] = []" "event_wire (ev # evs) = encode_single (to_message ev) [] @ event_wire evs"
  by (simp_all add: event_wire_def encode_multipart_wire single_encode.enc_wire)

lemma plain_frame_not_command: "\<not> frame_is_command \<lparr>flags = canon_flags 0 n, payload = p\<rparr>"
  by (simp add: frame_is_command_def canon_flags_def)

text \<open>A subscriber whose decoder is between frames, with \<open>v\<close> still to be decoded.\<close>

definition hears :: "nat \<Rightarrow> bytes \<Rightarrow> xpub_subscriber \<Rightarrow> bool" where
  "hears m v sub \<longleftrightarrow> dec_inv (xs_decoder sub) \<and> seg_inv (xs_recv sub) \<and> max_frame_size (xs_decoder sub) = m \<and>
     vstream (xs_decoder sub) (xs_recv sub) = v"

lemma hears_push: "hears m v sub \<Longrightarrow> hears m (v @ bs) (sub\<lparr>xs_recv := seg_push (xs_recv sub) bs\<rparr>)"
  by (simp add: hears_def seg_push_spec vstream_push)

lemma xpub_drain_events:
  "hears m (event_wire evs) sub \<Longrightarrow> \<forall>ev \<in> set evs. event_fits m ev \<Longrightarrow>
   \<exists>sub'. xpub_drain cr verbose (sub, tt) e =
      (IoOk (), (sub', snd (fold (xpub_event verbose) evs (xs_subscriptions sub, tt))), e) \<and>
     hears m [] sub' \<and> xs_id sub' = xs_id sub \<and> xs_cipher sub' = xs_cipher sub \<and>
     xs_subscriptions sub' = fst (fold (xpub_event verbose) evs (xs_subscriptions sub, tt))"
proof (induction evs arbitrary: sub tt)
  case Nil
  have "parse_frame m [] = NeedMore" by (simp add: parse_frame_def)
  with Nil decode_refines_parse [of "xs_decoder sub" "xs_recv sub"] obtain d src where
    "decode (xs_decoder sub) (xs_recv sub) = Some (Inr None, d, src)" "dec_inv d" "seg_inv src" "vstream d src = []" "max_frame_size d = m"
    by (auto simp: hears_def decode_refines_def)
  then show ?case
    by (simp add: xpub_drain.simps hears_def)
next
  case (Cons ev evs)
  from Cons.prems have "\<exists>d src. decode (xs_decoder sub) (xs_recv sub) =
      Some (Inr (Some \<lparr>flags = canon_flags 0 (length (to_message ev)), payload = to_message ev\<rparr>), d, src) \<and>
      dec_inv d \<and> seg_inv src \<and> vstream d src = event_wire evs \<and> max_frame_size d = m"
    using single_encode.decode_enc [of "to_message ev" "xs_decoder sub" "xs_recv sub" "event_wire evs"]
    by (simp add: hears_def event_fits_def valid_flags_def)
  then obtain d src where d: "decode (xs_decoder sub) (xs_recv sub) =
      Some (Inr (Some \<lparr>flags = canon_flags 0 (length (to_message ev)), payload = to_message ev\<rparr>), d, src)"
    "dec_inv d" "seg_inv src" "vstream d src = event_wire evs" "max_frame_size d = m" by blast
  obtain t1 tt1 where ev: "xpub_event verbose ev (xs_subscriptions sub, tt) = (t1, tt1)" by fastforce
  let ?sub = "sub\<lparr>xs_decoder := d, xs_recv := src, xs_subscriptions := t1\<rparr>"
  have step: "xpub_drain cr verbose (sub, tt) e = xpub_drain cr verbose (?sub, tt1) e"
    using d(1) ev
    by (subst xpub_drain.simps) (simp add: xpub_resolve_def plain_frame_not_command xpub_apply_def)
  have "hears m (event_wire evs) ?sub" using d by (simp add: hears_def)
  from Cons.IH [OF this] Cons.prems(2) show ?case by (simp add: step ev)
qed

section \<open>The upstream copy of the subscriptions\<close>

text \<open>The subscriptions of an upstream that applies the reported events.\<close>

fun upstream :: "subscription_event list \<Rightarrow> bytes set \<Rightarrow> bytes set" where
  "upstream [] S = S"
| "upstream (Subscribe p # evs) S = upstream evs (insert p S)"
| "upstream (Unsubscribe p # evs) S = upstream evs (S - {p})"

lemma upstream_append [simp]: "upstream (xs @ ys) S = upstream ys (upstream xs S)"
  by (induction xs S rule: upstream.induct) simp_all






lemma xpub_event_trie [simp]:
  "fst (xpub_event v (Subscribe p) (t, tt)) = trie_subscribe p t"
  "fst (xpub_event v (Unsubscribe p) (t, tt)) = trie_unsubscribe p t"
  by (simp_all add: xpub_event_def Let_def split: prod.split)




definition holders :: "xpub_subscriber list \<Rightarrow> bytes \<Rightarrow> nat" where
  "holders subs p = length (filter (\<lambda>sub. p \<in> set (xs_subscriptions sub)) subs)"

lemma holders_simps [simp]:
  "holders [] p = 0" "holders (sub # subs) p = (if p \<in> set (xs_subscriptions sub) then 1 else 0) + holders subs p"
  by (simp_all add: holders_def)

definition attentive :: "nat \<Rightarrow> xpub_subscriber \<Rightarrow> bool" where
  "attentive m sub \<longleftrightarrow> hears m [] sub \<and> trie_ok (xs_subscriptions sub)"


lemma event_wire_nonempty: "event_wire evs = [] \<longleftrightarrow> evs = []"
  by (cases evs) (simp_all add: single_encode.enc_wire wire_def frame_header_def)









definition demo_xsub :: "nat \<Rightarrow> message_cipher option \<Rightarrow> xpub_subscriber" where
  "demo_xsub i c = \<lparr>xs_id = i, xs_stream = [], xs_subscriptions = trie_new, xs_recv = seg_new, xs_decoder = decoder_for demo_options, xs_cipher = c\<rparr>"

definition demo_xpub :: "xpub_subscriber list \<Rightarrow> xpub_socket" where
  "demo_xpub subs = (xpub_bind_with_options demo_options)\<lparr>xk_subscribers := subs\<rparr>"

lemma demo_xsub_attentive: "attentive 1000 (demo_xsub i c)"
  by (simp add: attentive_def hears_def demo_xsub_def trie_ops decoder_for_def demo_options_def socket_options_default_def
      decoder_new_def decoder_with_max_frame_size_def dec_inv_def seg_new_def seg_inv_def vstream_def contents_def)


text \<open>A subscriber that repeats a subscription leaves the topic behind: after two subscriptions to the same topic and one
  unsubscription nobody is subscribed to it, and the unsubscription is never reported.\<close>

theorem xpub_repeat_sticks:
  assumes "attentive m sub" and "xs_subscriptions sub = trie_new" and "xk_subscribers k = [sub]" and "xk_topics k = topic_table_new"
    and "\<not> opt_xpub_verbose (xk_options k)" and "event_fits m (Subscribe p)"
    and "env_reads e = [ReadBytes (event_wire [Subscribe p, Subscribe p, Unsubscribe p])]"
  shows "\<exists>k' sub'. recv_subscription cr k e = (IoOk (Some (Subscribe p)), k', e\<lparr>env_reads := []\<rparr>) \<and>
    tt_pending (xk_topics k') = [] \<and> xk_subscribers k' = [sub'] \<and> xs_subscriptions sub' = []"
proof -
  let ?evs = "[Subscribe p, Subscribe p, Unsubscribe p]" and ?e = "e\<lparr>env_reads := []\<rparr>"
  let ?sub = "sub\<lparr>xs_recv := seg_push (xs_recv sub) (event_wire ?evs)\<rparr>"
  have h: "hears m (event_wire ?evs) ?sub" using assms(1) hears_push [of m "[]" sub "event_wire ?evs"] by (simp add: attentive_def)
  have f: "\<forall>ev \<in> set ?evs. event_fits m ev" using assms(6) by (simp add: event_fits_def)
  have r: "fold (xpub_event False) ?evs (trie_new, topic_table_new) =
    ([], \<lparr>tt_seen = {p}, tt_refcount = [p \<mapsto> 1], tt_pending = [Subscribe p]\<rparr>)"
    by (simp add: xpub_event_def count_subscribe_def count_unsubscribe_def refs_def topic_table_new_def trie_new_def trie_subscribe_def
        trie_unsubscribe_def insort_insert_key_def Let_def)
  have s: "xs_subscriptions ?sub = trie_new" using assms(2) by simp
  obtain sub' where "xpub_drain cr False (?sub, topic_table_new) ?e = (IoOk (), (sub', \<lparr>tt_seen = {p}, tt_refcount = [p \<mapsto> 1], tt_pending = [Subscribe p]\<rparr>), ?e)"
    "xs_subscriptions sub' = []" using xpub_drain_events [OF h f, of cr False topic_table_new ?e] unfolding s r fst_conv snd_conv by blast
  moreover have "event_wire ?evs \<noteq> []" unfolding event_wire_nonempty by simp
  ultimately show ?thesis
    using assms(3-5,7)
    by (simp add: recv_subscription_def xpub_poll_one_def pop_read_def take_event_def topic_table_new_def Let_def del: event_wire_simps)
qed

theorem xpub_repeat_sticks_witness:
  "\<exists>k' sub'. recv_subscription tag_crypto (demo_xpub [demo_xsub 1 None])
      (quiet_env\<lparr>env_reads := [ReadBytes (event_wire [Subscribe [7], Subscribe [7], Unsubscribe [7]])]\<rparr>) =
      (IoOk (Some (Subscribe [7])), k', quiet_env\<lparr>env_reads := []\<rparr>) \<and>
    tt_pending (xk_topics k') = [] \<and> xk_subscribers k' = [sub'] \<and> xs_subscriptions sub' = []"
  using xpub_repeat_sticks [OF demo_xsub_attentive, of 1 None "demo_xpub [demo_xsub 1 None]" "[7]"
      "quiet_env\<lparr>env_reads := [ReadBytes (event_wire [Subscribe [7], Subscribe [7], Unsubscribe [7]])]\<rparr>" tag_crypto]
  by (simp add: demo_xpub_def xpub_bind_with_options_def demo_xsub_def demo_options_def socket_options_default_def event_fits_def
      del: event_wire_simps)

text \<open>On an encrypted connection an XPUB socket takes subscriptions that are not encrypted: a frame in plain text subscribes
  the peer, for which PUB has the frame rejected.\<close>

theorem xpub_takes_plaintext:
  assumes "hears m (event_wire [Subscribe p]) sub" and "event_fits m (Subscribe p)" and "xs_cipher sub = Some c"
    and "rd_decoder st = xs_decoder sub" and "rd_recv st = xs_recv sub" and "rd_cipher st = Some c"
  shows "(\<exists>sub' tt'. xpub_drain cr v (sub, tt) e = (IoOk (), (sub', tt'), e) \<and> p \<in> set (xs_subscriptions sub')) \<and>
    (\<exists>st'. reader_drain cr st = Some st' \<and> rd_subs st' = rd_subs st \<and> rd_union st' = rd_union st)"
proof -
  let ?f = "\<lparr>flags = canon_flags 0 (length (to_message (Subscribe p))), payload = to_message (Subscribe p)\<rparr>"
  have "\<exists>d src. decode (xs_decoder sub) (xs_recv sub) = Some (Inr (Some ?f), d, src)"
    using single_encode.decode_enc [of "to_message (Subscribe p)" "xs_decoder sub" "xs_recv sub" "[]"] assms(1,2)
    by (auto simp: hears_def event_fits_def valid_flags_def)
  then obtain d src where "decode (xs_decoder sub) (xs_recv sub) = Some (Inr (Some ?f), d, src)" by blast
  then have "reader_drain cr st = Some (st\<lparr>rd_decoder := d, rd_recv := src, rd_cipher := Some c\<rparr>)"
    using assms(4-6) plain_frame_not_command [of "length (to_message (Subscribe p))" "to_message (Subscribe p)"]
    by (simp add: reader_drain.simps reader_payload_def)
  moreover have "\<exists>sub' tt'. xpub_drain cr v (sub, tt) e = (IoOk (), (sub', tt'), e) \<and> p \<in> set (xs_subscriptions sub')"
    using xpub_drain_events [OF assms(1), of cr v tt e] assms(2) by (auto simp: trie_ops)
  ultimately show ?thesis by simp
qed

definition demo_heard :: xpub_subscriber where
  "demo_heard = (demo_xsub 1 (Some (new_server [1] 1 1)))\<lparr>xs_recv := seg_push seg_new (event_wire [Subscribe [7]])\<rparr>"

definition demo_reader :: reader_state where
  "demo_reader = \<lparr>rd_recv = xs_recv demo_heard, rd_decoder = xs_decoder demo_heard, rd_cipher = Some (new_server [1] 1 1),
     rd_subs = [], rd_union = union_default, rd_generation = 0\<rparr>"

lemma demo_heard_hears: "hears 1000 (event_wire [Subscribe [7]]) demo_heard"
  using hears_push [of 1000 "[]" "demo_xsub 1 (Some (new_server [1] 1 1))" "event_wire [Subscribe [7]]"]
    demo_xsub_attentive [of 1 "Some (new_server [1] 1 1)"]
  unfolding demo_heard_def attentive_def by (simp add: demo_xsub_def del: event_wire_simps)

theorem xpub_takes_plaintext_witness:
  "(\<exists>sub' tt'. xpub_drain tag_crypto False (demo_heard, topic_table_new) quiet_env = (IoOk (), (sub', tt'), quiet_env) \<and>
      [7] \<in> set (xs_subscriptions sub')) \<and>
    (\<exists>st'. reader_drain tag_crypto demo_reader = Some st' \<and> rd_subs st' = rd_subs demo_reader \<and> rd_union st' = rd_union demo_reader)"
  by (rule xpub_takes_plaintext [OF demo_heard_hears, where c = "new_server [1] 1 1"])
    (simp_all add: event_fits_def demo_reader_def demo_heard_def demo_xsub_def del: event_wire_simps)

section \<open>Sending\<close>

definition xpub_sent :: "curve_crypto \<Rightarrow> bytes list \<Rightarrow> xpub_subscriber \<Rightarrow> xpub_subscriber" where
  "xpub_sent cr msg sub =
     (if xpub_matches sub msg
      then (case encode_message cr (xs_cipher sub) msg [] of (_, c1, encoded) \<Rightarrow> sub\<lparr>xs_cipher := c1, xs_stream := xs_stream sub @ encoded\<rparr>)
      else sub)"

lemma xpub_send_loop_written:
  "\<forall>sub \<in> set subs. xpub_matches sub msg \<longrightarrow> fst (encode_message cr (xs_cipher sub) msg []) \<Longrightarrow>
   env_writes e = replicate (length (filter (\<lambda>sub. xpub_matches sub msg) subs)) Written @ ws \<Longrightarrow>
   xpub_send_loop cr msg subs e = (IoOk (), map (xpub_sent cr msg) subs, [], e\<lparr>env_writes := ws\<rparr>)"
proof (induction subs arbitrary: e)
  case (Cons sub subs)
  show ?case
  proof (cases "xpub_matches sub msg")
    case True
    with Cons.prems obtain c1 encoded where enc: "encode_message cr (xs_cipher sub) msg [] = (True, c1, encoded)"
      by (metis fst_conv list.set_intros(1) prod_cases3)
    let ?e = "e\<lparr>env_writes := replicate (length (filter (\<lambda>sub. xpub_matches sub msg) subs)) Written @ ws\<rparr>"
    have "xpub_send_loop cr msg subs ?e = (IoOk (), map (xpub_sent cr msg) subs, [], e\<lparr>env_writes := ws\<rparr>)"
      using Cons.IH [of ?e] Cons.prems by simp
    with True enc Cons.prems(2) show ?thesis by (simp add: xpub_write_def pop_write_def xpub_sent_def)
  next
    case False
    with Cons.IH [of e] Cons.prems show ?thesis by (simp add: xpub_sent_def)
  qed
qed simp

text \<open>\<open>send\<close> writes the message to every subscriber that matches it, and touches no other.\<close>

lemma xpub_send_written:
  assumes "\<forall>sub \<in> set (xk_subscribers k). xpub_matches sub msg \<longrightarrow> fst (encode_message cr (xs_cipher sub) msg [])"
    and "env_writes e = replicate (length (filter (\<lambda>sub. xpub_matches sub msg) (xk_subscribers k))) Written @ ws"
  shows "xpub_send cr msg k e = (IoOk (), k\<lparr>xk_subscribers := map (xpub_sent cr msg) (xk_subscribers k)\<rparr>, e\<lparr>env_writes := ws\<rparr>)"
  using xpub_send_loop_written [OF assms] by (simp add: xpub_send_def)

end
