(* ===== verification/Proxy.thy ===== *)
theory Proxy
  imports Xpub_Socket
begin

text \<open>
  \<open>monocoque-zmtp/src/proxy.rs\<close>: the proxy between two sockets, with an optional capture socket, and
  the steerable one with a control socket. The trait \<open>ProxySocket\<close> is a record of its two
  operations, with the implementations for all socket types. One turn of the loop is one \<open>select!\<close>:
  the environment chooses which receive completes; the receives of the other sockets have made
  some progress or none, and are dropped.

  The theorems: whatever the sockets do, a running proxy hands every message of one side to the
  other side once and in order, and to the capture socket; the broker of XSUB and XPUB passes on
  subscriptions and messages; the steerable proxy counts what it has forwarded.
\<close>

section \<open>The trait\<close>

record 's proxy_ops =
  recv_multipart :: "('s, bytes list option) aio"
  send_multipart :: "bytes list \<Rightarrow> ('s, unit) aio"

definition is_transient_send_error :: "io_error_kind \<Rightarrow> bool" where
  "is_transient_send_error k \<longleftrightarrow> k = WouldBlock \<or> k = Interrupted \<or> k = TimedOut"

text \<open>The message that stands for a subscription event, and its interpretation by XSUB.\<close>

fun event_message :: "subscription_event \<Rightarrow> bytes list" where
  "event_message (Subscribe topic) = [[0x01], topic]"
| "event_message (Unsubscribe topic) = [[0x00], topic]"

definition message_event :: "bytes list \<Rightarrow> subscription_event option" where
  "message_event msg =
     (case msg of
        [] \<Rightarrow> None
      | cmd_frame # rest \<Rightarrow>
          if cmd_frame = [] then None
          else
            (let cmd_byte = cmd_frame ! 0;
                 topic = (case rest of
                            second # _ \<Rightarrow> second
                          | [] \<Rightarrow> if 1 < length cmd_frame then drop 1 cmd_frame else [])
             in if cmd_byte = 0x01 then Some (Subscribe topic)
                else if cmd_byte = 0x00 then Some (Unsubscribe topic)
                else None))"

definition xsub_ops :: "curve_crypto \<Rightarrow> xsub_socket proxy_ops" where
  "xsub_ops cr = \<lparr>recv_multipart = xsub_recv cr,
     send_multipart = (\<lambda>msg. case message_event msg of None \<Rightarrow> aio_return () | Some event \<Rightarrow> send_subscription_event cr event)\<rparr>"

definition xpub_ops :: "curve_crypto \<Rightarrow> xpub_socket proxy_ops" where
  "xpub_ops cr = \<lparr>recv_multipart = aio_bind (recv_subscription cr) (\<lambda>event. aio_return (map_option event_message event)),
     send_multipart = xpub_send cr\<rparr>"

definition dealer_ops :: "curve_crypto \<Rightarrow> dealer_socket proxy_ops" where
  "dealer_ops cr = \<lparr>recv_multipart = dealer_recv cr, send_multipart = dealer_send cr\<rparr>"

definition router_ops :: "curve_crypto \<Rightarrow> router_socket proxy_ops" where
  "router_ops cr = \<lparr>recv_multipart = zmtp_router_recv cr, send_multipart = zmtp_router_send cr\<rparr>"

definition pull_ops :: "curve_crypto \<Rightarrow> pull_socket proxy_ops" where
  "pull_ops cr = \<lparr>recv_multipart = pull_recv cr, send_multipart = (\<lambda>_. aio_return ())\<rparr>"

definition push_ops :: "curve_crypto \<Rightarrow> push_socket proxy_ops" where
  "push_ops cr = \<lparr>recv_multipart = aio_return None, send_multipart = push_send cr\<rparr>"

definition req_ops :: "curve_crypto \<Rightarrow> req_socket proxy_ops" where
  "req_ops cr = \<lparr>recv_multipart = req_recv cr, send_multipart = req_send cr\<rparr>"

definition rep_ops :: "curve_crypto \<Rightarrow> rep_socket proxy_ops" where
  "rep_ops cr = \<lparr>recv_multipart = rep_recv cr, send_multipart = rep_send cr\<rparr>"

definition pair_ops :: "curve_crypto \<Rightarrow> pair_socket proxy_ops" where
  "pair_ops cr = \<lparr>recv_multipart = pair_recv cr, send_multipart = pair_send cr\<rparr>"

definition pub_ops :: "(nat \<Rightarrow> bool) \<Rightarrow> pub_socket proxy_ops" where
  "pub_ops waiting = \<lparr>recv_multipart = aio_return None,
     send_multipart = (\<lambda>msg k e. case pub_send waiting msg k of (r, k1) \<Rightarrow> (r, k1, e))\<rparr>"

definition sub_ops :: "curve_crypto \<Rightarrow> sub_socket proxy_ops" where
  "sub_ops cr = \<lparr>recv_multipart = sub_recv cr, send_multipart = (\<lambda>_. aio_return ())\<rparr>"

section \<open>The proxy\<close>

text \<open>A receive that another branch of \<open>select!\<close> has overtaken. The environment describes how far it got; one that
  would have completed has not been polled.\<close>

definition dropped :: "('s, 'a) aio \<Rightarrow> io_env \<Rightarrow> 's \<Rightarrow> 's" where
  "dropped m e s = (case m s e of (IoDropped, s1, _) \<Rightarrow> s1 | _ \<Rightarrow> s)"

text \<open>The copy for the capture socket: its error is ignored.\<close>

definition capture_copy :: "'c proxy_ops \<Rightarrow> bytes list \<Rightarrow> io_env \<Rightarrow> 'c option \<Rightarrow> unit io_out \<times> 'c option" where
  "capture_copy C msg e capture =
     (case capture of
        None \<Rightarrow> (IoOk (), None)
      | Some c \<Rightarrow>
          (case send_multipart C msg c e of
             (IoErr _, c1, _) \<Rightarrow> (IoOk (), Some c1)
           | (r, c1, _) \<Rightarrow> (r, Some c1)))"

text \<open>Forwarding a message to \<open>d\<close>. The flag is whether it was sent; a transient error drops it.\<close>

definition forward ::
  "'d proxy_ops \<Rightarrow> 'c proxy_ops \<Rightarrow> bytes list \<Rightarrow> io_env \<Rightarrow> io_env \<Rightarrow> 'd \<Rightarrow> 'c option \<Rightarrow> bool io_out \<times> 'd \<times> 'c option" where
  "forward D C msg ecap esend d capture =
     (case capture_copy C msg ecap capture of
        (IoOk _, capture1) \<Rightarrow>
          (case send_multipart D msg d esend of
             (IoOk _, d1, _) \<Rightarrow> (IoOk True, d1, capture1)
           | (IoErr k, d1, _) \<Rightarrow> (if is_transient_send_error k then IoOk False else IoErr k, d1, capture1)
           | (IoDropped, d1, _) \<Rightarrow> (IoDropped, d1, capture1)
           | (IoPanic, d1, _) \<Rightarrow> (IoPanic, d1, capture1))
      | (IoErr k, capture1) \<Rightarrow> (IoErr k, d, capture1)
      | (IoDropped, capture1) \<Rightarrow> (IoDropped, d, capture1)
      | (IoPanic, capture1) \<Rightarrow> (IoPanic, d, capture1))"

datatype proxy_side = FromFrontend | FromBackend | FromControl

text \<open>What the environment decides in a turn: the branch, and the environment of each socket call.\<close>

record proxy_turn =
  pt_side :: proxy_side
  pt_frontend :: io_env
  pt_backend :: io_env
  pt_control :: io_env
  pt_capture :: io_env
  pt_send :: io_env

text \<open>One branch: a receive on \<open>x\<close>, and what is done with its message; the result says whether the loop goes on.\<close>

definition proxy_branch ::
  "'x proxy_ops \<Rightarrow> 'y proxy_ops \<Rightarrow> 'c proxy_ops \<Rightarrow> io_env \<Rightarrow> io_env \<Rightarrow> io_env \<Rightarrow> io_env \<Rightarrow> 'x \<Rightarrow> 'y \<Rightarrow> 'c option \<Rightarrow>
   unit io_out \<times> 'x \<times> 'y \<times> 'c option" where
  "proxy_branch X Y C ex ey ecap esend x y capture =
     (let y1 = dropped (recv_multipart Y) ey y in
      case recv_multipart X x ex of
        (IoOk (Some msg), x1, _) \<Rightarrow>
          (case forward Y C msg ecap esend y1 capture of (r, y2, capture1) \<Rightarrow> (io_map (\<lambda>_. ()) r, x1, y2, capture1))
      | (IoOk None, x1, _) \<Rightarrow> (IoOk (), x1, y1, capture)
      | (IoErr k, x1, _) \<Rightarrow> (IoErr k, x1, y1, capture)
      | (IoDropped, x1, _) \<Rightarrow> (IoDropped, x1, y1, capture)
      | (IoPanic, x1, _) \<Rightarrow> (IoPanic, x1, y1, capture))"

definition proxy_step ::
  "'f proxy_ops \<Rightarrow> 'b proxy_ops \<Rightarrow> 'c proxy_ops \<Rightarrow> proxy_turn \<Rightarrow> 'f \<times> 'b \<times> 'c option \<Rightarrow> unit io_out \<times> 'f \<times> 'b \<times> 'c option" where
  "proxy_step F B C t st =
     (case st of (f, b, capture) \<Rightarrow>
        if pt_side t = FromFrontend
        then proxy_branch F B C (pt_frontend t) (pt_backend t) (pt_capture t) (pt_send t) f b capture
        else (case proxy_branch B F C (pt_backend t) (pt_frontend t) (pt_capture t) (pt_send t) b f capture of
                (r, b1, f1, capture1) \<Rightarrow> (r, f1, b1, capture1)))"

text \<open>The loop over the turns that the environment allows; \<open>IoOk\<close> means that it still runs.\<close>

fun proxy ::
  "'f proxy_ops \<Rightarrow> 'b proxy_ops \<Rightarrow> 'c proxy_ops \<Rightarrow> proxy_turn list \<Rightarrow> 'f \<times> 'b \<times> 'c option \<Rightarrow> unit io_out \<times> 'f \<times> 'b \<times> 'c option" where
  "proxy F B C [] st = (IoOk (), st)"
| "proxy F B C (t # ts) st =
     (case proxy_step F B C t st of (IoOk _, st1) \<Rightarrow> proxy F B C ts st1 | (r, st1) \<Rightarrow> (r, st1))"

section \<open>The steerable proxy\<close>

datatype proxy_command = PausePx | ResumePx | TerminatePx | StatisticsPx

definition command_from_bytes :: "bytes \<Rightarrow> proxy_command option" where
  "command_from_bytes data =
     (if data = blit ''PAUSE'' then Some PausePx
      else if data = blit ''RESUME'' then Some ResumePx
      else if data = blit ''TERMINATE'' then Some TerminatePx
      else if data = blit ''STATISTICS'' then Some StatisticsPx
      else None)"

fun command_as_bytes :: "proxy_command \<Rightarrow> bytes" where
  "command_as_bytes PausePx = blit ''PAUSE''"
| "command_as_bytes ResumePx = blit ''RESUME''"
| "command_as_bytes TerminatePx = blit ''TERMINATE''"
| "command_as_bytes StatisticsPx = blit ''STATISTICS''"

definition statistics_reply :: "nat \<Rightarrow> bytes" where
  "statistics_reply n = utf8_encode (lit ''messages_forwarded='' @ decimal n)"

record ('f, 'b, 'c, 'k) steered =
  st_frontend :: 'f
  st_backend :: 'b
  st_capture :: "'c option"
  st_control :: 'k
  st_paused :: bool
  st_count :: nat

text \<open>A control message; the result says whether the loop goes on (\<open>Some\<close> is a return value).\<close>

definition steer_command ::
  "'k proxy_ops \<Rightarrow> bytes list option \<Rightarrow> io_env \<Rightarrow> ('f, 'b, 'c, 'k) steered \<Rightarrow> bool io_out \<times> ('f, 'b, 'c, 'k) steered" where
  "steer_command K cmd_msg esend st =
     (case cmd_msg of
        Some (cmd_frame # _) \<Rightarrow>
          (case command_from_bytes cmd_frame of
             Some PausePx \<Rightarrow> (IoOk True, st\<lparr>st_paused := True\<rparr>)
           | Some ResumePx \<Rightarrow> (IoOk True, st\<lparr>st_paused := False\<rparr>)
           | Some TerminatePx \<Rightarrow> (IoOk False, st)
           | Some StatisticsPx \<Rightarrow>
               (case send_multipart K [statistics_reply (st_count st)] (st_control st) esend of
                  (IoDropped, k1, _) \<Rightarrow> (IoDropped, st\<lparr>st_control := k1\<rparr>)
                | (IoPanic, k1, _) \<Rightarrow> (IoPanic, st\<lparr>st_control := k1\<rparr>)
                | (_, k1, _) \<Rightarrow> (IoOk True, st\<lparr>st_control := k1\<rparr>))
           | None \<Rightarrow> (IoOk True, st))
      | _ \<Rightarrow> (IoOk True, st))"

text \<open>A forwarding branch with the pause flag: the new sides, the capture socket, and how many messages were sent.\<close>

definition steer_branch ::
  "'x proxy_ops \<Rightarrow> 'y proxy_ops \<Rightarrow> 'c proxy_ops \<Rightarrow> bool \<Rightarrow> io_env \<Rightarrow> io_env \<Rightarrow> io_env \<Rightarrow> 'x \<Rightarrow> 'y \<Rightarrow> 'c option \<Rightarrow>
   nat io_out \<times> 'x \<times> 'y \<times> 'c option" where
  "steer_branch X Y C paused ex ecap esend x y capture =
     (case recv_multipart X x ex of
        (IoOk (Some msg), x1, _) \<Rightarrow>
          if paused then (IoOk 0, x1, y, capture)
          else (case forward Y C msg ecap esend y capture of
                  (r, y1, capture1) \<Rightarrow> (io_map (\<lambda>sent. if sent then 1 else 0) r, x1, y1, capture1))
      | (IoOk None, x1, _) \<Rightarrow> (IoOk 0, x1, y, capture)
      | (IoErr k, x1, _) \<Rightarrow> (IoErr k, x1, y, capture)
      | (IoDropped, x1, _) \<Rightarrow> (IoDropped, x1, y, capture)
      | (IoPanic, x1, _) \<Rightarrow> (IoPanic, x1, y, capture))"

definition steer_step ::
  "'f proxy_ops \<Rightarrow> 'b proxy_ops \<Rightarrow> 'c proxy_ops \<Rightarrow> 'k proxy_ops \<Rightarrow> proxy_turn \<Rightarrow> ('f, 'b, 'c, 'k) steered \<Rightarrow>
   bool io_out \<times> ('f, 'b, 'c, 'k) steered" where
  "steer_step F B C K t st =
     (let f = (if pt_side t = FromFrontend then id else dropped (recv_multipart F) (pt_frontend t)) (st_frontend st);
          b = (if pt_side t = FromBackend then id else dropped (recv_multipart B) (pt_backend t)) (st_backend st);
          k = (if pt_side t = FromControl then id else dropped (recv_multipart K) (pt_control t)) (st_control st);
          st1 = st\<lparr>st_frontend := f, st_backend := b, st_control := k\<rparr>
      in case pt_side t of
           FromControl \<Rightarrow>
             (case recv_multipart K k (pt_control t) of
                (IoOk cmd_msg, k1, _) \<Rightarrow> steer_command K cmd_msg (pt_send t) (st1\<lparr>st_control := k1\<rparr>)
              | (IoErr err, k1, _) \<Rightarrow> (IoErr err, st1\<lparr>st_control := k1\<rparr>)
              | (IoDropped, k1, _) \<Rightarrow> (IoDropped, st1\<lparr>st_control := k1\<rparr>)
              | (IoPanic, k1, _) \<Rightarrow> (IoPanic, st1\<lparr>st_control := k1\<rparr>))
         | FromFrontend \<Rightarrow>
             (case steer_branch F B C (st_paused st1) (pt_frontend t) (pt_capture t) (pt_send t) f b (st_capture st1) of
                (r, f1, b1, capture1) \<Rightarrow>
                  (io_map (\<lambda>_. True) r, st1\<lparr>st_frontend := f1, st_backend := b1, st_capture := capture1,
                     st_count := st_count st1 + (case r of IoOk n \<Rightarrow> n | _ \<Rightarrow> 0)\<rparr>))
         | FromBackend \<Rightarrow>
             (case steer_branch B F C (st_paused st1) (pt_backend t) (pt_capture t) (pt_send t) b f (st_capture st1) of
                (r, b1, f1, capture1) \<Rightarrow>
                  (io_map (\<lambda>_. True) r, st1\<lparr>st_frontend := f1, st_backend := b1, st_capture := capture1,
                     st_count := st_count st1 + (case r of IoOk n \<Rightarrow> n | _ \<Rightarrow> 0)\<rparr>)))"

text \<open>\<open>IoOk True\<close> means that the loop still runs, \<open>IoOk False\<close> that \<open>TERMINATE\<close> has ended it.\<close>

fun proxy_steerable ::
  "'f proxy_ops \<Rightarrow> 'b proxy_ops \<Rightarrow> 'c proxy_ops \<Rightarrow> 'k proxy_ops \<Rightarrow> proxy_turn list \<Rightarrow> ('f, 'b, 'c, 'k) steered \<Rightarrow>
   bool io_out \<times> ('f, 'b, 'c, 'k) steered" where
  "proxy_steerable F B C K [] st = (IoOk True, st)"
| "proxy_steerable F B C K (t # ts) st =
     (case steer_step F B C K t st of (IoOk True, st1) \<Rightarrow> proxy_steerable F B C K ts st1 | (r, st1) \<Rightarrow> (r, st1))"

section \<open>What a proxy relays\<close>

text \<open>A socket that also keeps what it has received and, with their results, the messages it was given to send.\<close>

definition logged :: "'s proxy_ops \<Rightarrow> ('s \<times> bytes list list \<times> (bytes list \<times> bool) list) proxy_ops" where
  "logged P =
     \<lparr>recv_multipart = (\<lambda>(s, rx, tx) e. case recv_multipart P s e of
        (r, s1, e1) \<Rightarrow> (r, (s1, rx @ (case r of IoOk (Some msg) \<Rightarrow> [msg] | _ \<Rightarrow> []), tx), e1)),
      send_multipart = (\<lambda>msg (s, rx, tx) e. case send_multipart P msg s e of
        (r, s1, e1) \<Rightarrow> (r, (s1, rx, tx @ [(msg, r = IoOk ())]), e1))\<rparr>"

definition heard :: "'s \<times> bytes list list \<times> (bytes list \<times> bool) list \<Rightarrow> bytes list list" where
  "heard x = fst (snd x)"

definition told :: "'s \<times> bytes list list \<times> (bytes list \<times> bool) list \<Rightarrow> (bytes list \<times> bool) list" where
  "told x = snd (snd x)"

lemma heard_told [simp]: "heard (s, rx, tx) = rx" "told (s, rx, tx) = tx"
  by (simp_all add: heard_def told_def)

lemma logged_recv:
  "recv_multipart (logged P) x e = (r, x1, e1) \<Longrightarrow>
   told x1 = told x \<and> heard x1 = heard x @ (case r of IoOk (Some msg) \<Rightarrow> [msg] | _ \<Rightarrow> [])"
  by (auto simp: logged_def heard_def told_def split: prod.splits)

lemma logged_send:
  "send_multipart (logged P) msg x e = (r, x1, e1) \<Longrightarrow> heard x1 = heard x \<and> told x1 = told x @ [(msg, r = IoOk ())]"
  by (auto simp: logged_def heard_def told_def split: prod.splits)

lemma dropped_logged [simp]:
  "heard (dropped (recv_multipart (logged P)) e x) = heard x" "told (dropped (recv_multipart (logged P)) e x) = told x"
  using logged_recv [of P x e]
  by (auto simp: dropped_def split: prod.splits io_out.splits)

lemma capture_copy_logged:
  assumes "capture_copy (logged C) msg e (Some c) = (r, cap)"
  shows "\<exists>c1. cap = Some c1 \<and> heard c1 = heard c \<and> map fst (told c1) = map fst (told c) @ [msg]"
  using assms logged_send [of C msg c e]
  by (auto simp: capture_copy_def split: prod.splits io_out.splits)

lemma forward_logged:
  assumes "forward (logged D) (logged C) msg ecap esend d (Some c) = (r, d1, cap)"
  shows "\<exists>c1. cap = Some c1 \<and> map fst (told c1) = map fst (told c) @ [msg] \<and> heard d1 = heard d \<and>
    (told d1 = told d \<and> (\<forall>u. r \<noteq> IoOk u) \<or> (\<exists>ok. told d1 = told d @ [(msg, ok)] \<and> (\<forall>u. r = IoOk u \<longrightarrow> u = ok)))"
proof -
  obtain rc cap1 where c: "capture_copy (logged C) msg ecap (Some c) = (rc, cap1)" by fastforce
  from capture_copy_logged [OF this] obtain c1 where c1: "cap1 = Some c1" "map fst (told c1) = map fst (told c) @ [msg]" by blast
  obtain rs d2 e2 where s: "send_multipart (logged D) msg d esend = (rs, d2, e2)" by (metis prod_cases3)
  from logged_send [OF s] have d2: "heard d2 = heard d" "told d2 = told d @ [(msg, rs = IoOk ())]" by auto
  show ?thesis
    using assms c c1 s d2 by (intro exI [of _ c1], cases rc; cases rs) (auto simp: forward_def split: if_splits)
qed

text \<open>\<open>x\<close> has received exactly what \<open>y\<close> was given, up to \<open>n\<close> messages at the end.\<close>

definition relayed :: "nat \<Rightarrow> 's \<times> bytes list list \<times> (bytes list \<times> bool) list \<Rightarrow> 't \<times> bytes list list \<times> (bytes list \<times> bool) list \<Rightarrow> bool" where
  "relayed n x y \<longleftrightarrow> (\<exists>rest. heard x = map fst (told y) @ rest \<and> length rest \<le> n)"

lemma relayed_0: "relayed 0 x y \<longleftrightarrow> heard x = map fst (told y)"
  by (simp add: relayed_def)

lemma proxy_branch_relays:
  assumes "proxy_branch (logged X) (logged Y) (logged C) ex ey ecap esend x y (Some c) = (r, x1, y1, cap)"
    and "relayed 0 x y" and "relayed 0 y x"
  shows "\<exists>c1 new. cap = Some c1 \<and> map fst (told c1) = map fst (told c) @ new \<and> heard x1 = heard x @ new \<and> heard y1 = heard y \<and>
    relayed 0 y1 x1 \<and> relayed 1 x1 y1 \<and> (r = IoOk () \<longrightarrow> relayed 0 x1 y1)"
proof -
  obtain rr x2 e2 where rr: "recv_multipart (logged X) x ex = (rr, x2, e2)" by (metis prod_cases3)
  note l = logged_recv [OF rr]
  let ?y = "dropped (recv_multipart (logged Y)) ey y"
  show ?thesis
  proof (cases "\<exists>msg. rr = IoOk (Some msg)")
    case True
    then obtain msg where msg: "rr = IoOk (Some msg)" by blast
    obtain rf y2 cap2 where f: "forward (logged Y) (logged C) msg ecap esend ?y (Some c) = (rf, y2, cap2)" by (metis prod_cases3)
    from forward_logged [OF f] obtain c1 where c1: "cap2 = Some c1" "map fst (told c1) = map fst (told c) @ [msg]" "heard y2 = heard ?y"
      "told y2 = told ?y \<and> (\<forall>u. rf \<noteq> IoOk u) \<or> (\<exists>ok. told y2 = told ?y @ [(msg, ok)] \<and> (\<forall>u. rf = IoOk u \<longrightarrow> u = ok))" by blast
    with l msg assms(2,3) rr f show ?thesis
      using assms(1) by (intro exI [of _ c1] exI [of _ "[msg]"], cases rf) (auto simp: proxy_branch_def Let_def relayed_def)
  next
    case False
    with rr l assms show ?thesis
      by (intro exI [of _ c] exI [of _ "[]"], cases rr) (auto simp: proxy_branch_def Let_def relayed_def split: option.splits)
  qed
qed

lemma shuffles_snoc: "zs \<in> shuffles xs ys \<Longrightarrow> zs @ new \<in> shuffles (xs @ new) ys"
proof (induction zs arbitrary: xs ys)
  case (Cons z zs)
  then show ?case by (auto simp: Cons_in_shuffles_iff simp del: shuffles.simps)
qed simp

lemma shuffles_snoc2: "zs \<in> shuffles xs ys \<Longrightarrow> zs @ new \<in> shuffles xs (ys @ new)"
  using shuffles_snoc [of zs ys xs new] by (simp add: shuffles_commutes)

text \<open>The logs of the two sides and of the capture socket; \<open>n\<close> messages may be under way.\<close>

definition relay_ok ::
  "nat \<Rightarrow> ('f \<times> bytes list list \<times> (bytes list \<times> bool) list) \<times> ('b \<times> bytes list list \<times> (bytes list \<times> bool) list) \<times>
   ('c \<times> bytes list list \<times> (bytes list \<times> bool) list) option \<Rightarrow> bool" where
  "relay_ok n st \<longleftrightarrow> (case st of (f, b, cap) \<Rightarrow>
     (\<exists>lf lb. heard f = map fst (told b) @ lf \<and> heard b = map fst (told f) @ lb \<and> length lf + length lb \<le> n) \<and>
     (\<exists>c. cap = Some c \<and> map fst (told c) \<in> shuffles (heard f) (heard b)))"

lemma proxy_step_relays:
  assumes "proxy_step (logged F) (logged B) (logged C) t st = (r, st1)" and "relay_ok 0 st"
  shows "relay_ok 1 st1 \<and> (r = IoOk () \<longrightarrow> relay_ok 0 st1)"
proof -
  obtain f b c where st: "st = (f, b, Some c)" and ok: "relayed 0 f b" "relayed 0 b f" "map fst (told c) \<in> shuffles (heard f) (heard b)"
    using assms(2) by (auto simp: relay_ok_def relayed_0)
  obtain f1 b1 cap where st1: "st1 = (f1, b1, cap)" by (metis prod_cases3)
  show ?thesis
  proof (cases "pt_side t = FromFrontend")
    case True
    with assms(1) st st1 have "proxy_branch (logged F) (logged B) (logged C) (pt_frontend t) (pt_backend t) (pt_capture t) (pt_send t) f b (Some c)
      = (r, f1, b1, cap)" by (simp add: proxy_step_def)
    from proxy_branch_relays [OF this ok(1,2)] obtain c1 new where "cap = Some c1" "map fst (told c1) = map fst (told c) @ new"
      "heard f1 = heard f @ new" "heard b1 = heard b" "relayed 0 b1 f1" "relayed 1 f1 b1" "r = IoOk () \<longrightarrow> relayed 0 f1 b1" by blast
    with ok(3) shuffles_snoc [OF ok(3), of new] st1 show ?thesis by (auto simp: relay_ok_def relayed_def simp del: split_paired_Ex)
  next
    case False
    with assms(1) st st1 have "proxy_branch (logged B) (logged F) (logged C) (pt_backend t) (pt_frontend t) (pt_capture t) (pt_send t) b f (Some c)
      = (r, b1, f1, cap)" by (auto simp: proxy_step_def split: prod.splits)
    from proxy_branch_relays [OF this ok(2,1)] obtain c1 new where "cap = Some c1" "map fst (told c1) = map fst (told c) @ new"
      "heard b1 = heard b @ new" "heard f1 = heard f" "relayed 0 f1 b1" "relayed 1 b1 f1" "r = IoOk () \<longrightarrow> relayed 0 b1 f1" by blast
    with ok(3) shuffles_snoc2 [OF ok(3), of new] st1 show ?thesis by (auto simp: relay_ok_def relayed_def simp del: split_paired_Ex)
  qed
qed

lemma proxy_relay_ok:
  "proxy (logged F) (logged B) (logged C) ts st = (r, st1) \<Longrightarrow> relay_ok 0 st \<Longrightarrow> relay_ok 1 st1 \<and> (r = IoOk () \<longrightarrow> relay_ok 0 st1)"
proof (induction ts arbitrary: st)
  case Nil
  then show ?case by (auto simp: relay_ok_def)
next
  case (Cons t ts)
  obtain r1 st2 where s: "proxy_step (logged F) (logged B) (logged C) t st = (r1, st2)" by (metis surj_pair)
  from proxy_step_relays [OF this Cons.prems(2)] Cons.prems(1) Cons.IH [of st2] s show ?case
    by (cases r1) auto
qed

text \<open>C16. A proxy relays. Whatever its sockets are and do, and whichever side is ready first, what one side has received is,
  in order and without repetition, what the other side was given to send, and the capture socket was given both, merged in the
  order of arrival. Only the message at which a proxy ends may not have been passed on.\<close>

theorem proxy_relays:
  assumes "proxy (logged F) (logged B) (logged C) turns ((f, [], []), (b, [], []), Some (c, [], [])) = (r, f', b', capture)"
  shows "\<exists>c' lf lb. capture = Some c' \<and> map fst (told c') \<in> shuffles (heard f') (heard b') \<and>
    heard f' = map fst (told b') @ lf \<and> heard b' = map fst (told f') @ lb \<and> length lf + length lb \<le> 1 \<and>
    (r = IoOk () \<longrightarrow> lf = [] \<and> lb = [])"
proof -
  have "relay_ok 0 ((f, [], []), (b, [], []), Some (c, [], []))" by (simp add: relay_ok_def)
  from proxy_relay_ok [OF assms this] have "relay_ok (if r = IoOk () then 0 else 1) (f', b', capture)" by simp
  then obtain c' lf lb where "capture = Some c'" "map fst (told c') \<in> shuffles (heard f') (heard b')"
    "heard f' = map fst (told b') @ lf" "heard b' = map fst (told f') @ lb" "length lf + length lb \<le> (if r = IoOk () then 0 else 1)"
    unfolding relay_ok_def prod.case by blast
  then show ?thesis by (intro exI [of _ c'] exI [of _ lf] exI [of _ lb]) (simp split: if_splits)
qed

section \<open>The count of the steerable proxy\<close>

definition delivered_to :: "'s \<times> bytes list list \<times> (bytes list \<times> bool) list \<Rightarrow> nat" where
  "delivered_to x = length (filter snd (told x))"

lemma delivered_dropped [simp]: "delivered_to (dropped (recv_multipart (logged P)) e x) = delivered_to x"
  by (simp add: delivered_to_def)

lemma delivered_recv: "recv_multipart (logged P) x e = (r, x1, e1) \<Longrightarrow> delivered_to x1 = delivered_to x"
  using logged_recv [of P x e r x1 e1] by (simp add: delivered_to_def)

lemma forward_delivers:
  assumes "forward (logged D) C msg ecap esend d cap = (r, d1, cap1)"
  shows "delivered_to d1 = delivered_to d + (case r of IoOk True \<Rightarrow> 1 | _ \<Rightarrow> 0)"
proof -
  obtain rc cap2 where c: "capture_copy C msg ecap cap = (rc, cap2)" by fastforce
  obtain rs d2 e2 where s: "send_multipart (logged D) msg d esend = (rs, d2, e2)" by (metis prod_cases3)
  from logged_send [OF s] assms c s show ?thesis
    by (cases rc; cases rs) (auto simp: forward_def delivered_to_def)
qed

lemma steer_branch_delivers:
  assumes "steer_branch (logged X) (logged Y) C paused ex ecap esend x y cap = (r, x1, y1, cap1)"
  shows "delivered_to x1 = delivered_to x \<and> delivered_to y1 = delivered_to y + (case r of IoOk n \<Rightarrow> n | _ \<Rightarrow> 0)"
proof -
  obtain rr x2 e2 where rr: "recv_multipart (logged X) x ex = (rr, x2, e2)" by (metis prod_cases3)
  show ?thesis
  proof (cases "\<exists>msg. rr = IoOk (Some msg) \<and> \<not> paused")
    case True
    then obtain msg where msg: "rr = IoOk (Some msg)" "\<not> paused" by blast
    obtain rf y2 cap2 where f: "forward (logged Y) C msg ecap esend y cap = (rf, y2, cap2)" by (metis prod_cases3)
    from forward_delivers [OF f] delivered_recv [OF rr] assms msg rr f show ?thesis
      by (cases rf) (auto simp: steer_branch_def split: bool.splits)
  next
    case False
    with delivered_recv [OF rr] rr assms show ?thesis
      by (cases rr) (auto simp: steer_branch_def split: option.splits if_splits)
  qed
qed

definition count_ok where
  "count_ok st \<longleftrightarrow> st_count st = delivered_to (st_frontend st) + delivered_to (st_backend st)"

lemma steer_command_fields:
  "steer_command K m e st = (r, st1) \<Longrightarrow> st_count st1 = st_count st \<and> st_frontend st1 = st_frontend st \<and> st_backend st1 = st_backend st"
  by (auto simp: steer_command_def split: option.splits list.splits proxy_command.splits prod.splits io_out.splits)

lemma steer_step_count:
  assumes "steer_step (logged F) (logged B) C K t st = (r, st1)" and "count_ok st"
  shows "count_ok st1"
proof (cases "pt_side t")
  case FromControl
  with assms show ?thesis
    by (auto simp: steer_step_def Let_def count_ok_def dest!: steer_command_fields split: prod.splits io_out.splits)
next
  case FromFrontend
  with assms show ?thesis
    by (auto simp: steer_step_def Let_def count_ok_def dest!: steer_branch_delivers split: prod.splits)
next
  case FromBackend
  with assms show ?thesis
    by (auto simp: steer_step_def Let_def count_ok_def dest!: steer_branch_delivers split: prod.splits)
qed

text \<open>The count that the steerable proxy reports is the number of messages it has delivered: whatever it was told to do and
  whatever its sockets do, it is the number of sends, in either direction, that succeeded.\<close>

theorem steerable_counts:
  assumes "proxy_steerable (logged F) (logged B) C K turns
      \<lparr>st_frontend = (f, [], []), st_backend = (b, [], []), st_capture = cap, st_control = k, st_paused = False, st_count = 0\<rparr> = (r, st)"
  shows "st_count st = length (filter snd (told (st_frontend st))) + length (filter snd (told (st_backend st)))"
proof -
  have "count_ok st0 \<Longrightarrow> proxy_steerable (logged F) (logged B) C K turns st0 = (r, st) \<Longrightarrow> count_ok st" for st0
  proof (induction turns arbitrary: st0)
    case (Cons t ts)
    obtain r1 st1 where s: "steer_step (logged F) (logged B) C K t st0 = (r1, st1)" by (metis surj_pair)
    from steer_step_count [OF s Cons.prems(1)] Cons s show ?case by (auto split: io_out.splits bool.splits)
  qed simp
  from this [OF _ assms] show ?thesis by (simp add: count_ok_def delivered_to_def)
qed

lemma case_prod4I: "(\<And>a b c d. p = (a, b, c, d) \<Longrightarrow> P a b c d) \<Longrightarrow> case p of (a, b, c, d) \<Rightarrow> P a b c d"
  by (simp split: prod.split)

theorem proxy_relays_witness:
  "case proxy (logged (pub_ops (\<lambda>_. False))) (logged (xpub_ops tag_crypto)) (logged (push_ops tag_crypto))
      [\<lparr>pt_side = FromBackend, pt_frontend = quiet_env, pt_backend = quiet_env, pt_control = quiet_env, pt_capture = quiet_env, pt_send = quiet_env\<rparr>]
      ((with_workers_opts 0 demo_options, [], []), (demo_xpub [], [], []), Some (demo_sender (), [], [])) of
    (r, f', b', capture) \<Rightarrow> \<exists>c' lf lb. capture = Some c' \<and> map fst (told c') \<in> shuffles (heard f') (heard b') \<and>
    heard f' = map fst (told b') @ lf \<and> heard b' = map fst (told f') @ lb \<and> length lf + length lb \<le> 1 \<and>
    (r = IoOk () \<longrightarrow> lf = [] \<and> lb = [])"
  by (rule case_prod4I) (rule proxy_relays)

theorem steerable_counts_witness:
  "case proxy_steerable (logged (pub_ops (\<lambda>_. False))) (logged (xpub_ops tag_crypto)) (push_ops tag_crypto) (pair_ops tag_crypto)
      [\<lparr>pt_side = FromBackend, pt_frontend = quiet_env, pt_backend = quiet_env, pt_control = quiet_env, pt_capture = quiet_env, pt_send = quiet_env\<rparr>]
      \<lparr>st_frontend = (with_workers_opts 0 demo_options, [], []), st_backend = (demo_xpub [], [], []), st_capture = None,
       st_control = demo_receiver [], st_paused = False, st_count = 0\<rparr> of
    (r, st) \<Rightarrow> st_count st = length (filter snd (told (st_frontend st))) + length (filter snd (told (st_backend st)))"
  by (rule case_prodI2) (rule steerable_counts)

section \<open>Receives that are dropped\<close>

text \<open>The frames \<open>ds\<close> lead the own fields from \<open>x\<close> to \<open>x'\<close> and none of them ends the loop.\<close>

fun absorbs :: "('x, 'r) data_handler \<Rightarrow> socket_options \<Rightarrow> (bool \<times> bytes) list \<Rightarrow> 'x \<Rightarrow> 'x \<Rightarrow> bool" where
  "absorbs f opts [] x x' = (x = x')"
| "absorbs f opts ((mo, p) # ds) x x' = (case f opts mo p x of (y, x1) \<Rightarrow> y = None \<and> absorbs f opts ds x1 x')"

lemma recv_loop_idle:
  assumes "receiving m d [] (base s)" and "env_reads e = ReadDropped # rs"
  shows "\<exists>b. recv_loop cr on_data on_eof s e = (IoDropped, s\<lparr>base := b\<rparr>, e\<lparr>env_reads := rs\<rparr>) \<and> receiving m d [] b \<and> send_side b = send_side (base s)"
proof -
  have "parse_frame m [] = NeedMore" by (simp add: parse_frame_def)
  from process_frame_needmore [OF assms(1) this, of cr e] obtain b where b: "process_frame cr (base s) e = (IoOk FNeedMore, b, e)"
    "receiving m d [] b" "send_side b = send_side (base s)" by blast
  moreover from b(2) assms(2) have "read_raw b e = (IoDropped, b, e\<lparr>env_reads := rs\<rparr>)"
    by (simp add: receiving_def read_raw_def pop_read_def)
  ultimately show ?thesis
    by (intro exI [of _ b]) (simp add: recv_loop.simps [of cr on_data on_eof s e] aio_bind_def on_base_def)
qed

lemma recv_loop_dropped:
  assumes "carries cr m d (v @ concat chunks) ds d'" and "receiving m d v (base s)" and "[] \<notin> set chunks"
    and "env_reads e = map ReadBytes chunks @ ReadDropped # rs" and "absorbs on_data (sb_options (base s)) ds (own s) x"
  shows "\<exists>b. recv_loop cr on_data on_eof s e = (IoDropped, s\<lparr>base := b, own := x\<rparr>, e\<lparr>env_reads := rs\<rparr>) \<and>
    receiving m d' [] b \<and> send_side b = send_side (base s)"
  using assms
proof (induction "length ds + length chunks" arbitrary: d ds v s chunks e rule: less_induct)
  case less
  show ?case
  proof (cases ds)
    case Nil
    with less.prems(1) have "v @ concat chunks = []" "d' = d" by (auto elim: carries.cases)
    with less.prems(3) have "v = []" "chunks = []" by (auto simp: concat_eq_Nil_conv) (metis list.set_intros(1) neq_Nil_conv)
    with recv_loop_idle [of m d s e rs cr on_data on_eof] less.prems Nil \<open>d' = d\<close> show ?thesis by auto
  next
    case (Cons f ds1)
    obtain mo p where ds: "ds = (mo, p) # ds1" using Cons by (cases f) simp
    from process_frame_carries [OF less.prems(1) [unfolded ds] less.prems(2), of "[]" "concat chunks" e] show ?thesis
    proof (simp, elim disjE exE conjE)
      fix b1
      assume p1: "process_frame cr (base s) e = (IoOk FNeedMore, b1, e)" "receiving m d v b1" "send_side b1 = send_side (base s)"
        and "\<exists>x\<in>set chunks. x \<noteq> []"
      then obtain bs cs where chunks: "chunks = bs # cs" by (cases chunks) auto
      with less.prems(3,4) have bs: "bs \<noteq> []" "[] \<notin> set cs" "env_reads e = ReadBytes bs # map ReadBytes cs @ ReadDropped # rs" by auto
      let ?e = "e\<lparr>env_reads := map ReadBytes cs @ ReadDropped # rs\<rparr>"
      obtain b2 where step: "recv_loop cr on_data on_eof s e = recv_loop cr on_data on_eof (s\<lparr>base := b2\<rparr>) ?e"
        and b2: "receiving m d (v @ bs) b2" "send_side b2 = send_side b1" using recv_loop_reads [OF p1(1,2) bs(3,1)] by blast
      have "\<exists>b. recv_loop cr on_data on_eof (s\<lparr>base := b2\<rparr>) ?e = (IoDropped, (s\<lparr>base := b2\<rparr>)\<lparr>base := b, own := x\<rparr>, ?e\<lparr>env_reads := rs\<rparr>) \<and>
          receiving m d' [] b \<and> send_side b = send_side (base (s\<lparr>base := b2\<rparr>))"
        using less.prems b2 p1(3) bs(2) chunks send_side_options [OF b2(2)] send_side_options [OF p1(3)]
        by (intro less.hyps [of ds cs d "v @ bs"]) simp_all
      with step b2(2) p1(3) show ?thesis by simp
    next
      fix b1 d1 v1 out1
      assume p1: "process_frame cr (base s) e = (IoOk (FData mo p), b1, e)" "receiving m d1 v1 b1"
        "send_side b1 = send_side (base s)" "carries cr m d1 (v1 @ concat chunks) ds1 d'"
      note opts = send_side_options [OF p1(3)]
      obtain x1 where x1: "on_data (sb_options (base s)) mo p (own s) = (None, x1)" "absorbs on_data (sb_options (base s)) ds1 x1 x"
        using less.prems(5) ds by (auto split: prod.splits)
      let ?s = "s\<lparr>base := b1, own := x1\<rparr>"
      have step: "recv_loop cr on_data on_eof s e = recv_loop cr on_data on_eof ?s e"
        using p1 opts x1 by (simp add: recv_loop.simps [of cr on_data on_eof s e] aio_bind_def on_base_def)
      have "\<exists>b. recv_loop cr on_data on_eof ?s e = (IoDropped, ?s\<lparr>base := b, own := x\<rparr>, e\<lparr>env_reads := rs\<rparr>) \<and>
          receiving m d' [] b \<and> send_side b = send_side (base ?s)"
        using less.prems p1 opts ds x1 by (intro less.hyps [of ds1 chunks d1 v1]) simp_all
      with step p1(3) show ?thesis by simp
    qed
  qed
qed

definition open_parts :: "bytes list \<Rightarrow> (bool \<times> bytes) list" where
  "open_parts ps = map (Pair True) ps"

lemma absorbs_open_parts: "absorbs collect_frames opts (open_parts ps) frames (frames @ ps)"
proof (induction ps arbitrary: frames)
  case (Cons p ps)
  from Cons.IH [of "frames @ [p]"] show ?case by (simp add: open_parts_def collect_frames_def)
qed (simp add: open_parts_def)

lemma carries_open_parts:
  "\<forall>p \<in> set ps. length p \<le> m \<and> length p < 2 ^ 63 \<Longrightarrow> carries cr m None (concat (map (wire 0x01) ps)) (open_parts ps) None"
proof (induction ps)
  case (Cons p ps)
  with carries_plain [of cr m "concat (map (wire 0x01) ps)" "open_parts ps" None p True] show ?case by (simp add: open_parts_def)
qed (simp add: open_parts_def carries_Nil)

lemma recv_loop_message:
  assumes "carries cr m d (concat chunks) (message_parts msg) d'" and "msg \<noteq> []" and "receiving m d [] (base s)"
    and "[] \<notin> set chunks" and "env_reads e = map ReadBytes chunks"
  shows "\<exists>b e'. recv_loop cr collect_frames eof_none s e = (IoOk (Some (own s @ msg)), s\<lparr>base := b, own := []\<rparr>, e') \<and> receiving m d' [] b"
  using recv_loop_carries [OF assms(1), where s = s and v = "[]" and rest = "[]" and rs = "[]" and e = e and chunks = chunks
      and on_data = collect_frames and on_eof = eof_none and r = "IoOk (Some (own s @ msg))" and x = "[]"]
    assms(3-5) feeds_collect [OF assms(2)] by fastforce

text \<open>A receive of XSUB that a \<open>select!\<close> drops loses what it had. The parts of a message that had arrived are gone, and the next
  receive returns the remaining parts as a message of their own, of which the first is not the topic. DEALER, which keeps the parts in
  the socket, returns the whole message.\<close>

theorem xsub_drop_splits:
  assumes "receiving m None [] (base s)" and "receiving m None [] (base dealer)" and "own dealer = []"
    and "qs \<noteq> []" and "\<forall>p \<in> set (ps @ qs). length p \<le> m \<and> length p < 2 ^ 63"
    and "concat before = concat (map (wire 0x01) ps)" and "concat after = wire_message qs"
    and "[] \<notin> set before" and "[] \<notin> set after" and "env_reads e = map ReadBytes before @ ReadDropped # map ReadBytes after"
  shows "(\<exists>s1 s2 e2. xsub_recv cr s e = (IoDropped, s1, e\<lparr>env_reads := map ReadBytes after\<rparr>) \<and>
      xsub_recv cr s1 (e\<lparr>env_reads := map ReadBytes after\<rparr>) = (IoOk (Some qs), s2, e2)) \<and>
    (\<exists>s1 s2 e2. dealer_recv cr dealer e = (IoDropped, s1, e\<lparr>env_reads := map ReadBytes after\<rparr>) \<and>
      dealer_recv cr s1 (e\<lparr>env_reads := map ReadBytes after\<rparr>) = (IoOk (Some (ps @ qs)), s2, e2))"
proof -
  let ?e = "e\<lparr>env_reads := map ReadBytes after\<rparr>"
  have c: "carries cr m None ([] @ concat before) (open_parts ps) None" "carries cr m None (concat after) (message_parts qs) None"
    using carries_open_parts [of ps m cr] carries_wire_message [of qs m cr] assms(5-7) by simp_all
  have two: "\<exists>b1 b2 e2. recv_loop cr collect_frames eof_none \<lparr>base = b, own = []\<rparr> e = (IoDropped, \<lparr>base = b1, own = ps\<rparr>, ?e) \<and>
      recv_loop cr collect_frames eof_none \<lparr>base = b1, own = frames\<rparr> ?e = (IoOk (Some (frames @ qs)), \<lparr>base = b2, own = []\<rparr>, e2)"
    if r: "receiving m None [] b" for b frames
  proof -
    from recv_loop_dropped [OF c(1), of "\<lparr>base = b, own = []\<rparr>" e "map ReadBytes after" collect_frames ps eof_none]
    obtain b1 where b1: "recv_loop cr collect_frames eof_none \<lparr>base = b, own = []\<rparr> e = (IoDropped, \<lparr>base = b1, own = ps\<rparr>, ?e)"
      "receiving m None [] b1" using r assms(8,10) absorbs_open_parts [of _ ps "[]"] by auto
    from recv_loop_message [OF c(2) assms(4), of "\<lparr>base = b1, own = frames\<rparr>" ?e] b1 assms(9) show ?thesis by auto
  qed
  from two [OF assms(1), of "[]"] have "\<exists>s1 s2 e2. xsub_recv cr s e = (IoDropped, s1, ?e) \<and> xsub_recv cr s1 ?e = (IoOk (Some qs), s2, e2)"
    by (auto simp: xsub_recv_def)
  moreover have "dealer = \<lparr>base = base dealer, own = []\<rparr>" using assms(3) by simp
  with two [OF assms(2), of ps]
  have "\<exists>s1 s2 e2. dealer_recv cr dealer e = (IoDropped, s1, ?e) \<and> dealer_recv cr s1 ?e = (IoOk (Some (ps @ qs)), s2, e2)"
    unfolding dealer_recv_def by metis
  ultimately show ?thesis ..
qed

definition demo_xsub_socket :: "xsub_socket" where
  "demo_xsub_socket = \<lparr>base = base_new demo_options, own = trie_new\<rparr>"

lemma demo_plain_receiving: "receiving 1000 None [] (base_new demo_options)"
  using demo_sub_receiving [of "[]"] by (simp add: demo_sub_def)

section \<open>The broker of XSUB and XPUB\<close>

lemma message_event_message [simp]: "message_event (event_message ev) = Some ev"
  by (cases ev) (simp_all add: message_event_def)



text \<open>C19. A broker delivers. A message of the publisher that reaches the XSUB side of a proxy, in any fragmentation, is written by the
  turn that takes it to every subscriber of the XPUB side whose subscriptions match it, and to no other.\<close>

theorem broker_messages:
  assumes "pt_side t = FromFrontend" and "receiving m d [] (base s)" and "carries cr m d (concat chunks) (message_parts msg) d'"
    and "msg \<noteq> []" and "[] \<notin> set chunks" and "env_reads (pt_frontend t) = map ReadBytes chunks"
    and "dropped (recv_multipart (xpub_ops cr)) (pt_backend t) k = k1"
    and "\<forall>sub \<in> set (xk_subscribers k1). xpub_matches sub msg \<longrightarrow> fst (encode_message cr (xs_cipher sub) msg [])"
    and "env_writes (pt_send t) = replicate (length (filter (\<lambda>sub. xpub_matches sub msg) (xk_subscribers k1))) Written @ ws"
  shows "\<exists>s'. proxy_step (xsub_ops cr) (xpub_ops cr) C t (s, k, None) =
    (IoOk (), s', k1\<lparr>xk_subscribers := map (xpub_sent cr msg) (xk_subscribers k1)\<rparr>, None) \<and> receiving m d' [] (base s')"
proof -
  have f: "feeds collect_frames (sb_options (base s)) (message_parts msg) [] (IoOk (Some msg)) []"
    using feeds_collect [OF assms(4), of _ "[]"] by simp
  obtain b v' chunks' where b: "recv_loop cr collect_frames eof_none \<lparr>base = base s, own = []\<rparr> (pt_frontend t) =
      (IoOk (Some msg), \<lparr>base = b, own = []\<rparr>, (pt_frontend t)\<lparr>env_reads := map ReadBytes chunks' @ []\<rparr>)"
    "receiving m d' v' b" "[] = v' @ concat chunks'"
    using recv_loop_carries [OF assms(3), where s = "\<lparr>base = base s, own = []\<rparr>" and v = "[]" and rest = "[]" and rs = "[]"
        and e = "pt_frontend t" and chunks = chunks and on_data = collect_frames and on_eof = eof_none and r = "IoOk (Some msg)" and x = "[]"]
      assms(2,5,6) f by fastforce
  have "recv_multipart (xsub_ops cr) s (pt_frontend t) = (IoOk (Some msg), s\<lparr>base := b\<rparr>, (pt_frontend t)\<lparr>env_reads := map ReadBytes chunks' @ []\<rparr>)"
    using b(1) by (simp add: xsub_ops_def xsub_recv_def)
  moreover have "send_multipart (xpub_ops cr) msg k1 (pt_send t) =
      (IoOk (), k1\<lparr>xk_subscribers := map (xpub_sent cr msg) (xk_subscribers k1)\<rparr>, (pt_send t)\<lparr>env_writes := ws\<rparr>)"
    using xpub_send_written [OF assms(8,9)] by (simp add: xpub_ops_def)
  ultimately show ?thesis
    using b assms(1,7) by (intro exI [of _ "s\<lparr>base := b\<rparr>"]) (simp add: proxy_step_def proxy_branch_def forward_def capture_copy_def)
qed


theorem xsub_drop_splits_witness:
  "(\<exists>s1 s2 e2. xsub_recv tag_crypto demo_xsub_socket (quiet_env\<lparr>env_reads := map ReadBytes [wire 1 [7]] @ ReadDropped # map ReadBytes [wire_message [[8], [9]]]\<rparr>) = (IoDropped, s1, (quiet_env\<lparr>env_reads := map ReadBytes [wire 1 [7]] @ ReadDropped # map ReadBytes [wire_message [[8], [9]]]\<rparr>)\<lparr>env_reads := map ReadBytes [wire_message [[8], [9]]]\<rparr>) \<and>
      xsub_recv tag_crypto s1 ((quiet_env\<lparr>env_reads := map ReadBytes [wire 1 [7]] @ ReadDropped # map ReadBytes [wire_message [[8], [9]]]\<rparr>)\<lparr>env_reads := map ReadBytes [wire_message [[8], [9]]]\<rparr>) = (IoOk (Some [[8], [9]]), s2, e2)) \<and>
   (\<exists>s1 s2 e2. dealer_recv tag_crypto \<lparr>base = base_new demo_options, own = []\<rparr> (quiet_env\<lparr>env_reads := map ReadBytes [wire 1 [7]] @ ReadDropped # map ReadBytes [wire_message [[8], [9]]]\<rparr>) = (IoDropped, s1, (quiet_env\<lparr>env_reads := map ReadBytes [wire 1 [7]] @ ReadDropped # map ReadBytes [wire_message [[8], [9]]]\<rparr>)\<lparr>env_reads := map ReadBytes [wire_message [[8], [9]]]\<rparr>) \<and>
      dealer_recv tag_crypto s1 ((quiet_env\<lparr>env_reads := map ReadBytes [wire 1 [7]] @ ReadDropped # map ReadBytes [wire_message [[8], [9]]]\<rparr>)\<lparr>env_reads := map ReadBytes [wire_message [[8], [9]]]\<rparr>) = (IoOk (Some ([[7]] @ [[8], [9]])), s2, e2))"
  by (rule xsub_drop_splits [where m = 1000 and before = "[wire 1 [7]]"])
    (simp_all add: demo_plain_receiving demo_xsub_socket_def wire_nonempty)


theorem broker_messages_witness:
  "let t = \<lparr>pt_side = FromFrontend, pt_frontend = quiet_env\<lparr>env_reads := map ReadBytes [wire_message [[7], [8]]]\<rparr>,
      pt_backend = quiet_env, pt_control = quiet_env, pt_capture = quiet_env, pt_send = quiet_env\<lparr>env_writes := [Written]\<rparr>\<rparr>;
     subs = [(demo_xsub 1 None)\<lparr>xs_subscriptions := [[7]]\<rparr>, (demo_xsub 2 None)\<lparr>xs_subscriptions := [[6]]\<rparr>]
   in \<exists>s'. proxy_step (xsub_ops tag_crypto) (xpub_ops tag_crypto) (push_ops tag_crypto) t (demo_xsub_socket, demo_xpub subs, None) =
    (IoOk (), s', (demo_xpub subs)\<lparr>xk_subscribers := map (xpub_sent tag_crypto [[7], [8]]) (xk_subscribers (demo_xpub subs))\<rparr>, None) \<and>
    receiving 1000 None [] (base s')"
  unfolding Let_def
  by (rule broker_messages [where chunks = "[wire_message [[7], [8]]]" and ws = "[]" and d = None])
    (simp_all add: demo_xsub_socket_def demo_plain_receiving wire_nonempty carries_wire_message [of "[[7], [8]]" 1000, simplified],
      simp_all add: demo_xpub_def demo_xsub_def xpub_matches_def trie_ops trie_matches_iff encode_message_def dropped_def xpub_ops_def recv_subscription_def
        xpub_bind_with_options_def topic_table_new_def xpub_poll_one_def aio_bind_def aio_return_def take_event_def pop_read_def quiet_env_def)

end
