(* ===== verification/Zap_Handler.thy ===== *)
theory Zap_Handler
  imports Req_Rep
begin

text \<open>
  The ZAP handler (\<open>monocoque-zmtp/src/security/zap_handler.rs\<close>) and the client's side of the
  conversation (\<open>zap_client.rs\<close>), both on a DEALER socket over an in-process stream: the default handler's
  decision for each mechanism, the server's loop and the client's request. The PLAIN handler that an
  application supplies is the parameter \<open>zh_plain_handler\<close>. The theorems follow one request over the
  two sockets and say exactly when the client reports success.
\<close>

section \<open>The default handler\<close>

record default_zap_handler =
  zh_plain_handler :: "str \<Rightarrow> str \<Rightarrow> str \<Rightarrow> str \<Rightarrow> str + str"
  zh_accept_curve :: bool
  zh_curve_key_whitelist :: "bytes set option"

definition default_zap_handler_new :: "(str \<Rightarrow> str \<Rightarrow> str \<Rightarrow> str \<Rightarrow> str + str) \<Rightarrow> bool \<Rightarrow> default_zap_handler" where
  "default_zap_handler_new plain accept_curve =
     \<lparr>zh_plain_handler = plain, zh_accept_curve = accept_curve, zh_curve_key_whitelist = None\<rparr>"

definition with_curve_whitelist :: "bytes list \<Rightarrow> default_zap_handler \<Rightarrow> default_zap_handler" where
  "with_curve_whitelist keys h = h\<lparr>zh_curve_key_whitelist := Some (set keys)\<rparr>"

text \<open>\<open>{b:02x}\<close>: two lower-case hexadecimal digits.\<close>

definition hex_digit :: "nat \<Rightarrow> nat" where
  "hex_digit n = (if n < 10 then 0x30 + n else 0x61 + (n - 10))"

definition hex_key :: "bytes \<Rightarrow> str" where
  "hex_key k = concat (map (\<lambda>b. [hex_digit (unat b div 16), hex_digit (unat b mod 16)]) k)"

definition handle_plain :: "default_zap_handler \<Rightarrow> zap_request \<Rightarrow> zap_response" where
  "handle_plain h rq =
     (let failed = zap_response_failure (rq_request_id rq); creds = rq_credentials rq in
      if length creds \<noteq> 2 then failed (lit ''Missing credentials'')
      else case utf8_decode (creds ! 0) of
        None \<Rightarrow> failed (lit ''Invalid UTF-8 username'')
      | Some user \<Rightarrow>
          (case utf8_decode (creds ! 1) of
             None \<Rightarrow> failed (lit ''Invalid UTF-8 password'')
           | Some pw \<Rightarrow>
               (case zh_plain_handler h user pw (rq_domain rq) (rq_address rq) of
                  Inr user_id \<Rightarrow> zap_response_success (rq_request_id rq) user_id
                | Inl err \<Rightarrow> failed err)))"

definition handle_curve :: "default_zap_handler \<Rightarrow> zap_request \<Rightarrow> zap_response" where
  "handle_curve h rq =
     (let failed = zap_response_failure (rq_request_id rq); creds = rq_credentials rq in
      if \<not> zh_accept_curve h then failed (lit ''CURVE not enabled'')
      else if length creds \<noteq> 1 then failed (lit ''Missing CURVE public key'')
      else let public_key = creds ! 0 in
        if length public_key \<noteq> 32 then failed (lit ''Invalid CURVE key length'')
        else if list_all (\<lambda>b. b = 0) public_key then failed (lit ''Invalid CURVE public key'')
        else if (case zh_curve_key_whitelist h of Some whitelist \<Rightarrow> public_key \<notin> whitelist | None \<Rightarrow> False)
        then failed (lit ''CURVE key not in whitelist'')
        else zap_response_success (rq_request_id rq) (hex_key public_key))"

definition default_authenticate :: "default_zap_handler \<Rightarrow> zap_request \<Rightarrow> zap_response" where
  "default_authenticate h rq =
     (if rq_version rq \<noteq> ZAP_VERSION then zap_response_failure (rq_request_id rq) (lit ''Unsupported ZAP request version'')
      else case rq_mechanism rq of
        ZapNull \<Rightarrow>
          if rq_credentials rq \<noteq> [] then zap_response_failure (rq_request_id rq) (lit ''Unexpected credentials'')
          else zap_response_success (rq_request_id rq) []
      | ZapPlain \<Rightarrow> handle_plain h rq
      | ZapCurve \<Rightarrow> handle_curve h rq)"

section \<open>The server and the client\<close>

text \<open>One round of \<open>ZapServer::start\<close>; a handler is any function from requests to responses.\<close>

definition zap_serve_one :: "curve_crypto \<Rightarrow> (zap_request \<Rightarrow> zap_response) \<Rightarrow> (dealer_socket, unit) aio" where
  "zap_serve_one cr handler =
     aio_bind (dealer_recv cr) (\<lambda>m s1 e1.
       case m of
         None \<Rightarrow> (IoOk (), s1, e1)
       | Some msg \<Rightarrow>
           (case zap_request_decode msg of
              Inl _ \<Rightarrow> (IoOk (), s1, e1)
            | Inr rq \<Rightarrow>
                (case dealer_send cr (zap_response_encode (handler rq)) s1 e1 of
                   (IoErr k, s2, e2) \<Rightarrow> (IoOk (), s2, e2)
                 | r \<Rightarrow> r)))"

text \<open>The loop, one environment per round; \<open>IoOk\<close> means that it still runs.\<close>

fun zap_start :: "curve_crypto \<Rightarrow> (zap_request \<Rightarrow> zap_response) \<Rightarrow> io_env list \<Rightarrow> dealer_socket \<Rightarrow> unit io_out \<times> dealer_socket" where
  "zap_start cr handler [] s = (IoOk (), s)"
| "zap_start cr handler (e # es) s =
     (case zap_serve_one cr handler s e of
        (IoOk _, s1, _) \<Rightarrow> zap_start cr handler es s1
      | (r, s1, _) \<Rightarrow> (r, s1))"

text \<open>What the receive of the client reports; a receive that is dropped has run into the timeout.\<close>

fun received :: "bytes list option io_out \<Rightarrow> zap_io option" where
  "received (IoOk (Some frames)) = Some (ZapRecvFrames frames)"
| "received (IoOk None) = Some ZapRecvEof"
| "received (IoErr k) = Some (ZapRecvError k)"
| "received IoDropped = Some ZapRecvTimeout"
| "received IoPanic = None"

definition zap_result :: "zap_request \<Rightarrow> zap_io option \<Rightarrow> zap_response io_out" where
  "zap_result rq io = (case io of None \<Rightarrow> IoPanic | Some x \<Rightarrow> (case zap_authenticate rq x of Inl k \<Rightarrow> IoErr k | Inr r \<Rightarrow> IoOk r))"

definition zap_client_authenticate :: "curve_crypto \<Rightarrow> zap_request \<Rightarrow> (dealer_socket, zap_response) aio" where
  "zap_client_authenticate cr rq s e =
     (case dealer_send cr (zap_request_encode rq) s e of
        (IoOk _, s1, e1) \<Rightarrow> (case dealer_recv cr s1 e1 of (r, s2, e2) \<Rightarrow> (zap_result rq (received r), s2, e2))
      | (IoErr k, s1, e1) \<Rightarrow> (zap_result rq (Some (ZapSendError k)), s1, e1)
      | (IoDropped, s1, e1) \<Rightarrow> (IoDropped, s1, e1)
      | (IoPanic, s1, e1) \<Rightarrow> (IoPanic, s1, e1))"

text \<open>The requests of \<open>authenticate_plain\<close> and \<open>authenticate_curve\<close> take their number from a counter of the process, a \<open>u64\<close> that wraps.\<close>

definition next_request_id :: "nat \<Rightarrow> str \<times> nat" where
  "next_request_id counter = (decimal counter, (counter + 1) mod 2 ^ 64)"

definition new_with_unique_id :: "str \<Rightarrow> str \<Rightarrow> bytes \<Rightarrow> zap_mechanism \<Rightarrow> bytes list \<Rightarrow> nat \<Rightarrow> zap_request \<times> nat" where
  "new_with_unique_id domain address ident mech credentials counter =
     (case next_request_id counter of (rid, counter') \<Rightarrow> (zap_request_new rid domain address ident mech credentials, counter'))"

definition create_plain_zap_request :: "str \<Rightarrow> str \<Rightarrow> str \<Rightarrow> bytes \<Rightarrow> str \<Rightarrow> str \<Rightarrow> zap_request" where
  "create_plain_zap_request rid domain address ident user pw =
     zap_request_new rid domain address ident ZapPlain [utf8_encode user, utf8_encode pw]"

lemma decimal_inject: "decimal m = decimal n \<Longrightarrow> m = n"
proof (induction m arbitrary: n rule: decimal.induct)
  case (1 m)
  have pos: "decimal k \<noteq> []" for k by (subst decimal.simps) simp
  show ?case
  proof (cases "m < 10 \<or> n < 10")
    case True
    with 1(2) pos [of "m div 10"] pos [of "n div 10"] show ?thesis by (subst (asm) (1 2) decimal.simps) (auto split: if_splits)
  next
    case False
    with 1(2) have "decimal (m div 10) = decimal (n div 10)" "m mod 10 = n mod 10" by (subst (asm) (1 2) decimal.simps, simp)+
    with 1(1) False have "m div 10 = n div 10" by simp
    with \<open>m mod 10 = n mod 10\<close> show ?thesis by (metis div_mod_decomp)
  qed
qed

text \<open>Requests numbered by the counter have different ids, so that the client never takes the response to one for another.\<close>

fun request_ids :: "nat \<Rightarrow> nat \<Rightarrow> str list" where
  "request_ids 0 counter = []"
| "request_ids (Suc n) counter = (case next_request_id counter of (rid, counter') \<Rightarrow> rid # request_ids n counter')"

lemma request_ids_eq: "request_ids n (c mod 2 ^ 64) = map (\<lambda>i. decimal ((c + i) mod 2 ^ 64)) [0..<n]"
proof (induction n arbitrary: c)
  case (Suc n)
  have "request_ids (Suc n) (c mod 2 ^ 64) = decimal (c mod 2 ^ 64) # request_ids n ((c + 1) mod 2 ^ 64)"
    by (simp add: next_request_id_def mod_Suc_eq)
  also have "\<dots> = map (\<lambda>i. decimal ((c + i) mod 2 ^ 64)) [0..<Suc n]"
    unfolding Suc.IH by (subst upt_conv_Cons) (simp_all add: map_Suc_upt [symmetric] del: upt_Suc)
  finally show ?case .
qed simp

lemma request_ids_distinct: "n \<le> 2 ^ 64 \<Longrightarrow> c < 2 ^ 64 \<Longrightarrow> distinct (request_ids n c)"
proof -
  assume n: "n \<le> 2 ^ 64" and c: "c < (2 ^ 64 :: nat)"
  have "inj_on (\<lambda>i. decimal ((c + i) mod 2 ^ 64)) {0..<n}"
  proof (rule inj_onI)
    fix i j assume ij: "i \<in> {0..<n}" "j \<in> {0..<n}" and e: "decimal ((c + i) mod 2 ^ 64) = decimal ((c + j) mod 2 ^ 64)"
    have m: "(c + k) mod 2 ^ 64 = (if c + k < 2 ^ 64 then c + k else c + k - 2 ^ 64)" if "k \<in> {0..<n}" for k
      using that n c by (simp add: mod_if)
    from decimal_inject [OF e] show "i = j" unfolding m [OF ij(1)] m [OF ij(2)] using ij n c by (simp split: if_splits)
  qed
  then have "distinct (map (\<lambda>i. decimal ((c + i) mod 2 ^ 64)) [0..<n])" by (simp add: distinct_map)
  with request_ids_eq [of n c] c show ?thesis by simp
qed

section \<open>One request over two sockets\<close>

definition small :: "nat \<Rightarrow> bytes list \<Rightarrow> bool" where
  "small m msg \<longleftrightarrow> msg \<noteq> [] \<and> (\<forall>p \<in> set msg. length p \<le> m \<and> length p < 2 ^ 63)"

lemma zap_messages_nonempty [simp]: "zap_request_encode rq \<noteq> []" "zap_response_encode rs \<noteq> []"
  by (simp_all add: zap_request_encode_def zap_response_encode_def Let_def)

lemma dealer_send_plain:
  assumes "ready m w None (base s)" and "env_writes e = Written # ws"
  shows "\<exists>s'. dealer_send cr msg s e = (IoOk (), s', e\<lparr>env_writes := ws\<rparr>) \<and> ready m (w @ wire_message msg) None (base s') \<and> own s' = own s"
proof -
  have s: "sb_stream (base s) = Some w" "sb_curve_cipher (base s) = None" "\<not> sb_is_poisoned (base s)" "opt_send_timeout (sb_options (base s)) \<noteq> Some 0"
    using assms(1) by (simp_all add: ready_def sending_def)
  let ?b = "(base s)\<lparr>sb_write_buf := [], sb_is_poisoned := False, sb_stream := Some (w @ wire_message msg)\<rparr>"
  have "dealer_send cr msg s e = (IoOk (), s\<lparr>base := ?b\<rparr>, e\<lparr>env_writes := ws\<rparr>)"
    using s assms(2)
    by (simp add: dealer_send_def on_base_def write_message_def aio_bind_def encode_message_to_write_buf_def encode_message_def
        encode_multipart_wire write_from_buf_def guarded_write_def pop_write_def)
  moreover have "ready m (w @ wire_message msg) None ?b" using assms(1) by (simp add: ready_def sending_def receiving_def)
  ultimately show ?thesis by (intro exI [of _ "s\<lparr>base := ?b\<rparr>"]) simp
qed

lemma dealer_recv_plain:
  assumes "ready m w None (base s)" and "own s = []" and "small m msg" and "concat chunks = wire_message msg" and "[] \<notin> set chunks"
    and "env_reads e = map ReadBytes chunks"
  shows "\<exists>s'. dealer_recv cr s e = (IoOk (Some msg), s', e\<lparr>env_reads := []\<rparr>) \<and> ready m w None (base s') \<and> own s' = []"
proof -
  have c: "carries cr m None (concat chunks) (message_parts msg) None"
    using carries_wire_message [of msg m cr] assms(3,4) by (simp add: small_def)
  have r: "receiving m None [] (base s)" "sending w None (base s)" using assms(1) by (simp_all add: ready_def)
  have f: "feeds collect_frames (sb_options (base s)) (message_parts msg) (own s) (IoOk (Some msg)) []"
    using feeds_collect [of msg _ "[]"] assms(2,3) by (simp add: small_def)
  obtain b v' chunks' where b: "recv_loop cr collect_frames eof_none s e = (IoOk (Some msg), s\<lparr>base := b, own := []\<rparr>, e\<lparr>env_reads := map ReadBytes chunks' @ []\<rparr>)"
    "receiving m None v' b" "[] = v' @ concat chunks'" "\<exists>pre. chunks = pre @ chunks'" "send_side b = send_side (base s)"
    using recv_loop_carries [OF c r(1), of "[]" chunks e "[]" collect_frames "IoOk (Some msg)" "[]" eof_none] assms(5,6) f by auto
  have "chunks' = []" using b(3,4) assms(5) by (cases chunks') auto
  moreover have "ready m w None b" using b(2,3,5) r(2) by (simp add: ready_def sending_def send_side_def receiving_def)
  ultimately show ?thesis using b(1) by (intro exI [of _ "s\<lparr>base := b, own := []\<rparr>"]) (simp add: dealer_recv_def)
qed

lemma zap_serve_one_replies:
  assumes "ready m w None (base s)" and "own s = []" and "ok_request rq" and "small m (zap_request_encode rq)"
    and "concat chunks = wire_message (zap_request_encode rq)" and "[] \<notin> set chunks" and "env_reads e = map ReadBytes chunks"
    and "env_writes e = Written # ws"
  shows "\<exists>s'. zap_serve_one cr handler s e = (IoOk (), s', e\<lparr>env_reads := [], env_writes := ws\<rparr>) \<and> own s' = [] \<and>
    ready m (w @ wire_message (zap_response_encode (handler rq))) None (base s')"
proof -
  obtain s1 where s1: "dealer_recv cr s e = (IoOk (Some (zap_request_encode rq)), s1, e\<lparr>env_reads := []\<rparr>)"
    "ready m w None (base s1)" "own s1 = []" using dealer_recv_plain [OF assms(1,2,4-7)] by blast
  have "env_writes (e\<lparr>env_reads := []\<rparr>) = Written # ws" using assms(8) by simp
  from dealer_send_plain [OF s1(2) this, of cr "zap_response_encode (handler rq)"] s1 zap_request_roundtrip [OF assms(3)]
  show ?thesis by (auto simp: zap_serve_one_def aio_bind_def)
qed

lemma zap_client_receives:
  assumes "ready m w None (base c)" and "own c = []" and "small m reply" and "concat chunks = wire_message reply" and "[] \<notin> set chunks"
    and "env_reads e = map ReadBytes chunks" and "env_writes e = Written # ws"
  shows "\<exists>c'. zap_client_authenticate cr rq c e = (zap_result rq (Some (ZapRecvFrames reply)), c', e\<lparr>env_reads := [], env_writes := ws\<rparr>) \<and>
    own c' = [] \<and> ready m (w @ wire_message (zap_request_encode rq)) None (base c')"
proof -
  obtain c1 where c1: "dealer_send cr (zap_request_encode rq) c e = (IoOk (), c1, e\<lparr>env_writes := ws\<rparr>)"
    "ready m (w @ wire_message (zap_request_encode rq)) None (base c1)" "own c1 = []"
    using dealer_send_plain [OF assms(1,7), of cr "zap_request_encode rq"] assms(2) by auto
  have "env_reads (e\<lparr>env_writes := ws\<rparr>) = map ReadBytes chunks" using assms(6) by simp
  from dealer_recv_plain [OF c1(2,3) assms(3-5) this, of cr] c1(1) show ?thesis
    by (auto simp: zap_client_authenticate_def)
qed

section \<open>When a request is admitted\<close>

definition admissible :: "default_zap_handler \<Rightarrow> zap_request \<Rightarrow> str \<Rightarrow> bool" where
  "admissible h rq uid \<longleftrightarrow>
     (case rq_mechanism rq of
        ZapNull \<Rightarrow> uid = []
      | ZapPlain \<Rightarrow> \<exists>cu cp u p. rq_credentials rq = [cu, cp] \<and> utf8_decode cu = Some u \<and> utf8_decode cp = Some p \<and>
          zh_plain_handler h u p (rq_domain rq) (rq_address rq) = Inr uid
      | ZapCurve \<Rightarrow> \<exists>k. rq_credentials rq = [k] \<and> zh_accept_curve h \<and> length k = 32 \<and> (\<exists>b \<in> set k. b \<noteq> 0) \<and>
          (\<forall>keys. zh_curve_key_whitelist h = Some keys \<longrightarrow> k \<in> keys) \<and> uid = hex_key k)"

lemma failure_not_success [simp]: "rs_status_code (zap_response_failure rid reason) \<noteq> ZapSuccess"
  by (simp add: zap_response_failure_def)

lemma success_fields [simp]:
  "rs_status_code (zap_response_success rid uid) = ZapSuccess" "rs_user_id (zap_response_success rid uid) = uid"
  "rs_request_id (zap_response_success rid uid) = rid"
  by (simp_all add: zap_response_success_def)

text \<open>The response to a request: success with the id under which it is admitted, and a failure when there is none.\<close>

definition decides :: "default_zap_handler \<Rightarrow> zap_request \<Rightarrow> zap_response \<Rightarrow> bool" where
  "decides h rq r \<longleftrightarrow> (\<exists>uid. admissible h rq uid \<and> r = zap_response_success (rq_request_id rq) uid) \<or>
     (\<nexists>uid. admissible h rq uid) \<and> (\<exists>why. r = zap_response_failure (rq_request_id rq) why)"

lemma handle_plain_decides:
  assumes "rq_mechanism rq = ZapPlain" and "rq_credentials rq = [cu, cp]"
  shows "decides h rq (handle_plain h rq)"
  using assms by (auto simp: decides_def handle_plain_def admissible_def Let_def split: option.split sum.split)

lemma handle_curve_decides:
  assumes "rq_mechanism rq = ZapCurve" and "rq_credentials rq = [k]"
  shows "decides h rq (handle_curve h rq)"
  using assms by (auto simp: decides_def handle_curve_def admissible_def list_all_iff Let_def split: option.split)

lemma default_authenticate_decides: "ok_request rq \<Longrightarrow> decides h rq (default_authenticate h rq)"
proof (cases "rq_mechanism rq")
  case ZapNull
  then show "ok_request rq \<Longrightarrow> decides h rq (default_authenticate h rq)"
    by (simp add: ok_request_def zap_credential_count_def default_authenticate_def decides_def admissible_def)
next
  case ZapPlain
  assume ok: "ok_request rq"
  with ZapPlain obtain cu cp where "rq_credentials rq = [cu, cp]"
    by (auto simp: ok_request_def zap_credential_count_def length_Suc_conv numeral_2_eq_2)
  with ZapPlain ok show ?thesis using handle_plain_decides by (simp add: default_authenticate_def ok_request_def)
next
  case ZapCurve
  assume ok: "ok_request rq"
  with ZapCurve obtain k where "rq_credentials rq = [k]"
    by (auto simp: ok_request_def zap_credential_count_def length_Suc_conv)
  with ZapCurve ok show ?thesis using handle_curve_decides by (simp add: default_authenticate_def ok_request_def)
qed

lemma admissible_unique: "admissible h rq uid \<Longrightarrow> admissible h rq uid' \<Longrightarrow> uid' = uid"
  by (auto simp: admissible_def split: zap_mechanism.splits)

lemma is_ascii_encode: "wf_str u \<Longrightarrow> is_ascii (utf8_encode u) \<longleftrightarrow> list_all (\<lambda>c. c < 0x80) u"
proof -
  have "list_all (\<lambda>c. c < 0x80) u" if "wf_str u" "is_ascii (utf8_encode u)"
  proof -
    have "map unat (utf8_encode u) = u" "\<forall>b \<in> set (utf8_encode u). unat b < 0x80"
      using that utf8_decode_encode [of u] utf8_decode_ascii [of "utf8_encode u"] by (simp_all add: wf_str_def is_ascii_def list_all_iff)
    then show ?thesis unfolding list_all_iff by (metis image_iff set_map)
  qed
  with ascii_user_id(2) [of u] show "wf_str u \<Longrightarrow> is_ascii (utf8_encode u) \<longleftrightarrow> list_all (\<lambda>c. c < 0x80) u" by blast
qed

text \<open>What the client makes of the response: success exactly when the user id is ASCII.\<close>

lemma zap_result_success:
  assumes "wf_str (rq_request_id rq)" and "wf_str uid"
  shows "zap_result rq (Some (ZapRecvFrames (zap_response_encode (zap_response_success (rq_request_id rq) uid)))) =
    (if list_all (\<lambda>c. c < 0x80) uid then IoOk (zap_response_success (rq_request_id rq) uid) else IoErr InvalidData)"
proof (cases "list_all (\<lambda>c. c < 0x80) uid")
  case True
  then have "ok_response (zap_response_success (rq_request_id rq) uid)"
    using assms(1) by (simp add: ok_response_def zap_response_success_def utf8_encode_ascii wf_str_def scalar_value_def)
  from zap_response_roundtrip [OF this] True show ?thesis
    by (simp add: zap_result_def zap_authenticate_def) (simp add: zap_response_success_def)
next
  case False
  with assms(2) have "\<not> is_ascii (utf8_encode uid)" by (simp add: is_ascii_encode)
  moreover have "zap_string [79, 75] = Inr [79, 75]"
    using zap_string_encode [of "[79, 75]"] by (simp add: utf8_encode_ascii wf_str_def scalar_value_def)
  ultimately have "zap_response_decode (zap_response_encode (zap_response_success (rq_request_id rq) uid)) = Inl ZapInvalidUserId"
    using assms(1) by (simp add: zap_response_decode_def zap_response_encode_def zap_response_success_def Let_def utf8_encode_ascii)
  with False show ?thesis by (simp add: zap_result_def zap_authenticate_def)
qed

lemma zap_result_failure:
  "zap_result rq (Some (ZapRecvFrames (zap_response_encode (zap_response_failure rid why)))) = IoOk resp \<Longrightarrow> rs_status_code resp = ZapFailure"
  by (auto simp: zap_result_def zap_authenticate_def zap_response_decode_def zap_response_encode_def zap_response_failure_def Let_def
      zap_bind_eq_Inr split: sum.splits if_splits)

lemma hex_key_ascii: "list_all (\<lambda>c. c < 0x80) (hex_key k)"
proof -
  have "hex_digit n < 0x80" if "n < 16" for n using that by (simp add: hex_digit_def)
  moreover have "unat b div 16 < 16" for b :: byte by (rule less_mult_imp_div_less) simp
  ultimately show ?thesis by (auto simp: list_all_iff hex_key_def)
qed

text \<open>The user ids of an application's handler are Rust strings.\<close>

definition proper_ids :: "default_zap_handler \<Rightarrow> bool" where
  "proper_ids h \<longleftrightarrow> (\<forall>u p d a uid. zh_plain_handler h u p d a = Inr uid \<longrightarrow> wf_str uid)"

lemma admissible_wf: "proper_ids h \<Longrightarrow> admissible h rq uid \<Longrightarrow> wf_str uid"
  using ascii_user_id(1) [OF hex_key_ascii]
  by (auto simp: admissible_def proper_ids_def split: zap_mechanism.splits)

text \<open>C21. Authentication end to end. A request that a server socket sends to the default ZAP handler over two DEALER sockets, in
  any fragmentation, is reported as a success exactly when the handler admits it (PLAIN credentials the application accepts, a CURVE
  key that is enabled and on the whitelist) under a user id in ASCII; the response names this id.\<close>

theorem zap_end_to_end:
  assumes "ready m w None (base s)" and "own s = []" and "ready m wc None (base c)" and "own c = []"
    and "ok_request rq" and "small m (zap_request_encode rq)" and "small m (zap_response_encode (default_authenticate h rq))"
    and "proper_ids h"
    and "env_reads es = map ReadBytes chunks" and "[] \<notin> set chunks" and "concat chunks = wire_message (zap_request_encode rq)"
    and "env_writes es = [Written]" and "zap_serve_one cr (default_authenticate h) s es = (r, s', es')"
    and "env_reads ec = map ReadBytes chunks'" and "[] \<notin> set chunks'" and "concat chunks' = delivered (base s) (base s')"
    and "env_writes ec = [Written]" and "zap_client_authenticate cr rq c ec = (result, c', ec')"
  shows "delivered (base c) (base c') = concat chunks \<and>
    ((\<exists>resp. result = IoOk resp \<and> rs_status_code resp = ZapSuccess \<and> rs_user_id resp = uid) \<longleftrightarrow>
     admissible h rq uid \<and> list_all (\<lambda>c. c < 0x80) uid)"
proof -
  let ?resp = "default_authenticate h rq"
  obtain s1 where s1: "s' = s1" "ready m (w @ wire_message (zap_response_encode ?resp)) None (base s1)"
    using zap_serve_one_replies [OF assms(1,2,5,6,11,10,9,12), of cr "default_authenticate h"] assms(13) by auto
  have st: "sb_stream (base s) = Some w" "sb_stream (base s') = Some (w @ wire_message (zap_response_encode ?resp))"
    "sb_stream (base c) = Some wc" using s1 assms(1,3) by (simp_all add: ready_def sending_def)
  then have "concat chunks' = wire_message (zap_response_encode ?resp)" using assms(16) by (simp add: delivered_def)
  from zap_client_receives [OF assms(3,4,7) this assms(15,14,17), of cr rq] assms(18)
  have c: "result = zap_result rq (Some (ZapRecvFrames (zap_response_encode ?resp)))"
    "ready m (wc @ wire_message (zap_request_encode rq)) None (base c')" by auto
  then have d: "delivered (base c) (base c') = concat chunks" using st assms(11) by (simp add: delivered_def ready_def sending_def)
  have wf: "wf_str (rq_request_id rq)" using assms(5) by (simp add: ok_request_def)
  from default_authenticate_decides [OF assms(5), of h] show ?thesis unfolding decides_def
  proof (elim disjE exE conjE)
    fix uid' assume u: "admissible h rq uid'" "?resp = zap_response_success (rq_request_id rq) uid'"
    have "result = (if list_all (\<lambda>c. c < 0x80) uid' then IoOk (zap_response_success (rq_request_id rq) uid') else IoErr InvalidData)"
      using zap_result_success [OF wf admissible_wf [OF assms(8) u(1)]] unfolding c(1) u(2) .
    then have "(\<exists>resp. result = IoOk resp \<and> rs_status_code resp = ZapSuccess \<and> rs_user_id resp = uid) \<longleftrightarrow>
        uid' = uid \<and> list_all (\<lambda>c. c < 0x80) uid'" by simp
    moreover have "admissible h rq uid \<longleftrightarrow> uid' = uid" using admissible_unique u(1) by blast
    ultimately show ?thesis using d by blast
  next
    fix why assume u: "\<nexists>uid. admissible h rq uid" "?resp = zap_response_failure (rq_request_id rq) why"
    have "rs_status_code resp = ZapFailure" if "result = IoOk resp" for resp
      using that unfolding c(1) u(2) by (rule zap_result_failure)
    then have "\<not> (\<exists>resp. result = IoOk resp \<and> rs_status_code resp = ZapSuccess \<and> rs_user_id resp = uid)" by fastforce
    with u(1) d show ?thesis by blast
  qed
qed

text \<open>A user whose name is not ASCII cannot log in. With the static handler of PLAIN the user id is the user name, and the client
  rejects a response whose user id is not ASCII: the right password of a registered user gives an error.\<close>

theorem non_ascii_user_rejected:
  assumes "map_of users u = Some pw" and "wf_str u" and "wf_str pw" and "\<not> list_all (\<lambda>c. c < 0x80) u" and "wf_str rid"
    and "wf_str domain" and "wf_str address" and "address \<noteq> []"
  shows "let rq = zap_request_new rid domain address [] ZapPlain [utf8_encode u, utf8_encode pw];
      resp = default_authenticate (default_zap_handler_new (static_authenticate users) accept_curve) rq
    in zap_request_decode (zap_request_encode rq) = Inr rq \<and> rs_status_code resp = ZapSuccess \<and> rs_user_id resp = u \<and>
      zap_result rq (Some (ZapRecvFrames (zap_response_encode resp))) = IoErr InvalidData"
proof -
  let ?rq = "zap_request_new rid domain address [] ZapPlain [utf8_encode u, utf8_encode pw]"
  let ?resp = "default_authenticate (default_zap_handler_new (static_authenticate users) accept_curve) ?rq"
  have "ok_request ?rq" using assms by (simp add: ok_request_def zap_request_new_def zap_credential_count_def)
  moreover have d: "utf8_decode (utf8_encode u) = Some u" "utf8_decode (utf8_encode pw) = Some pw"
    using assms(2,3) by (simp_all add: utf8_decode_encode wf_str_def)
  then have r: "?resp = zap_response_success rid u"
    using assms(1) by (simp add: default_authenticate_def handle_plain_def zap_request_new_def default_zap_handler_new_def
        static_authenticate_def Let_def)
  moreover have "zap_result ?rq (Some (ZapRecvFrames (zap_response_encode (zap_response_success rid u)))) = IoErr InvalidData"
    using zap_result_success [of ?rq u] assms(2,4,5) by (simp add: zap_request_new_def)
  ultimately show ?thesis by (simp add: Let_def zap_request_roundtrip)
qed

theorem non_ascii_user_rejected_witness:
  "let rq = zap_request_new (lit ''1'') [] (lit ''h'') [] ZapPlain [utf8_encode [0xE9], utf8_encode (lit ''pw'')];
      resp = default_authenticate (default_zap_handler_new (static_authenticate [([0xE9], lit ''pw'')]) False) rq
    in zap_request_decode (zap_request_encode rq) = Inr rq \<and> rs_status_code resp = ZapSuccess \<and> rs_user_id resp = [0xE9] \<and>
      zap_result rq (Some (ZapRecvFrames (zap_response_encode resp))) = IoErr InvalidData"
  by (rule non_ascii_user_rejected) (simp_all add: wf_str_def scalar_value_def)

definition demo_dealer :: dealer_socket where
  "demo_dealer = \<lparr>base = base_new demo_options, own = []\<rparr>"

lemma demo_dealer_ready: "ready 1000 [] None (base demo_dealer)" "own demo_dealer = []"
  using sending_new [of demo_options None] receiving_new [of demo_options 1000 None]
  by (simp_all add: ready_def demo_dealer_def demo_options_def socket_options_default_def base_new_def)

definition demo_login :: zap_request where
  "demo_login = zap_request_new (lit ''1'') [] (lit ''h'') [] ZapPlain [utf8_encode (lit ''bob''), utf8_encode (lit ''pw'')]"

definition demo_zap_handler :: default_zap_handler where
  "demo_zap_handler = default_zap_handler_new (static_authenticate [(lit ''bob'', lit ''pw'')]) False"

lemma demo_login_ok:
  "ok_request demo_login" "small 1000 (zap_request_encode demo_login)" "proper_ids demo_zap_handler"
  "default_authenticate demo_zap_handler demo_login = zap_response_success (lit ''1'') (lit ''bob'')"
  "small 1000 (zap_response_encode (default_authenticate demo_zap_handler demo_login))"
proof -
  show "ok_request demo_login"
    by (simp add: demo_login_def ok_request_def zap_request_new_def zap_credential_count_def wf_str_def scalar_value_def)
  show "small 1000 (zap_request_encode demo_login)"
    by (simp add: demo_login_def small_def zap_request_encode_def zap_request_new_def ZAP_VERSION_def zap_mechanism_as_str_def utf8_encode_ascii)
  show "proper_ids demo_zap_handler"
    by (auto simp: demo_zap_handler_def default_zap_handler_new_def proper_ids_def static_authenticate_def Let_def wf_str_def scalar_value_def
        split: if_splits)
  show r: "default_authenticate demo_zap_handler demo_login = zap_response_success (lit ''1'') (lit ''bob'')"
    by (simp add: demo_login_def demo_zap_handler_def default_authenticate_def handle_plain_def zap_request_new_def default_zap_handler_new_def
        static_authenticate_def utf8_decode_encode scalar_value_def Let_def)
  show "small 1000 (zap_response_encode (default_authenticate demo_zap_handler demo_login))"
    unfolding r by (simp add: small_def zap_response_encode_def zap_response_success_def ZAP_VERSION_def zap_status_as_str_def utf8_encode_ascii)
qed

theorem zap_end_to_end_witness:
  "\<exists>resp c' e'. zap_client_authenticate tag_crypto demo_login demo_dealer
      (quiet_env\<lparr>env_writes := [Written], env_reads := [ReadBytes (wire_message (zap_response_encode (default_authenticate demo_zap_handler demo_login)))]\<rparr>) =
      (IoOk resp, c', e') \<and> rs_status_code resp = ZapSuccess \<and> rs_user_id resp = lit ''bob''"
proof -
  let ?resp = "default_authenticate demo_zap_handler demo_login"
  let ?ec = "quiet_env\<lparr>env_writes := [Written], env_reads := [ReadBytes (wire_message (zap_response_encode ?resp))]\<rparr>"
  let ?es = "quiet_env\<lparr>env_writes := [Written], env_reads := [ReadBytes (wire_message (zap_request_encode demo_login))]\<rparr>"
  note demo = demo_dealer_ready demo_login_ok
  have ne: "[] \<noteq> wire_message msg" if "msg \<noteq> []" for msg using that by (cases msg rule: wire_message.cases) (auto simp: wire_def frame_header_def Let_def)
  obtain s' es' where s': "zap_serve_one tag_crypto (default_authenticate demo_zap_handler) demo_dealer ?es = (IoOk (), s', es')"
    "ready 1000 ([] @ wire_message (zap_response_encode ?resp)) None (base s')"
    using zap_serve_one_replies [OF demo(1-4), of "[wire_message (zap_request_encode demo_login)]" ?es "[]" tag_crypto "default_authenticate demo_zap_handler"]
    by (auto simp: ne)
  have d: "delivered (base demo_dealer) (base s') = wire_message (zap_response_encode ?resp)"
    using s'(2) demo(1) by (simp add: delivered_def ready_def sending_def)
  obtain result c' ec' where c: "zap_client_authenticate tag_crypto demo_login demo_dealer ?ec = (result, c', ec')" by (metis prod_cases3)
  have adm: "admissible demo_zap_handler demo_login (lit ''bob'')"
    using default_authenticate_decides [OF demo(3), of demo_zap_handler] unfolding demo(6) decides_def
    by (auto simp: zap_response_success_def zap_response_failure_def)
  have "(\<exists>resp. result = IoOk resp \<and> rs_status_code resp = ZapSuccess \<and> rs_user_id resp = lit ''bob'')"
    using zap_end_to_end [OF demo(1,2,1,2,3,4,7,5), of ?es "[wire_message (zap_request_encode demo_login)]" tag_crypto "IoOk ()" s' es' ?ec
        "[wire_message (zap_response_encode ?resp)]" result c' ec' "lit ''bob''"] s'(1) c d adm by (simp add: ne)
  with c show ?thesis by blast
qed

end
