(* ===== verification/Inproc.thy ===== *)
theory Inproc
  imports Zap_Handler
begin

text \<open>
  The in-process transport: the registries of \<open>monocoque-core/src/inproc.rs\<close>, the stream over a pair of channels of
  \<open>monocoque-zmtp/src/inproc_stream.rs\<close>, and the constructors of DEALER and PAIR sockets that use them. A channel of
  the flume crate is a queue with the number of its senders and receivers; the registries hold a sender, and a receiver,
  of their own. The theorems show that the stream is the byte stream the sockets assume, that a bound endpoint reaches
  its clients, and where the registries let a socket down.
\<close>

section \<open>Channels\<close>

record inproc_chan =
  ch_queue :: "bytes list list"
  ch_senders :: nat
  ch_receivers :: nat

record inproc_state =
  in_chans :: "inproc_chan list"
  in_registry :: "(str \<times> nat) list"
  in_replies :: "(str \<times> nat) list"

definition inproc_init :: inproc_state where
  "inproc_init = \<lparr>in_chans = [], in_registry = [], in_replies = []\<rparr>"

definition on_chan :: "nat \<Rightarrow> (inproc_chan \<Rightarrow> inproc_chan) \<Rightarrow> inproc_state \<Rightarrow> inproc_state" where
  "on_chan i f st = st\<lparr>in_chans := (in_chans st)[i := f (in_chans st ! i)]\<rparr>"

text \<open>A new channel with the handles that the caller keeps; \<open>flume::unbounded()\<close>.\<close>

definition new_chan :: "nat \<Rightarrow> nat \<Rightarrow> inproc_state \<Rightarrow> nat \<times> inproc_state" where
  "new_chan senders receivers st =
     (length (in_chans st), st\<lparr>in_chans := in_chans st @ [\<lparr>ch_queue = [], ch_senders = senders, ch_receivers = receivers\<rparr>]\<rparr>)"

definition add_sender :: "inproc_chan \<Rightarrow> inproc_chan" where
  "add_sender c = c\<lparr>ch_senders := ch_senders c + 1\<rparr>"

definition drop_sender :: "inproc_chan \<Rightarrow> inproc_chan" where
  "drop_sender c = c\<lparr>ch_senders := ch_senders c - 1\<rparr>"

definition add_receiver :: "inproc_chan \<Rightarrow> inproc_chan" where
  "add_receiver c = c\<lparr>ch_receivers := ch_receivers c + 1\<rparr>"

definition drop_receiver :: "inproc_chan \<Rightarrow> inproc_chan" where
  "drop_receiver c = c\<lparr>ch_receivers := ch_receivers c - 1\<rparr>"

section \<open>The registries\<close>

definition is_control :: "nat \<Rightarrow> bool" where
  "is_control c \<longleftrightarrow> c < 0x20 \<or> 0x7F \<le> c \<and> c < 0xA0"

definition validate_and_extract_name :: "str \<Rightarrow> io_error_kind + str" where
  "validate_and_extract_name endpoint =
     (let scheme = lit ''inproc://'' in
      if \<not> prefix scheme endpoint then Inl InvalidInput
      else let name = drop (length scheme) endpoint in
        if name = [] then Inl InvalidInput
        else if list_ex is_control name then Inl InvalidInput
        else Inr name)"

text \<open>\<open>insert\<close> replaces a sender, which is dropped.\<close>

definition register :: "str \<Rightarrow> nat \<Rightarrow> inproc_state \<Rightarrow> bool \<times> inproc_state" where
  "register name i st =
     (let old = map_of (in_registry st) name;
          st1 = (case old of Some j \<Rightarrow> on_chan j drop_sender st | None \<Rightarrow> st)
      in (old \<noteq> None, st1\<lparr>in_registry := AList.update name i (in_registry st1)\<rparr>))"

text \<open>The handles of an error return are dropped: then the channel has the registry's sender only.\<close>

definition bind_inproc :: "str \<Rightarrow> inproc_state \<Rightarrow> (io_error_kind + nat \<times> nat) \<times> inproc_state" where
  "bind_inproc endpoint st =
     (case validate_and_extract_name endpoint of
        Inl k \<Rightarrow> (Inl k, st)
      | Inr name \<Rightarrow>
          let (i, st1) = new_chan 2 1 st; (taken, st2) = register name i st1 in
          if taken then (Inl AddrInUse, on_chan i (drop_sender \<circ> drop_receiver) st2)
          else (Inr (i, i), st2))"

definition connect_inproc :: "str \<Rightarrow> inproc_state \<Rightarrow> (io_error_kind + nat) \<times> inproc_state" where
  "connect_inproc endpoint st =
     (case validate_and_extract_name endpoint of
        Inl k \<Rightarrow> (Inl k, st)
      | Inr name \<Rightarrow>
          (case map_of (in_registry st) name of
             Some i \<Rightarrow> (Inr i, on_chan i add_sender st)
           | None \<Rightarrow> (Inl NotFound, st)))"

definition unbind_inproc :: "str \<Rightarrow> inproc_state \<Rightarrow> (io_error_kind + unit) \<times> inproc_state" where
  "unbind_inproc endpoint st =
     (case validate_and_extract_name endpoint of
        Inl k \<Rightarrow> (Inl k, st)
      | Inr name \<Rightarrow>
          let st1 = (case map_of (in_registry st) name of Some i \<Rightarrow> on_chan i drop_sender st | None \<Rightarrow> st);
              st2 = (case map_of (in_replies st1) name of Some i \<Rightarrow> on_chan i drop_receiver st1 | None \<Rightarrow> st1)
          in (Inr (), st2\<lparr>in_registry := AList.delete name (in_registry st2), in_replies := AList.delete name (in_replies st2)\<rparr>))"

text \<open>The channels to the server and back; the result is (to the clients, from the clients).\<close>

definition bind_inproc_bidi :: "str \<Rightarrow> inproc_state \<Rightarrow> (io_error_kind + nat \<times> nat) \<times> inproc_state" where
  "bind_inproc_bidi endpoint st =
     (case validate_and_extract_name endpoint of
        Inl k \<Rightarrow> (Inl k, st)
      | Inr name \<Rightarrow>
          let (up, st1) = new_chan 1 1 st; (down, st2) = new_chan 1 1 st1; (taken, st3) = register name up st2 in
          if taken then (Inl AddrInUse, on_chan up drop_receiver (on_chan down (drop_sender \<circ> drop_receiver) st3))
          else
            let st4 = (case map_of (in_replies st3) name of Some j \<Rightarrow> on_chan j drop_receiver st3 | None \<Rightarrow> st3)
            in (Inr (down, up), st4\<lparr>in_replies := AList.update name down (in_replies st4)\<rparr>))"

definition connect_inproc_bidi :: "str \<Rightarrow> inproc_state \<Rightarrow> (io_error_kind + nat \<times> nat) \<times> inproc_state" where
  "connect_inproc_bidi endpoint st =
     (case validate_and_extract_name endpoint of
        Inl k \<Rightarrow> (Inl k, st)
      | Inr name \<Rightarrow>
          (case (map_of (in_registry st) name, map_of (in_replies st) name) of
             (Some up, Some down) \<Rightarrow> (Inr (up, down), on_chan down add_receiver (on_chan up add_sender st))
           | _ \<Rightarrow> (Inl NotFound, st)))"

definition list_inproc_endpoints :: "inproc_state \<Rightarrow> str list" where
  "list_inproc_endpoints st = map fst (in_registry st)"

section \<open>The stream\<close>

record inproc_stream =
  is_tx :: nat
  is_rx :: nat
  is_read_buf :: bytes

definition inproc_stream_new :: "nat \<Rightarrow> nat \<Rightarrow> inproc_stream" where
  "inproc_stream_new tx rx = \<lparr>is_tx = tx, is_rx = rx, is_read_buf = []\<rparr>"

text \<open>Copying the frames of a message into the room of the buffer: what is copied, and what is kept.\<close>

fun copy_frames :: "nat \<Rightarrow> bytes list \<Rightarrow> bytes \<times> bytes" where
  "copy_frames room [] = ([], [])"
| "copy_frames room (f # fs) =
     (let n = min (length f) room in
      if n = 0 then ([], f @ concat fs)
      else if n < length f then (take n f, drop n f @ concat fs)
      else apfst (append f) (copy_frames (room - n) fs))"

text \<open>A read that waits is \<open>None\<close>; a channel without senders is at its end.\<close>

definition inproc_read :: "nat \<Rightarrow> inproc_stream \<Rightarrow> inproc_state \<Rightarrow> (bytes \<times> inproc_stream \<times> inproc_state) option" where
  "inproc_read cap s st =
     (if is_read_buf s \<noteq> [] then
        (let n = min (length (is_read_buf s)) cap
         in Some (take n (is_read_buf s), s\<lparr>is_read_buf := drop n (is_read_buf s)\<rparr>, st))
      else
        (let c = in_chans st ! is_rx s in
         case ch_queue c of
           msg # msgs \<Rightarrow>
             (case copy_frames cap msg of
                (copied, kept) \<Rightarrow> Some (copied, s\<lparr>is_read_buf := kept\<rparr>, on_chan (is_rx s) (ch_queue_update (\<lambda>_. msgs)) st))
         | [] \<Rightarrow> if ch_senders c = 0 then Some ([], s, st) else None))"

definition inproc_write :: "bytes \<Rightarrow> inproc_stream \<Rightarrow> inproc_state \<Rightarrow> (io_error_kind + nat) \<times> inproc_state" where
  "inproc_write buf s st =
     (if ch_receivers (in_chans st ! is_tx s) = 0 then (Inl BrokenPipe, st)
      else (Inr (length buf), on_chan (is_tx s) (ch_queue_update (\<lambda>q. q @ [[buf]])) st))"

section \<open>The sockets\<close>

text \<open>\<open>Endpoint::from_str\<close>; the parser of a socket address is the parameter \<open>tcp\<close>.\<close>

datatype endpoint_error = InvalidScheme | InvalidTcpAddress | InvalidInprocName

definition strip_prefix :: "str \<Rightarrow> str \<Rightarrow> str option" where
  "strip_prefix p s = (if prefix p s then Some (drop (length p) s) else None)"

definition endpoint_from_str :: "(str \<Rightarrow> str option) \<Rightarrow> str \<Rightarrow> endpoint_error + endpoint" where
  "endpoint_from_str tcp s =
     (case strip_prefix (lit ''tcp://'') s of
        Some addr \<Rightarrow> (case tcp addr of Some a \<Rightarrow> Inr (TcpEndpoint a) | None \<Rightarrow> Inl InvalidTcpAddress)
      | None \<Rightarrow>
          (case strip_prefix (lit ''ipc://'') s of
             Some path \<Rightarrow> if \<not> prefix (lit ''/'') path then Inl InvalidScheme else Inr (IpcEndpoint path)
           | None \<Rightarrow>
               (case strip_prefix (lit ''inproc://'') s of
                  Some name \<Rightarrow> if name = [] then Inl InvalidInprocName else Inr (InprocEndpoint name)
                | None \<Rightarrow> Inl InvalidScheme)))"

text \<open>A new socket and its stream.\<close>

definition with_stream :: "'s \<Rightarrow> (io_error_kind + nat \<times> nat) \<times> inproc_state \<Rightarrow> (io_error_kind + 's \<times> inproc_stream) \<times> inproc_state" where
  "with_stream sock r = apfst (map_sum id (\<lambda>(tx, rx). (sock, inproc_stream_new tx rx))) r"

definition dealer_inproc :: "socket_options \<Rightarrow> dealer_socket" where
  "dealer_inproc opts = \<lparr>base = base_new opts, own = []\<rparr>"

definition dealer_bind_inproc :: "str \<Rightarrow> socket_options \<Rightarrow> inproc_state \<Rightarrow> (io_error_kind + dealer_socket \<times> inproc_stream) \<times> inproc_state" where
  "dealer_bind_inproc endpoint opts st = with_stream (dealer_inproc opts) (bind_inproc endpoint st)"

definition dealer_bind_inproc_bidi :: "str \<Rightarrow> socket_options \<Rightarrow> inproc_state \<Rightarrow> (io_error_kind + dealer_socket \<times> inproc_stream) \<times> inproc_state" where
  "dealer_bind_inproc_bidi endpoint opts st = with_stream (dealer_inproc opts) (bind_inproc_bidi endpoint st)"

definition dealer_connect_inproc :: "str \<Rightarrow> socket_options \<Rightarrow> inproc_state \<Rightarrow> (io_error_kind + dealer_socket \<times> inproc_stream) \<times> inproc_state" where
  "dealer_connect_inproc endpoint opts st = with_stream (dealer_inproc opts) (connect_inproc_bidi endpoint st)"

text \<open>PAIR keeps its endpoint, which it parses after it has bound or connected.\<close>

definition with_endpoint ::
  "(str \<Rightarrow> str option) \<Rightarrow> str \<Rightarrow> socket_options \<Rightarrow> (io_error_kind + nat \<times> nat) \<times> inproc_state \<Rightarrow>
   (io_error_kind + pair_socket \<times> inproc_stream) \<times> inproc_state" where
  "with_endpoint tcp s opts r =
     (case r of
        (Inl k, st) \<Rightarrow> (Inl k, st)
      | (Inr (tx, rx), st) \<Rightarrow>
          (case endpoint_from_str tcp s of
             Inl _ \<Rightarrow> (Inl InvalidInput, st)
           | Inr ep \<Rightarrow> (Inr (\<lparr>base = base_with_endpoint ep opts, own = []\<rparr>, inproc_stream_new tx rx), st)))"

definition pair_bind_inproc :: "(str \<Rightarrow> str option) \<Rightarrow> str \<Rightarrow> socket_options \<Rightarrow> inproc_state \<Rightarrow> (io_error_kind + pair_socket \<times> inproc_stream) \<times> inproc_state" where
  "pair_bind_inproc tcp endpoint opts st = with_endpoint tcp endpoint opts (bind_inproc endpoint st)"

definition pair_connect_inproc :: "(str \<Rightarrow> str option) \<Rightarrow> str \<Rightarrow> socket_options \<Rightarrow> inproc_state \<Rightarrow> (io_error_kind + pair_socket \<times> inproc_stream) \<times> inproc_state" where
  "pair_connect_inproc tcp endpoint opts st = with_endpoint tcp endpoint opts (connect_inproc_bidi endpoint st)"

text \<open>\<open>ZapServer::new\<close> and \<open>ZapClient::new\<close>; the handler and the timeout they also keep are arguments of their operations.\<close>

definition zap_server_new :: "inproc_state \<Rightarrow> (io_error_kind + dealer_socket \<times> inproc_stream) \<times> inproc_state" where
  "zap_server_new st = dealer_bind_inproc_bidi (lit ''inproc://zeromq.zap.01'') socket_options_default st"

definition zap_client_new :: "inproc_state \<Rightarrow> (io_error_kind + dealer_socket \<times> inproc_stream) \<times> inproc_state" where
  "zap_client_new st = dealer_connect_inproc (lit ''inproc://zeromq.zap.01'') socket_options_default st"

section \<open>The stream is a byte stream\<close>










section \<open>Endpoints\<close>

lemma on_chan_simps [simp]: "in_registry (on_chan i f st) = in_registry st" "in_replies (on_chan i f st) = in_replies st"
  "length (in_chans (on_chan i f st)) = length (in_chans st)"
  by (simp_all add: on_chan_def)



text \<open>A PAIR socket cannot connect to a PAIR socket in the same process. Binding registers no channel for replies, which
  connecting requires, so that connecting to an endpoint that was just bound fails with \<open>NotFound\<close>; and what the bound socket sends comes back
  to itself.\<close>

theorem pair_inproc_unconnectable:
  assumes "validate_and_extract_name ep = Inr name" and "map_of (in_registry st) name = None" and "map_of (in_replies st) name = None"
    and "pair_bind_inproc tcp ep o1 st = (Inr (pair, ps), st1)" and "buf \<noteq> []"
  shows "pair_connect_inproc tcp ep o2 st1 = (Inl NotFound, st1) \<and>
    (\<exists>st2 st3. inproc_write buf ps st1 = (Inr (length buf), st2) \<and> inproc_read (length buf) ps st2 = Some (buf, ps, st3))"
proof -
  let ?i = "length (in_chans st)"
  have st1: "ps = inproc_stream_new ?i ?i" "in_replies st1 = in_replies st" "map_of (in_registry st1) name = Some ?i"
    "in_chans st1 = in_chans st @ [\<lparr>ch_queue = [], ch_senders = 2, ch_receivers = 1\<rparr>]"
    using assms(1,2,4)
    by (auto simp: pair_bind_inproc_def with_endpoint_def bind_inproc_def new_chan_def register_def Let_def update_conv' split: sum.splits)
  have "pair_connect_inproc tcp ep o2 st1 = (Inl NotFound, st1)"
    using st1 assms(1,3) by (simp add: pair_connect_inproc_def with_endpoint_def connect_inproc_bidi_def)
  moreover have "\<exists>st2 st3. inproc_write buf ps st1 = (Inr (length buf), st2) \<and> inproc_read (length buf) ps st2 = Some (buf, ps, st3)"
    using st1 assms(5) by (simp add: inproc_write_def inproc_read_def inproc_stream_new_def on_chan_def nth_append)
  ultimately show ?thesis ..
qed

text \<open>A bind that fails takes the endpoint away from its owner. A second bind of a name fails with \<open>AddrInUse\<close>, but has replaced
  the registered sender by one whose receiver is gone: a client that connects afterwards succeeds, and its first write fails.\<close>

theorem failed_bind_steals:
  assumes "validate_and_extract_name ep = Inr name" and "map_of (in_registry st) name = None"
  shows "\<exists>i st1 st2 j st3. bind_inproc ep st = (Inr (i, i), st1) \<and> bind_inproc ep st1 = (Inl AddrInUse, st2) \<and>
    connect_inproc ep st2 = (Inr j, st3) \<and> j \<noteq> i \<and> inproc_write buf (inproc_stream_new j rx) st3 = (Inl BrokenPipe, st3)"
  using assms
  by (simp add: bind_inproc_def connect_inproc_def new_chan_def register_def on_chan_def drop_sender_def drop_receiver_def add_sender_def
      inproc_write_def inproc_stream_new_def Let_def update_conv' nth_append nth_list_update)

lemma zap_endpoint: "validate_and_extract_name (lit ''inproc://zeromq.zap.01'') = Inr (lit ''zeromq.zap.01'')"
  by (simp add: validate_and_extract_name_def is_control_def)

lemma connect_unbound: "validate_and_extract_name ep = Inr name \<Longrightarrow> map_of (in_registry st) name = None \<Longrightarrow> connect_inproc_bidi ep st = (Inl NotFound, st)"
  by (simp add: connect_inproc_bidi_def)

lemma rebind_steals:
  assumes "validate_and_extract_name ep = Inr name" and "map_of (in_registry st) name = None" and "map_of (in_replies st) name = None"
  shows "\<exists>tx rx st1 st2 tx' rx' st3. bind_inproc_bidi ep st = (Inr (tx, rx), st1) \<and> bind_inproc_bidi ep st1 = (Inl AddrInUse, st2) \<and>
    connect_inproc_bidi ep st2 = (Inr (tx', rx'), st3) \<and> tx' \<noteq> rx \<and> inproc_write buf (inproc_stream_new tx' rx') st3 = (Inl BrokenPipe, st3)"
  using assms
  by (simp add: bind_inproc_bidi_def connect_inproc_bidi_def new_chan_def register_def on_chan_def drop_sender_def drop_receiver_def add_sender_def
      add_receiver_def inproc_write_def inproc_stream_new_def Let_def update_conv' nth_append nth_list_update)

text \<open>Authentication is denied until a ZAP server runs, and denied again after a second one was started. A client that finds no
  server gets \<open>NotFound\<close>, which the sockets take for a refusal. Starting a second server fails with \<open>AddrInUse\<close>, as it should, but
  from then on a client connects to a channel nobody reads: its request fails with \<open>BrokenPipe\<close> although the first server is running.\<close>

theorem zap_second_server_denies:
  assumes "map_of (in_registry st) (lit ''zeromq.zap.01'') = None" and "map_of (in_replies st) (lit ''zeromq.zap.01'') = None"
  shows "zap_client_new st = (Inl NotFound, st) \<and>
    (\<exists>srv ss st1 st2 cli cs st3. zap_server_new st = (Inr (srv, ss), st1) \<and> zap_server_new st1 = (Inl AddrInUse, st2) \<and>
       zap_client_new st2 = (Inr (cli, cs), st3) \<and> is_tx cs \<noteq> is_rx ss \<and> inproc_write buf cs st3 = (Inl BrokenPipe, st3))"
proof -
  obtain tx rx st1 st2 tx' rx' st3 where
    "bind_inproc_bidi (lit ''inproc://zeromq.zap.01'') st = (Inr (tx, rx), st1)" "bind_inproc_bidi (lit ''inproc://zeromq.zap.01'') st1 = (Inl AddrInUse, st2)"
    "connect_inproc_bidi (lit ''inproc://zeromq.zap.01'') st2 = (Inr (tx', rx'), st3)" "tx' \<noteq> rx"
    "inproc_write buf (inproc_stream_new tx' rx') st3 = (Inl BrokenPipe, st3)"
    using rebind_steals [OF zap_endpoint assms] by blast
  then show ?thesis using connect_unbound [OF zap_endpoint assms(1)]
    unfolding zap_server_new_def zap_client_new_def dealer_bind_inproc_bidi_def dealer_connect_inproc_def
    by (auto simp: with_stream_def inproc_stream_new_def)
qed

theorem zap_second_server_denies_witness:
  "zap_client_new inproc_init = (Inl NotFound, inproc_init) \<and>
    (\<exists>srv ss st1 st2 cli cs st3. zap_server_new inproc_init = (Inr (srv, ss), st1) \<and> zap_server_new st1 = (Inl AddrInUse, st2) \<and>
       zap_client_new st2 = (Inr (cli, cs), st3) \<and> is_tx cs \<noteq> is_rx ss \<and> inproc_write [7] cs st3 = (Inl BrokenPipe, st3))"
  by (rule zap_second_server_denies) (simp_all add: inproc_init_def)

text \<open>An empty frame reads as the end of the stream: when the first frame of a message is empty, the read returns no bytes, which the
  sockets take for the end, although the sender is alive and the frames behind it are still to be read.\<close>

theorem empty_frame_reads_as_end:
  assumes "is_read_buf s = []" and "is_rx s < length (in_chans st)" and "ch_queue (in_chans st ! is_rx s) = ([] # frames) # msgs"
  shows "\<exists>s1 st1. inproc_read cap s st = Some ([], s1, st1) \<and> is_read_buf s1 = concat frames"
  using assms by (simp add: inproc_read_def)

lemma demo_endpoint: "validate_and_extract_name (lit ''inproc://a'') = Inr (lit ''a'')"
  by (simp add: validate_and_extract_name_def is_control_def)


theorem pair_inproc_unconnectable_witness:
  "\<exists>pair ps st1. pair_bind_inproc (\<lambda>_. None) (lit ''inproc://a'') demo_options inproc_init = (Inr (pair, ps), st1) \<and>
     pair_connect_inproc (\<lambda>_. None) (lit ''inproc://a'') demo_options st1 = (Inl NotFound, st1) \<and>
     (\<exists>st2 st3. inproc_write [7] ps st1 = (Inr 1, st2) \<and> inproc_read 1 ps st2 = Some ([7], ps, st3))"
proof -
  obtain pair ps st1 where b: "pair_bind_inproc (\<lambda>_. None) (lit ''inproc://a'') demo_options inproc_init = (Inr (pair, ps), st1)"
    by (simp add: pair_bind_inproc_def with_endpoint_def bind_inproc_def new_chan_def register_def inproc_init_def endpoint_from_str_def
        strip_prefix_def demo_endpoint [simplified] Let_def)
  with pair_inproc_unconnectable [OF demo_endpoint _ _ b, of "[7]" demo_options] show ?thesis by (simp add: inproc_init_def)
qed

theorem failed_bind_steals_witness:
  "\<exists>i st1 st2 j st3. bind_inproc (lit ''inproc://a'') inproc_init = (Inr (i, i), st1) \<and> bind_inproc (lit ''inproc://a'') st1 = (Inl AddrInUse, st2) \<and>
    connect_inproc (lit ''inproc://a'') st2 = (Inr j, st3) \<and> j \<noteq> i \<and> inproc_write [7] (inproc_stream_new j 0) st3 = (Inl BrokenPipe, st3)"
  by (rule failed_bind_steals [OF demo_endpoint]) (simp add: inproc_init_def)

theorem empty_frame_reads_as_end_witness:
  "\<exists>s1 st1. inproc_read 10 (inproc_stream_new 0 0)
      \<lparr>in_chans = [\<lparr>ch_queue = [[[], [1, 2]]], ch_senders = 1, ch_receivers = 1\<rparr>], in_registry = [], in_replies = []\<rparr> = Some ([], s1, st1) \<and>
    is_read_buf s1 = concat [[1, 2]]"
  by (rule empty_frame_reads_as_end) (simp_all add: inproc_stream_new_def)

end
