(* ===== verification/Public_Api.thy ===== *)
theory Public_Api
  imports Proxy Inproc
begin

text \<open>
  The socket types that the crate \<open>monocoque\<close> exports (\<open>monocoque/src/zmq/\<close>): each holds a socket of
  \<open>monocoque-zmtp\<close> and the sender of a monitor channel, and passes its calls on. What the wrappers add is modelled here: the
  parsing of the endpoint, the monitor events (\<open>monocoque-core/src/monitor.rs\<close>), and the replacement of error kinds by
  \<open>channel_to_io_error\<close>. The theorems show what becomes of the contracts of the inner sockets behind the wrappers.
\<close>

section \<open>Monitor channels\<close>

datatype socket_event =
    Connected endpoint | Disconnected endpoint | Bound endpoint | BindFailed endpoint str | ConnectFailed endpoint str
  | Listening endpoint | Accepted endpoint

definition MONITOR_CHANNEL_CAP :: nat where
  "MONITOR_CHANNEL_CAP = 256"

text \<open>A channel is the list of the events in it, the oldest first; the receiver that \<open>create_monitor\<close> returns reads it.\<close>

definition create_monitor :: "socket_event list" where
  "create_monitor = []"

definition emit :: "socket_event \<Rightarrow> socket_event list \<Rightarrow> socket_event list" where
  "emit event chan = (if length chan < MONITOR_CHANNEL_CAP then chan @ [event] else chan)"

section \<open>Wrapped sockets\<close>

record 's public_socket =
  ps_inner :: 's
  ps_monitor :: "socket_event list option"

definition public_new :: "'s \<Rightarrow> 's public_socket" where
  "public_new s = \<lparr>ps_inner = s, ps_monitor = None\<rparr>"

definition public_monitor :: "'s public_socket \<Rightarrow> 's public_socket" where
  "public_monitor p = p\<lparr>ps_monitor := Some create_monitor\<rparr>"

definition emit_event :: "socket_event \<Rightarrow> 's public_socket \<Rightarrow> 's public_socket" where
  "emit_event event p = p\<lparr>ps_monitor := map_option (emit event) (ps_monitor p)\<rparr>"

fun channel_to_io_error :: "'a io_out \<Rightarrow> 'a io_out" where
  "channel_to_io_error (IoErr k) = IoErr BrokenPipe"
| "channel_to_io_error r = r"

text \<open>A call of the inner socket, without and with \<open>channel_to_io_error\<close>.\<close>

definition on_inner :: "('s, 'a) aio \<Rightarrow> ('s public_socket, 'a) aio" where
  "on_inner m p e = (case m (ps_inner p) e of (r, s, e1) \<Rightarrow> (r, p\<lparr>ps_inner := s\<rparr>, e1))"

definition on_channel :: "('s, 'a) aio \<Rightarrow> ('s public_socket, 'a) aio" where
  "on_channel m p e = (case m (ps_inner p) e of (r, s, e1) \<Rightarrow> (channel_to_io_error r, p\<lparr>ps_inner := s\<rparr>, e1))"

text \<open>\<open>tcp\<close> is \<open>SocketAddr::from_str\<close>.\<close>

definition parse_tcp_endpoint :: "(str \<Rightarrow> str option) \<Rightarrow> str \<Rightarrow> io_error_kind + str" where
  "parse_tcp_endpoint tcp s =
     (case endpoint_from_str tcp s of
        Inr (TcpEndpoint addr) \<Rightarrow> Inr addr
      | _ \<Rightarrow> (case tcp s of Some addr \<Rightarrow> Inr addr | None \<Rightarrow> Inl InvalidInput))"

text \<open>The constructors: \<open>open_inner addr\<close> is the inner socket, connected to \<open>addr\<close>.\<close>

definition public_connect :: "(str \<Rightarrow> str option) \<Rightarrow> (str \<Rightarrow> 's io_out) \<Rightarrow> str \<Rightarrow> 's public_socket io_out" where
  "public_connect tcp open_inner s =
     (case parse_tcp_endpoint tcp s of
        Inl k \<Rightarrow> IoErr k
      | Inr addr \<Rightarrow> io_map (\<lambda>inner. emit_event (Connected (TcpEndpoint addr)) (public_new inner)) (open_inner addr))"

definition public_connect_ipc :: "(str \<Rightarrow> 's io_out) \<Rightarrow> str \<Rightarrow> 's public_socket io_out" where
  "public_connect_ipc open_inner path =
     (let clean = (case strip_prefix (lit ''ipc://'') path of Some p \<Rightarrow> p | None \<Rightarrow> path) in
      io_map (\<lambda>inner. emit_event (Connected (IpcEndpoint clean)) (public_new inner)) (open_inner clean))"

text \<open>\<open>from_tcp_with_options\<close> of the inner sockets: the error of setting the TCP options, if any, then the handshake.\<close>

definition configured :: "io_error_kind option \<Rightarrow> 's io_out \<Rightarrow> 's io_out" where
  "configured configure r = (case configure of Some k \<Rightarrow> IoErr k | None \<Rightarrow> r)"

subsection \<open>DEALER\<close>

type_synonym public_dealer = "dealer_socket public_socket"

definition public_dealer_connect_with_options where
  "public_dealer_connect_with_options cr ent zap tcp configure conn s opts =
     public_connect tcp (\<lambda>addr. dealer_connect_with_options cr ent zap addr configure conn opts) s"

definition public_dealer_connect where
  "public_dealer_connect cr ent zap tcp configure conn s =
     public_dealer_connect_with_options cr ent zap tcp configure conn s socket_options_default"

definition public_dealer_from_tcp_with_options where
  "public_dealer_from_tcp_with_options cr ent zap configure conn opts =
     io_map public_new (configured configure (dealer_with_options cr ent zap conn opts))"

definition public_dealer_from_stream where
  "public_dealer_from_stream cr ent zap conn opts = io_map public_new (dealer_with_options cr ent zap conn opts)"

definition public_dealer_send :: "curve_crypto \<Rightarrow> bytes list \<Rightarrow> (public_dealer, unit) aio" where
  "public_dealer_send cr msg = on_channel (dealer_send cr msg)"

definition public_dealer_send_buffered :: "curve_crypto \<Rightarrow> bytes list \<Rightarrow> (public_dealer, unit) aio" where
  "public_dealer_send_buffered cr msg = on_channel (dealer_send_buffered cr msg)"

definition public_dealer_flush :: "(public_dealer, unit) aio" where
  "public_dealer_flush = on_channel dealer_flush"

definition public_dealer_send_batch :: "curve_crypto \<Rightarrow> bytes list list \<Rightarrow> (public_dealer, unit) aio" where
  "public_dealer_send_batch cr msgs = on_channel (dealer_send_batch cr msgs)"

definition public_dealer_recv :: "curve_crypto \<Rightarrow> (public_dealer, bytes list option) aio" where
  "public_dealer_recv cr = on_inner (dealer_recv cr)"

definition public_dealer_ops :: "curve_crypto \<Rightarrow> public_dealer proxy_ops" where
  "public_dealer_ops cr = \<lparr>recv_multipart = public_dealer_recv cr, send_multipart = public_dealer_send cr\<rparr>"

subsection \<open>REQ and REP\<close>

type_synonym public_req = "req_socket public_socket"

definition public_req_connect where
  "public_req_connect cr ent zap tcp configure conn s =
     public_connect tcp (\<lambda>addr. req_connect_with_options cr ent zap addr configure conn socket_options_default) s"

text \<open>\<open>connect_with_options\<close> opens the TCP connection itself and hands it to \<open>from_tcp_with_options\<close>.\<close>

definition public_req_connect_with_options where
  "public_req_connect_with_options cr ent zap tcp configure conn s opts =
     public_connect tcp (\<lambda>addr. configured configure (req_with_options cr ent zap conn opts)) s"

definition public_req_from_tcp_with_options where
  "public_req_from_tcp_with_options cr ent zap configure conn opts =
     io_map public_new (configured configure (req_with_options cr ent zap conn opts))"

definition public_req_send :: "curve_crypto \<Rightarrow> bytes list \<Rightarrow> (public_req, unit) aio" where
  "public_req_send cr msg = on_channel (req_send cr msg)"

definition public_req_recv :: "curve_crypto \<Rightarrow> (public_req, bytes list option) aio" where
  "public_req_recv cr = on_inner (req_recv cr)"

definition public_req_try_reconnect :: "curve_crypto \<Rightarrow> reconnect_io \<Rightarrow> (public_req, unit) aio" where
  "public_req_try_reconnect cr io = on_inner (on_base (base_try_reconnect cr io StReq))"

definition public_req_send_with_reconnect :: "curve_crypto \<Rightarrow> bytes list \<Rightarrow> reconnect_io list \<Rightarrow> (public_req, unit) aio" where
  "public_req_send_with_reconnect cr msg ios = on_inner (req_send_with_reconnect cr msg ios)"

definition public_req_recv_with_reconnect :: "curve_crypto \<Rightarrow> reconnect_io list \<Rightarrow> (public_req, bytes list option) aio" where
  "public_req_recv_with_reconnect cr ios = on_inner (req_recv_with_reconnect cr ios)"

type_synonym public_rep = "rep_socket public_socket"

text \<open>Of REP, \<open>from_tcp\<close> sets the TCP options and \<open>from_tcp_with_options\<close> does not.\<close>

definition public_rep_from_tcp where
  "public_rep_from_tcp cr ent zap configure conn =
     io_map public_new (configured configure (rep_with_options cr ent zap conn socket_options_default))"

definition public_rep_from_tcp_with_options where
  "public_rep_from_tcp_with_options cr ent zap conn opts = io_map public_new (rep_with_options cr ent zap conn opts)"

definition public_rep_recv :: "curve_crypto \<Rightarrow> (public_rep, bytes list option) aio" where
  "public_rep_recv cr = on_inner (rep_recv cr)"

definition public_rep_send :: "curve_crypto \<Rightarrow> bytes list \<Rightarrow> (public_rep, unit) aio" where
  "public_rep_send cr msg = on_channel (rep_send cr msg)"

subsection \<open>ROUTER\<close>

type_synonym public_router = "router_socket public_socket"

definition public_router_from_tcp_with_options where
  "public_router_from_tcp_with_options cr ent zap peer_id configure conn opts =
     io_map public_new (configured configure (router_with_options cr ent zap peer_id conn opts))"

definition public_router_from_stream where
  "public_router_from_stream cr ent zap peer_id conn opts = io_map public_new (router_with_options cr ent zap peer_id conn opts)"

definition public_router_send :: "curve_crypto \<Rightarrow> bytes list \<Rightarrow> (public_router, unit) aio" where
  "public_router_send cr msg = on_channel (zmtp_router_send cr msg)"

definition public_router_send_buffered :: "curve_crypto \<Rightarrow> bytes list \<Rightarrow> (public_router, unit) aio" where
  "public_router_send_buffered cr msg = on_channel (zmtp_router_send_buffered cr msg)"

definition public_router_flush :: "(public_router, unit) aio" where
  "public_router_flush = on_channel zmtp_router_flush"

definition public_router_send_batch :: "curve_crypto \<Rightarrow> bytes list list \<Rightarrow> (public_router, unit) aio" where
  "public_router_send_batch cr msgs = on_channel (zmtp_router_send_batch cr msgs)"

definition public_router_recv :: "curve_crypto \<Rightarrow> (public_router, bytes list option) aio" where
  "public_router_recv cr = on_inner (zmtp_router_recv cr)"

text \<open>The setters change the options of the inner socket through \<open>options_mut\<close>.\<close>

definition on_options :: "(socket_options \<Rightarrow> socket_options) \<Rightarrow> 'x sock public_socket \<Rightarrow> 'x sock public_socket" where
  "on_options f p = p\<lparr>ps_inner := (ps_inner p)\<lparr>base := (base (ps_inner p))\<lparr>sb_options := f (sb_options (base (ps_inner p)))\<rparr>\<rparr>\<rparr>"

definition public_set_connect_routing_id :: "bytes \<Rightarrow> public_router \<Rightarrow> (io_error_kind + unit) \<times> public_router" where
  "public_set_connect_routing_id i p =
     (case validate_router_identity i of
        Inl k \<Rightarrow> (Inl k, p)
      | Inr _ \<Rightarrow> (Inr (), on_options (\<lambda>opts. opts\<lparr>opt_connect_routing_id := Some i\<rparr>) p))"

definition public_set_router_mandatory :: "bool \<Rightarrow> public_router \<Rightarrow> public_router" where
  "public_set_router_mandatory enabled p = on_options (\<lambda>opts. opts\<lparr>opt_router_mandatory := enabled\<rparr>) p"

definition public_set_router_handover :: "bool \<Rightarrow> public_router \<Rightarrow> public_router" where
  "public_set_router_handover enabled p = on_options (\<lambda>opts. opts\<lparr>opt_router_handover := enabled\<rparr>) p"

definition public_router_ops :: "curve_crypto \<Rightarrow> public_router proxy_ops" where
  "public_router_ops cr = \<lparr>recv_multipart = public_router_recv cr, send_multipart = public_router_send cr\<rparr>"

subsection \<open>SUB, PUSH, PULL and PUB\<close>

type_synonym public_sub = "sub_socket public_socket"

definition public_sub_connect where
  "public_sub_connect cr ent zap tcp configure conn s =
     public_connect tcp (\<lambda>addr. sub_connect_with_options cr ent zap addr configure conn socket_options_default) s"

definition public_sub_from_tcp_with_options where
  "public_sub_from_tcp_with_options cr ent zap configure conn opts e =
     apfst (io_map public_new) (case configure of Some k \<Rightarrow> (IoErr k, e) | None \<Rightarrow> sub_with_options cr ent zap conn opts e)"

definition public_sub_subscribe :: "curve_crypto \<Rightarrow> bytes \<Rightarrow> (public_sub, unit) aio" where
  "public_sub_subscribe cr topic = on_inner (sub_subscribe cr topic)"

definition public_sub_unsubscribe :: "curve_crypto \<Rightarrow> bytes \<Rightarrow> (public_sub, unit) aio" where
  "public_sub_unsubscribe cr topic = on_inner (sub_unsubscribe cr topic)"

definition public_sub_recv :: "curve_crypto \<Rightarrow> (public_sub, bytes list option) aio" where
  "public_sub_recv cr = on_inner (sub_recv cr)"

definition public_sub_try_reconnect :: "curve_crypto \<Rightarrow> reconnect_io \<Rightarrow> (public_sub, unit) aio" where
  "public_sub_try_reconnect cr io = on_inner (sub_try_reconnect cr io)"

definition public_sub_recv_with_reconnect :: "curve_crypto \<Rightarrow> reconnect_io list \<Rightarrow> (public_sub, bytes list option) aio" where
  "public_sub_recv_with_reconnect cr ios = on_inner (sub_recv_with_reconnect cr ios)"

type_synonym public_push = "push_socket public_socket"

text \<open>\<open>connect\<close> of PUSH and PULL takes an address and emits no event.\<close>

definition public_push_connect_with_options where
  "public_push_connect_with_options cr ent zap addr configure conn opts =
     io_map public_new (push_connect_with_options cr ent zap addr configure conn opts)"

definition public_push_from_tcp_with_options where
  "public_push_from_tcp_with_options cr ent zap configure conn opts =
     io_map public_new (configured configure (push_with_options cr ent zap conn opts))"

definition public_push_send :: "curve_crypto \<Rightarrow> bytes list \<Rightarrow> (public_push, unit) aio" where
  "public_push_send cr msg = on_inner (push_send cr msg)"

definition public_push_send_one :: "curve_crypto \<Rightarrow> bytes \<Rightarrow> (public_push, unit) aio" where
  "public_push_send_one cr frame = on_inner (push_send_one cr frame)"

definition public_push_flush :: "(public_push, unit) aio" where
  "public_push_flush = on_inner push_flush"

definition public_push_send_batch :: "curve_crypto \<Rightarrow> bytes list list \<Rightarrow> (public_push, nat) aio" where
  "public_push_send_batch cr msgs = on_inner (push_send_batch cr msgs)"

definition public_push_try_reconnect :: "curve_crypto \<Rightarrow> reconnect_io \<Rightarrow> (public_push, unit) aio" where
  "public_push_try_reconnect cr io = on_inner (on_base (base_try_reconnect cr io StPush))"

definition public_push_send_with_reconnect :: "curve_crypto \<Rightarrow> bytes list \<Rightarrow> reconnect_io list \<Rightarrow> (public_push, unit) aio" where
  "public_push_send_with_reconnect cr msg ios = on_inner (push_send_with_reconnect cr msg ios)"

type_synonym public_pull = "pull_socket public_socket"

definition public_pull_connect_with_options where
  "public_pull_connect_with_options cr ent zap addr configure conn opts =
     io_map public_new (pull_connect_with_options cr ent zap addr configure conn opts)"

definition public_pull_from_tcp_with_options where
  "public_pull_from_tcp_with_options cr ent zap configure conn opts =
     io_map public_new (configured configure (pull_with_options cr ent zap conn opts))"

definition public_pull_recv :: "curve_crypto \<Rightarrow> (public_pull, bytes list option) aio" where
  "public_pull_recv cr = on_inner (pull_recv cr)"

definition public_pull_try_recv :: "curve_crypto \<Rightarrow> (public_pull, bytes list option) aio" where
  "public_pull_try_recv cr = on_inner (pull_try_recv cr)"

definition public_pull_recv_into ::
  "curve_crypto \<Rightarrow> bytes list \<Rightarrow> public_pull \<Rightarrow> io_env \<Rightarrow> (bool io_out \<times> bytes list) \<times> public_pull \<times> io_env" where
  "public_pull_recv_into cr out p e = (case pull_recv_into cr out (ps_inner p) e of (r, s, e1) \<Rightarrow> (r, p\<lparr>ps_inner := s\<rparr>, e1))"

definition public_pull_try_recv_into ::
  "curve_crypto \<Rightarrow> bytes list \<Rightarrow> public_pull \<Rightarrow> io_env \<Rightarrow> (bool io_out \<times> bytes list) \<times> public_pull \<times> io_env" where
  "public_pull_try_recv_into cr out p e = (case pull_try_recv_into cr out (ps_inner p) e of (r, s, e1) \<Rightarrow> (r, p\<lparr>ps_inner := s\<rparr>, e1))"

definition public_pull_recv_batch :: "curve_crypto \<Rightarrow> (public_pull, bytes list list option) aio" where
  "public_pull_recv_batch cr = on_inner (pull_recv_batch cr)"

definition public_pull_try_reconnect :: "curve_crypto \<Rightarrow> reconnect_io \<Rightarrow> (public_pull, unit) aio" where
  "public_pull_try_reconnect cr io = on_inner (on_base (base_try_reconnect cr io StPull))"

definition public_pull_recv_with_reconnect :: "curve_crypto \<Rightarrow> reconnect_io list \<Rightarrow> (public_pull, bytes list option) aio" where
  "public_pull_recv_with_reconnect cr ios = on_inner (pull_recv_with_reconnect cr ios)"

type_synonym public_pub = "pub_socket public_socket"

definition public_pub_bind_with_workers :: "nat \<Rightarrow> public_pub" where
  "public_pub_bind_with_workers n = public_new (with_workers_opts n socket_options_default)"

definition public_pub_accept_subscriber ::
  "curve_crypto \<Rightarrow> curve_entropy \<Rightarrow> zap_environment \<Rightarrow> io_error_kind option \<Rightarrow> hs_stream \<Rightarrow> io_error_kind option \<Rightarrow> bool \<Rightarrow>
   public_pub \<Rightarrow> nat io_out \<times> public_pub" where
  "public_pub_accept_subscriber cr ent zap configure conn dup attach p =
     apsnd (\<lambda>k. p\<lparr>ps_inner := k\<rparr>) (accept_subscriber cr ent zap configure conn dup attach (ps_inner p))"

definition public_pub_send :: "(nat \<Rightarrow> bool) \<Rightarrow> bytes list \<Rightarrow> public_pub \<Rightarrow> unit io_out \<times> public_pub" where
  "public_pub_send waiting msg p = apsnd (\<lambda>k. p\<lparr>ps_inner := k\<rparr>) (pub_send waiting msg (ps_inner p))"

section \<open>Errors that the wrappers hide\<close>

lemma dropped_on_inner: "dropped (on_inner m) e p = p\<lparr>ps_inner := dropped m e (ps_inner p)\<rparr>"
  by (auto simp: dropped_def on_inner_def split: prod.split io_out.split)

text \<open>C40. A proxy between sockets of the public crate stops where a proxy between the inner sockets goes on. A send that fails
  with \<open>WouldBlock\<close>, \<open>Interrupted\<close> or \<open>TimedOut\<close> costs a proxy one message; the public DEALER and ROUTER report every
  error as \<open>BrokenPipe\<close>, on which the loop ends.\<close>

theorem public_proxy_stops:
  assumes "pt_side t = FromFrontend" and "recv_multipart F f (pt_frontend t) = (IoOk (Some msg), f', ea)" and "is_transient_send_error k"
    and "dealer_send cr msg (dropped (dealer_recv cr) (pt_backend t) d) (pt_send t) = (IoErr k, d', eb)"
    and "zmtp_router_send cr msg (dropped (zmtp_router_recv cr) (pt_backend t) r) (pt_send t) = (IoErr k', r', ec)" and "is_transient_send_error k'"
  shows "fst (proxy_step F (dealer_ops cr) C t (f, d, None)) = IoOk () \<and>
    fst (proxy_step F (public_dealer_ops cr) C t (f, \<lparr>ps_inner = d, ps_monitor = mo\<rparr>, None)) = IoErr BrokenPipe \<and>
    fst (proxy_step F (router_ops cr) C t (f, r, None)) = IoOk () \<and>
    fst (proxy_step F (public_router_ops cr) C t (f, \<lparr>ps_inner = r, ps_monitor = mo\<rparr>, None)) = IoErr BrokenPipe"
  using assms by (simp add: proxy_step_def proxy_branch_def forward_def capture_copy_def dealer_ops_def router_ops_def public_dealer_ops_def
      public_router_ops_def public_dealer_recv_def public_router_recv_def dropped_on_inner public_dealer_send_def public_router_send_def
      on_channel_def is_transient_send_error_def Let_def)

text \<open>The high water mark looks like a broken connection. At the mark, \<open>send_buffered\<close> of the inner DEALER and ROUTER sockets
  returns \<open>WouldBlock\<close> and keeps the socket as it is, for the caller to flush and try again; the public sockets return
  \<open>BrokenPipe\<close>, although the next flush would succeed.\<close>

theorem public_hwm_hidden:
  assumes "hwm_reached (base (ps_inner d))" and "hwm_reached (base (ps_inner r))"
  shows "dealer_send_buffered cr msg (ps_inner d) e = (IoErr WouldBlock, ps_inner d, e) \<and>
    public_dealer_send_buffered cr msg d e = (IoErr BrokenPipe, d, e) \<and>
    zmtp_router_send_buffered cr (rt_peer_identity (own (ps_inner r)) # msg) (ps_inner r) e = (IoErr WouldBlock, ps_inner r, e) \<and>
    public_router_send_buffered cr (rt_peer_identity (own (ps_inner r)) # msg) r e = (IoErr BrokenPipe, r, e)"
  using assms by (simp add: dealer_send_buffered_def public_dealer_send_buffered_def zmtp_router_send_buffered_def public_router_send_buffered_def
      on_channel_def on_base_def aio_fail_def router_route_def)

text \<open>\<open>set_router_mandatory\<close> of the public ROUTER has no effect: a message to an unknown identity is dropped without an error
  as before, where the inner socket's own setter makes it an error.\<close>

theorem public_mandatory_ignored:
  assumes "\<not> rt_router_mandatory (own (ps_inner p))" and "identity \<noteq> rt_peer_identity (own (ps_inner p))"
  shows "\<exists>p1. public_router_send cr (identity # msg) (public_set_router_mandatory True p) e = (IoOk (), p1, e) \<and>
    sb_stream (base (ps_inner p1)) = sb_stream (base (ps_inner p)) \<and>
    fst (zmtp_router_send cr (identity # msg) (set_router_mandatory True (ps_inner p)) e) = IoErr NotFound"
  using assms by (simp add: public_router_send_def public_set_router_mandatory_def on_options_def on_channel_def zmtp_router_send_def router_route_def
      set_router_mandatory_def aio_return_def aio_fail_def)

section \<open>Connections that cannot be repaired\<close>

lemma with_handshake_base: "with_handshake cr ent zap st ident opts new_base conn = IoOk (hr, b) \<Longrightarrow> b = (new_base opts)\<lparr>sb_curve_cipher := curve_cipher hr\<rparr>"
  by (auto simp: with_handshake_def split: prod.splits hs_result.splits)

lemma io_map_IoOk [simp]: "io_map f r = IoOk y \<longleftrightarrow> (\<exists>x. r = IoOk x \<and> y = f x)"
  by (cases r) auto

text \<open>A REQ socket from \<open>connect_with_options\<close> can never reconnect. Where \<open>connect\<close> keeps the address for it,
  \<open>connect_with_options\<close> forgets the address, and \<open>try_reconnect\<close> always fails with \<open>Unsupported\<close>, also after the
  connection is lost.\<close>

theorem public_req_cannot_reconnect:
  assumes "public_req_connect_with_options cr ent zap tcp configure conn s opts = IoOk p" and "public_req_connect cr ent' zap' tcp configure' conn' s = IoOk q"
  shows "(\<exists>addr. parse_tcp_endpoint tcp s = Inr addr \<and> sb_endpoint (base (ps_inner q)) = Some (TcpEndpoint addr)) \<and>
    public_req_try_reconnect cr io (p\<lparr>ps_inner := drop_stream (ps_inner p)\<rparr>) e = (IoErr Unsupported, p\<lparr>ps_inner := drop_stream (ps_inner p)\<rparr>, e)"
proof -
  have "sb_endpoint (base (ps_inner p)) = None"
    using assms(1) by (auto simp: public_req_connect_with_options_def public_connect_def configured_def req_with_options_def emit_event_def public_new_def
        base_new_def dest!: with_handshake_base split: sum.splits option.splits)
  then have "public_req_try_reconnect cr io (p\<lparr>ps_inner := drop_stream (ps_inner p)\<rparr>) e =
      (IoErr Unsupported, p\<lparr>ps_inner := drop_stream (ps_inner p)\<rparr>, e)"
    by (simp add: public_req_try_reconnect_def on_inner_def on_base_def base_try_reconnect_def drop_stream_def)
  moreover have "\<exists>addr. parse_tcp_endpoint tcp s = Inr addr \<and> sb_endpoint (base (ps_inner q)) = Some (TcpEndpoint addr)"
    using assms(2) by (auto simp: public_req_connect_def public_connect_def req_connect_with_options_def connect_handshake_def emit_event_def public_new_def
        base_with_endpoint_def dest!: with_handshake_base split: sum.splits option.splits)
  ultimately show ?thesis by blast
qed

section \<open>Monitors\<close>

text \<open>The calls of a DEALER socket's owner, each with what the environment does.\<close>

datatype dealer_call = CallMonitor | CallSend "bytes list" | CallSendBuffered "bytes list" | CallFlush | CallSendBatch "bytes list list" | CallRecv

fun public_dealer_call :: "curve_crypto \<Rightarrow> dealer_call \<times> io_env \<Rightarrow> public_dealer \<Rightarrow> public_dealer" where
  "public_dealer_call cr (CallMonitor, e) p = public_monitor p"
| "public_dealer_call cr (CallSend msg, e) p = fst (snd (public_dealer_send cr msg p e))"
| "public_dealer_call cr (CallSendBuffered msg, e) p = fst (snd (public_dealer_send_buffered cr msg p e))"
| "public_dealer_call cr (CallFlush, e) p = fst (snd (public_dealer_flush p e))"
| "public_dealer_call cr (CallSendBatch msgs, e) p = fst (snd (public_dealer_send_batch cr msgs p e))"
| "public_dealer_call cr (CallRecv, e) p = fst (snd (public_dealer_recv cr p e))"

definition silent :: "'s public_socket \<Rightarrow> bool" where
  "silent p \<longleftrightarrow> ps_monitor p \<in> {None, Some []}"

lemma silent_call: "silent p \<Longrightarrow> silent (public_dealer_call cr ce p)"
  by (cases ce; cases "fst ce")
    (auto simp: silent_def public_monitor_def create_monitor_def public_dealer_send_def public_dealer_send_buffered_def public_dealer_flush_def
      public_dealer_send_batch_def public_dealer_recv_def on_channel_def on_inner_def split: prod.split)

text \<open>A monitor never receives an event. The only events are emitted while a socket connects, when it has no monitor yet: after
  any sequence of calls of a connected DEALER socket, however they end (the connection being lost included), the channel of its
  monitor is empty.\<close>

theorem monitor_silent:
  assumes "public_dealer_connect_with_options cr ent zap tcp configure conn s opts = IoOk p"
  shows "ps_monitor (fold (public_dealer_call cr) calls p) \<in> {None, Some []}"
proof -
  have "silent p" using assms
    by (auto simp: silent_def public_dealer_connect_with_options_def public_connect_def emit_event_def public_new_def split: sum.splits)
  then have "silent (fold (public_dealer_call cr) calls p)"
    by (induction calls arbitrary: p) (simp_all add: silent_call)
  then show ?thesis by (simp add: silent_def)
qed

section \<open>Examples\<close>

definition busy_base :: socket_base where
  "busy_base = base_new (demo_options\<lparr>opt_send_timeout := Some 0\<rparr>)"

definition busy_env :: io_env where
  "busy_env = quiet_env\<lparr>env_reads := [ReadDropped]\<rparr>"

definition demo_turn :: proxy_turn where
  "demo_turn = \<lparr>pt_side = FromFrontend, pt_frontend = quiet_env, pt_backend = busy_env, pt_control = quiet_env, pt_capture = quiet_env, pt_send = quiet_env\<rparr>"

definition demo_frontend :: "unit proxy_ops" where
  "demo_frontend = \<lparr>recv_multipart = aio_return (Some [[1], [7]]), send_multipart = (\<lambda>_. aio_return ())\<rparr>"

lemma busy_receive: "\<exists>b. dropped (recv_loop cr on_data on_eof) busy_env \<lparr>base = busy_base, own = x\<rparr> = \<lparr>base = b, own = x\<rparr> \<and>
  receiving 1000 None [] b \<and> send_side b = send_side busy_base"
proof -
  have "receiving 1000 None [] busy_base"
    using receiving_new [of "demo_options\<lparr>opt_send_timeout := Some 0\<rparr>" 1000 None]
    by (simp add: busy_base_def demo_options_def socket_options_default_def base_new_def)
  then show ?thesis
    using recv_loop_idle [of 1000 None "\<lparr>base = busy_base, own = x\<rparr>" busy_env "[]" cr on_data on_eof]
    by (auto simp: busy_env_def dropped_def)
qed

lemma busy_send: "receiving 1000 None [] b \<Longrightarrow> send_side b = send_side busy_base \<Longrightarrow> \<exists>s1. on_base (write_message cr msg) \<lparr>base = b, own = x\<rparr> e = (IoErr WouldBlock, s1, e)"
  by (simp add: receiving_def send_side_def busy_base_def base_new_def on_base_def write_message_def aio_bind_def encode_message_to_write_buf_def
      encode_message_def write_from_buf_def)

theorem public_proxy_stops_witness:
  "let d = \<lparr>base = busy_base, own = []\<rparr>; r = \<lparr>base = busy_base, own = \<lparr>rt_frames = [], rt_peer_identity = [1], rt_router_mandatory = False\<rparr>\<rparr>
   in fst (proxy_step demo_frontend (dealer_ops tag_crypto) (push_ops tag_crypto) demo_turn ((), d, None)) = IoOk () \<and>
    fst (proxy_step demo_frontend (public_dealer_ops tag_crypto) (push_ops tag_crypto) demo_turn ((), \<lparr>ps_inner = d, ps_monitor = None\<rparr>, None)) = IoErr BrokenPipe \<and>
    fst (proxy_step demo_frontend (router_ops tag_crypto) (push_ops tag_crypto) demo_turn ((), r, None)) = IoOk () \<and>
    fst (proxy_step demo_frontend (public_router_ops tag_crypto) (push_ops tag_crypto) demo_turn ((), \<lparr>ps_inner = r, ps_monitor = None\<rparr>, None)) = IoErr BrokenPipe"
proof -
  let ?x = "\<lparr>rt_frames = [], rt_peer_identity = [1], rt_router_mandatory = False\<rparr>"
  obtain b where b: "dropped (dealer_recv tag_crypto) busy_env \<lparr>base = busy_base, own = []\<rparr> = \<lparr>base = b, own = []\<rparr>"
    "receiving 1000 None [] b" "send_side b = send_side busy_base"
    using busy_receive [of tag_crypto collect_frames eof_none "[]"] unfolding dealer_recv_def by blast
  obtain b' where b': "dropped (zmtp_router_recv tag_crypto) busy_env \<lparr>base = busy_base, own = ?x\<rparr> = \<lparr>base = b', own = ?x\<rparr>"
    "receiving 1000 None [] b'" "send_side b' = send_side busy_base"
    using busy_receive [of tag_crypto router_data eof_none ?x] unfolding zmtp_router_recv_def by blast
  obtain d1 where d1: "dealer_send tag_crypto [[1], [7]] \<lparr>base = b, own = []\<rparr> quiet_env = (IoErr WouldBlock, d1, quiet_env)"
    using busy_send [OF b(2,3), of tag_crypto "[[1], [7]]" "[]" quiet_env] unfolding dealer_send_def by blast
  obtain r1 where r1: "zmtp_router_send tag_crypto [[1], [7]] \<lparr>base = b', own = ?x\<rparr> quiet_env = (IoErr WouldBlock, r1, quiet_env)"
    using busy_send [OF b'(2,3), of tag_crypto "[[7]]" ?x quiet_env] by (auto simp: zmtp_router_send_def router_route_def)
  show ?thesis unfolding Let_def
    by (rule public_proxy_stops [where msg = "[[1], [7]]" and k = WouldBlock and k' = WouldBlock and eb = quiet_env and ec = quiet_env])
      (use b(1) b'(1) d1 r1 in \<open>simp_all add: demo_turn_def demo_frontend_def aio_return_def is_transient_send_error_def\<close>)
qed

theorem public_hwm_hidden_witness:
  "let b = (base_new demo_options)\<lparr>sb_buffered_messages := 1000\<rparr>;
      d = public_new \<lparr>base = b, own = []\<rparr>; r = public_new \<lparr>base = b, own = \<lparr>rt_frames = [], rt_peer_identity = [1], rt_router_mandatory = False\<rparr>\<rparr>
   in dealer_send_buffered tag_crypto [[7]] (ps_inner d) quiet_env = (IoErr WouldBlock, ps_inner d, quiet_env) \<and>
    public_dealer_send_buffered tag_crypto [[7]] d quiet_env = (IoErr BrokenPipe, d, quiet_env) \<and>
    zmtp_router_send_buffered tag_crypto (rt_peer_identity (own (ps_inner r)) # [[7]]) (ps_inner r) quiet_env = (IoErr WouldBlock, ps_inner r, quiet_env) \<and>
    public_router_send_buffered tag_crypto (rt_peer_identity (own (ps_inner r)) # [[7]]) r quiet_env = (IoErr BrokenPipe, r, quiet_env)"
  unfolding Let_def
  by (rule public_hwm_hidden)
    (simp_all add: public_new_def hwm_reached_def base_new_def demo_options_def socket_options_default_def)

theorem public_mandatory_ignored_witness:
  "let p = public_new \<lparr>base = base_new demo_options, own = \<lparr>rt_frames = [], rt_peer_identity = [1], rt_router_mandatory = False\<rparr>\<rparr>
   in \<exists>p1. public_router_send tag_crypto ([2] # [[7]]) (public_set_router_mandatory True p) quiet_env = (IoOk (), p1, quiet_env) \<and>
    sb_stream (base (ps_inner p1)) = sb_stream (base (ps_inner p)) \<and>
    fst (zmtp_router_send tag_crypto ([2] # [[7]]) (set_router_mandatory True (ps_inner p)) quiet_env) = IoErr NotFound"
  unfolding Let_def by (rule public_mandatory_ignored) (simp_all add: public_new_def)

definition demo_conn :: hs_stream where
  "demo_conn = \<lparr>hs_in = build_greeting_with_mechanism NullMechanism socket_options_default,
     hs_later = [encode_frame FLAG_COMMAND (build_ready (socket_type_as_str StRouter) (Some [7]))], hs_out = [], hs_quota = 1000\<rparr>"

lemma demo_handshake:
  "\<exists>hr. with_handshake cr ent zap t None socket_options_default new_base demo_conn = IoOk (hr, (new_base socket_options_default)\<lparr>sb_curve_cipher := None\<rparr>)"
proof -
  have timeout: "Some (opt_handshake_timeout socket_options_default) \<noteq> Some 0" by (simp add: socket_options_default_def SEC_def)
  have all: "hs_all demo_conn = build_greeting_with_mechanism NullMechanism socket_options_default
      @ encode_frame FLAG_COMMAND (build_ready (socket_type_as_str StRouter) (Some [7])) @ []"
    by (simp add: demo_conn_def hs_all_def)
  have quota: "64 + length (encode_frame FLAG_COMMAND (build_ready (socket_type_as_str t) None)) \<le> hs_quota demo_conn"
    using length_ready_frame [of t] by (simp add: demo_conn_def)
  have short: "length [7 :: byte] + length (socket_type_as_str StRouter) \<le> 220" by (simp add: socket_type_as_str_def)
  have "\<exists>st'. perform_handshake run zap t None (Some (opt_handshake_timeout socket_options_default)) socket_options_default demo_conn =
      (HOk \<lparr>peer_identity = Some [7], peer_socket_type = StRouter, curve_cipher = None\<rparr>, st')" for run :: "(bytes \<times> bytes option \<times> message_cipher option) hs"
    using null_handshake_completes [OF default_options_null default_options_null timeout all short quota, of run zap] by (elim exE conjE) (rule exI)
  then have "\<exists>st'. perform_handshake_with_options cr ent zap t None (Some (opt_handshake_timeout socket_options_default)) socket_options_default demo_conn =
      (HOk \<lparr>peer_identity = Some [7], peer_socket_type = StRouter, curve_cipher = None\<rparr>, st')"
    unfolding perform_handshake_with_options_def .
  then show ?thesis by (auto simp: with_handshake_def)
qed

definition demo_entropy :: curve_entropy where
  "demo_entropy = \<lparr>ce_short_secret = [], ce_cookie_key = [], ce_cookie_nonce = [], ce_welcome_nonce = [], ce_vouch_nonce = []\<rparr>"

definition demo_reconnect :: reconnect_io where
  "demo_reconnect = \<lparr>rc_random = 0, rc_connect = IoOk demo_conn, rc_configure = None, rc_entropy = demo_entropy, rc_zap = None\<rparr>"

definition demo_address :: "str \<Rightarrow> str option" where
  "demo_address s = (if s = lit ''1.2.3.4:5'' then Some s else None)"

lemma demo_parse: "parse_tcp_endpoint demo_address (lit ''tcp://1.2.3.4:5'') = Inr (lit ''1.2.3.4:5'')"
  by (simp add: parse_tcp_endpoint_def endpoint_from_str_def strip_prefix_def demo_address_def)

lemma default_routing_id: "opt_routing_id socket_options_default = None"
  by (simp add: socket_options_default_def)

theorem public_req_cannot_reconnect_witness:
  "\<exists>p q. public_req_connect_with_options tag_crypto demo_entropy None demo_address None demo_conn (lit ''tcp://1.2.3.4:5'') socket_options_default = IoOk p \<and>
    public_req_connect tag_crypto demo_entropy None demo_address None demo_conn (lit ''tcp://1.2.3.4:5'') = IoOk q \<and>
    (\<exists>addr. parse_tcp_endpoint demo_address (lit ''tcp://1.2.3.4:5'') = Inr addr \<and> sb_endpoint (base (ps_inner q)) = Some (TcpEndpoint addr)) \<and>
    public_req_try_reconnect tag_crypto demo_reconnect (p\<lparr>ps_inner := drop_stream (ps_inner p)\<rparr>) quiet_env = (IoErr Unsupported, p\<lparr>ps_inner := drop_stream (ps_inner p)\<rparr>, quiet_env)"
proof -
  obtain p where p: "public_req_connect_with_options tag_crypto demo_entropy None demo_address None demo_conn (lit ''tcp://1.2.3.4:5'') socket_options_default = IoOk p"
    using demo_handshake [of tag_crypto demo_entropy None StReq base_new]
    unfolding public_req_connect_with_options_def public_connect_def demo_parse configured_def req_with_options_def default_routing_id by auto
  obtain q where q: "public_req_connect tag_crypto demo_entropy None demo_address None demo_conn (lit ''tcp://1.2.3.4:5'') = IoOk q"
    using demo_handshake [of tag_crypto demo_entropy None StReq "base_with_endpoint (TcpEndpoint (lit ''1.2.3.4:5''))"]
    unfolding public_req_connect_def public_connect_def demo_parse req_connect_with_options_def connect_handshake_def default_routing_id by auto
  from p q public_req_cannot_reconnect [OF p q] show ?thesis by blast
qed

theorem monitor_silent_witness:
  "\<exists>p. public_dealer_connect_with_options tag_crypto demo_entropy None demo_address None demo_conn (lit ''tcp://1.2.3.4:5'') socket_options_default = IoOk p \<and>
    ps_monitor (fold (public_dealer_call tag_crypto) [(CallMonitor, quiet_env), (CallSend [[7]], quiet_env), (CallRecv, quiet_env)] p) \<in> {None, Some []}"
proof -
  obtain p where p: "public_dealer_connect_with_options tag_crypto demo_entropy None demo_address None demo_conn (lit ''tcp://1.2.3.4:5'') socket_options_default = IoOk p"
    using demo_handshake [of tag_crypto demo_entropy None StDealer "base_with_endpoint (TcpEndpoint (lit ''1.2.3.4:5''))"]
    unfolding public_dealer_connect_with_options_def public_connect_def demo_parse dealer_connect_with_options_def connect_handshake_def default_routing_id by auto
  show ?thesis by (rule exI [of _ p], rule conjI [OF p monitor_silent [OF p]])
qed

end
