(* ===== verification/Spec2Isabelle.thy ===== *)
theory Spec2Isabelle
  imports Zmtp_Session Router_Hub Fan_Sockets Stream_Socket Byte_Permits Command_Protocol Core_Types Reconnect_Loops Socket_Adapters Public_Api
begin

text \<open>
  A verification development for monocoque, a ZeroMQ-compatible messaging library in Rust. This header says what is modelled and where,
  what the theorems show, and what is left out. Paths are relative to \<open>src/\<close>; \<open>core\<close> stands for
  \<open>monocoque-core/src\<close>, \<open>zmtp\<close> for \<open>monocoque-zmtp/src\<close> and \<open>public\<close> for \<open>monocoque/src/zmq\<close>.

  \<^bold>\<open>The program.\<close> A connection starts with the ZMTP greeting and a handshake (NULL, PLAIN or CURVE, with ZAP asking a handler
  whether a peer is admitted). Then both sides exchange frames, encrypted after a CURVE handshake. \<open>SocketBase\<close> owns the stream, the receive
  buffer, the decoder, the write buffers, the poison flag, the heartbeat and the reconnection state of a connection; the socket types put their
  message patterns on top of it. PUB and XPUB serve many subscribers, the hubs of the core crate route between tasks, a proxy connects two
  sockets, and the public crate wraps the socket types for applications.

  \<^bold>\<open>Conventions.\<close> A byte is an \<open>8 word\<close>, a \<open>Bytes\<close> a list of them, a Rust string a list of code points with
  \<open>utf8_encode\<close> and \<open>utf8_decode\<close>. Counters that wrap are words or carry the \<open>mod\<close>; a \<open>usize\<close> length is a natural
  number. A \<open>Result\<close> is a sum type and a panic is the value \<open>None\<close>, \<open>HPanic\<close> or \<open>IoPanic\<close>, so that the absence of
  panics is a theorem. Asynchronous operations are state transformers over an environment \<open>io_env\<close>, which holds the outcomes of all reads and
  writes and the clock: a read may bring any bytes, fail, stall into the timeout or be dropped, a write may stop after any number of bytes. What
  holds for all environments holds for every fragmentation, every failure and every cancellation. Concurrent tasks are step functions or
  inductive step relations over a shared state, and the theorems quantify over all interleavings. Loops are recursive functions with termination
  proofs; the loops that wait for the network consume outcomes of the environment, one of which ends every loop. Where an environment supplies
  one entry per iteration (\<open>zap_start\<close>, the proxies, the reconnecting loops), a run that uses them all up is a run that is still going on.

  \<^bold>\<open>Foundations.\<close>
  \<^item> \<open>Mono_Prelude\<close>, \<open>Utf8_Strings\<close>: shared types, checked indexing, big-endian numbers, UTF-8.
  \<^item> \<open>Segmented_Buffer\<close> (\<open>core/buffer.rs\<close>): the receive buffer is a queue of bytes whatever its segmentation.
  \<^item> \<open>Socket_Options\<close>, \<open>Reconnect\<close>, \<open>Core_Types\<close>, \<open>Byte_Permits\<close> (\<open>core/options.rs\<close>,
    \<open>reconnect.rs\<close>, \<open>socket_type.rs\<close>, \<open>error.rs\<close>, \<open>message_builder.rs\<close>, \<open>backpressure.rs\<close>): bounds of the
    reconnection delays; the byte semaphore conserves bytes in every interleaving, unless a waiting acquire is dropped.

  \<^bold>\<open>Wire protocol.\<close>
  \<^item> \<open>Zmtp_Codec\<close> (\<open>zmtp/codec.rs\<close>): the streaming decoder never panics and refines the parser of a whole byte string; frames and
    multipart messages survive encoding and decoding.
  \<^item> \<open>Zmtp_Greeting\<close>, \<open>Zmtp_Ready\<close>, \<open>Zmtp_Session\<close> (\<open>greeting.rs\<close>, \<open>session.rs\<close>, parts of
    \<open>handshake.rs\<close>): parsers accept exactly the encodings; the session's events do not depend on the chunks it is fed.
  \<^item> \<open>Zmtp_Handshake\<close>, \<open>Command_Protocol\<close>, \<open>Zap_Messages\<close> (\<open>handshake.rs\<close>, \<open>security/plain.rs\<close>,
    \<open>security/protocol.rs\<close>, \<open>security/zap.rs\<close>, \<open>zap_client.rs\<close>): mechanism agreement, the PLAIN exchange, admission by ZAP;
    the two parsers of READY agree.
  \<^item> \<open>Curve_Cipher\<close>, \<open>Curve_Handshake\<close> (\<open>security/curve.rs\<close>): the frame cipher accepts no frame twice or out of order; the
    server reports a client's key only with a proof of possession; no input makes a handshake panic. X25519, the secretbox primitives and
    the random source are the parameter \<open>curve_crypto\<close>, whose documented properties are the predicate \<open>crypto_laws\<close>;
    \<open>tag_crypto\<close> is a concrete instance that satisfies them, used in the examples.
  \<^item> \<open>Zap_Handler\<close>, \<open>Inproc\<close> (\<open>security/zap_handler.rs\<close>, \<open>zap_client.rs\<close>, \<open>core/inproc.rs\<close>,
    \<open>zmtp/inproc_stream.rs\<close>, \<open>core/endpoint.rs\<close>): authentication over two DEALER sockets end to end, the in-process transport as a
    reliable byte stream, the registry of endpoints.

  \<^bold>\<open>Sockets.\<close>
  \<^item> \<open>Socket_Base\<close>, \<open>Socket_Recv\<close> (\<open>zmtp/base.rs\<close>, \<open>core/poison.rs\<close>): under every sequence of calls the wire holds whole
    frames and at most one torn frame at the end, after which nothing is written; the receive loop that the socket types share is verified once
    for any data handler.
  \<^item> \<open>Message_Sockets\<close>, \<open>Pipeline\<close>, \<open>Req_Rep\<close>, \<open>Sub_Sockets\<close>, \<open>Reconnect_Loops\<close> (\<open>dealer.rs\<close>,
    \<open>pair.rs\<close>, \<open>push.rs\<close>, \<open>pull.rs\<close>, \<open>router.rs\<close>, \<open>req.rs\<close>, \<open>rep.rs\<close>, \<open>subscriber.rs\<close>,
    \<open>xsub.rs\<close>): what is sent is received, part by part and in order, plain or encrypted, in any fragmentation; requests and replies
    alternate; the loops of automatic reconnection end.
  \<^item> \<open>Publisher\<close>, \<open>Pub_Delivery\<close>, \<open>Xpub_Socket\<close>, \<open>Proxy\<close> (\<open>publisher.rs\<close>, \<open>xpub.rs\<close>,
    \<open>proxy.rs\<close>): no message that a subscriber wants is dropped by the prefilter in any interleaving; a subscriber receives exactly the
    published messages it subscribed to; XPUB mirrors its subscriptions upstream; a proxy hands every message on once and in order.
  \<^item> \<open>Stream_Socket\<close>, \<open>Fan_Sockets\<close>, \<open>Socket_Adapters\<close> (\<open>stream.rs\<close>, \<open>public/push_fanout.rs\<close>,
    \<open>pull_fanin.rs\<close>, \<open>zmtp/adapters.rs\<close>, \<open>stream_sink.rs\<close>): the tasks of a STREAM socket bridge faithfully in any interleaving;
    fan-out is fair, fan-in loses nothing; a sink sends its items in order.
  \<^item> \<open>Public_Api\<close> (\<open>public\<close>, \<open>core/monitor.rs\<close>): the wrappers of the public crate and what they change of the contracts.

  \<^bold>\<open>Hubs.\<close> \<open>Subscription_Index\<close>, \<open>Pubsub_Hub\<close>, \<open>Router_Hub\<close> (\<open>core/pubsub\<close>, \<open>subscription.rs\<close>,
  \<open>router.rs\<close>): the sorted index and the trie implement the set of subscriptions; the hubs refine maps from peers to subscriptions and
  from identities to connections; load balancing is fair.

  \<^bold>\<open>Interfaces.\<close> The locales state what one part relies on of another and are interpreted on the definitions of the model: a queue of bytes
  (\<open>byte_queue\<close>), encoders of frames (\<open>frame_encoder\<close>), stores of subscriptions and topic filters (\<open>subscription_store\<close>,
  \<open>topic_filter\<close>), event handlers that refine an abstract machine (\<open>handler_machine\<close>, \<open>refined_machine\<close>), invariants that all
  operations of a connection keep (\<open>connection_invariant\<close>, \<open>base_invariant\<close>), sockets in lock step (\<open>lock_step\<close>) and
  receivers that report the end only after giving up the stream (\<open>ending_receiver\<close>). The properties use the facts of the interpretations.

  \<^bold>\<open>Theorems about defects.\<close> Some theorems say that the code does not do what it means to: a reconnection that keeps half a frame, a timed-out send
  that no reconnection repairs, a REQ socket that cannot receive after reconnecting, a forged counter that blocks a CURVE connection, error
  kinds that the public crate hides, and smaller ones at the end of the component theories. Their statements describe the code as it is.

  \<^bold>\<open>Not modelled.\<close> The TCP and IPC modules and the adapters to compio, tokio and smol are I/O; their results are the environment. Memory ordering
  is sequentially consistent, and allocation never fails. Text of error messages, logging, \<open>Debug\<close> and \<open>Display\<close> instances (except those
  that reach the wire), and accessors that return one field are left out, as are the optional serde frames of the message builder. Listening and
  accepting appear as the connection they yield. Examples, benchmarks, tests, fuzz targets and the benchmark peer are not part of the library.
\<close>

section \<open>Properties that span components\<close>

text \<open>C4. An encrypted connection works end to end. A client that knows the server's public key and
  a server with the matching secret key, over a connection that delivers to each what the other
  writes, both complete the greeting and the CURVE handshake; each learns the other's socket
  type, the server learns the client's identity; and everything either side then encrypts with
  the cipher it obtained is decrypted by the other side to the same frames in the same order.\<close>

theorem curve_end_to_end:
  assumes "crypto_laws cr" and "timeout \<noteq> Some 0" and "honest_entropy ec" and "honest_entropy es"
    and "nonzero_secrets cr C S ec es"
    and "opt_curve_server copts = False" and "opt_curve_secretkey copts = Some C"
    and "opt_curve_serverkey copts = Some (x25519_public cr S)"
    and "opt_curve_server sopts" and "opt_curve_secretkey sopts = Some S" and "opt_zap_domain sopts = []"
    and "\<forall>i. ident = Some i \<longrightarrow> length i \<le> 255"
    and "length ms < 2 ^ 32" and "\<forall>m \<in> set ms. length (snd m) + 1 < 2 ^ 32"
  shows "\<exists>co so rc rs cc cs.
    hs_does (perform_handshake_with_options cr ec zapc ct ident timeout copts) so co rc \<and>
    hs_does (perform_handshake_with_options cr es zaps st sident timeout sopts) co so rs \<and>
    peer_socket_type rc = st \<and> peer_socket_type rs = ct \<and> peer_identity rs = nonempty_identity ident \<and>
    curve_cipher rc = Some cc \<and> curve_cipher rs = Some cs \<and>
    (\<exists>bodies. send_frames cr cc ms = Inr bodies \<and> recv_frames cr cs bodies = map Inr ms) \<and>
    (\<exists>bodies. send_frames cr cs ms = Inr bodies \<and> recv_frames cr cc bodies = map Inr ms)"
proof -
  let ?key = "session_key cr C S ec es"
  let ?cc = "new_client ?key 1 1" and ?cs = "new_server ?key 1 1"
  have bound: "1 + length ms \<le> usize_max" using assms(13) by (simp add: usize_max_def)
  have transfer: "\<exists>bodies. send_frames cr c ms = Inr bodies \<and> recv_frames cr d bodies = map Inr ms"
    if cd: "mc_key d = mc_key c" "is_client d = (\<not> is_client c)" "recv_nonce d = 1" "send_nonce c = 1" for c d
  proof -
    obtain bodies where b: "send_frames cr c ms = Inr bodies" "length bodies = length ms"
      "\<forall>i < length ms. opens_to cr (mc_key c) (is_client c) (send_nonce c + i) (bodies ! i) (ms ! i)"
      using send_frames_ok [OF assms(1), of c ms] bound cd(4) assms(14) by auto
    have "recv_frames cr d (map ((!) bodies) [0 ..< length ms]) = map (\<lambda>i. Inr (ms ! i)) [0 ..< length ms]"
      using b(3) cd by (intro recv_selection [where base = "send_nonce c"]) auto
    moreover have "map ((!) bodies) [0 ..< length ms] = bodies" using map_nth [of bodies] b(2) by simp
    moreover have "map (\<lambda>i. Inr (ms ! i)) [0 ..< length ms] = map Inr ms"
      by (rule nth_equalityI) simp_all
    ultimately show ?thesis using b(1) by auto
  qed
  let ?rc = "\<lparr>peer_identity = None, peer_socket_type = st, curve_cipher = Some ?cc\<rparr>"
  let ?rs = "\<lparr>peer_identity = nonempty_identity ident, peer_socket_type = ct, curve_cipher = Some ?cs\<rparr>"
  have t1: "\<exists>bodies. send_frames cr ?cc ms = Inr bodies \<and> recv_frames cr ?cs bodies = map Inr ms"
    by (rule transfer) (simp_all add: new_client_def new_server_def)
  have t2: "\<exists>bodies. send_frames cr ?cs ms = Inr bodies \<and> recv_frames cr ?cc bodies = map Inr ms"
    by (rule transfer) (simp_all add: new_client_def new_server_def)
  obtain co so where h: "hs_does (perform_handshake_with_options cr ec zapc ct ident timeout copts) so co ?rc"
    "hs_does (perform_handshake_with_options cr es zaps st sident timeout sopts) co so ?rs"
    using curve_handshake_agreement [OF assms(1-12)] by blast
  show ?thesis
    by (rule exI [of _ co], rule exI [of _ so], rule exI [of _ ?rc], rule exI [of _ ?rs],
        rule exI [of _ ?cc], rule exI [of _ ?cs])
      (intro conjI h t1 t2; simp only: handshake_result.select_convs)
qed

theorem curve_end_to_end_witness:
  "\<exists>co so rc rs cc cs.
    hs_does (perform_handshake_with_options tag_crypto (sample_entropy 3) None StDealer (Some [1]) None sample_client_options) so co rc \<and>
    hs_does (perform_handshake_with_options tag_crypto (sample_entropy 4) None StRouter None None (sample_server_options [])) co so rs \<and>
    peer_socket_type rc = StRouter \<and> peer_socket_type rs = StDealer \<and> peer_identity rs = nonempty_identity (Some [1]) \<and>
    curve_cipher rc = Some cc \<and> curve_cipher rs = Some cs \<and>
    (\<exists>bodies. send_frames tag_crypto cc [(True, [1]), (False, [2])] = Inr bodies \<and> recv_frames tag_crypto cs bodies = map Inr [(True, [1]), (False, [2])]) \<and>
    (\<exists>bodies. send_frames tag_crypto cs [(True, [1]), (False, [2])] = Inr bodies \<and> recv_frames tag_crypto cc bodies = map Inr [(True, [1]), (False, [2])])"
  by (rule curve_end_to_end [OF tag_crypto_laws _ sample_honest sample_honest sample_nonzero])
    (simp_all add: sample_client_options_def sample_server_options_def)

end
